(* ===== verification/Pfs_Prelude.thy ===== *)
theory Pfs_Prelude
  imports Main "HOL-Library.Word"
begin

unbundle bit_operations_syntax

section \<open>Prelude: machine integers, byte order and C strings\<close>

text \<open>
  What every component of the model shares: the widths of the C integer types, the byte order
  in which integers are copied into messages, and the few functions of the C library on
  zero-terminated strings (\<^verbatim>\<open>strchr\<close>, \<^verbatim>\<open>strrchr\<close>, \<^verbatim>\<open>snprintf\<close>, \<^verbatim>\<open>atoi\<close>, \<^verbatim>\<open>strtoul\<close>) that
  the sources call.  Raw memory is a list of bytes (\<open>8 word\<close>); a text is a \<open>string\<close>, the
  characters before the terminating zero.  The collections \<open>wire_simps\<close> (integer and byte
  conversions) and \<open>cstr_simps\<close> (string functions) carry the proofs of the components.
\<close>

named_theorems wire_simps \<open>conversions between integers and the bytes of a message\<close>
named_theorems cstr_simps \<open>the C library's string functions on concrete shapes\<close>
named_theorems pfs_inv \<open>operations that keep a component's invariant\<close>

type_synonym byte = "8 word"
type_synonym bytes = "8 word list"
type_synonym uint8 = "8 word"
type_synonym uint16 = "16 word"
type_synonym uint32 = "32 word"
type_synonym uint64 = "64 word"

subsection \<open>Integers as bytes\<close>

text \<open>
  \<^verbatim>\<open>htons\<close>/\<^verbatim>\<open>htonl\<close> followed by \<^verbatim>\<open>memcpy\<close> write the most significant byte first.  A plain
  \<^verbatim>\<open>memcpy\<close> of an integer writes it in the order of the machine; the sources are built for
  little-endian machines (the \<^verbatim>\<open>__BYTE_ORDER\<close> branches of \<^verbatim>\<open>md5.c\<close> and \<^verbatim>\<open>util_ip.c\<close>).
\<close>

definition be16 :: "uint16 \<Rightarrow> bytes" where
  "be16 w = [ucast (drop_bit 8 w), ucast w]"

definition of_be16 :: "byte \<Rightarrow> byte \<Rightarrow> uint16" where
  "of_be16 a b = push_bit 8 (ucast a) OR ucast b"

definition be32 :: "uint32 \<Rightarrow> bytes" where
  "be32 w = [ucast (drop_bit 24 w), ucast (drop_bit 16 w), ucast (drop_bit 8 w), ucast w]"

definition of_be32 :: "byte \<Rightarrow> byte \<Rightarrow> byte \<Rightarrow> byte \<Rightarrow> uint32" where
  "of_be32 a b c d =
     push_bit 24 (ucast a) OR push_bit 16 (ucast b) OR push_bit 8 (ucast c) OR ucast d"

definition le32 :: "uint32 \<Rightarrow> bytes" where
  "le32 w = [ucast w, ucast (drop_bit 8 w), ucast (drop_bit 16 w), ucast (drop_bit 24 w)]"

definition of_le32 :: "byte \<Rightarrow> byte \<Rightarrow> byte \<Rightarrow> byte \<Rightarrow> uint32" where
  "of_le32 a b c d =
     ucast a OR push_bit 8 (ucast b) OR push_bit 16 (ucast c) OR push_bit 24 (ucast d)"

text \<open>\<^verbatim>\<open>memcpy(data + at, src, ...)\<close> on the contents of a block of memory.\<close>

definition put_at :: "nat \<Rightarrow> 'a list \<Rightarrow> 'a list \<Rightarrow> 'a list" where
  "put_at at src d = take at d @ src @ drop (at + length src) d"

subsection \<open>C strings\<close>

definition NUL :: char where
  "NUL = CHR 0x00"

text \<open>The text a zero-terminated buffer holds.\<close>

definition cstr :: "string \<Rightarrow> string" where
  "cstr s = takeWhile (\<lambda>c. c \<noteq> NUL) s"

text \<open>A buffer of bytes read as characters, and a text as the bytes of a buffer.\<close>

definition str_of :: "bytes \<Rightarrow> string" where
  "str_of b = map (\<lambda>w. char_of (unat w)) b"

definition bytes_of :: "string \<Rightarrow> bytes" where
  "bytes_of s = map of_char s"

text \<open>\<^verbatim>\<open>snprintf(buf, n, "%s", s)\<close>: at most \<open>n - 1\<close> characters are kept.\<close>

definition snprintf_s :: "nat \<Rightarrow> string \<Rightarrow> string" where
  "snprintf_s n s = take (n - 1) s"

text \<open>
  \<^verbatim>\<open>strchr(s, c)\<close>: the text before the first \<open>c\<close> and the text after it, or \<open>None\<close> where the
  function returns a null pointer.  \<^verbatim>\<open>strrchr\<close> splits at the last occurrence.
\<close>

fun strchr :: "char \<Rightarrow> string \<Rightarrow> (string \<times> string) option" where
  "strchr c [] = None"
| "strchr c (x # xs) =
     (if x = c then Some ([], xs)
      else (case strchr c xs of None \<Rightarrow> None | Some (a, b) \<Rightarrow> Some (x # a, b)))"

definition strrchr :: "char \<Rightarrow> string \<Rightarrow> (string \<times> string) option" where
  "strrchr c s =
     (case strchr c (rev s) of None \<Rightarrow> None | Some (a, b) \<Rightarrow> Some (rev b, rev a))"

definition is_suffix :: "string \<Rightarrow> string \<Rightarrow> bool" where
  "is_suffix t s \<longleftrightarrow> length t \<le> length s \<and> drop (length s - length t) s = t"

definition isdigit :: "char \<Rightarrow> bool" where
  "isdigit c \<longleftrightarrow> (48::nat) \<le> of_char c \<and> of_char c \<le> (57::nat)"

definition digit_val :: "char \<Rightarrow> nat" where
  "digit_val c = of_char c - 48"

definition digit_char :: "nat \<Rightarrow> char" where
  "digit_char d = char_of (48 + d)"

definition toupper :: "char \<Rightarrow> char" where
  "toupper c = (if (97::nat) \<le> of_char c \<and> of_char c \<le> (122::nat)
                then char_of (of_char c - 32 :: nat) else c)"

definition tolower :: "char \<Rightarrow> char" where
  "tolower c = (if (65::nat) \<le> of_char c \<and> of_char c \<le> (90::nat)
                then char_of (of_char c + 32 :: nat) else c)"

definition strcasecmp_eq :: "string \<Rightarrow> string \<Rightarrow> bool" where
  "strcasecmp_eq a b \<longleftrightarrow> map tolower a = map tolower b"

definition isspace :: "char \<Rightarrow> bool" where
  "isspace c \<longleftrightarrow> of_char c = (32::nat) \<or> ((9::nat) \<le> of_char c \<and> of_char c \<le> (13::nat))"

text \<open>Decimal digits, most significant first: what \<^verbatim>\<open>%d\<close>, \<^verbatim>\<open>%u\<close> and \<^verbatim>\<open>%ld\<close> print.\<close>

fun dec :: "nat \<Rightarrow> string" where
  "dec n = (if n < 10 then [digit_char n] else dec (n div 10) @ [digit_char (n mod 10)])"

declare dec.simps [simp del]

definition dec_int :: "int \<Rightarrow> string" where
  "dec_int i = (if i < 0 then CHR ''-'' # dec (nat (- i)) else dec (nat i))"

text \<open>The value of a run of decimal digits, and the value the leading digits of a text have.\<close>

fun dec_val :: "nat \<Rightarrow> string \<Rightarrow> nat" where
  "dec_val acc [] = acc"
| "dec_val acc (c # cs) = dec_val (acc * 10 + digit_val c) cs"

text \<open>
  \<^verbatim>\<open>strtol(s, NULL, 10)\<close>: leading white space, an optional sign, digits; the result is clamped
  to the range of \<^verbatim>\<open>long\<close>.  \<^verbatim>\<open>atoi\<close> is its value truncated to 32 bits, \<^verbatim>\<open>atol\<close> the value.
\<close>

definition strtol10 :: "string \<Rightarrow> int" where
  "strtol10 s =
     (let t = dropWhile isspace s;
          (neg, u) = (case t of
              c # r \<Rightarrow> (if c = CHR ''-'' then (True, r)
                        else if c = CHR ''+'' then (False, r) else (False, t))
            | [] \<Rightarrow> (False, t));
          v = int (dec_val 0 (takeWhile isdigit u));
          w = (if neg then - v else v)
      in max (- (2 ^ 63)) (min (2 ^ 63 - 1) w))"

definition atol :: "string \<Rightarrow> int" where
  "atol s = strtol10 s"

definition atoi :: "string \<Rightarrow> int" where
  "atoi s = sint (word_of_int (strtol10 s) :: 32 word)"

subsection \<open>Facts about integers and bytes\<close>

lemma bytes_of_length [simp]: "length (bytes_of s) = length s"
  by (simp add: bytes_of_def)

lemma str_of_length [simp]: "length (str_of b) = length b"
  by (simp add: str_of_def)

lemma str_of_append: "str_of (a @ b) = str_of a @ str_of b"
  by (simp add: str_of_def)

lemma str_of_zeros: "str_of (replicate n 0) = replicate n NUL"
  by (simp add: str_of_def NUL_def char_of_def)

lemma str_of_zero: "str_of (0 # b) = NUL # str_of b"
  by (simp add: str_of_def NUL_def char_of_def)

lemma str_of_bytes_of [simp]: "str_of (bytes_of s) = s"
proof (induction s)
  case (Cons c s)
  have "unat (of_char c :: byte) = of_char c"
    using nat_of_char_less_256 [of c] of_nat_of_char [where 'a = byte, of c]
      unat_of_nat [where 'a = 8, of "of_char c"] by (simp add: take_bit_nat_def)
  then show ?case using Cons by (simp add: str_of_def bytes_of_def)
qed (simp add: str_of_def bytes_of_def)

lemma be16_length [simp]: "length (be16 w) = 2"
  by (simp add: be16_def)

lemma be32_length [simp]: "length (be32 w) = 4"
  by (simp add: be32_def)

lemma le32_length [simp]: "length (le32 w) = 4"
  by (simp add: le32_def)

lemma of_be16_be16 [wire_simps]: "of_be16 (ucast (drop_bit 8 w)) (ucast w) = w"
  unfolding of_be16_def
  by (rule bit_word_eqI) (auto simp: bit_simps)

lemma of_be16_0 [simp]: "of_be16 0 0 = 0"
  by (simp add: of_be16_def)

lemma of_be32_be32 [wire_simps]:
  "of_be32 (ucast (drop_bit 24 w)) (ucast (drop_bit 16 w)) (ucast (drop_bit 8 w)) (ucast w) = w"
proof (rule bit_word_eqI)
  fix n
  assume "n < LENGTH(32)"
  then consider "n < 8" | "8 \<le> n \<and> n < 16" | "16 \<le> n \<and> n < 24" | "24 \<le> n \<and> n < 32"
    by fastforce
  then show "bit (of_be32 (ucast (drop_bit 24 w)) (ucast (drop_bit 16 w))
      (ucast (drop_bit 8 w)) (ucast w)) n = bit w n"
    by cases (auto simp: of_be32_def bit_simps)
qed

lemma of_le32_le32 [wire_simps]:
  "of_le32 (ucast w) (ucast (drop_bit 8 w)) (ucast (drop_bit 16 w)) (ucast (drop_bit 24 w)) = w"
proof (rule bit_word_eqI)
  fix n
  assume "n < LENGTH(32)"
  then consider "n < 8" | "8 \<le> n \<and> n < 16" | "16 \<le> n \<and> n < 24" | "24 \<le> n \<and> n < 32"
    by fastforce
  then show "bit (of_le32 (ucast w) (ucast (drop_bit 8 w))
      (ucast (drop_bit 16 w)) (ucast (drop_bit 24 w))) n = bit w n"
    by cases (auto simp: of_le32_def bit_simps)
qed

subsection \<open>Facts about C strings\<close>

lemma split_first_unique:
  "a @ c # b = a' @ c # b' \<Longrightarrow> c \<notin> set a \<Longrightarrow> c \<notin> set a' \<Longrightarrow> a = a' \<and> b = b'"
proof (induction a arbitrary: a')
  case Nil
  then show ?case by (cases a') auto
next
  case (Cons x a)
  then show ?case by (cases a') auto
qed

lemma strchr_None_iff: "strchr c s = None \<longleftrightarrow> c \<notin> set s"
  by (induction s) (auto split: option.splits)

lemma strchr_SomeD: "strchr c s = Some (a, b) \<Longrightarrow> s = a @ c # b \<and> c \<notin> set a"
  by (induction s arbitrary: a) (auto split: if_splits option.splits)

lemma strchr_Some_iff:
  "strchr c s = Some (a, b) \<longleftrightarrow> s = a @ c # b \<and> c \<notin> set a"
proof
  assume s: "s = a @ c # b \<and> c \<notin> set a"
  then obtain a' b' where "strchr c s = Some (a', b')"
    using strchr_None_iff [of c s] by fastforce
  with s strchr_SomeD split_first_unique show "strchr c s = Some (a, b)"
    by metis
qed (rule strchr_SomeD)

lemma strchr_append [cstr_simps]: "c \<notin> set a \<Longrightarrow> strchr c (a @ c # b) = Some (a, b)"
  by (simp add: strchr_Some_iff)

lemma strrchr_Some_iff:
  "strrchr c s = Some (a, b) \<longleftrightarrow> s = a @ c # b \<and> c \<notin> set b"
proof -
  have "strrchr c s = Some (a, b) \<longleftrightarrow> strchr c (rev s) = Some (rev b, rev a)"
    by (auto simp: strrchr_def split: option.splits)
  also have "\<dots> \<longleftrightarrow> rev s = rev b @ c # rev a \<and> c \<notin> set b"
    by (simp add: strchr_Some_iff)
  also have "rev s = rev b @ c # rev a \<longleftrightarrow> s = a @ c # b"
    by (metis append.assoc append_Cons append_Nil rev_append rev_rev_ident rev_singleton_conv
        rev.simps(2))
  finally show ?thesis .
qed

lemma strrchr_None_iff: "strrchr c s = None \<longleftrightarrow> c \<notin> set s"
  using strchr_None_iff [of c "rev s"] by (auto simp: strrchr_def split: option.splits)

lemma strrchr_append [cstr_simps]: "c \<notin> set b \<Longrightarrow> strrchr c (a @ c # b) = Some (a, b)"
  by (simp add: strrchr_Some_iff)

lemma snprintf_s_fits [cstr_simps]: "length s < n \<Longrightarrow> snprintf_s n s = s"
  by (simp add: snprintf_s_def)

lemma snprintf_s_length: "0 < n \<Longrightarrow> length (snprintf_s n s) < n"
  by (simp add: snprintf_s_def)

lemma cstr_id [cstr_simps]: "NUL \<notin> set s \<Longrightarrow> cstr s = s"
  by (auto simp: cstr_def takeWhile_eq_all_conv)

lemma cstr_stop: "NUL \<notin> set s \<Longrightarrow> cstr (s @ NUL # t) = s"
  unfolding cstr_def by (subst takeWhile_append2) auto

subsection \<open>Decimal numbers\<close>

lemma isdigit_digit_char [simp]: "d < 10 \<Longrightarrow> isdigit (digit_char d)"
  by (simp add: isdigit_def digit_char_def)

lemma digit_val_digit_char [simp]: "d < 10 \<Longrightarrow> digit_val (digit_char d) = d"
  by (simp add: digit_val_def digit_char_def)

lemma dec_nonempty [simp]: "dec n \<noteq> []"
  by (subst dec.simps) simp

lemma dec_digits: "c \<in> set (dec n) \<Longrightarrow> isdigit c"
proof (induction n rule: dec.induct)
  case (1 n)
  show ?case
  proof (cases "n < 10")
    case True
    with "1.prems" show ?thesis by (simp add: dec.simps [of n])
  next
    case False
    with "1.prems" have "c \<in> set (dec (n div 10)) \<or> c = digit_char (n mod 10)"
      by (auto simp: dec.simps [of n])
    then show ?thesis using "1.IH" False by auto
  qed
qed

lemma dec_val_append: "dec_val acc (xs @ ys) = dec_val (dec_val acc xs) ys"
  by (induction xs arbitrary: acc) auto

lemma dec_val_dec [simp]: "dec_val 0 (dec n) = n"
proof (induction n rule: dec.induct)
  case (1 n)
  show ?case
  proof (cases "n < 10")
    case True
    then show ?thesis by (simp add: dec.simps [of n])
  next
    case False
    with "1.IH" show ?thesis by (simp add: dec.simps [of n] dec_val_append)
  qed
qed

lemma dec_inj: "dec m = dec n \<longleftrightarrow> m = n"
  by (metis dec_val_dec)

lemma takeWhile_isdigit_dec [simp]: "takeWhile isdigit (dec n) = dec n"
  using dec_digits by (simp add: takeWhile_eq_all_conv)

lemma takeWhile_isdigit_dec_append:
  "\<not> isdigit c \<Longrightarrow> takeWhile isdigit (dec n @ c # s) = dec n"
  using dec_digits by (simp add: takeWhile_append2)

lemma dropWhile_isdigit_dec_append:
  "\<not> isdigit c \<Longrightarrow> dropWhile isdigit (dec n @ c # s) = c # s"
  using dec_digits by (simp add: dropWhile_append2)

lemma isdigit_not_space: "isdigit c \<Longrightarrow> \<not> isspace c"
  by (auto simp: isdigit_def isspace_def)

lemma isdigit_not_sign: "isdigit c \<Longrightarrow> c \<noteq> CHR ''-'' \<and> c \<noteq> CHR ''+''"
  by (auto simp: isdigit_def)

lemma strtol10_dec_append:
  assumes "int n < 2 ^ 63" and "\<forall>c \<in> set (take 1 s). \<not> isdigit c"
  shows "strtol10 (dec n @ s) = int n"
proof -
  obtain c cs where d: "dec n = c # cs"
    by (cases "dec n") auto
  then have c: "isdigit c" using dec_digits [of c n] by simp
  have tw: "takeWhile isdigit (dec n @ s) = dec n"
  proof (cases s)
    case (Cons x xs)
    with assms(2) show ?thesis by (simp add: takeWhile_isdigit_dec_append)
  qed simp
  have dw: "dropWhile isspace (dec n @ s) = dec n @ s"
    using d c isdigit_not_space by simp
  show ?thesis
    unfolding strtol10_def Let_def dw
    using d c isdigit_not_sign [OF c] tw assms(1) dec_val_dec [of n]
    by simp
qed

lemma strtol10_dec [cstr_simps]: "int n < 2 ^ 63 \<Longrightarrow> strtol10 (dec n) = int n"
  using strtol10_dec_append [of n "[]"] by simp

lemma atol_dec [cstr_simps]: "int n < 2 ^ 63 \<Longrightarrow> atol (dec n) = int n"
  by (simp add: atol_def strtol10_dec)

lemma atoi_of_strtol10: "- (2 ^ 31) \<le> strtol10 s \<Longrightarrow> strtol10 s < 2 ^ 31 \<Longrightarrow> atoi s = strtol10 s"
  unfolding atoi_def
  by (simp add: int_word_sint)

lemma atoi_dec_append [cstr_simps]:
  assumes "n < 2 ^ 31" and "\<forall>c \<in> set (take 1 s). \<not> isdigit c"
  shows "atoi (dec n @ s) = int n"
proof -
  have n: "int n < 2 ^ 31" using assms(1) by simp
  then have "int n < 2 ^ 63" by simp
  then have s: "strtol10 (dec n @ s) = int n"
    using assms(2) by (rule strtol10_dec_append)
  with n show ?thesis
    using atoi_of_strtol10 [of "dec n @ s"] by simp
qed

lemma atoi_dec [cstr_simps]: "n < 2 ^ 31 \<Longrightarrow> atoi (dec n) = int n"
  using atoi_dec_append [of n "[]"] by simp

lemma dec_length_bounds: "0 < n \<Longrightarrow> 10 ^ (length (dec n) - 1) \<le> n \<and> n < 10 ^ length (dec n)"
proof (induction n rule: dec.induct)
  case (1 n)
  show ?case
  proof (cases "n < 10")
    case True
    with "1.prems" show ?thesis by (simp add: dec.simps [of n])
  next
    case False
    then have IH: "10 ^ (length (dec (n div 10)) - 1) \<le> n div 10
        \<and> n div 10 < 10 ^ length (dec (n div 10))"
      using "1.IH" by simp
    have l: "length (dec n) = Suc (length (dec (n div 10)))"
      using False by (simp add: dec.simps [of n])
    obtain k where k: "length (dec (n div 10)) = Suc k"
      by (metis dec_nonempty length_0_conv not0_implies_Suc)
    have "10 ^ k \<le> n div 10" and "n div 10 < 10 * 10 ^ k"
      using IH k by simp_all
    then have "10 * 10 ^ k \<le> n" and "n < 10 * (10 * 10 ^ k)"
      by linarith+
    then show ?thesis using l k by simp
  qed
qed

subsection \<open>Folds\<close>

lemma fold_keeps: "(\<And>x s. x \<in> set xs \<Longrightarrow> f (g x s) = f s) \<Longrightarrow> f (fold g xs s) = f s"
  by (induction xs arbitrary: s) auto

lemma fold_inv: "P s \<Longrightarrow> (\<And>x s. x \<in> set xs \<Longrightarrow> P s \<Longrightarrow> P (g x s)) \<Longrightarrow> P (fold g xs s)"
  by (induction xs arbitrary: s) auto

subsection \<open>Lookup tables\<close>

text \<open>
  The contract of the lookup tables (configuration, addresses, peers): \<open>norm\<close> maps a name as it is
  written to the key under which it is found; a stored value is found under that key and hides older values, and
  every other key keeps its value.
\<close>

locale keyed_store =
  fixes ok :: "'s \<Rightarrow> bool" and norm :: "'r \<Rightarrow> 'k"
    and put :: "'r \<Rightarrow> 'v \<Rightarrow> 's \<Rightarrow> 's" and get :: "'k \<Rightarrow> 's \<Rightarrow> 'v option"
  assumes put_ok: "ok s \<Longrightarrow> ok (put r v s)"
    and get_put: "ok s \<Longrightarrow> get k (put r v s) = (if k = norm r then Some v else get k s)"
begin

lemma puts_ok: "ok s \<Longrightarrow> ok (fold (\<lambda>(r, v). put r v) rvs s)"
  by (induction rvs arbitrary: s) (auto simp: put_ok)

lemma get_puts:
  "ok s \<Longrightarrow> get k (fold (\<lambda>(r, v). put r v) rvs s)
    = (case map_of (rev (map (\<lambda>(r, v). (norm r, v)) rvs)) k of Some v \<Rightarrow> Some v | None \<Rightarrow> get k s)"
proof (induction rvs arbitrary: s)
  case (Cons rv rvs)
  obtain r v where "rv = (r, v)" by force
  with Cons.IH [of "put r v s"] Cons.prems show ?case
    by (auto simp: put_ok get_put map_add_def split: option.splits)
qed simp

end

end
