(* ===== verification/Pfs_Protocol.thy ===== *)
theory Pfs_Protocol
  imports Pfs_Prelude
begin

section \<open>The signalling protocol (lib/protocol.c) and its receive loop\<close>

text \<open>
  A message is a four-byte head (\<^verbatim>\<open>t_pfs_sig_head\<close>: the length of the body in network byte
  order, a command and a status) and a body of at most \<^verbatim>\<open>MAX_SIG_BODY\<close> bytes.
  \<open>parse_sig_msg\<close> and \<open>create_sig_msg\<close> are the two functions of \<^verbatim>\<open>lib/protocol.c\<close>.  The
  receive loop \<open>recv_loop\<close> over \<open>check_req_with\<close> is the loop that the signalling plugins run
  on the bytes of a connection; it is generic in the handler \<^verbatim>\<open>do_req\<close> of the plugin.
  The locale \<open>framed_service\<close> is the contract between that loop and a handler.
\<close>

subsection \<open>Constants and data\<close>

abbreviation SIG_HEADSIZE :: nat where "SIG_HEADSIZE \<equiv> 4"
abbreviation MAX_SIG_BODY :: nat where "MAX_SIG_BODY \<equiv> 65536"

abbreviation E_PACKET_ERR_CLOSE :: int where "E_PACKET_ERR_CLOSE \<equiv> -100"
abbreviation E_PRO_OK :: int where "E_PRO_OK \<equiv> 0"
abbreviation E_PRO_HEAD_LEN :: int where "E_PRO_HEAD_LEN \<equiv> 1"
abbreviation E_PRO_TOTAL_LEN :: int where "E_PRO_TOTAL_LEN \<equiv> 2"
abbreviation E_DATA_LEN :: int where "E_DATA_LEN \<equiv> 3"

abbreviation HEARTBEAT_REQ :: uint8 where "HEARTBEAT_REQ \<equiv> 0x01"
abbreviation HEARTBEAT_RSP :: uint8 where "HEARTBEAT_RSP \<equiv> 0x02"
abbreviation UPLOAD_REQ :: uint8 where "UPLOAD_REQ \<equiv> 0x03"
abbreviation UPLOAD_RSP :: uint8 where "UPLOAD_RSP \<equiv> 0x04"
abbreviation LOADINFO_REQ :: uint8 where "LOADINFO_REQ \<equiv> 0x05"
abbreviation LOADINFO_RSP :: uint8 where "LOADINFO_RSP \<equiv> 0x06"
abbreviation MODI_DEL_REQ :: uint8 where "MODI_DEL_REQ \<equiv> 0x07"
abbreviation MODI_DEL_RSP :: uint8 where "MODI_DEL_RSP \<equiv> 0x08"
abbreviation DISKINFO_REQ :: uint8 where "DISKINFO_REQ \<equiv> 0x0B"
abbreviation DISKINFO_RSP :: uint8 where "DISKINFO_RSP \<equiv> 0x0C"
abbreviation NEWTASK_REQ :: uint8 where "NEWTASK_REQ \<equiv> 0x0D"
abbreviation NEWTASK_RSP :: uint8 where "NEWTASK_RSP \<equiv> 0x0E"
abbreviation SYNC_DIR_REQ :: uint8 where "SYNC_DIR_REQ \<equiv> 0x0F"
abbreviation SYNC_DIR_RSP :: uint8 where "SYNC_DIR_RSP \<equiv> 0x10"
abbreviation CMD_GET_FILE_REQ :: uint8 where "CMD_GET_FILE_REQ \<equiv> 0x11"
abbreviation CMD_GET_FILE_RSP :: uint8 where "CMD_GET_FILE_RSP \<equiv> 0x12"
abbreviation SYNC_DEL_REQ :: uint8 where "SYNC_DEL_REQ \<equiv> 0x13"
abbreviation SYNC_DEL_RSP :: uint8 where "SYNC_DEL_RSP \<equiv> 0x14"
abbreviation CMD_PUT_FILE_REQ :: uint8 where "CMD_PUT_FILE_REQ \<equiv> 0x15"
abbreviation CMD_PUT_FILE_RSP :: uint8 where "CMD_PUT_FILE_RSP \<equiv> 0x16"
abbreviation HB_C_2_C :: uint8 where "HB_C_2_C \<equiv> 0x04"
abbreviation TASK_SYNC :: uint8 where "TASK_SYNC \<equiv> 0x03"
abbreviation TASK_FAILED :: uint8 where "TASK_FAILED \<equiv> 0x08"
abbreviation TASK_SYNC_DIR :: uint8 where "TASK_SYNC_DIR \<equiv> 0x09"
abbreviation FILE_SYNC_DST_2_SRC :: uint8 where "FILE_SYNC_DST_2_SRC \<equiv> 0x81"
abbreviation FILE_SYNC_DST_2_SRC_E_OPENFILE :: uint8 where
  "FILE_SYNC_DST_2_SRC_E_OPENFILE \<equiv> 0x86"
abbreviation FILE_SYNC_DST_2_SRC_E_MALLOC :: uint8 where
  "FILE_SYNC_DST_2_SRC_E_MALLOC \<equiv> 0x87"

text \<open>The results a plugin's handlers give to the event loop (\<^verbatim>\<open>network/global.h\<close>).\<close>

abbreviation RECV_CLOSE :: int where "RECV_CLOSE \<equiv> 0x01"
abbreviation RECV_ADD_EPOLLIN :: int where "RECV_ADD_EPOLLIN \<equiv> 0x02"
abbreviation RECV_ADD_EPOLLOUT :: int where "RECV_ADD_EPOLLOUT \<equiv> 0x04"
abbreviation RECV_ADD_EPOLLALL :: int where "RECV_ADD_EPOLLALL \<equiv> 0x06"
abbreviation RECV_SEND :: int where "RECV_SEND \<equiv> 0x08"
abbreviation SEND_CLOSE :: int where "SEND_CLOSE \<equiv> 0x10"
abbreviation SEND_ADD_EPOLLIN :: int where "SEND_ADD_EPOLLIN \<equiv> 0x20"
abbreviation SEND_ADD_EPOLLOUT :: int where "SEND_ADD_EPOLLOUT \<equiv> 0x40"
abbreviation SEND_ADD_EPOLLALL :: int where "SEND_ADD_EPOLLALL \<equiv> 0x80"

record t_pfs_sig_head =
  h_bodylen :: uint16
  h_cmdid :: uint8
  h_status :: uint8

definition zero_head :: t_pfs_sig_head where
  "zero_head = \<lparr>h_bodylen = 0, h_cmdid = 0, h_status = 0\<rparr>"

text \<open>\<^verbatim>\<open>memcpy(dst, src, length src)\<close> on the contents of \<open>dst\<close>.\<close>

definition memcpy :: "bytes \<Rightarrow> bytes \<Rightarrow> bytes" where
  "memcpy dst src = src @ drop (length src) dst"

subsection \<open>parse_sig_msg and create_sig_msg\<close>

text \<open>
  The head as it lies in the first four bytes of a message, \<^verbatim>\<open>bodylen\<close> converted by \<^verbatim>\<open>ntohs\<close>.
\<close>

fun head_of :: "bytes \<Rightarrow> t_pfs_sig_head" where
  "head_of (a # b # c # d # _) = \<lparr>h_bodylen = of_be16 a b, h_cmdid = c, h_status = d\<rparr>"
| "head_of _ = zero_head"

text \<open>
  The arguments \<open>h\<close> and \<open>b\<close> are the caller's head and body before the call (an array that was
  zeroed by \<^verbatim>\<open>memset\<close> is written as a prefix of it, the rest being zero); \<open>s\<close> is the received
  data, \<^verbatim>\<open>slen\<close> its length.
\<close>

definition parse_sig_msg ::
  "t_pfs_sig_head \<Rightarrow> bytes \<Rightarrow> bytes \<Rightarrow> int \<times> t_pfs_sig_head \<times> bytes" where
  "parse_sig_msg h b s =
     (if length s < SIG_HEADSIZE then (E_PRO_HEAD_LEN, h, b)
      else
        let h' = head_of s; n = unat (h_bodylen h') in
        if n \<ge> MAX_SIG_BODY then (E_PACKET_ERR_CLOSE, h', b)
        else if length s < SIG_HEADSIZE + n then (E_PRO_TOTAL_LEN, h', b)
        else if length s = SIG_HEADSIZE then (E_PRO_OK, h', b)
        else (E_PRO_OK, h', memcpy b (take n (drop SIG_HEADSIZE s))))"

text \<open>The bytes written to \<^verbatim>\<open>o\<close>; the function returns their number.\<close>

definition create_sig_msg :: "uint8 \<Rightarrow> uint8 \<Rightarrow> bytes \<Rightarrow> uint16 \<Rightarrow> bytes" where
  "create_sig_msg cmdid status b bodylen =
     (let nh = be16 bodylen @ [cmdid, status] in
      if bodylen = 0 then nh else nh @ take (unat bodylen) b)"

subsection \<open>The receive loop of the signalling plugins\<close>

text \<open>
  \<^verbatim>\<open>check_req\<close> of the plugins N and S: no data or an incomplete message is \<open>-1\<close> (read on), a
  packet error is \<^verbatim>\<open>RECV_CLOSE\<close>, and a complete message is handed to \<^verbatim>\<open>do_req\<close> and consumed.
  \<open>st\<close> is the plugin's state, \<open>buf\<close> the valid bytes of the connection's receive buffer.
\<close>

type_synonym 's handler = "'s \<Rightarrow> t_pfs_sig_head \<Rightarrow> bytes \<Rightarrow> int \<times> 's"

definition check_req_with :: "'s handler \<Rightarrow> 's \<Rightarrow> bytes \<Rightarrow> int \<times> 's \<times> bytes" where
  "check_req_with do_req st buf =
     (if buf = [] then (-1, st, buf)
      else
        let (ret, h, b) = parse_sig_msg zero_head [] buf in
        if ret > 0 then (-1, st, buf)
        else if ret = E_PACKET_ERR_CLOSE then (RECV_CLOSE, st, buf)
        else
          let clen = unat (h_bodylen h) + SIG_HEADSIZE; (r, st') = do_req st h b in
          (r, st', drop clen buf))"

text \<open>
  The loop \<^verbatim>\<open>while (1)\<close> of \<^verbatim>\<open>svc_recv\<close>: it stops at the first incomplete message or at
  \<^verbatim>\<open>RECV_CLOSE\<close> and collects the other results in \<open>ret\<close> by bitwise or.
\<close>

function recv_loop :: "'s handler \<Rightarrow> int \<Rightarrow> 's \<Rightarrow> bytes \<Rightarrow> int \<times> 's \<times> bytes" where
  "recv_loop do_req ret st buf =
     (case check_req_with do_req st buf of (subret, st', buf') \<Rightarrow>
        if subret = -1 then (ret, st', buf')
        else if subret = RECV_CLOSE then (RECV_CLOSE, st', buf')
        else recv_loop do_req (or ret subret) st' buf')"
  by pat_completeness auto
termination
  by (relation "measure (\<lambda>(_, _, _, buf). length buf)")
    (auto simp: check_req_with_def Let_def split: if_splits prod.splits)

declare recv_loop.simps [simp del]

subsection \<open>Framing as a specification\<close>

text \<open>
  What the loop is meant to do, without buffers: cut a byte stream into its complete
  messages and the incomplete rest.
\<close>

function frames :: "bytes \<Rightarrow> (t_pfs_sig_head \<times> bytes) list" where
  "frames s =
     (if length s < SIG_HEADSIZE \<or> length s < SIG_HEADSIZE + unat (h_bodylen (head_of s)) then []
      else (head_of s, take (unat (h_bodylen (head_of s))) (drop SIG_HEADSIZE s))
             # frames (drop (SIG_HEADSIZE + unat (h_bodylen (head_of s))) s))"
  by pat_completeness auto
termination
  by (relation "measure length") auto

function rest :: "bytes \<Rightarrow> bytes" where
  "rest s =
     (if length s < SIG_HEADSIZE \<or> length s < SIG_HEADSIZE + unat (h_bodylen (head_of s)) then s
      else rest (drop (SIG_HEADSIZE + unat (h_bodylen (head_of s))) s))"
  by pat_completeness auto
termination
  by (relation "measure length") auto

declare frames.simps [simp del] rest.simps [simp del]

text \<open>Handing a list of messages to a handler.\<close>

fun handle_all :: "'s handler \<Rightarrow> int \<Rightarrow> 's \<Rightarrow> (t_pfs_sig_head \<times> bytes) list \<Rightarrow> int \<times> 's" where
  "handle_all do_req ret st [] = (ret, st)"
| "handle_all do_req ret st ((h, b) # ms) =
     (case do_req st h b of (r, st') \<Rightarrow> handle_all do_req (or ret r) st' ms)"

text \<open>A connection that receives its data in several pieces, \<^verbatim>\<open>svc_recv\<close> after each.\<close>

fun recv_pieces :: "'s handler \<Rightarrow> 's \<Rightarrow> bytes \<Rightarrow> bytes list \<Rightarrow> 's \<times> bytes" where
  "recv_pieces do_req st buf [] = (st, buf)"
| "recv_pieces do_req st buf (d # ds) =
     (case recv_loop do_req RECV_ADD_EPOLLIN st (buf @ d) of (_, st', buf') \<Rightarrow>
        recv_pieces do_req st' buf' ds)"

subsection \<open>Facts about messages\<close>

lemma head_of_append: "SIG_HEADSIZE \<le> length s \<Longrightarrow> head_of (s @ t) = head_of s"
  by (cases s rule: head_of.cases) auto

lemma head_of_create:
  "head_of (create_sig_msg cmd st b n @ t) = \<lparr>h_bodylen = n, h_cmdid = cmd, h_status = st\<rparr>"
  by (simp add: create_sig_msg_def Let_def be16_def wire_simps)

lemma length_create_sig_msg:
  "unat n \<le> length b \<Longrightarrow> length (create_sig_msg cmd st b n) = SIG_HEADSIZE + unat n"
  by (simp add: create_sig_msg_def Let_def)

lemma drop_head_create:
  "unat n \<le> length b \<Longrightarrow> drop SIG_HEADSIZE (create_sig_msg cmd st b n) = take (unat n) b"
  by (simp add: create_sig_msg_def Let_def be16_def)

lemma bodylen_bound [simp]: "unat (w :: uint16) < MAX_SIG_BODY"
  using unsigned_less [of w] by simp

lemma bodylen_not_large [simp]: "\<not> MAX_SIG_BODY \<le> unat (w :: uint16)"
  by (simp add: not_le)

lemma parse_sig_msg_cases:
  "parse_sig_msg h b s =
     (if length s < SIG_HEADSIZE then (E_PRO_HEAD_LEN, h, b)
      else if length s < SIG_HEADSIZE + unat (h_bodylen (head_of s))
      then (E_PRO_TOTAL_LEN, head_of s, b)
      else (E_PRO_OK, head_of s,
        memcpy b (take (unat (h_bodylen (head_of s))) (drop SIG_HEADSIZE s))))"
  by (auto simp: parse_sig_msg_def Let_def memcpy_def)

lemma check_req_with_frames:
  "check_req_with f st buf =
     (case frames buf of
        [] \<Rightarrow> (-1, st, buf)
      | (h, b) # _ \<Rightarrow>
          (case f st h b of (r, st') \<Rightarrow> (r, st', drop (SIG_HEADSIZE + unat (h_bodylen h)) buf)))"
  by (auto simp: check_req_with_def parse_sig_msg_cases memcpy_def Let_def frames.simps [of buf]
      add.commute split: prod.splits)

lemma frames_append:
  "frames (s @ t) = frames s @ frames (rest s @ t)"
proof (induction s rule: frames.induct)
  case (1 s)
  show ?case
  proof (cases "length s < SIG_HEADSIZE \<or> length s < SIG_HEADSIZE + unat (h_bodylen (head_of s))")
    case True
    then show ?thesis by (simp add: frames.simps [of s] rest.simps [of s])
  next
    case False
    then have "head_of (s @ t) = head_of s"
      by (simp add: head_of_append)
    with False "1.IH" show ?thesis
      by (simp add: frames.simps [of s] rest.simps [of s] frames.simps [of "s @ t"])
  qed
qed

lemma rest_append: "rest (s @ t) = rest (rest s @ t)"
proof (induction s rule: rest.induct)
  case (1 s)
  show ?case
  proof (cases "length s < SIG_HEADSIZE \<or> length s < SIG_HEADSIZE + unat (h_bodylen (head_of s))")
    case True
    then show ?thesis by (simp add: rest.simps [of s])
  next
    case False
    then have "head_of (s @ t) = head_of s"
      by (simp add: head_of_append)
    with False "1.IH" show ?thesis
      by (simp add: rest.simps [of s] rest.simps [of "s @ t"])
  qed
qed

lemma frames_rest: "frames (rest s) = []"
proof (induction s rule: rest.induct)
  case (1 s)
  then show ?case
    by (cases "length s < SIG_HEADSIZE \<or> length s < SIG_HEADSIZE + unat (h_bodylen (head_of s))")
      (auto simp: rest.simps [of s] frames.simps [of s])
qed

lemma frames_create:
  assumes "unat n \<le> length b"
  shows "frames (create_sig_msg cmd st b n @ t) =
     (\<lparr>h_bodylen = n, h_cmdid = cmd, h_status = st\<rparr>, take (unat n) b) # frames t"
  using assms length_create_sig_msg [OF assms, of cmd st] drop_head_create [OF assms, of cmd st]
  by (simp add: frames.simps [of "create_sig_msg cmd st b n @ t"] head_of_create)

lemma handle_all_append:
  "handle_all f ret st (xs @ ys) =
     (case handle_all f ret st xs of (r, st') \<Rightarrow> handle_all f r st' ys)"
  by (induction f ret st xs rule: handle_all.induct) (auto split: prod.splits)

lemma handle_all_state: "snd (handle_all f ret st ms) = snd (handle_all f ret' st ms)"
proof (induction ms arbitrary: ret ret' st)
  case (Cons m ms)
  obtain h b where m: "m = (h, b)" by fastforce
  show ?case
    using Cons.IH by (cases "f st h b") (simp add: m)
qed simp

text \<open>What every handled message keeps, the loop keeps.\<close>

lemma recv_loop_inv:
  assumes "\<And>st h b. P st \<Longrightarrow> P (snd (f st h b))" and "P st"
  shows "P (fst (snd (recv_loop f ret st buf)))"
  using assms(2)
proof (induction buf arbitrary: ret st rule: measure_induct_rule [of length])
  case (less buf)
  show ?case
  proof (cases "frames buf")
    case Nil
    then show ?thesis
      using less.prems by (simp add: recv_loop.simps [of f ret st buf] check_req_with_frames)
  next
    case (Cons m ms)
    obtain h b where m: "m = (h, b)" by fastforce
    obtain r st' where r: "f st h b = (r, st')" by fastforce
    let ?buf = "drop (SIG_HEADSIZE + unat (h_bodylen h)) buf"
    have "buf \<noteq> []" using Cons by (auto simp: frames.simps [of "[]"])
    then have "length ?buf < length buf" by simp
    moreover have "P st'" using assms(1) [OF less.prems, of h b] r by simp
    ultimately show ?thesis
      using less.IH [of ?buf st' "or ret r"] Cons m r
      by (simp add: recv_loop.simps [of f ret st buf] check_req_with_frames)
  qed
qed

subsection \<open>The contract of a handler and the segmentation theorem\<close>

text \<open>
  A handler that neither asks for the connection to be closed nor returns the value \<open>-1\<close>
  that the loop reserves for an incomplete message.
\<close>

locale framed_service =
  fixes do_req :: "'s handler"
  assumes never_incomplete: "fst (do_req st h b) \<noteq> -1"
    and never_close: "fst (do_req st h b) \<noteq> RECV_CLOSE"
begin

lemma recv_loop_frames:
  "recv_loop do_req ret st buf =
     (fst (handle_all do_req ret st (frames buf)), snd (handle_all do_req ret st (frames buf)),
      rest buf)"
proof (induction buf arbitrary: ret st rule: frames.induct)
  case (1 buf)
  show ?case
  proof (cases "length buf < SIG_HEADSIZE
      \<or> length buf < SIG_HEADSIZE + unat (h_bodylen (head_of buf))")
    case True
    then have "frames buf = []" "rest buf = buf"
      by (simp_all add: frames.simps [of buf] rest.simps [of buf])
    then show ?thesis
      by (simp add: recv_loop.simps [of do_req ret st buf] check_req_with_frames)
  next
    case False
    let ?h = "head_of buf"
    let ?b = "take (unat (h_bodylen ?h)) (drop SIG_HEADSIZE buf)"
    obtain r st' where r: "do_req st ?h ?b = (r, st')"
      by fastforce
    then have "r \<noteq> -1" "r \<noteq> RECV_CLOSE"
      using never_incomplete [of st ?h ?b] never_close [of st ?h ?b] by auto
    with False r "1.IH" show ?thesis
      by (simp add: recv_loop.simps [of do_req ret st buf] check_req_with_frames
          frames.simps [of buf] rest.simps [of buf])
  qed
qed

lemma recv_pieces_frames:
  "frames buf = [] \<Longrightarrow>
   recv_pieces do_req st buf ds =
     (snd (handle_all do_req RECV_ADD_EPOLLIN st (frames (buf @ concat ds))),
      rest (buf @ concat ds))"
proof (induction ds arbitrary: st buf)
  case Nil
  then have "rest buf = buf"
    by (subst rest.simps) (metis frames.simps list.distinct(1))
  with Nil show ?case by simp
next
  case (Cons d ds)
  let ?st = "snd (handle_all do_req RECV_ADD_EPOLLIN st (frames (buf @ d)))"
  have "recv_pieces do_req st buf (d # ds) = recv_pieces do_req ?st (rest (buf @ d)) ds"
    by (simp add: recv_loop_frames)
  also have "\<dots> = (snd (handle_all do_req RECV_ADD_EPOLLIN ?st (frames (rest (buf @ d) @ concat ds))),
      rest (rest (buf @ d) @ concat ds))"
    by (rule Cons.IH) (rule frames_rest)
  finally show ?case
    using frames_append [of "buf @ d" "concat ds"] rest_append [of "buf @ d" "concat ds"]
      handle_all_state [of do_req RECV_ADD_EPOLLIN ?st]
    by (simp add: handle_all_append split: prod.splits) (metis snd_conv handle_all_state)
qed

text \<open>How the network cuts the stream into pieces makes no difference to the plugin.\<close>

lemma segmentation_independent:
  "concat ds = concat es \<Longrightarrow> recv_pieces do_req st [] ds = recv_pieces do_req st [] es"
  using recv_pieces_frames [of "[]" st] frames_rest [of "[]"]
  by (simp add: frames.simps [of "[]"])

end

subsection \<open>Properties\<close>

text \<open>
  C36: every message that \<^verbatim>\<open>create_sig_msg\<close> builds is parsed back by \<^verbatim>\<open>parse_sig_msg\<close> to the same
  command, status, length and body, also when more bytes of the stream follow it; the body
  is laid over the caller's buffer and the rest of that buffer is untouched.
\<close>

theorem sig_msg_roundtrip:
  assumes "unat n \<le> length body"
  shows "parse_sig_msg h b (create_sig_msg cmd st body n @ tail) =
    (E_PRO_OK, \<lparr>h_bodylen = n, h_cmdid = cmd, h_status = st\<rparr>,
     take (unat n) body @ drop (unat n) b)"
  using assms length_create_sig_msg [OF assms, of cmd st] drop_head_create [OF assms, of cmd st]
  by (simp add: parse_sig_msg_cases head_of_create memcpy_def)

theorem sig_msg_roundtrip_witness:
  "parse_sig_msg zero_head [] (create_sig_msg UPLOAD_REQ 1 [112, 105, 99] 3 @ [7]) =
     (E_PRO_OK, \<lparr>h_bodylen = 3, h_cmdid = UPLOAD_REQ, h_status = 1\<rparr>, [112, 105, 99])"
  using sig_msg_roundtrip [of 3 "[112, 105, 99]" zero_head "[]" UPLOAD_REQ 1 "[7]"] by simp

text \<open>
  \<^verbatim>\<open>parse_sig_msg\<close> accepts a buffer exactly when it holds a whole message, and it never
  reports \<^verbatim>\<open>E_PACKET_ERR_CLOSE\<close>: the guard \<open>bodylen >= MAX_SIG_BODY\<close> compares a 16-bit length
  with 65536, so the branch that closes a connection on an oversized packet is dead.
\<close>

theorem parse_sig_msg_complete:
  "(fst (parse_sig_msg h b s) = E_PRO_OK \<longleftrightarrow>
      SIG_HEADSIZE \<le> length s \<and> SIG_HEADSIZE + unat (h_bodylen (head_of s)) \<le> length s)
   \<and> fst (parse_sig_msg h b s) \<in> {E_PRO_OK, E_PRO_HEAD_LEN, E_PRO_TOTAL_LEN}"
  by (auto simp: parse_sig_msg_cases)

end
