(* ===== verification/Pfs_Buffer.thy ===== *)
theory Pfs_Buffer
  imports Pfs_Prelude
begin

section \<open>Connection buffers (lib/mybuff.c)\<close>

text \<open>
  A \<^verbatim>\<open>struct mybuff\<close> holds bytes to send or bytes received, and possibly a file whose contents
  are to be sent after them.  \<open>mb_data\<close> is the heap block (\<open>None\<close> for a null pointer) as far
  as it has been written, \<open>mb_size\<close> its capacity and \<open>mb_len\<close> the number of valid bytes.
  \<open>alloc n\<close> says whether \<^verbatim>\<open>malloc\<close> or \<^verbatim>\<open>realloc\<close> of \<open>n\<close> bytes succeeds, \<open>ibs\<close> is the global
  \<^verbatim>\<open>init_buff_size\<close>; a \<open>None\<close> result is a write through a null pointer, which the code does not
  guard against.  Operations that call \<^verbatim>\<open>close\<close> return the closed descriptors.
  The locale \<open>byte_fifo\<close> states what the event loop relies on: a first-in first-out queue of
  bytes.
\<close>

subsection \<open>State\<close>

record mybuff =
  mb_data :: "bytes option"
  mb_size :: nat
  mb_len :: nat
  mb_fd :: int
  mb_foffset :: int
  mb_flen :: nat

record conn =
  c_peerip :: string
  c_fd :: int
  c_send_buff :: mybuff
  c_recv_buff :: mybuff
  c_send_len :: int

text \<open>Subtraction and addition on \<^verbatim>\<open>size_t\<close>.\<close>

definition sub64 :: "nat \<Rightarrow> nat \<Rightarrow> nat" where
  "sub64 a b = (a + 2 ^ 64 - b) mod 2 ^ 64"

definition wrap64 :: "nat \<Rightarrow> nat" where
  "wrap64 a = a mod 2 ^ 64"

subsection \<open>Operations\<close>

definition mybuff_init :: mybuff where
  "mybuff_init = \<lparr>mb_data = None, mb_size = 0, mb_len = 0, mb_fd = -1, mb_foffset = 0, mb_flen = 0\<rparr>"

definition mybuff_setdata :: "(nat \<Rightarrow> bool) \<Rightarrow> nat \<Rightarrow> mybuff \<Rightarrow> bytes \<Rightarrow> mybuff option" where
  "mybuff_setdata alloc ibs mb data =
     (let mb1 = (if mb_data mb = None
                 then mb\<lparr>mb_data := (if alloc ibs then Some [] else None), mb_size := ibs\<rparr>
                 else mb);
          l = length data
      in if sub64 (mb_size mb1) (mb_len mb1) > l
         then (case mb_data mb1 of
                 None \<Rightarrow> None
               | Some d \<Rightarrow> Some (mb1\<lparr>mb_data := Some (put_at (mb_len mb1) data d),
                                    mb_len := mb_len mb1 + l\<rparr>))
         else
           let size = wrap64 (mb_len mb1 + l + 1) in
           if alloc size
           then Some (mb1\<lparr>mb_size := size,
                          mb_data := Some (put_at (mb_len mb1) data
                            (take size (case mb_data mb1 of None \<Rightarrow> [] | Some d \<Rightarrow> d))),
                          mb_len := mb_len mb1 + l\<rparr>)
           else None)"

text \<open>The data pointer and length that \<^verbatim>\<open>mybuff_getdata\<close> hands out; \<open>None\<close> is its result \<open>-1\<close>.\<close>

definition mybuff_getdata :: "mybuff \<Rightarrow> bytes option" where
  "mybuff_getdata mb =
     (case mb_data mb of
        Some d \<Rightarrow> (if mb_len mb > 0 then Some (take (mb_len mb) d) else None)
      | None \<Rightarrow> None)"

definition mybuff_skipdata :: "mybuff \<Rightarrow> nat \<Rightarrow> mybuff" where
  "mybuff_skipdata mb n =
     (case mb_data mb of
        None \<Rightarrow> mb
      | Some d \<Rightarrow>
          if n \<ge> mb_len mb then mb\<lparr>mb_len := 0\<rparr>
          else mb\<lparr>mb_data := Some (put_at 0 (take (mb_len mb - n) (drop n d)) d),
                  mb_len := mb_len mb - n\<rparr>)"

definition mybuff_setfile :: "mybuff \<Rightarrow> int \<Rightarrow> int \<Rightarrow> nat \<Rightarrow> mybuff \<times> int list" where
  "mybuff_setfile mb fd offset n =
     (mb\<lparr>mb_fd := fd, mb_foffset := offset, mb_flen := n\<rparr>,
      if mb_fd mb \<ge> 0 then [mb_fd mb] else [])"

definition mybuff_getfile :: "mybuff \<Rightarrow> (int \<times> int \<times> nat) option" where
  "mybuff_getfile mb =
     (if mb_fd mb \<ge> 0 \<and> mb_flen mb > 0 then Some (mb_fd mb, mb_foffset mb, mb_flen mb) else None)"

definition mybuff_skipfile :: "mybuff \<Rightarrow> nat \<Rightarrow> mybuff \<times> int list" where
  "mybuff_skipfile mb n =
     (if mb_fd mb \<ge> 0 then
        if mb_flen mb \<le> n then (mb\<lparr>mb_fd := -1, mb_foffset := 0, mb_flen := 0\<rparr>, [mb_fd mb])
        else (mb\<lparr>mb_foffset := mb_foffset mb + int n, mb_flen := mb_flen mb - n\<rparr>, [])
      else (mb, []))"

definition mybuff_reinit :: "(nat \<Rightarrow> bool) \<Rightarrow> nat \<Rightarrow> mybuff \<Rightarrow> mybuff \<times> int list" where
  "mybuff_reinit alloc ibs mb =
     (let (mb1, closed) =
            (if mb_fd mb \<ge> 0
             then (mb\<lparr>mb_fd := -1, mb_foffset := 0, mb_flen := 0\<rparr>, [mb_fd mb]) else (mb, []));
          mb2 = (if mb_size mb1 > 2 * ibs
                 then mb1\<lparr>mb_data := (if alloc ibs then Some [] else None), mb_size := ibs\<rparr>
                 else mb1)
      in (mb2\<lparr>mb_len := 0\<rparr>, closed))"

text \<open>After \<^verbatim>\<open>mybuff_fini\<close> the block is freed and the structure is not used again.\<close>

definition mybuff_fini :: "(nat \<Rightarrow> bool) \<Rightarrow> nat \<Rightarrow> mybuff \<Rightarrow> int list" where
  "mybuff_fini alloc ibs mb = snd (mybuff_reinit alloc ibs mb)"

text \<open>The four accessors of \<^verbatim>\<open>pfs_so.c\<close> that the plugins use on a connection.\<close>

definition get_client_data :: "conn \<Rightarrow> bytes option" where
  "get_client_data c = mybuff_getdata (c_recv_buff c)"

definition consume_client_data :: "conn \<Rightarrow> nat \<Rightarrow> conn" where
  "consume_client_data c n = c\<lparr>c_recv_buff := mybuff_skipdata (c_recv_buff c) n\<rparr>"

definition set_client_data :: "(nat \<Rightarrow> bool) \<Rightarrow> nat \<Rightarrow> conn \<Rightarrow> bytes \<Rightarrow> conn option" where
  "set_client_data alloc ibs c d =
     map_option (\<lambda>mb. c\<lparr>c_send_buff := mb\<rparr>) (mybuff_setdata alloc ibs (c_send_buff c) d)"

definition set_client_fd :: "conn \<Rightarrow> int \<Rightarrow> int \<Rightarrow> nat \<Rightarrow> conn \<times> int list" where
  "set_client_fd c lfd offset n =
     (case mybuff_setfile (c_send_buff c) lfd offset n of
        (mb, closed) \<Rightarrow> (c\<lparr>c_send_buff := mb\<rparr>, closed))"

subsection \<open>Invariant and abstraction\<close>

definition mb_ok :: "mybuff \<Rightarrow> bool" where
  "mb_ok mb \<longleftrightarrow>
     (case mb_data mb of
        None \<Rightarrow> mb_len mb = 0
      | Some d \<Rightarrow> mb_len mb \<le> length d \<and> length d \<le> mb_size mb \<and> mb_len mb < mb_size mb
                  \<and> mb_size mb < 2 ^ 64)"

text \<open>The queue of bytes a buffer stands for.\<close>

definition mb_bytes :: "mybuff \<Rightarrow> bytes" where
  "mb_bytes mb = (case mb_data mb of None \<Rightarrow> [] | Some d \<Rightarrow> take (mb_len mb) d)"

subsection \<open>The interface: a queue of bytes\<close>

text \<open>
  A sequence of appends and skips on a buffer, as the event loop performs it: \<open>Put\<close> is a
  \<^verbatim>\<open>recv\<close> of some bytes, \<open>Skip\<close> the consumption of at most the bytes that are there.
\<close>

datatype fifo_op = Put bytes | Skip nat

fun spec_run :: "bytes \<Rightarrow> fifo_op list \<Rightarrow> bytes" where
  "spec_run q [] = q"
| "spec_run q (Put d # ops) = spec_run (q @ d) ops"
| "spec_run q (Skip n # ops) = spec_run (drop n q) ops"

fun put_total :: "fifo_op list \<Rightarrow> nat" where
  "put_total [] = 0"
| "put_total (Put d # ops) = length d + put_total ops"
| "put_total (Skip n # ops) = put_total ops"

text \<open>The same sequence on an implementation given by its two operations.\<close>

fun fifo_run :: "('b \<Rightarrow> bytes \<Rightarrow> 'b option) \<Rightarrow> ('b \<Rightarrow> nat \<Rightarrow> 'b) \<Rightarrow> 'b \<Rightarrow> fifo_op list \<Rightarrow> 'b option"
where
  "fifo_run put skip b [] = Some b"
| "fifo_run put skip b (Put d # ops) =
     (case put b d of None \<Rightarrow> None | Some b' \<Rightarrow> fifo_run put skip b' ops)"
| "fifo_run put skip b (Skip n # ops) = fifo_run put skip (skip b n) ops"

locale byte_fifo =
  fixes put :: "'b \<Rightarrow> bytes \<Rightarrow> 'b option"
    and skip :: "'b \<Rightarrow> nat \<Rightarrow> 'b"
    and peek :: "'b \<Rightarrow> bytes option"
    and contents :: "'b \<Rightarrow> bytes"
    and inv :: "'b \<Rightarrow> bool"
    and cap :: nat
  assumes put_ok: "inv b \<Longrightarrow> length (contents b) + length d < cap \<Longrightarrow>
      \<exists>b'. put b d = Some b' \<and> inv b' \<and> contents b' = contents b @ d"
    and skip_ok: "inv b \<Longrightarrow> inv (skip b n) \<and> contents (skip b n) = drop n (contents b)"
    and peek_ok: "inv b \<Longrightarrow> peek b = (if contents b = [] then None else Some (contents b))"
begin

lemma run_refines:
  "inv b \<Longrightarrow> length (contents b) + put_total ops < cap \<Longrightarrow>
   \<exists>b'. fifo_run put skip b ops = Some b' \<and> inv b' \<and> contents b' = spec_run (contents b) ops"
proof (induction ops arbitrary: b)
  case Nil
  then show ?case by simp
next
  case (Cons x ops)
  show ?case
  proof (cases x)
    case (Put d)
    with Cons.prems have "length (contents b) + length d < cap"
      by simp
    then obtain b' where b': "put b d = Some b'" "inv b'" "contents b' = contents b @ d"
      using put_ok Cons.prems(1) by blast
    have "length (contents b') + put_total ops < cap"
      using Cons.prems(2) Put b'(3) by simp
    with Cons.IH [OF b'(2)] b' Put show ?thesis by simp
  next
    case (Skip n)
    have "inv (skip b n)" "contents (skip b n) = drop n (contents b)"
      using skip_ok Cons.prems(1) by blast+
    moreover have "length (drop n (contents b)) + put_total ops < cap"
      using Cons.prems(2) Skip by simp
    ultimately show ?thesis using Cons.IH [of "skip b n"] Skip by simp
  qed
qed

end

subsection \<open>The buffers implement the interface\<close>

lemma length_put_at: "at \<le> length d \<Longrightarrow> length (put_at at src d) = max (length d) (at + length src)"
  by (simp add: put_at_def)

lemma take_put_at:
  "at \<le> length d \<Longrightarrow> take (at + length src) (put_at at src d) = take at d @ src"
  by (simp add: put_at_def)

lemma sub64_le: "b \<le> a \<Longrightarrow> a < 2 ^ 64 \<Longrightarrow> sub64 a b = a - b"
proof -
  assume "b \<le> a" and "a < 2 ^ 64"
  then have "a + 2 ^ 64 - b = (a - b) + 2 ^ 64" and "a - b < 2 ^ 64"
    by simp_all
  then show ?thesis unfolding sub64_def by (metis mod_add_self2 mod_less)
qed

lemma mb_bytes_init [simp]: "mb_bytes mybuff_init = []"
  by (simp add: mb_bytes_def mybuff_init_def)

lemma mb_ok_init [simp]: "mb_ok mybuff_init"
  by (simp add: mb_ok_def mybuff_init_def)

lemma length_mb_bytes: "mb_ok mb \<Longrightarrow> length (mb_bytes mb) = mb_len mb"
  by (auto simp: mb_ok_def mb_bytes_def split: option.splits)

text \<open>Appending to a block that exists, in the two branches of the code.\<close>

lemma setdata_block:
  assumes "mb_data mb = Some d" and "mb_ok mb" and "mb_len mb + length x + 1 < 2 ^ 64"
    and "\<And>n. alloc n"
  shows "\<exists>mb'. mybuff_setdata alloc ibs mb x = Some mb' \<and> mb_ok mb' \<and> mb_bytes mb' = mb_bytes mb @ x"
proof -
  have inv: "mb_len mb \<le> length d" "length d \<le> mb_size mb" "mb_len mb < mb_size mb"
    "mb_size mb < 2 ^ 64"
    using assms(1,2) by (simp_all add: mb_ok_def)
  have room: "sub64 (mb_size mb) (mb_len mb) = mb_size mb - mb_len mb"
    using inv by (simp add: sub64_le)
  show ?thesis
  proof (cases "length x < mb_size mb - mb_len mb")
    case True
    then show ?thesis
      using assms(1) inv room
      by (auto simp: mybuff_setdata_def mb_ok_def mb_bytes_def length_put_at take_put_at Let_def)
  next
    case False
    have w: "wrap64 (mb_len mb + length x + 1) = mb_len mb + length x + 1"
      using assms(3) by (simp add: wrap64_def)
    have "length d \<le> mb_len mb + length x"
      using False inv by simp
    then show ?thesis
      using False assms(1,3,4) inv room w
      by (auto simp: mybuff_setdata_def mb_ok_def mb_bytes_def put_at_def Let_def)
  qed
qed

lemma setdata_ok:
  assumes ok: "mb_ok mb" and len: "length (mb_bytes mb) + length x + 1 < 2 ^ 64"
    and ibs: "0 < ibs" "ibs < 2 ^ 64" and alloc: "\<And>n. alloc n"
  shows "\<exists>mb'. mybuff_setdata alloc ibs mb x = Some mb' \<and> mb_ok mb' \<and> mb_bytes mb' = mb_bytes mb @ x"
proof (cases "mb_data mb")
  case (Some d)
  then show ?thesis
    using setdata_block [OF Some ok _ alloc] len length_mb_bytes [OF ok] by simp
next
  case None
  let ?mb = "mb\<lparr>mb_data := Some [], mb_size := ibs\<rparr>"
  have len0: "mb_len mb = 0"
    using ok None by (simp add: mb_ok_def)
  have eq: "mybuff_setdata alloc ibs mb x = mybuff_setdata alloc ibs ?mb x"
    using None alloc by (simp add: mybuff_setdata_def)
  have "mb_ok ?mb" and "mb_bytes ?mb = mb_bytes mb" and "mb_len ?mb + length x + 1 < 2 ^ 64"
    using len0 ibs None len by (simp_all add: mb_ok_def mb_bytes_def)
  then show ?thesis
    using setdata_block [of ?mb "[]" x alloc ibs] alloc eq by simp
qed

lemma skipdata_ok [pfs_inv]: "mb_ok mb \<Longrightarrow> mb_ok (mybuff_skipdata mb n)"
  by (auto simp: mb_ok_def mybuff_skipdata_def length_put_at split: option.splits)

lemma skipdata_bytes: "mb_ok mb \<Longrightarrow> mb_bytes (mybuff_skipdata mb n) = drop n (mb_bytes mb)"
  by (auto simp: mb_ok_def mb_bytes_def mybuff_skipdata_def put_at_def drop_take
      split: option.splits)

lemma getdata_bytes:
  "mb_ok mb \<Longrightarrow> mybuff_getdata mb = (if mb_bytes mb = [] then None else Some (mb_bytes mb))"
  by (auto simp: mb_ok_def mb_bytes_def mybuff_getdata_def split: option.splits)

lemma byte_fifo_mybuff:
  assumes "0 < ibs" and "ibs < 2 ^ 64"
  shows "byte_fifo (mybuff_setdata (\<lambda>_. True) ibs) mybuff_skipdata mybuff_getdata mb_bytes mb_ok
    (2 ^ 64 - 1)"
proof unfold_locales
  fix b :: mybuff and d :: bytes
  assume "mb_ok b" and "length (mb_bytes b) + length d < 2 ^ 64 - 1"
  then show "\<exists>b'. mybuff_setdata (\<lambda>_. True) ibs b d = Some b' \<and> mb_ok b' \<and>
      mb_bytes b' = mb_bytes b @ d"
    using assms by (intro setdata_ok) auto
qed (auto simp: skipdata_ok skipdata_bytes getdata_bytes)

text \<open>The default size of a buffer is 20480 bytes; \<^verbatim>\<open>init_global\<close> may only enlarge it.\<close>

interpretation mb: byte_fifo "mybuff_setdata (\<lambda>_. True) 20480" mybuff_skipdata mybuff_getdata
  mb_bytes mb_ok "2 ^ 64 - 1"
  by (rule byte_fifo_mybuff) simp_all

text \<open>The file part never touches the byte queue.\<close>

lemma file_ops_bytes [simp]:
  "mb_bytes (fst (mybuff_setfile mb fd off n)) = mb_bytes mb"
  "mb_bytes (fst (mybuff_skipfile mb n)) = mb_bytes mb"
  by (auto simp: mb_bytes_def mybuff_setfile_def mybuff_skipfile_def split: option.splits)

lemma reinit_ok [pfs_inv]:
  "mb_ok mb \<Longrightarrow> 0 < ibs \<Longrightarrow> ibs < 2 ^ 64 \<Longrightarrow> mb_ok (fst (mybuff_reinit alloc ibs mb))"
  by (auto simp: mybuff_reinit_def mb_ok_def Let_def split: option.splits)

text \<open>
  Sending a file: each successful \<^verbatim>\<open>sendfile\<close> of \<open>n\<close> bytes is followed by \<^verbatim>\<open>mybuff_skipfile\<close>.
\<close>

fun send_file :: "mybuff \<Rightarrow> nat list \<Rightarrow> mybuff \<times> int list" where
  "send_file mb [] = (mb, [])"
| "send_file mb (n # ns) =
     (case mybuff_skipfile mb n of (mb1, c1) \<Rightarrow>
        case send_file mb1 ns of (mb2, c2) \<Rightarrow> (mb2, c1 @ c2))"

lemma send_file_closed: "mb_fd mb < 0 \<Longrightarrow> send_file mb ns = (mb, [])"
  by (induction ns) (simp_all add: mybuff_skipfile_def)

lemma send_file_progress:
  assumes "0 \<le> mb_fd mb" and "0 < mb_flen mb" and "\<forall>n \<in> set ns. 0 < n"
  shows "(sum_list ns < mb_flen mb \<longrightarrow>
      mybuff_getfile (fst (send_file mb ns)) =
        Some (mb_fd mb, mb_foffset mb + int (sum_list ns), mb_flen mb - sum_list ns)
      \<and> snd (send_file mb ns) = [])
   \<and> (mb_flen mb \<le> sum_list ns \<longrightarrow>
      mybuff_getfile (fst (send_file mb ns)) = None \<and> snd (send_file mb ns) = [mb_fd mb])"
  using assms
proof (induction ns arbitrary: mb)
  case Nil
  then show ?case by (simp add: mybuff_getfile_def)
next
  case (Cons n ns)
  show ?case
  proof (cases "mb_flen mb \<le> n")
    case True
    then have "mybuff_skipfile mb n = (mb\<lparr>mb_fd := -1, mb_foffset := 0, mb_flen := 0\<rparr>, [mb_fd mb])"
      using Cons.prems by (simp add: mybuff_skipfile_def)
    then show ?thesis
      using True by (simp add: send_file_closed mybuff_getfile_def)
  next
    case False
    let ?mb = "mb\<lparr>mb_foffset := mb_foffset mb + int n, mb_flen := mb_flen mb - n\<rparr>"
    have "mybuff_skipfile mb n = (?mb, [])"
      using False Cons.prems by (simp add: mybuff_skipfile_def)
    then show ?thesis
      using Cons.IH [of ?mb] False Cons.prems
      by (auto simp: split_beta algebra_simps)
  qed
qed

subsection \<open>Properties\<close>

text \<open>
  C11: any sequence of appends and skips on a connection buffer behaves as the same sequence
  on a plain queue of bytes, whichever of the two growth branches is taken: as long as memory
  is available and fewer than 2 \<open>^\<close> 64 \<open>-\<close> 1 bytes are queued, no operation fails, the invariant
  holds at the end, and the buffer holds exactly the bytes put in and not yet skipped.
\<close>

theorem mybuff_is_fifo:
  assumes "0 < ibs" and "ibs < 2 ^ 64"
    and "mb_ok b" and "length (mb_bytes b) + put_total ops < 2 ^ 64 - 1"
  shows "\<exists>b'. fifo_run (mybuff_setdata (\<lambda>_. True) ibs) mybuff_skipdata b ops = Some b' \<and> mb_ok b'
    \<and> mb_bytes b' = spec_run (mb_bytes b) ops
    \<and> mybuff_getdata b' = (if spec_run (mb_bytes b) ops = [] then None
                             else Some (spec_run (mb_bytes b) ops))"
  using byte_fifo.run_refines [OF byte_fifo_mybuff [OF assms(1,2)] assms(3,4)] getdata_bytes
  by metis

theorem mybuff_is_fifo_witness:
  "\<exists>b'. fifo_run (mybuff_setdata (\<lambda>_. True) 20480) mybuff_skipdata mybuff_init
      [Put [1, 2, 3], Skip 2, Put [4]] = Some b' \<and> mb_ok b'
    \<and> mb_bytes b' = [3, 4] \<and> mybuff_getdata b' = Some [3, 4]"
  using mybuff_is_fifo [of 20480 mybuff_init "[Put [1, 2, 3], Skip 2, Put [4]]"] by simp

text \<open>
  A file attached to a buffer is sent from its offset in consecutive pieces: after pieces
  that add up to less than its length the next piece starts where the last one ended and
  nothing is closed; once they reach its length the file is gone and its descriptor has been
  closed exactly once.
\<close>

theorem file_sent_once:
  assumes "0 \<le> fd" and "0 < len" and "\<forall>n \<in> set ns. 0 < n"
  shows "let (mb', closed) = send_file (fst (mybuff_setfile mb fd off len)) ns in
    if sum_list ns < len
    then mybuff_getfile mb' = Some (fd, off + int (sum_list ns), len - sum_list ns) \<and> closed = []
    else mybuff_getfile mb' = None \<and> closed = [fd]"
  using send_file_progress [of "fst (mybuff_setfile mb fd off len)" ns] assms
  by (auto simp: mybuff_setfile_def split_beta Let_def)

theorem file_sent_once_witness:
  "let (mb', closed) = send_file (fst (mybuff_setfile mybuff_init 7 0 10)) [4, 6] in
     mybuff_getfile mb' = None \<and> closed = [7]"
  using file_sent_once [of 7 10 "[4, 6]" mybuff_init 0] by simp

end
