(* ===== verification/Pfs_Dlist.thy ===== *)
theory Pfs_Dlist
  imports Pfs_Prelude
begin

section \<open>Intrusive doubly linked lists (lib/list.h)\<close>

text \<open>
  Every queue of the program (task queues, timers, peers, configuration entries) is a circular
  doubly linked list of \<^verbatim>\<open>struct list_head\<close> nodes embedded in larger structures.  The store is
  two maps from addresses to addresses.  The operations are written as the sequence of
  pointer assignments of the source; the predicate \<open>dll h hp xs\<close> says that the nodes reachable
  from the head \<open>hp\<close> are \<open>xs\<close> in this order, forwards and backwards.  The other theories work
  with the lists \<open>xs\<close>; the lemmas here justify that step.
\<close>

subsection \<open>The store and the operations\<close>

type_synonym addr = nat

record list_heap =
  nxt :: "addr \<Rightarrow> addr"
  prv :: "addr \<Rightarrow> addr"

abbreviation NULL :: addr where "NULL \<equiv> 0"

definition set_next :: "addr \<Rightarrow> addr \<Rightarrow> list_heap \<Rightarrow> list_heap" where
  "set_next p q h = h\<lparr>nxt := (nxt h)(p := q)\<rparr>"

definition set_prev :: "addr \<Rightarrow> addr \<Rightarrow> list_heap \<Rightarrow> list_heap" where
  "set_prev p q h = h\<lparr>prv := (prv h)(p := q)\<rparr>"

definition INIT_LIST_HEAD :: "addr \<Rightarrow> list_heap \<Rightarrow> list_heap" where
  "INIT_LIST_HEAD p h = set_prev p p (set_next p p h)"

definition list_add_between :: "addr \<Rightarrow> addr \<Rightarrow> addr \<Rightarrow> list_heap \<Rightarrow> list_heap" where
  "list_add_between new prev next h =
     set_next prev new (set_prev new prev (set_next new next (set_prev next new h)))"

definition list_add :: "addr \<Rightarrow> addr \<Rightarrow> list_heap \<Rightarrow> list_heap" where
  "list_add new head h = list_add_between new head (nxt h head) h"

definition list_add_tail :: "addr \<Rightarrow> addr \<Rightarrow> list_heap \<Rightarrow> list_heap" where
  "list_add_tail new head h = list_add_between new (prv h head) head h"

definition list_del_between :: "addr \<Rightarrow> addr \<Rightarrow> list_heap \<Rightarrow> list_heap" where
  "list_del_between prev next h = set_next prev next (set_prev next prev h)"

definition list_del :: "addr \<Rightarrow> list_heap \<Rightarrow> list_heap" where
  "list_del entry h =
     set_prev entry NULL (set_next entry NULL (list_del_between (prv h entry) (nxt h entry) h))"

definition list_del_init :: "addr \<Rightarrow> list_heap \<Rightarrow> list_heap" where
  "list_del_init entry h = INIT_LIST_HEAD entry (list_del_between (prv h entry) (nxt h entry) h)"

definition list_move :: "addr \<Rightarrow> addr \<Rightarrow> list_heap \<Rightarrow> list_heap" where
  "list_move entry head h = list_add entry head (list_del_between (prv h entry) (nxt h entry) h)"

definition list_move_tail :: "addr \<Rightarrow> addr \<Rightarrow> list_heap \<Rightarrow> list_heap" where
  "list_move_tail entry head h =
     list_add_tail entry head (list_del_between (prv h entry) (nxt h entry) h)"

definition list_empty :: "addr \<Rightarrow> list_heap \<Rightarrow> bool" where
  "list_empty head h \<longleftrightarrow> nxt h head = head"

definition list_splice_at :: "addr \<Rightarrow> addr \<Rightarrow> list_heap \<Rightarrow> list_heap" where
  "list_splice_at l head h =
     (let first = nxt h l; last = prv h l; at = nxt h head in
      set_prev at last (set_next last at (set_next head first (set_prev first head h))))"

definition list_splice :: "addr \<Rightarrow> addr \<Rightarrow> list_heap \<Rightarrow> list_heap" where
  "list_splice l head h = (if \<not> list_empty l h then list_splice_at l head h else h)"

definition list_splice_init :: "addr \<Rightarrow> addr \<Rightarrow> list_heap \<Rightarrow> list_heap" where
  "list_splice_init l head h =
     (if \<not> list_empty l h then INIT_LIST_HEAD l (list_splice_at l head h) else h)"

text \<open>
  \<^verbatim>\<open>list_for_each\<close>: the nodes visited from \<open>p\<close> until the head is reached again, at most
  \<open>fuel\<close> of them; \<open>None\<close> stands for a traversal that has not come back to the head.
\<close>

fun list_for_each :: "nat \<Rightarrow> list_heap \<Rightarrow> addr \<Rightarrow> addr \<Rightarrow> addr list option" where
  "list_for_each 0 h head p = (if p = head then Some [] else None)"
| "list_for_each (Suc n) h head p =
     (if p = head then Some [] else map_option (Cons p) (list_for_each n h head (nxt h p)))"

subsection \<open>Abstraction to lists\<close>

fun linked :: "list_heap \<Rightarrow> addr list \<Rightarrow> bool" where
  "linked h (a # b # r) \<longleftrightarrow> nxt h a = b \<and> prv h b = a \<and> linked h (b # r)"
| "linked h _ \<longleftrightarrow> True"

definition dll :: "list_heap \<Rightarrow> addr \<Rightarrow> addr list \<Rightarrow> bool" where
  "dll h hp xs \<longleftrightarrow> distinct (hp # xs) \<and> linked h (hp # xs @ [hp])"

lemmas heap_defs = set_next_def set_prev_def INIT_LIST_HEAD_def list_add_between_def
  list_del_between_def

lemma linked_append: "linked h (xs @ a # ys) \<longleftrightarrow> linked h (xs @ [a]) \<and> linked h (a # ys)"
proof (induction xs)
  case (Cons x xs)
  then show ?case by (cases xs) auto
qed (cases ys, auto)

lemma linked_cong:
  "(\<And>a. a \<in> set (butlast zs) \<Longrightarrow> nxt h a = nxt h' a) \<Longrightarrow>
   (\<And>a. a \<in> set (tl zs) \<Longrightarrow> prv h a = prv h' a) \<Longrightarrow> linked h zs = linked h' zs"
proof (induction h zs rule: linked.induct)
  case (1 h a b r)
  have "linked h (b # r) = linked h' (b # r)"
  proof (rule "1.IH")
    show "nxt h x = nxt h' x" if "x \<in> set (butlast (b # r))" for x
      using that "1.prems"(1) [of x] by simp
    show "prv h x = prv h' x" if "x \<in> set (tl (b # r))" for x
      using that "1.prems"(2) [of x] by (cases r) auto
  qed
  then show ?case using "1.prems"(1) [of a] "1.prems"(2) [of b] by auto
qed auto

text \<open>A list is untouched by assignments to nodes that are not on it.\<close>

lemma dll_frame:
  assumes "dll h hp xs" and "\<And>a. a \<in> set (hp # xs) \<Longrightarrow> nxt h' a = nxt h a \<and> prv h' a = prv h a"
  shows "dll h' hp xs"
proof -
  have "linked h (hp # xs @ [hp]) = linked h' (hp # xs @ [hp])"
  proof (rule linked_cong)
    show "nxt h a = nxt h' a" if "a \<in> set (butlast (hp # xs @ [hp]))" for a
      using that assms(2) [of a] by (auto simp: butlast_append)
    show "prv h a = prv h' a" if "a \<in> set (tl (hp # xs @ [hp]))" for a
      using that assms(2) [of a] by auto
  qed
  with assms(1) show ?thesis by (simp add: dll_def)
qed

lemma dll_empty: "dll (INIT_LIST_HEAD p h) p []"
  by (simp add: dll_def heap_defs)

lemma dll_ends:
  assumes "dll h hp xs"
  shows "nxt h hp = (case xs of [] \<Rightarrow> hp | x # _ \<Rightarrow> x)"
    and "prv h hp = (if xs = [] then hp else last xs)"
proof -
  show "nxt h hp = (case xs of [] \<Rightarrow> hp | x # _ \<Rightarrow> x)"
    using assms by (cases xs) (auto simp: dll_def)
  show "prv h hp = (if xs = [] then hp else last xs)"
  proof (cases xs rule: rev_cases)
    case Nil
    with assms show ?thesis by (simp add: dll_def)
  next
    case (snoc ys y)
    with assms linked_append [of h "hp # ys" y "[hp]"] show ?thesis
      by (simp add: dll_def)
  qed
qed

lemma dll_split:
  assumes "dll h hp (xs @ n # ys)"
  shows "prv h n = last (hp # xs)" and "nxt h n = List.hd (ys @ [hp])"
proof -
  have l: "linked h ((hp # xs) @ n # (ys @ [hp]))"
    using assms by (simp add: dll_def)
  then have "linked h ((hp # xs) @ [n])" and r: "linked h (n # ys @ [hp])"
    by (simp_all only: linked_append [of h "hp # xs" n "ys @ [hp]"])
  then have "linked h (butlast (hp # xs) @ last (hp # xs) # [n])"
    by (metis append_butlast_last_id append.assoc append_Cons append_Nil list.distinct(1))
  then have "linked h (last (hp # xs) # [n])"
    using linked_append by blast
  then show "prv h n = last (hp # xs)" by simp
  from r show "nxt h n = List.hd (ys @ [hp])" by (cases ys) auto
qed

text \<open>
  Linking and unlinking between two neighbours \<open>p\<close> and \<open>q\<close> of a chain.  The side condition says
  that \<open>p\<close> occurs once as the source of a forward link and \<open>q\<close> once as the target of one, which
  holds of a circular list although its head stands at both ends of the chain.
\<close>

definition neighbours :: "addr list \<Rightarrow> addr \<Rightarrow> addr \<Rightarrow> addr list \<Rightarrow> bool" where
  "neighbours A p q B \<longleftrightarrow>
     p \<notin> set A \<and> p \<notin> set (butlast (q # B)) \<and> q \<notin> set B \<and> q \<notin> set (tl (A @ [p]))"

lemma linked_parts:
  assumes "linked h (A @ [p])" and "linked h (q # B)" and "neighbours A p q B"
    and "\<And>a. a \<noteq> p \<Longrightarrow> a \<in> set (A @ p # q # B) \<Longrightarrow> nxt h' a = nxt h a"
    and "\<And>a. a \<noteq> q \<Longrightarrow> a \<in> set (A @ p # q # B) \<Longrightarrow> prv h' a = prv h a"
  shows "linked h' (A @ [p])" and "linked h' (q # B)"
proof -
  have "linked h (A @ [p]) = linked h' (A @ [p])"
  proof (rule linked_cong)
    show "nxt h a = nxt h' a" if "a \<in> set (butlast (A @ [p]))" for a
      using that assms(3) assms(4) [of a] by (cases "a = p") (auto simp: neighbours_def)
    show "prv h a = prv h' a" if "a \<in> set (tl (A @ [p]))" for a
      using that assms(3) assms(5) [of a] by (cases A; cases "a = q") (auto simp: neighbours_def)
  qed
  with assms(1) show "linked h' (A @ [p])" by simp
  have "linked h (q # B) = linked h' (q # B)"
  proof (rule linked_cong)
    show "nxt h a = nxt h' a" if "a \<in> set (butlast (q # B))" for a
    proof -
      from that have "a \<in> set (q # B)" by (rule in_set_butlastD)
      with that assms(3) assms(4) [of a] show ?thesis by (cases "a = p") (auto simp: neighbours_def)
    qed
    show "prv h a = prv h' a" if "a \<in> set (tl (q # B))" for a
      using that assms(3) assms(5) [of a] by (cases "a = q") (auto simp: neighbours_def)
  qed
  with assms(2) show "linked h' (q # B)" by simp
qed

lemma linked_insert:
  assumes "linked h (A @ p # q # B)" and nb: "neighbours A p q B"
    and n: "n \<notin> set (A @ p # q # B)"
  shows "linked (list_add_between n p q h) (A @ p # n # q # B)"
proof -
  let ?h = "list_add_between n p q h"
  have "linked h (A @ [p])" "linked h (q # B)"
    using assms(1) linked_append [of h A p "q # B"] by auto
  then have "linked ?h (A @ [p])" "linked ?h (q # B)"
    by (rule linked_parts [OF _ _ nb]; use n in \<open>auto simp: heap_defs\<close>)+
  moreover have "nxt ?h p = n" "prv ?h n = p" "nxt ?h n = q" "prv ?h q = n"
    using n by (auto simp: heap_defs)
  ultimately show ?thesis
    using linked_append [of ?h A p "n # q # B"] by simp
qed

lemma linked_remove:
  assumes "linked h (A @ p # n # q # B)" and nb: "neighbours A p q B"
  shows "linked (list_del_between p q h) (A @ p # q # B)"
proof -
  let ?h = "list_del_between p q h"
  have "linked h (A @ [p])" "linked h (q # B)"
    using assms(1) linked_append [of h A p "n # q # B"] by auto
  then have "linked ?h (A @ [p])" "linked ?h (q # B)"
    by (rule linked_parts [OF _ _ nb]; auto simp: heap_defs)+
  moreover have "nxt ?h p = q" "prv ?h q = p"
    by (auto simp: heap_defs)
  ultimately show ?thesis
    using linked_append [of ?h A p "q # B"] by simp
qed

text \<open>The chain of a circular list, cut at any position.\<close>

lemma dll_cut:
  assumes "distinct (hp # xs @ ys)"
  obtains A B where "hp # xs = A @ [last (hp # xs)]" and "ys @ [hp] = List.hd (ys @ [hp]) # B"
    and "neighbours A (last (hp # xs)) (List.hd (ys @ [hp])) B"
proof
  let ?A = "butlast (hp # xs)" and ?B = "tl (ys @ [hp])"
  show A: "hp # xs = ?A @ [last (hp # xs)]" by (simp del: butlast.simps last.simps)
  show B: "ys @ [hp] = List.hd (ys @ [hp]) # ?B" by simp
  have "distinct (?A @ [last (hp # xs)])"
    using A assms by (metis append_Cons distinct_append)
  then have "last (hp # xs) \<notin> set ?A" unfolding distinct_append by simp
  moreover have "last (hp # xs) \<notin> set ys"
    using assms last_in_set [of "hp # xs"] by auto
  moreover have "List.hd (ys @ [hp]) \<notin> set ?B" "List.hd (ys @ [hp]) \<notin> set xs"
    using assms by (cases ys; auto)+
  ultimately show "neighbours ?A (last (hp # xs)) (List.hd (ys @ [hp])) ?B"
    unfolding neighbours_def A [symmetric] B [symmetric] by (simp add: butlast_append)
qed

lemma dll_add_between:
  assumes dll: "dll h hp (xs @ ys)" and fresh: "n \<notin> set (hp # xs @ ys)"
  shows "dll (list_add_between n (last (hp # xs)) (List.hd (ys @ [hp])) h) hp (xs @ n # ys)"
proof -
  have dist: "distinct (hp # xs @ ys)" using dll by (simp add: dll_def)
  then obtain A B where A: "hp # xs = A @ [last (hp # xs)]"
    and B: "ys @ [hp] = List.hd (ys @ [hp]) # B"
    and nb: "neighbours A (last (hp # xs)) (List.hd (ys @ [hp])) B"
    by (rule dll_cut)
  have eq: "A @ last (hp # xs) # zs = hp # xs @ zs" for zs
    using A by (metis append.assoc append_Cons append_Nil)
  have "linked h (A @ last (hp # xs) # List.hd (ys @ [hp]) # B)"
    unfolding eq B [symmetric] using dll by (simp add: dll_def)
  from linked_insert [OF this nb, of n]
  have "linked (list_add_between n (last (hp # xs)) (List.hd (ys @ [hp])) h)
          (hp # xs @ n # ys @ [hp])"
    unfolding eq B [symmetric] using fresh by auto
  then show ?thesis using dist fresh by (auto simp: dll_def)
qed

lemma dll_add: "dll h hp xs \<Longrightarrow> n \<notin> set (hp # xs) \<Longrightarrow> dll (list_add n hp h) hp (n # xs)"
  using dll_add_between [of h hp "[]" xs n] dll_ends(1) [of h hp xs]
  by (cases xs) (auto simp: list_add_def)

lemma dll_add_tail: "dll h hp xs \<Longrightarrow> n \<notin> set (hp # xs) \<Longrightarrow> dll (list_add_tail n hp h) hp (xs @ [n])"
  using dll_add_between [of h hp xs "[]" n] dll_ends(2) [of h hp xs]
  by (auto simp: list_add_tail_def)

text \<open>Unlinking a node of a list.\<close>

lemma dll_del_between:
  assumes dll: "dll h hp (xs @ n # ys)"
  shows "dll (list_del_between (prv h n) (nxt h n) h) hp (xs @ ys)"
proof -
  have dist: "distinct (hp # xs @ ys)" using dll by (simp add: dll_def)
  then obtain A B where A: "hp # xs = A @ [last (hp # xs)]"
    and B: "ys @ [hp] = List.hd (ys @ [hp]) # B"
    and nb: "neighbours A (last (hp # xs)) (List.hd (ys @ [hp])) B"
    by (rule dll_cut)
  have eq: "A @ last (hp # xs) # zs = hp # xs @ zs" for zs
    using A by (metis append.assoc append_Cons append_Nil)
  have "linked h (A @ last (hp # xs) # n # List.hd (ys @ [hp]) # B)"
    unfolding eq B [symmetric] using dll by (simp add: dll_def)
  from linked_remove [OF this nb]
  show ?thesis
    unfolding eq B [symmetric] dll_split [OF dll] using dist by (auto simp: dll_def)
qed

lemma dll_del_init:
  assumes dll: "dll h hp (xs @ n # ys)"
  shows "dll (list_del_init n h) hp (xs @ ys)" and "dll (list_del_init n h) n []"
proof -
  have "n \<notin> set (hp # xs @ ys)" using dll by (auto simp: dll_def)
  then show "dll (list_del_init n h) hp (xs @ ys)"
    by (intro dll_frame [OF dll_del_between [OF dll]])
      (auto simp: list_del_init_def INIT_LIST_HEAD_def set_next_def set_prev_def)
  show "dll (list_del_init n h) n []"
    by (simp add: list_del_init_def dll_empty)
qed

lemma dll_traverse:
  assumes "dll h hp xs" and "length xs \<le> fuel"
  shows "list_for_each fuel h hp (nxt h hp) = Some xs"
proof -
  have "linked h (a # xs @ [hp]) \<Longrightarrow> hp \<notin> set xs \<Longrightarrow> length xs \<le> fuel \<Longrightarrow>
        list_for_each fuel h hp (nxt h a) = Some xs" for a
  proof (induction xs arbitrary: a fuel)
    case Nil
    then show ?case by (cases fuel) auto
  next
    case (Cons x xs)
    then show ?case by (cases fuel) auto
  qed
  with assms show ?thesis by (simp add: dll_def)
qed


subsection \<open>The interface the queues rely on\<close>

text \<open>
  What the users of list.h rely on: \<open>repr h hp xs\<close> says that the list with head \<open>hp\<close> holds \<open>xs\<close>;
  taking a node out and appending a node have the expected effect on their own list and leave
  every list that shares no node with them as it is.
\<close>

locale intrusive_list =
  fixes repr :: "'h \<Rightarrow> addr \<Rightarrow> addr list \<Rightarrow> bool"
    and add_tail :: "addr \<Rightarrow> addr \<Rightarrow> 'h \<Rightarrow> 'h"
    and del :: "addr \<Rightarrow> 'h \<Rightarrow> 'h"
    and first :: "addr \<Rightarrow> 'h \<Rightarrow> addr"
  assumes add_repr: "repr h hp xs \<Longrightarrow> n \<notin> set (hp # xs) \<Longrightarrow> repr (add_tail n hp h) hp (xs @ [n])"
    and add_frame: "repr h hp xs \<Longrightarrow> repr h hq ys \<Longrightarrow> set (hp # xs) \<inter> set (hq # ys) = {} \<Longrightarrow>
                    n \<notin> set (hq # ys) \<Longrightarrow> repr (add_tail n hp h) hq ys"
    and del_repr: "repr h hp (xs @ n # ys) \<Longrightarrow> repr (del n h) hp (xs @ ys)"
    and del_frame: "repr h hp (xs @ n # ys) \<Longrightarrow> repr h hq zs \<Longrightarrow>
                    set (hp # xs @ n # ys) \<inter> set (hq # zs) = {} \<Longrightarrow> repr (del n h) hq zs"
    and first_repr: "repr h hp (x # xs) \<Longrightarrow> first hp h = x"
begin

lemma pop_push:
  assumes "repr h hp (x # xs)" and "repr h hq ys"
    and "set (hp # x # xs) \<inter> set (hq # ys) = {}" and "x \<notin> set (hp # xs)"
  shows "repr (add_tail x hq (del (first hp h) h)) hp xs"
    and "repr (add_tail x hq (del (first hp h) h)) hq (ys @ [x])"
proof -
  have f: "first hp h = x" using assms(1) by (rule first_repr)
  have p: "repr (del x h) hp xs" using del_repr [of h hp "[]" x xs] assms(1) by simp
  have q: "repr (del x h) hq ys" using del_frame [of h hp "[]" x xs hq ys] assms by simp
  show "repr (add_tail x hq (del (first hp h) h)) hq (ys @ [x])"
    using add_repr [OF q, of x] assms(3) f by auto
  show "repr (add_tail x hq (del (first hp h) h)) hp xs"
    using add_frame [OF q p, of x] assms(3,4) f by auto
qed

lemma pop_push_others:
  assumes "repr h hp (x # xs)" and "repr h hq ys" and "repr h hr zs"
    and "set (hp # x # xs) \<inter> set (hq # ys) = {}" and "set (hr # zs) \<inter> set (hp # x # xs) = {}"
    and "set (hr # zs) \<inter> set (hq # ys) = {}"
  shows "repr (add_tail x hq (del (first hp h) h)) hr zs"
proof -
  have f: "first hp h = x" using assms(1) by (rule first_repr)
  have "repr (del x h) hr zs" "repr (del x h) hq ys"
    using del_frame [of h hp "[]" x xs] assms by (auto simp: Int_commute)
  with add_frame [of "del x h" hq ys hr zs x] assms(5,6) f show ?thesis
    by (auto simp: Int_commute)
qed

end

lemma dll_add_tail_frame:
  assumes "dll h hp xs" "dll h hq ys" "set (hp # xs) \<inter> set (hq # ys) = {}" "n \<notin> set (hq # ys)"
  shows "dll (list_add_tail n hp h) hq ys"
proof (rule dll_frame [OF assms(2)])
  have "prv h hp \<in> set (hp # xs)"
    using dll_ends(2) [OF assms(1)] by auto
  then show "nxt (list_add_tail n hp h) a = nxt h a \<and> prv (list_add_tail n hp h) a = prv h a"
    if "a \<in> set (hq # ys)" for a
    using that assms(3,4) by (auto simp: list_add_tail_def heap_defs)
qed

lemma dll_del_init_frame:
  assumes "dll h hp (xs @ n # ys)" "dll h hq zs" "set (hp # xs @ n # ys) \<inter> set (hq # zs) = {}"
  shows "dll (list_del_init n h) hq zs"
proof (rule dll_frame [OF assms(2)])
  have "prv h n \<in> set (hp # xs)" "nxt h n \<in> set (ys @ [hp])"
    using dll_split [OF assms(1)] by (cases ys; auto)+
  then show "nxt (list_del_init n h) a = nxt h a \<and> prv (list_del_init n h) a = prv h a"
    if "a \<in> set (hq # zs)" for a
    using that assms(3) by (auto simp: list_del_init_def heap_defs)
qed

interpretation dl: intrusive_list dll list_add_tail list_del_init "\<lambda>p h. nxt h p"
proof unfold_locales
  show "nxt h hp = x" if "dll h hp (x # xs)" for h hp x xs
    using dll_ends(1) [OF that] by simp
qed (fact dll_add_tail dll_add_tail_frame dll_del_init(1) dll_del_init_frame)+

lemma dll_distinct_head: "dll h hp (x # xs) \<Longrightarrow> x \<notin> set (hp # xs)"
  by (auto simp: dll_def)

text \<open>
  C31: taking the first node of one queue with \<^verbatim>\<open>list_del_init\<close> and appending it to another with
  \<^verbatim>\<open>list_add_tail\<close> (the two halves of every hand-over between task queues) moves exactly that
  node at the pointer level: a traversal of the first queue then visits the remaining nodes in
  order, a traversal of the second the old nodes followed by the moved one, and a third queue is
  visited as before.
\<close>

theorem queue_handover:
  assumes "dll h hp (x # xs)" and "dll h hq ys" and "dll h hr zs"
    and "set (hp # x # xs) \<inter> set (hq # ys) = {}" and "set (hr # zs) \<inter> set (hp # x # xs) = {}"
    and "set (hr # zs) \<inter> set (hq # ys) = {}"
    and "h' = list_add_tail x hq (list_del_init (nxt h hp) h)"
    and "Suc (length xs + length ys + length zs) \<le> fuel"
  shows "list_for_each fuel h' hp (nxt h' hp) = Some xs \<and>
         list_for_each fuel h' hq (nxt h' hq) = Some (ys @ [x]) \<and>
         list_for_each fuel h' hr (nxt h' hr) = Some zs"
proof -
  have "dll h' hp xs" "dll h' hq (ys @ [x])"
    using dl.pop_push [OF assms(1,2,4) dll_distinct_head [OF assms(1)]] assms(7) by auto
  moreover have "dll h' hr zs"
    using dl.pop_push_others [OF assms(1-6)] assms(7) by simp
  ultimately show ?thesis
    using assms(8) by (simp add: dll_traverse)
qed

definition heap0 :: list_heap where
  "heap0 = \<lparr>nxt = (\<lambda>a. a), prv = (\<lambda>a. a)\<rparr>"

definition example_heap :: list_heap where
  "example_heap = list_add_tail 13 2 (list_add_tail 12 1 (list_add_tail 11 1 heap0))"

theorem queue_handover_witness:
  "list_for_each 5 (list_add_tail 11 2 (list_del_init 11 example_heap)) 1
     (nxt (list_add_tail 11 2 (list_del_init 11 example_heap)) 1) = Some [12] \<and>
   list_for_each 5 (list_add_tail 11 2 (list_del_init 11 example_heap)) 2
     (nxt (list_add_tail 11 2 (list_del_init 11 example_heap)) 2) = Some [13, 11]"
proof -
  have "dll example_heap 1 [11, 12]" "dll example_heap 2 [13]" "dll example_heap 3 []"
    and f: "nxt example_heap 1 = 11"
    by (auto simp: example_heap_def heap0_def dll_def list_add_tail_def heap_defs)
  from queue_handover [OF this(1-3), where fuel = 5, OF _ _ _ refl] f show ?thesis by simp
qed

end
