(* ===== verification/Pfs_Timer.thy ===== *)
theory Pfs_Timer
  imports Pfs_Prelude
begin

section \<open>Delayed callbacks (network/pfs_timer.c)\<close>

text \<open>
  Timers live in a pool \<^verbatim>\<open>delay_home\<close> and, once armed, on the list \<^verbatim>\<open>delay_active\<close>; both are
  intrusive lists, here lists of node numbers.  \<open>scan_delay_task\<close> is called by the main loop
  with the current time.  It returns the callbacks it runs, in order; none of the four callbacks
  the program registers (\<open>timer_cb\<close>) touches the timer lists.  Results of \<^verbatim>\<open>malloc\<close> and
  \<^verbatim>\<open>time(NULL)\<close> are arguments.
\<close>

subsection \<open>State and operations\<close>

datatype timer_cb = Cb_report_2_nm | Cb_refresh_maxfreedisk | Cb_sync_fd | Cb_real_rm_file

record t_pfs_timer =
  t_cb :: timer_cb
  t_args :: string
  next_time :: int
  span_time :: int
  t_loop :: int

record timer_state =
  delay_home :: "nat list"
  delay_active :: "nat list"
  timers :: "nat \<Rightarrow> t_pfs_timer"

abbreviation default_max :: nat where "default_max \<equiv> 1024"

definition zero_timer :: t_pfs_timer where
  "zero_timer = \<lparr>t_cb = Cb_report_2_nm, t_args = [], next_time = 0, span_time = 0, t_loop = 0\<rparr>"

text \<open>The block of \<^verbatim>\<open>default_max\<close> timers is numbered from \<open>0\<close>; each is added at the front.\<close>

definition delay_task_init :: "bool \<Rightarrow> int \<times> timer_state" where
  "delay_task_init malloc_ok =
     (if \<not> malloc_ok
      then (-1, \<lparr>delay_home = [], delay_active = [], timers = (\<lambda>_. zero_timer)\<rparr>)
      else (0, \<lparr>delay_home = fold (\<lambda>i l. i # l) [0..<default_max] [], delay_active = [],
                timers = (\<lambda>_. zero_timer)\<rparr>))"

definition arm_timer :: "nat \<Rightarrow> int \<Rightarrow> t_pfs_timer \<Rightarrow> timer_state \<Rightarrow> timer_state" where
  "arm_timer i cur t st =
     st\<lparr>timers := (timers st)(i := t\<lparr>next_time := cur + span_time t\<rparr>),
        delay_active := i # delay_active st\<rparr>"

text \<open>A timer is taken from the pool, or allocated (\<open>malloc\<close>) when the pool is empty.\<close>

definition add_to_delay_task ::
  "nat option \<Rightarrow> int \<Rightarrow> t_pfs_timer \<Rightarrow> timer_state \<Rightarrow> int \<times> timer_state" where
  "add_to_delay_task malloc cur t st =
     (case delay_home st of
        i # r \<Rightarrow> (0, arm_timer i cur t (st\<lparr>delay_home := r\<rparr>))
      | [] \<Rightarrow> (case malloc of
           None \<Rightarrow> (-1, st)
         | Some i \<Rightarrow> (0, arm_timer i cur t st)))"

definition scan_one ::
  "int \<Rightarrow> nat \<Rightarrow> (timer_cb \<times> string) list \<times> timer_state \<Rightarrow> (timer_cb \<times> string) list \<times> timer_state"
where
  "scan_one cur i = (\<lambda>(calls, st).
     let t = timers st i in
     if cur > next_time t then
       let calls' = calls @ [(t_cb t, t_args t)] in
       if t_loop t \<noteq> 0
       then (calls', st\<lparr>timers := (timers st)(i := t\<lparr>next_time := cur + span_time t\<rparr>)\<rparr>)
       else (calls', st\<lparr>delay_active := remove1 i (delay_active st),
                        delay_home := i # delay_home st\<rparr>)
     else (calls, st))"

definition scan_delay_task ::
  "int \<Rightarrow> timer_state \<Rightarrow> (timer_cb \<times> string) list \<times> timer_state" where
  "scan_delay_task cur st = fold (scan_one cur) (delay_active st) ([], st)"

subsection \<open>The effect of a scan\<close>

definition due :: "int \<Rightarrow> timer_state \<Rightarrow> nat \<Rightarrow> bool" where
  "due cur st i \<longleftrightarrow> next_time (timers st i) < cur"

definition once :: "timer_state \<Rightarrow> nat \<Rightarrow> bool" where
  "once st i \<longleftrightarrow> t_loop (timers st i) = 0"

definition call_of :: "timer_state \<Rightarrow> nat \<Rightarrow> timer_cb \<times> string" where
  "call_of st i = (t_cb (timers st i), t_args (timers st i))"

definition rearm :: "int \<Rightarrow> timer_state \<Rightarrow> nat set \<Rightarrow> nat \<Rightarrow> t_pfs_timer" where
  "rearm cur st S i =
     (let t = timers st i in
      if i \<in> S \<and> due cur st i \<and> \<not> once st i then t\<lparr>next_time := cur + span_time t\<rparr> else t)"

definition timers_ok :: "timer_state \<Rightarrow> bool" where
  "timers_ok st \<longleftrightarrow> distinct (delay_home st @ delay_active st)"

lemma scan_fold:
  assumes "distinct (xs @ ys)" and "S \<inter> set ys = {}"
  shows "fold (scan_one cur) ys (calls, st\<lparr>delay_active := xs @ ys, delay_home := hs, timers := rearm cur st S\<rparr>)
    = (calls @ map (call_of st) (filter (due cur st) ys),
       st\<lparr>delay_active := xs @ filter (\<lambda>i. \<not> (due cur st i \<and> once st i)) ys,
          delay_home := rev (filter (\<lambda>i. due cur st i \<and> once st i) ys) @ hs,
          timers := rearm cur st (S \<union> set ys)\<rparr>)"
  using assms
proof (induction ys arbitrary: xs hs calls S)
  case (Cons y ys)
  let ?st = "\<lambda>xs hs S. st\<lparr>delay_active := xs, delay_home := hs, timers := rearm cur st S\<rparr>"
  have t: "rearm cur st S y = timers st y"
    using Cons.prems by (simp add: rearm_def)
  have cong: "rearm cur st (insert y S) = rearm cur st S" if "\<not> due cur st y \<or> once st y"
    using that by (auto simp: rearm_def Let_def)
  have upd: "(rearm cur st S)(y := (timers st y)\<lparr>next_time := cur + span_time (timers st y)\<rparr>)
      = rearm cur st (insert y S)" if "due cur st y" "\<not> once st y"
    using that by (auto simp: rearm_def Let_def)
  have one: "scan_one cur y (calls, ?st (xs @ y # ys) hs S) =
     (if due cur st y then
        if once st y then (calls @ [call_of st y], ?st (xs @ ys) (y # hs) (insert y S))
        else (calls @ [call_of st y], ?st (xs @ y # ys) hs (insert y S))
      else (calls, ?st (xs @ y # ys) hs (insert y S)))"
    using Cons.prems t cong upd
    by (auto simp: scan_one_def due_def once_def call_of_def remove1_append Let_def)
  show ?case
  proof (cases "due cur st y \<and> once st y")
    case True
    then show ?thesis
      using Cons.IH [of xs "insert y S" "calls @ [call_of st y]" "y # hs"] Cons.prems one by auto
  next
    case False
    then show ?thesis
      using Cons.IH [of "xs @ [y]" "insert y S"] Cons.prems one by auto
  qed
qed simp

lemma scan_delay_task_effect:
  assumes "timers_ok st"
  shows "scan_delay_task cur st =
    (map (call_of st) (filter (due cur st) (delay_active st)),
     st\<lparr>delay_active := filter (\<lambda>i. \<not> (due cur st i \<and> once st i)) (delay_active st),
        delay_home := rev (filter (\<lambda>i. due cur st i \<and> once st i) (delay_active st)) @ delay_home st,
        timers := rearm cur st (set (delay_active st))\<rparr>)"
proof -
  have "st\<lparr>delay_active := [] @ delay_active st, delay_home := delay_home st,
           timers := rearm cur st {}\<rparr> = st"
    by (cases st) (simp add: rearm_def [abs_def] Let_def)
  with scan_fold [of "[]" "delay_active st" "{}" cur "[]" st "delay_home st"] assms
  show ?thesis by (simp add: scan_delay_task_def timers_ok_def)
qed

lemma timers_ok_init: "timers_ok (snd (delay_task_init m))"
proof -
  have "fold (\<lambda>i l. i # l) [0..<n] [] = rev [0..<n]" for n
    by (simp add: fold_Cons_rev)
  then show ?thesis by (simp add: delay_task_init_def timers_ok_def)
qed

lemma timers_ok_add [pfs_inv]:
  "timers_ok st \<Longrightarrow>
   (\<And>i. m = Some i \<Longrightarrow> i \<notin> set (delay_home st) \<union> set (delay_active st)) \<Longrightarrow>
   timers_ok (snd (add_to_delay_task m cur t st))"
  by (auto simp: timers_ok_def add_to_delay_task_def arm_timer_def split: list.splits option.splits)

lemma timers_ok_scan [pfs_inv]: "timers_ok st \<Longrightarrow> timers_ok (snd (scan_delay_task cur st))"
  by (auto simp: scan_delay_task_effect) (auto simp: timers_ok_def)

subsection \<open>Runs of the main loop\<close>

text \<open>Successive scans at the given times; the result pairs each time with the callbacks run.\<close>

fun scan_run :: "timer_state \<Rightarrow> int list \<Rightarrow> (int \<times> (timer_cb \<times> string)) list" where
  "scan_run st [] = []"
| "scan_run st (cur # ts) =
     (case scan_delay_task cur st of (calls, st') \<Rightarrow> map (Pair cur) calls @ scan_run st' ts)"

text \<open>The times at which a timer alone would fire.\<close>

fun fire_times :: "int \<Rightarrow> int \<Rightarrow> bool \<Rightarrow> int list \<Rightarrow> int list" where
  "fire_times nx span lp [] = []"
| "fire_times nx span lp (cur # ts) =
     (if nx < cur then cur # (if lp then fire_times (cur + span) span lp ts else [])
      else fire_times nx span lp ts)"

definition only_call :: "timer_state \<Rightarrow> nat \<Rightarrow> bool" where
  "only_call st i \<longleftrightarrow>
     (\<forall>j. j \<in> set (delay_active st) \<longrightarrow> call_of st j = call_of st i \<longrightarrow> j = i)"

lemma call_of_rearm: "call_of (st\<lparr>timers := rearm cur st S\<rparr>) = call_of st"
  by (auto simp: call_of_def rearm_def Let_def)

lemma filter_calls:
  assumes "distinct xs" "i \<in> set xs" "\<forall>j \<in> set xs. call_of st j = call_of st i \<longrightarrow> j = i"
  shows "filter (\<lambda>c. c = call_of st i) (map (call_of st) (filter P xs))
         = (if P i then [call_of st i] else [])"
  using assms
proof (induction xs)
  case (Cons x xs)
  show ?case
  proof (cases "x = i")
    case True
    then have "filter (\<lambda>c. c = call_of st i) (map (call_of st) (filter P xs)) = []"
      using Cons.prems by (auto simp: filter_empty_conv)
    with True show ?thesis by simp
  next
    case False
    then show ?thesis using Cons by auto
  qed
qed simp

lemma scan_run_absent:
  assumes "timers_ok st" "c \<notin> call_of st ` set (delay_active st)"
  shows "filter (\<lambda>p. snd p = c) (scan_run st ts) = []"
  using assms
proof (induction ts arbitrary: st)
  case (Cons cur ts)
  let ?st = "snd (scan_delay_task cur st)"
  have "c \<notin> call_of ?st ` set (delay_active ?st)"
    using Cons.prems by (auto simp: scan_delay_task_effect call_of_def rearm_def Let_def split: if_splits)
  then have "filter (\<lambda>p. snd p = c) (scan_run ?st ts) = []"
    using Cons.IH timers_ok_scan [OF Cons.prems(1)] by blast
  moreover have "filter (\<lambda>p. snd p = c) (map (Pair cur) (fst (scan_delay_task cur st))) = []"
    using Cons.prems by (auto simp: scan_delay_task_effect filter_empty_conv)
  ultimately show ?case by (simp add: case_prod_beta)
qed simp

lemma scan_run_fires:
  assumes "timers_ok st" "i \<in> set (delay_active st)" "only_call st i"
  shows "map fst (filter (\<lambda>p. snd p = call_of st i) (scan_run st ts))
         = fire_times (next_time (timers st i)) (span_time (timers st i))
             (t_loop (timers st i) \<noteq> 0) ts"
  using assms
proof (induction ts arbitrary: st)
  case (Cons cur ts)
  let ?st = "snd (scan_delay_task cur st)" and ?t = "timers st i"
  let ?F = "\<lambda>l. map fst (filter (\<lambda>p. snd p = call_of st i) l)"
  note eff = scan_delay_task_effect [OF Cons.prems(1)]
  have ok: "timers_ok ?st" using timers_ok_scan [OF Cons.prems(1)] .
  have calls: "call_of ?st j = call_of st j" for j
    by (simp add: eff call_of_def rearm_def Let_def)
  have now: "?F (map (Pair cur) (fst (scan_delay_task cur st))) = (if due cur st i then [cur] else [])"
  proof -
    have "?F (map (Pair cur) cs) = map (\<lambda>_. cur) (filter (\<lambda>c. c = call_of st i) cs)" for cs
      by (induction cs) auto
    moreover have "filter (\<lambda>c. c = call_of st i)
          (map (call_of st) (filter (due cur st) (delay_active st)))
        = (if due cur st i then [call_of st i] else [])"
      using Cons.prems filter_calls [of "delay_active st" i st]
      by (simp add: timers_ok_def only_call_def)
    ultimately show ?thesis by (simp add: eff del: map_map)
  qed
  have split: "?F (scan_run st (cur # ts))
      = (if due cur st i then [cur] else []) @ ?F (scan_run ?st ts)"
    using now by (simp add: case_prod_beta)
  show ?case
  proof (cases "due cur st i \<and> once st i")
    case True
    then have "call_of st i \<notin> call_of ?st ` set (delay_active ?st)"
    proof -
      have "set (delay_active ?st) \<subseteq> set (delay_active st) - {i}"
        using True by (auto simp: eff)
      with Cons.prems(3) calls show ?thesis by (fastforce simp: only_call_def)
    qed
    then have "?F (scan_run ?st ts) = []"
      using scan_run_absent [OF ok] by simp
    with split True show ?thesis by (simp add: due_def once_def)
  next
    case False
    then have "i \<in> set (delay_active ?st)" "only_call ?st i"
      using Cons.prems calls by (auto simp: eff only_call_def)
    moreover have "timers ?st i
        = (if due cur st i then ?t\<lparr>next_time := cur + span_time ?t\<rparr> else ?t)"
      using False Cons.prems by (auto simp: eff rearm_def Let_def)
    ultimately show ?thesis
      using Cons.IH [OF ok] split False calls by (auto simp: due_def once_def)
  qed
qed simp


lemma fire_times_once: "fire_times nx span False ts = take 1 (filter (\<lambda>c. nx < c) ts)"
  by (induction ts) auto

definition example_timer :: t_pfs_timer where
  "example_timer = zero_timer\<lparr>t_cb := Cb_sync_fd, span_time := 10, t_loop := 1\<rparr>"


end
