(* ===== verification/Pfs_Task.thy ===== *)
theory Pfs_Task
  imports Pfs_Timer Pfs_Dlist
begin

section \<open>Task queues (lib/pfs_task.h, network/pfs_task.c)\<close>

text \<open>
  A task is handed from thread to thread by moving it between the queues \<^verbatim>\<open>pfstask[status]\<close>,
  each under its own mutex with a counter \<^verbatim>\<open>taskcount[status]\<close>.  A queue is the list of its
  nodes (\<open>Pfs_Dlist\<close> justifies this step); the counters are 32-bit words.  The result of
  \<^verbatim>\<open>pthread_mutex_timedlock\<close> on each mutex, of \<^verbatim>\<open>malloc\<close> and of \<^verbatim>\<open>time(NULL)\<close> are arguments.
  The node \<^verbatim>\<open>userlist\<close> of a task is initialised and unlinked but never put on a list, so it has
  no counterpart.
\<close>

subsection \<open>Data\<close>

abbreviation OPER_IDLE :: uint8 where "OPER_IDLE \<equiv> 0"
abbreviation OPER_GET_REQ :: uint8 where "OPER_GET_REQ \<equiv> 1"
abbreviation OPER_GET_RSP :: uint8 where "OPER_GET_RSP \<equiv> 2"
abbreviation OPER_SYNC_2_DOMAIN :: uint8 where "OPER_SYNC_2_DOMAIN \<equiv> 3"
abbreviation OPER_PUT_REQ :: uint8 where "OPER_PUT_REQ \<equiv> 4"
abbreviation OPER_PUT_RSP :: uint8 where "OPER_PUT_RSP \<equiv> 5"
abbreviation OPER_UP_REQ :: uint8 where "OPER_UP_REQ \<equiv> 6"
abbreviation OPER_FROM_POSS :: uint8 where "OPER_FROM_POSS \<equiv> 7"

abbreviation TASK_ADDFILE :: uint8 where "TASK_ADDFILE \<equiv> 48"
abbreviation TASK_DELFILE :: uint8 where "TASK_DELFILE \<equiv> 49"

abbreviation TASK_Q_DELAY :: int where "TASK_Q_DELAY \<equiv> 0"
abbreviation TASK_Q_WAIT :: int where "TASK_Q_WAIT \<equiv> 1"
abbreviation TASK_Q_WAIT_TMP :: int where "TASK_Q_WAIT_TMP \<equiv> 2"
abbreviation TASK_Q_WAIT_SYNC :: int where "TASK_Q_WAIT_SYNC \<equiv> 3"
abbreviation TASK_Q_WAIT_SYNC_IP :: int where "TASK_Q_WAIT_SYNC_IP \<equiv> 4"
abbreviation TASK_Q_WAIT_SYNC_DIR :: int where "TASK_Q_WAIT_SYNC_DIR \<equiv> 5"
abbreviation TASK_Q_WAIT_SYNC_DIR_TMP :: int where "TASK_Q_WAIT_SYNC_DIR_TMP \<equiv> 6"
abbreviation TASK_Q_SYNC_DIR :: int where "TASK_Q_SYNC_DIR \<equiv> 7"
abbreviation TASK_Q_SYNC_DIR_TMP :: int where "TASK_Q_SYNC_DIR_TMP \<equiv> 8"
abbreviation TASK_Q_RUN :: int where "TASK_Q_RUN \<equiv> 9"
abbreviation TASK_Q_FIN :: int where "TASK_Q_FIN \<equiv> 10"
abbreviation TASK_Q_CLEAN :: int where "TASK_Q_CLEAN \<equiv> 11"
abbreviation TASK_Q_HOME :: int where "TASK_Q_HOME \<equiv> 12"
abbreviation TASK_Q_SEND :: int where "TASK_Q_SEND \<equiv> 13"
abbreviation TASK_Q_RECV :: int where "TASK_Q_RECV \<equiv> 14"
abbreviation TASK_Q_SYNC_POSS :: int where "TASK_Q_SYNC_POSS \<equiv> 15"
abbreviation TASK_Q_SYNC_DIR_REQ :: int where "TASK_Q_SYNC_DIR_REQ \<equiv> 16"
abbreviation TASK_Q_SYNC_DIR_RSP :: int where "TASK_Q_SYNC_DIR_RSP \<equiv> 17"
abbreviation TASK_Q_UNKNOWN :: int where "TASK_Q_UNKNOWN \<equiv> 18"

abbreviation OVER_UNKNOWN :: uint8 where "OVER_UNKNOWN \<equiv> 0"
abbreviation OVER_OK :: uint8 where "OVER_OK \<equiv> 1"
abbreviation OVER_E_MD5 :: uint8 where "OVER_E_MD5 \<equiv> 2"
abbreviation OVER_PEERERR :: uint8 where "OVER_PEERERR \<equiv> 3"
abbreviation TASK_EXIST :: uint8 where "TASK_EXIST \<equiv> 4"
abbreviation OVER_PEERCLOSE :: uint8 where "OVER_PEERCLOSE \<equiv> 5"
abbreviation OVER_UNLINK :: uint8 where "OVER_UNLINK \<equiv> 6"
abbreviation OVER_TIMEOUT :: uint8 where "OVER_TIMEOUT \<equiv> 7"
abbreviation OVER_MALLOC :: uint8 where "OVER_MALLOC \<equiv> 8"
abbreviation OVER_SRC_DOMAIN_ERR :: uint8 where "OVER_SRC_DOMAIN_ERR \<equiv> 9"
abbreviation OVER_SRC_IP_OFFLINE :: uint8 where "OVER_SRC_IP_OFFLINE \<equiv> 10"
abbreviation OVER_E_OPEN_SRCFILE :: uint8 where "OVER_E_OPEN_SRCFILE \<equiv> 11"
abbreviation OVER_E_OPEN_DSTFILE :: uint8 where "OVER_E_OPEN_DSTFILE \<equiv> 12"
abbreviation OVER_E_IP :: uint8 where "OVER_E_IP \<equiv> 13"
abbreviation OVER_E_TYPE :: uint8 where "OVER_E_TYPE \<equiv> 14"
abbreviation OVER_SEND_LEN :: uint8 where "OVER_SEND_LEN \<equiv> 15"
abbreviation OVER_TOO_MANY_TRY :: uint8 where "OVER_TOO_MANY_TRY \<equiv> 16"
abbreviation OVER_DISK_ERR :: uint8 where "OVER_DISK_ERR \<equiv> 17"
abbreviation OVER_UP_ERR :: uint8 where "OVER_UP_ERR \<equiv> 18"
abbreviation OVER_LAST :: uint8 where "OVER_LAST \<equiv> 19"

abbreviation GET_TASK_Q_ERR :: int where "GET_TASK_Q_ERR \<equiv> -1"
abbreviation GET_TASK_Q_OK :: int where "GET_TASK_Q_OK \<equiv> 0"
abbreviation GET_TASK_Q_NOTHING :: int where "GET_TASK_Q_NOTHING \<equiv> 1"

abbreviation TASK_DST :: uint8 where "TASK_DST \<equiv> 0"
abbreviation TASK_SOURCE :: uint8 where "TASK_SOURCE \<equiv> 1"
abbreviation TASK_SRC_NOSYNC :: uint8 where "TASK_SRC_NOSYNC \<equiv> 2"
abbreviation TASK_SYNC_ISDIR :: uint8 where "TASK_SYNC_ISDIR \<equiv> 3"
abbreviation TASK_SYNC_VOSS_FILE :: uint8 where "TASK_SYNC_VOSS_FILE \<equiv> 4"

record t_task_base =
  b_filename :: string
  b_tmpfile :: string
  b_retfile :: string
  b_filemd5 :: bytes
  b_dstip :: uint32
  b_starttime :: int
  b_mtime :: int
  b_fsize :: int
  b_type :: uint8
  b_retry :: uint8
  b_overstatus :: uint8

record t_task_sub =
  u_processlen :: int
  u_lastlen :: int
  u_lasttime :: int
  u_starttime :: int
  u_endtime :: int
  u_peerip :: string
  u_oper_type :: uint8
  u_need_sync :: uint8
  u_sync_dir :: uint8

record t_pfs_taskinfo =
  ti_base :: t_task_base
  ti_sub :: t_task_sub
  ti_user :: "nat option"

record t_pfs_tasklist =
  tk_task :: t_pfs_taskinfo
  tk_last :: int
  tk_status :: int

definition zero_base :: t_task_base where
  "zero_base = \<lparr>b_filename = [], b_tmpfile = [], b_retfile = [], b_filemd5 = replicate 17 0,
     b_dstip = 0, b_starttime = 0, b_mtime = 0, b_fsize = 0, b_type = 0, b_retry = 0,
     b_overstatus = 0\<rparr>"

definition zero_sub :: t_task_sub where
  "zero_sub = \<lparr>u_processlen = 0, u_lastlen = 0, u_lasttime = 0, u_starttime = 0, u_endtime = 0,
     u_peerip = [], u_oper_type = 0, u_need_sync = 0, u_sync_dir = 0\<rparr>"

definition zero_taskinfo :: t_pfs_taskinfo where
  "zero_taskinfo = \<lparr>ti_base = zero_base, ti_sub = zero_sub, ti_user = None\<rparr>"

record task_state =
  tasks :: "nat \<Rightarrow> t_pfs_tasklist"
  pfstask :: "int \<Rightarrow> nat list"
  taskcount :: "int \<Rightarrow> uint32"

abbreviation EDEADLK :: int where "EDEADLK \<equiv> 35"

definition status_ok :: "int \<Rightarrow> bool" where
  "status_ok status \<longleftrightarrow> \<not> (status < 0 \<or> status \<ge> TASK_Q_UNKNOWN)"

subsection \<open>Operations\<close>

definition atomic_inc :: "int \<Rightarrow> task_state \<Rightarrow> task_state" where
  "atomic_inc q s = s\<lparr>taskcount := (taskcount s)(q := taskcount s q + 1)\<rparr>"

definition atomic_dec :: "int \<Rightarrow> task_state \<Rightarrow> task_state" where
  "atomic_dec q s = s\<lparr>taskcount := (taskcount s)(q := taskcount s q - 1)\<rparr>"

text \<open>\<^verbatim>\<open>list_del_init(&(task->llist))\<close>: the node leaves the queue it is on, if any.\<close>

definition unlink_task :: "nat \<Rightarrow> task_state \<Rightarrow> task_state" where
  "unlink_task t s = s\<lparr>pfstask := (\<lambda>q. remove1 t (pfstask s q))\<rparr>"

definition link_tail :: "nat \<Rightarrow> int \<Rightarrow> task_state \<Rightarrow> task_state" where
  "link_tail t q s = s\<lparr>pfstask := (pfstask s)(q := pfstask s q @ [t])\<rparr>"

definition upd_task :: "nat \<Rightarrow> (t_pfs_tasklist \<Rightarrow> t_pfs_tasklist) \<Rightarrow> task_state \<Rightarrow> task_state" where
  "upd_task t f s = s\<lparr>tasks := (tasks s)(t := f (tasks s t))\<rparr>"

definition pfs_get_task ::
  "(int \<Rightarrow> int) \<Rightarrow> nat option \<Rightarrow> int \<Rightarrow> int \<Rightarrow> task_state \<Rightarrow> int \<times> nat option \<times> task_state" where
  "pfs_get_task lock malloc now status s =
     (if \<not> status_ok status then (GET_TASK_Q_ERR, None, s)
      else if lock status \<noteq> 0 \<and> lock status \<noteq> EDEADLK then (lock status, None, s)
      else case pfstask s status of
          t # _ \<Rightarrow>
            (GET_TASK_Q_OK, Some t,
             unlink_task t (upd_task t (\<lambda>k. k\<lparr>tk_status := TASK_Q_UNKNOWN\<rparr>) (atomic_dec status s)))
        | [] \<Rightarrow>
            if status = TASK_Q_HOME then
              (case malloc of
                 None \<Rightarrow> (GET_TASK_Q_NOTHING, None, s)
               | Some t \<Rightarrow> (GET_TASK_Q_OK, Some t,
                   upd_task t (\<lambda>k. k\<lparr>tk_last := now, tk_status := TASK_Q_UNKNOWN\<rparr>) s))
            else (GET_TASK_Q_NOTHING, None, s))"

definition pfs_set_task ::
  "(int \<Rightarrow> int) \<Rightarrow> int \<Rightarrow> nat \<Rightarrow> int \<Rightarrow> task_state \<Rightarrow> int \<times> task_state" where
  "pfs_set_task lock now t status s =
     (if \<not> status_ok status then (-1, s)
      else if lock status \<noteq> 0 \<and> lock status \<noteq> EDEADLK then (-1, s)
      else (lock status,
        atomic_inc status
          (upd_task t (\<lambda>k. k\<lparr>tk_status := status,
                              tk_last := if tk_last k > 0 then now else tk_last k\<rparr>)
            (link_tail t status (unlink_task t s)))))"

text \<open>
  \<^verbatim>\<open>list_for_each_entry_safe_l\<close> with a callback that removes at most the node it is given
  visits the nodes that were on the queue at the start.
\<close>

definition scan_some_status_task ::
  "(int \<Rightarrow> int) \<Rightarrow> int \<Rightarrow> (nat \<Rightarrow> task_state \<Rightarrow> task_state) \<Rightarrow> task_state \<Rightarrow> int \<times> task_state" where
  "scan_some_status_task lock status cb s =
     (if \<not> status_ok status then (-1, s)
      else if lock status \<noteq> 0 \<and> lock status \<noteq> EDEADLK then (-1, s)
      else (lock status, fold cb (pfstask s status) s))"

definition get_task_count :: "int \<Rightarrow> task_state \<Rightarrow> int" where
  "get_task_count status s = (if \<not> status_ok status then -1 else sint (taskcount s status))"

text \<open>The values \<^verbatim>\<open>report_2_nm\<close> sends, with their rule numbers, and the total it logs.\<close>

definition report_2_nm :: "int \<Rightarrow> task_state \<Rightarrow> (int \<times> int) list \<times> int" where
  "report_2_nm rulebase s =
     (map (\<lambda>i. (rulebase + i, get_task_count i s)) [TASK_Q_DELAY..TASK_Q_HOME - 1],
      sum_list (map (\<lambda>i. get_task_count i s) [TASK_Q_DELAY..TASK_Q_HOME - 1]))"

definition check_task_timeout ::
  "(int \<Rightarrow> int) \<Rightarrow> int \<Rightarrow> int \<Rightarrow> nat \<Rightarrow> task_state \<Rightarrow> task_state" where
  "check_task_timeout lock task_timeout cur t s =
     (let base = ti_base (tk_task (tasks s t));
          s1 = (if cur - b_starttime base > task_timeout
                then upd_task t (\<lambda>k. k\<lparr>tk_task := (tk_task k)\<lparr>ti_base :=
                       base\<lparr>b_overstatus := OVER_TIMEOUT\<rparr>\<rparr>\<rparr>) s
                else s)
      in if b_overstatus (ti_base (tk_task (tasks s1 t))) = OVER_TIMEOUT
         then snd (pfs_set_task lock cur t TASK_Q_HOME
                (upd_task t (\<lambda>k. k\<lparr>tk_task := zero_taskinfo\<rparr>)
                  (atomic_dec (tk_status (tasks s1 t)) (unlink_task t s1))))
         else s1)"

definition do_timeout_task ::
  "(int \<Rightarrow> int) \<Rightarrow> int \<Rightarrow> int \<Rightarrow> int \<Rightarrow> task_state \<Rightarrow> task_state" where
  "do_timeout_task lock check_timeout task_timeout cur s =
     (if check_timeout = 0 then s
      else fold (\<lambda>i s. snd (scan_some_status_task lock i (check_task_timeout lock task_timeout cur) s))
             [TASK_Q_DELAY..TASK_Q_CLEAN - 1] s)"

text \<open>
  \<^verbatim>\<open>init_task_info\<close>: the queues are emptied one by one (\<open>minit i\<close> is the result of
  \<^verbatim>\<open>pthread_mutex_init\<close>), then a block of 2048 zeroed tasks, numbered from \<open>0\<close>, is put into the
  queue \<^verbatim>\<open>TASK_Q_HOME\<close>, the counters are cleared and the reporting timer is armed.
\<close>

fun init_queues :: "(int \<Rightarrow> int) \<Rightarrow> int list \<Rightarrow> task_state \<Rightarrow> bool \<times> task_state" where
  "init_queues minit [] s = (True, s)"
| "init_queues minit (i # is) s =
     (let s' = s\<lparr>pfstask := (pfstask s)(i := [])\<rparr> in
      if minit i \<noteq> 0 then (False, s') else init_queues minit is s')"

abbreviation TASK_BLOCK :: nat where "TASK_BLOCK \<equiv> 2048"

definition home_task :: t_pfs_tasklist where
  "home_task = \<lparr>tk_task = zero_taskinfo, tk_last = -1, tk_status = TASK_Q_HOME\<rparr>"

definition init_task_info ::
  "(int \<Rightarrow> int) \<Rightarrow> bool \<Rightarrow> nat option \<Rightarrow> int \<Rightarrow> task_state \<Rightarrow> timer_state
     \<Rightarrow> int \<times> task_state \<times> timer_state" where
  "init_task_info minit malloc_ok timer_malloc now s tm =
     (case init_queues minit [0..TASK_Q_UNKNOWN - 1] s of (ok, s1) \<Rightarrow>
        if \<not> ok then (-1, s1, tm)
        else if \<not> malloc_ok then (-1, s1, tm)
        else
          let s2 = fold (\<lambda>i s. s\<lparr>tasks := (tasks s)(i := home_task),
                        pfstask := (pfstask s)(TASK_Q_HOME := i # pfstask s TASK_Q_HOME)\<rparr>)
                     [0..<TASK_BLOCK] s1;
              s3 = s2\<lparr>taskcount := (\<lambda>_. 0)\<rparr>;
              timer = zero_timer\<lparr>t_loop := 1, span_time := 60, t_cb := Cb_report_2_nm\<rparr>
          in (0, s3, snd (add_to_delay_task timer_malloc now timer tm)))"

subsection \<open>The invariant of the queues\<close>

text \<open>
  \<open>H\<close> is the set of tasks that threads hold between a \<^verbatim>\<open>pfs_get_task\<close> and the next
  \<^verbatim>\<open>pfs_set_task\<close>.  A queued task knows its queue and is held by nobody; the counters agree
  with the queues, except that the 2048 initial tasks were never counted.
\<close>

definition home_offset :: "int \<Rightarrow> uint32" where
  "home_offset q = (if q = TASK_Q_HOME then of_nat TASK_BLOCK else 0)"

definition queue_ok :: "nat set \<Rightarrow> task_state \<Rightarrow> int \<Rightarrow> bool" where
  "queue_ok H s q \<longleftrightarrow> distinct (pfstask s q) \<and>
     (\<forall>t \<in> set (pfstask s q). tk_status (tasks s t) = q \<and> t \<notin> H) \<and>
     taskcount s q = of_nat (length (pfstask s q)) - home_offset q"

definition tasks_ok :: "nat set \<Rightarrow> task_state \<Rightarrow> bool" where
  "tasks_ok H s \<longleftrightarrow> (\<forall>q. status_ok q \<longrightarrow> queue_ok H s q)"

lemmas task_defs = atomic_inc_def atomic_dec_def unlink_task_def link_tail_def upd_task_def

lemma status_ok_HOME [simp]: "status_ok TASK_Q_HOME"
  by (simp add: status_ok_def)

lemma tasks_ok_status:
  "tasks_ok H s \<Longrightarrow> status_ok q \<Longrightarrow> t \<in> set (pfstask s q) \<Longrightarrow> tk_status (tasks s t) = q"
  by (auto simp: tasks_ok_def queue_ok_def)

lemma tasks_ok_elsewhere:
  "tasks_ok H s \<Longrightarrow> status_ok q \<Longrightarrow> status_ok q' \<Longrightarrow> t \<in> set (pfstask s q) \<Longrightarrow> q' \<noteq> q \<Longrightarrow>
   t \<notin> set (pfstask s q')"
  using tasks_ok_status by blast

text \<open>Taking a queued task out of its queue, and putting a task that is nowhere into one.\<close>

lemma tasks_ok_take:
  assumes ok: "tasks_ok H s" and q: "status_ok q" and t: "t \<in> set (pfstask s q)"
  shows "tasks_ok (insert t H) (unlink_task t (upd_task t f (atomic_dec q s)))"
  unfolding tasks_ok_def
proof (intro allI impI)
  fix q' assume q': "status_ok q'"
  have Q: "queue_ok H s q'" using ok q' by (simp add: tasks_ok_def)
  show "queue_ok (insert t H) (unlink_task t (upd_task t f (atomic_dec q s))) q'"
  proof (cases "q' = q")
    case True
    then have "length (pfstask s q) = Suc (length (remove1 t (pfstask s q)))"
      using t length_pos_if_in_set [OF t] by (auto simp: length_remove1)
    with True Q show ?thesis
      by (auto simp: queue_ok_def task_defs)
  next
    case False
    then have "t \<notin> set (pfstask s q')" using tasks_ok_elsewhere ok q q' t by blast
    with False Q show ?thesis by (auto simp: queue_ok_def task_defs remove1_idem)
  qed
qed

lemma tasks_ok_put:
  assumes ok: "tasks_ok H s" and q: "status_ok q"
    and t: "\<And>q. status_ok q \<Longrightarrow> t \<notin> set (pfstask s q)" and f: "\<And>k. tk_status (f k) = q"
  shows "tasks_ok (H - {t}) (atomic_inc q (upd_task t f (link_tail t q (unlink_task t s))))"
  unfolding tasks_ok_def
proof (intro allI impI)
  fix q' assume q': "status_ok q'"
  have "queue_ok H s q'" "t \<notin> set (pfstask s q')" using ok q' t by (simp_all add: tasks_ok_def)
  then show "queue_ok (H - {t}) (atomic_inc q (upd_task t f (link_tail t q (unlink_task t s)))) q'"
    using f by (auto simp: queue_ok_def task_defs remove1_idem)
qed

lemma tasks_ok_weaken: "tasks_ok H s \<Longrightarrow> H' \<subseteq> H \<Longrightarrow> tasks_ok H' s"
  unfolding tasks_ok_def queue_ok_def by blast

lemma tasks_ok_held: "tasks_ok H s \<Longrightarrow> t \<in> H \<Longrightarrow> status_ok q \<Longrightarrow> t \<notin> set (pfstask s q)"
  by (auto simp: tasks_ok_def queue_ok_def)

lemma tasks_ok_upd:
  "tasks_ok H s \<Longrightarrow> (\<And>q. status_ok q \<Longrightarrow> t \<notin> set (pfstask s q)) \<Longrightarrow> tasks_ok H (upd_task t f s)"
  by (auto simp: tasks_ok_def queue_ok_def upd_task_def)

lemma tasks_ok_set [pfs_inv]:
  assumes "tasks_ok H s" and "\<And>q. status_ok q \<Longrightarrow> t \<notin> set (pfstask s q)"
    and "pfs_set_task lock now t q s = (ret, s')"
  shows "tasks_ok (if ret = -1 then H else H - {t}) s'"
proof (cases "status_ok q \<and> (lock q = 0 \<or> lock q = EDEADLK)")
  case True
  with assms tasks_ok_put [OF assms(1) _ assms(2)] show ?thesis
    by (auto simp: pfs_set_task_def)
next
  case False
  with assms show ?thesis by (auto simp: pfs_set_task_def split: if_splits)
qed

lemma tasks_ok_get [pfs_inv]:
  assumes ok: "tasks_ok H s" and m: "\<And>t q. m = Some t \<Longrightarrow> status_ok q \<Longrightarrow> t \<notin> set (pfstask s q)"
    and get: "pfs_get_task lock m now q s = (ret, r, s')"
  shows "tasks_ok (H \<union> set_option r) s'"
proof (cases "pfstask s q")
  case (Cons t ts)
  then show ?thesis
    using get ok tasks_ok_take [OF ok, of q t] by (auto simp: pfs_get_task_def split: if_splits)
next
  case Nil
  show ?thesis
  proof (cases r)
    case None
    with Nil get ok show ?thesis
      by (auto simp: pfs_get_task_def split: if_splits option.splits)
  next
    case (Some t)
    with Nil get have "m = Some t" "s' = upd_task t (\<lambda>k. k\<lparr>tk_last := now, tk_status := TASK_Q_UNKNOWN\<rparr>) s"
      by (auto simp: pfs_get_task_def split: if_splits option.splits)
    moreover from this have "tasks_ok H s'" using tasks_ok_upd ok m by blast
    ultimately show ?thesis using Some m
      by (auto simp: tasks_ok_def queue_ok_def upd_task_def)
  qed
qed

subsection \<open>Timeouts\<close>

definition expired :: "int \<Rightarrow> int \<Rightarrow> task_state \<Rightarrow> nat \<Rightarrow> bool" where
  "expired task_timeout cur s t \<longleftrightarrow>
     (let base = ti_base (tk_task (tasks s t)) in
      cur - b_starttime base > task_timeout \<or> b_overstatus base = OVER_TIMEOUT)"

lemma check_task_timeout_eq:
  "check_task_timeout lock to cur t s =
     (if expired to cur s t
      then snd (pfs_set_task lock cur t TASK_Q_HOME
             (unlink_task t (upd_task t (\<lambda>k. k\<lparr>tk_task := zero_taskinfo\<rparr>)
                (atomic_dec (tk_status (tasks s t)) s))))
      else s)"
  by (cases s) (auto simp: check_task_timeout_def expired_def Let_def task_defs)

lemma tasks_ok_timeout_one [pfs_inv]:
  assumes ok: "tasks_ok H s" and q: "status_ok q" and t: "t \<in> set (pfstask s q)"
  shows "tasks_ok H (check_task_timeout lock to cur t s)"
proof (cases "expired to cur s t")
  case True
  let ?s = "unlink_task t (upd_task t (\<lambda>k. k\<lparr>tk_task := zero_taskinfo\<rparr>) (atomic_dec q s))"
  have st: "tk_status (tasks s t) = q" using tasks_ok_status ok q t by blast
  have ok1: "tasks_ok (insert t H) ?s" using tasks_ok_take [OF ok q t] .
  obtain ret s' where set: "pfs_set_task lock cur t TASK_Q_HOME ?s = (ret, s')" by force
  have "t \<notin> H" using ok q t by (auto simp: tasks_ok_def queue_ok_def)
  have "tasks_ok (if ret = -1 then insert t H else insert t H - {t}) s'"
    using tasks_ok_set [OF ok1 tasks_ok_held [OF ok1] set] by simp
  then have "tasks_ok H s'"
    by (rule tasks_ok_weaken) (use \<open>t \<notin> H\<close> in auto)
  with True set st show ?thesis by (simp add: check_task_timeout_eq)
qed (use ok in \<open>simp add: check_task_timeout_eq\<close>)

lemma timeout_one_keeps:
  assumes "q \<noteq> TASK_Q_HOME"
  shows "set (pfstask s q) - {t} \<subseteq> set (pfstask (check_task_timeout lock to cur t s) q)"
proof
  fix x assume "x \<in> set (pfstask s q) - {t}"
  then show "x \<in> set (pfstask (check_task_timeout lock to cur t s) q)"
    using assms by (simp add: check_task_timeout_eq pfs_set_task_def task_defs in_set_remove1)
qed

lemma tasks_ok_scan:
  assumes "tasks_ok H s" "status_ok q" "q \<noteq> TASK_Q_HOME" "set ts \<subseteq> set (pfstask s q)" "distinct ts"
  shows "tasks_ok H (fold (check_task_timeout lock to cur) ts s)"
  using assms
proof (induction ts arbitrary: s)
  case (Cons t ts)
  have "tasks_ok H (check_task_timeout lock to cur t s)"
    using tasks_ok_timeout_one Cons.prems by auto
  moreover have "set ts \<subseteq> set (pfstask (check_task_timeout lock to cur t s) q)"
    using timeout_one_keeps [OF Cons.prems(3), of s t lock to cur] Cons.prems(4,5) by auto
  ultimately show ?case using Cons by simp
qed simp

lemma tasks_ok_do_timeout [pfs_inv]:
  assumes "tasks_ok H s"
  shows "tasks_ok H (do_timeout_task lock ct to cur s)"
proof -
  let ?f = "\<lambda>i s. snd (scan_some_status_task lock i (check_task_timeout lock to cur) s)"
  have one: "tasks_ok H (?f i s)" if "tasks_ok H s" "i < TASK_Q_HOME" for i s
    using that tasks_ok_scan [OF that(1), of i "pfstask s i"]
    by (auto simp: scan_some_status_task_def tasks_ok_def queue_ok_def)
  have "tasks_ok H (fold ?f is s)" if "\<forall>i \<in> set is. i < TASK_Q_HOME" for "is"
    using that assms by (induction "is" arbitrary: s) (auto intro: one)
  then show ?thesis using assms by (simp add: do_timeout_task_def)
qed

text \<open>The effect of a scan when the mutexes can be taken.\<close>

definition locks_free :: "(int \<Rightarrow> int) \<Rightarrow> bool" where
  "locks_free lock \<longleftrightarrow> (\<forall>q. lock q = 0 \<or> lock q = EDEADLK)"

definition reset_task :: "int \<Rightarrow> t_pfs_tasklist \<Rightarrow> t_pfs_tasklist" where
  "reset_task cur k = k\<lparr>tk_task := zero_taskinfo, tk_status := TASK_Q_HOME,
     tk_last := if tk_last k > 0 then cur else tk_last k\<rparr>"

lemma timeout_one_effect:
  fixes to cur :: int
  assumes ok: "tasks_ok H s" and q: "status_ok q" "q \<noteq> TASK_Q_HOME" and t: "t \<in> set (pfstask s q)"
    and lock: "locks_free lock"
  defines "s' \<equiv> check_task_timeout lock to cur t s"
  shows "pfstask s' q = filter (\<lambda>x. \<not> (x = t \<and> expired to cur s x)) (pfstask s q)"
    and "pfstask s' TASK_Q_HOME = pfstask s TASK_Q_HOME @ (if expired to cur s t then [t] else [])"
    and "\<And>r. status_ok r \<Longrightarrow> r \<noteq> q \<Longrightarrow> r \<noteq> TASK_Q_HOME \<Longrightarrow> pfstask s' r = pfstask s r"
    and "tasks s' = (tasks s)(t := if expired to cur s t then reset_task cur (tasks s t) else tasks s t)"
proof -
  have el: "t \<notin> set (pfstask s r)" if "status_ok r" "r \<noteq> q" for r
    using tasks_ok_elsewhere ok q t that by blast
  have d: "distinct (pfstask s q)" using ok q by (simp add: tasks_ok_def queue_ok_def)
  have l: "lock TASK_Q_HOME = 0 \<or> lock TASK_Q_HOME = EDEADLK"
    using lock by (simp add: locks_free_def)
  have set: "pfs_set_task lock cur t TASK_Q_HOME = (\<lambda>s. (lock TASK_Q_HOME,
        atomic_inc TASK_Q_HOME
          (upd_task t (\<lambda>k. k\<lparr>tk_status := TASK_Q_HOME,
                              tk_last := if tk_last k > 0 then cur else tk_last k\<rparr>)
            (link_tail t TASK_Q_HOME (unlink_task t s)))))"
    using l by (auto simp: pfs_set_task_def)
  have f: "filter (\<lambda>x. \<not> (x = t \<and> expired to cur s x)) (pfstask s q)
      = (if expired to cur s t then remove1 t (pfstask s q) else pfstask s q)"
    using d by (auto simp: distinct_remove1_removeAll removeAll_filter_not_eq intro!: filter_cong)
  show "pfstask s' q = filter (\<lambda>x. \<not> (x = t \<and> expired to cur s x)) (pfstask s q)"
    unfolding f s'_def using d q
    by (simp add: check_task_timeout_eq set task_defs distinct_remove1_removeAll remove1_idem)
  show "pfstask s' TASK_Q_HOME = pfstask s TASK_Q_HOME @ (if expired to cur s t then [t] else [])"
    unfolding s'_def using el [of TASK_Q_HOME] q
    by (simp add: check_task_timeout_eq set task_defs remove1_idem)
  show "pfstask s' r = pfstask s r" if "status_ok r" "r \<noteq> q" "r \<noteq> TASK_Q_HOME" for r
    unfolding s'_def using el [of r] that
    by (simp add: check_task_timeout_eq set task_defs remove1_idem)
  show "tasks s' = (tasks s)(t := if expired to cur s t then reset_task cur (tasks s t) else tasks s t)"
    unfolding s'_def
    by (auto simp: check_task_timeout_eq set task_defs reset_task_def)
qed

lemma timeout_scan_effect:
  assumes "tasks_ok H s" and "status_ok q" "q \<noteq> TASK_Q_HOME" and "locks_free lock"
    and "set ts \<subseteq> set (pfstask s q)" "distinct ts"
  shows "let s' = fold (check_task_timeout lock to cur) ts s in
     pfstask s' q = filter (\<lambda>x. \<not> (x \<in> set ts \<and> expired to cur s x)) (pfstask s q) \<and>
     pfstask s' TASK_Q_HOME = pfstask s TASK_Q_HOME @ filter (expired to cur s) ts \<and>
     (\<forall>r. status_ok r \<longrightarrow> r \<noteq> q \<longrightarrow> r \<noteq> TASK_Q_HOME \<longrightarrow> pfstask s' r = pfstask s r) \<and>
     tasks s' = (\<lambda>t. if t \<in> set ts \<and> expired to cur s t then reset_task cur (tasks s t) else tasks s t)"
  using assms
proof (induction ts arbitrary: s)
  case (Cons t ts)
  let ?s = "check_task_timeout lock to cur t s"
  have t: "t \<in> set (pfstask s q)" using Cons.prems by simp
  note one = timeout_one_effect [OF Cons.prems(1-3) t Cons.prems(4), where to = to and cur = cur]
  have ex: "expired to cur ?s x = expired to cur s x" if "x \<noteq> t" for x
    using that by (simp add: expired_def one(4))
  have fx: "filter (expired to cur ?s) ts = filter (expired to cur s) ts"
    by (rule filter_cong [OF refl]) (metis ex Cons.prems(6) distinct.simps(2))
  have IH: "let s' = fold (check_task_timeout lock to cur) ts ?s in
     pfstask s' q = filter (\<lambda>x. \<not> (x \<in> set ts \<and> expired to cur ?s x)) (pfstask ?s q) \<and>
     pfstask s' TASK_Q_HOME = pfstask ?s TASK_Q_HOME @ filter (expired to cur ?s) ts \<and>
     (\<forall>r. status_ok r \<longrightarrow> r \<noteq> q \<longrightarrow> r \<noteq> TASK_Q_HOME \<longrightarrow> pfstask s' r = pfstask ?s r) \<and>
     tasks s' = (\<lambda>x. if x \<in> set ts \<and> expired to cur ?s x then reset_task cur (tasks ?s x) else tasks ?s x)"
  proof (rule Cons.IH)
    show "tasks_ok H ?s" using tasks_ok_timeout_one Cons.prems(1,2) t by blast
    show "set ts \<subseteq> set (pfstask ?s q)"
      using timeout_one_keeps [OF Cons.prems(3), of s t lock to cur] Cons.prems(5,6) by auto
  qed (use Cons.prems in auto)
  have "filter (\<lambda>x. \<not> (x \<in> set ts \<and> expired to cur ?s x)) (pfstask ?s q)
      = filter (\<lambda>x. \<not> (x \<in> set (t # ts) \<and> expired to cur s x)) (pfstask s q)"
    unfolding one(1) filter_filter
    by (rule filter_cong [OF refl]) (metis ex Cons.prems(6) distinct.simps(2) set_ConsD list.set_intros)
  moreover have "(\<lambda>x. if x \<in> set ts \<and> expired to cur ?s x then reset_task cur (tasks ?s x) else tasks ?s x)
      = (\<lambda>x. if x \<in> set (t # ts) \<and> expired to cur s x then reset_task cur (tasks s x) else tasks s x)"
    using ex Cons.prems(6) by (auto simp: one(4))
  ultimately show ?case
    using IH one(2) fx one(3) by (simp add: Let_def)
qed simp

lemma timeout_queues_effect:
  assumes "tasks_ok H s" and "locks_free lock" and "distinct is"
    and "\<And>i. i \<in> set is \<Longrightarrow> status_ok i \<and> i \<noteq> TASK_Q_HOME"
  shows "let s' = fold (\<lambda>i s. snd (scan_some_status_task lock i (check_task_timeout lock to cur) s)) is s in
     (\<forall>i \<in> set is. pfstask s' i = filter (\<lambda>t. \<not> expired to cur s t) (pfstask s i)) \<and>
     pfstask s' TASK_Q_HOME =
       pfstask s TASK_Q_HOME @ concat (map (\<lambda>i. filter (expired to cur s) (pfstask s i)) is) \<and>
     (\<forall>r. status_ok r \<longrightarrow> r \<notin> set is \<longrightarrow> r \<noteq> TASK_Q_HOME \<longrightarrow> pfstask s' r = pfstask s r) \<and>
     tasks s' = (\<lambda>t. if (\<exists>i \<in> set is. t \<in> set (pfstask s i)) \<and> expired to cur s t
                     then reset_task cur (tasks s t) else tasks s t)"
  using assms
proof (induction "is" arbitrary: s)
  case (Cons i "is")
  let ?f = "\<lambda>i s. snd (scan_some_status_task lock i (check_task_timeout lock to cur) s)"
  let ?s = "fold (check_task_timeout lock to cur) (pfstask s i) s"
  have i: "status_ok i" "i \<noteq> TASK_Q_HOME" and d: "distinct (pfstask s i)"
    using Cons.prems(1,4) by (auto simp: tasks_ok_def queue_ok_def)
  have f: "?f i s = ?s"
    using i Cons.prems(2) by (auto simp: scan_some_status_task_def locks_free_def)
  note one = timeout_scan_effect [OF Cons.prems(1) i Cons.prems(2) subset_refl d, of to cur,
      unfolded Let_def]
  have ok: "tasks_ok H ?s" using tasks_ok_scan [OF Cons.prems(1) i subset_refl d] .
  have el: "t \<notin> set (pfstask s i)" if "t \<in> set (pfstask s j)" "j \<in> set is" for t j
    using tasks_ok_elsewhere [OF Cons.prems(1), of j i t] that Cons.prems(3,4) by auto
  have ex: "expired to cur ?s t = expired to cur s t" if "t \<notin> set (pfstask s i)" for t
    using that one by (simp add: expired_def)
  have same: "pfstask ?s j = pfstask s j" if "j \<in> set is" for j
    using that one Cons.prems(3,4) by auto
  have flt: "filter (\<lambda>t. P (expired to cur ?s t)) (pfstask s j) = filter (\<lambda>t. P (expired to cur s t)) (pfstask s j)"
    if "j \<in> set is" for j P
    by (rule filter_cong [OF refl]) (simp add: ex el [OF _ that])
  have cc: "concat (map (\<lambda>i. filter (expired to cur ?s) (pfstask ?s i)) is)
      = concat (map (\<lambda>i. filter (expired to cur s) (pfstask s i)) is)"
    using same flt [of _ "\<lambda>b. b"] by (intro arg_cong [of _ _ concat] map_cong) auto
  have tk: "(\<lambda>t. if (\<exists>j \<in> set is. t \<in> set (pfstask s j)) \<and> expired to cur ?s t
             then reset_task cur (tasks ?s t) else tasks ?s t)
      = (\<lambda>t. if (t \<in> set (pfstask s i) \<or> (\<exists>j \<in> set is. t \<in> set (pfstask s j))) \<and> expired to cur s t
         then reset_task cur (tasks s t) else tasks s t)"
    using el ex one by (auto simp: fun_eq_iff)
  have fi: "filter (\<lambda>x. x \<in> set (pfstask s i) \<longrightarrow> \<not> expired to cur s x) (pfstask s i)
      = filter (\<lambda>x. \<not> expired to cur s x) (pfstask s i)"
    by (rule filter_cong) auto
  show ?case
    using Cons.IH [OF ok Cons.prems(2)] Cons.prems(3,4) one same flt [of _ Not] cc
    by (simp add: Let_def f tk fi)
qed simp


definition example_task :: "string \<Rightarrow> int \<Rightarrow> int \<Rightarrow> t_pfs_tasklist" where
  "example_task name start q = home_task\<lparr>tk_status := q, tk_last := 1, tk_task :=
     zero_taskinfo\<lparr>ti_base := zero_base\<lparr>b_filename := name, b_starttime := start\<rparr>\<rparr>\<rparr>"

definition example_tasks :: task_state where
  "example_tasks =
     \<lparr>tasks = (\<lambda>t. if t = 7 then example_task ''a'' 100 TASK_Q_WAIT
                   else if t = 8 then example_task ''b'' 900 TASK_Q_WAIT else home_task),
      pfstask = (\<lambda>q. if q = TASK_Q_WAIT then [7, 8] else []),
      taskcount = (\<lambda>q. if q = TASK_Q_WAIT then 2 else if q = TASK_Q_HOME then - 2048 else 0)\<rparr>"

lemma example_tasks_ok: "tasks_ok {9} example_tasks"
  by (auto simp: tasks_ok_def queue_ok_def example_tasks_def example_task_def home_offset_def)


subsection \<open>Threads working on the queues\<close>

text \<open>
  One step of the program as the queues see it: a thread takes a task, works on a task it holds,
  or hands it on; or the timeout scan runs.  Memory obtained from \<^verbatim>\<open>malloc\<close> is new.
\<close>

inductive task_step :: "nat set \<times> task_state \<Rightarrow> nat set \<times> task_state \<Rightarrow> bool" where
  get: "pfs_get_task lock m now q s = (ret, r, s') \<Longrightarrow>
        (\<And>t q. m = Some t \<Longrightarrow> status_ok q \<Longrightarrow> t \<notin> set (pfstask s q)) \<Longrightarrow>
        task_step (H, s) (H \<union> set_option r, s')"
| work: "t \<in> H \<Longrightarrow> task_step (H, s) (H, upd_task t f s)"
| set: "t \<in> H \<Longrightarrow> pfs_set_task lock now t q s = (ret, s') \<Longrightarrow>
        task_step (H, s) (if ret = -1 then H else H - {t}, s')"
| timeout: "task_step (H, s) (H, do_timeout_task lock ct to cur s)"

inductive_cases task_stepE: "task_step (H, s) (H', s')"

lemma tasks_ok_step: "task_step (H, s) (H', s') \<Longrightarrow> tasks_ok H s \<Longrightarrow> tasks_ok H' s'"
  by (erule task_stepE)
    (use tasks_ok_set [OF _ tasks_ok_held] in
      \<open>auto intro: tasks_ok_get tasks_ok_do_timeout tasks_ok_upd simp: tasks_ok_held\<close>)

lemma tasks_ok_steps: "task_step\<^sup>*\<^sup>* (H, s) (H', s') \<Longrightarrow> tasks_ok H s \<Longrightarrow> tasks_ok H' s'"
  by (induction "(H', s')" arbitrary: H' s' rule: rtranclp_induct) (auto intro: tasks_ok_step)

lemma init_queues_empty:
  "init_queues minit is s = (True, s') \<Longrightarrow>
   (\<forall>i \<in> set is. pfstask s' i = []) \<and> (\<forall>i. i \<notin> set is \<longrightarrow> pfstask s' i = pfstask s i)"
proof (induction "is" arbitrary: s)
  case (Cons i "is")
  then show ?case
    by (cases "i \<in> set is") (fastforce simp: Let_def split: if_splits)+
qed simp

lemma init_home_fold:
  "fold (\<lambda>i s. s\<lparr>tasks := (tasks s)(i := k),
          pfstask := (pfstask s)(q := i # pfstask s q)\<rparr>) is s
   = s\<lparr>tasks := (\<lambda>i. if i \<in> set is then k else tasks s i),
        pfstask := (pfstask s)(q := rev is @ pfstask s q)\<rparr>"
  by (induction "is" arbitrary: s) (auto simp: fun_eq_iff)

lemma tasks_ok_init:
  assumes "init_task_info minit True tmal now s0 tm = (0, s, tm')"
  shows "tasks_ok {} s"
proof -
  obtain s1 where q: "init_queues minit [0..TASK_Q_UNKNOWN - 1] s0 = (True, s1)"
    using assms unfolding init_task_info_def by (auto split: prod.splits if_splits)
  then have s: "s = s1\<lparr>tasks := (\<lambda>i. if i \<in> set [0..<TASK_BLOCK] then home_task else tasks s1 i),
      pfstask := (pfstask s1)(TASK_Q_HOME := rev [0..<TASK_BLOCK] @ pfstask s1 TASK_Q_HOME),
      taskcount := (\<lambda>_. 0)\<rparr>"
    using assms unfolding init_task_info_def init_home_fold
    by (simp add: Let_def del: upt.simps upto.simps)
  have "pfstask s1 r = []" if "status_ok r" for r
    using init_queues_empty [OF q] that by (auto simp: status_ok_def simp del: upto.simps)
  then show ?thesis
    by (auto simp: tasks_ok_def queue_ok_def s home_offset_def home_task_def)
qed


definition blank_tasks :: task_state where
  "blank_tasks = \<lparr>tasks = (\<lambda>_. home_task), pfstask = (\<lambda>_. []), taskcount = (\<lambda>_. 0)\<rparr>"

lemma init_queues_ok: "init_queues (\<lambda>_. 0) is s = (True, s\<lparr>pfstask := (\<lambda>q. if q \<in> set is then [] else pfstask s q)\<rparr>)"
  by (induction "is" arbitrary: s) (auto simp: Let_def fun_eq_iff)

lemma init_task_info_ok:
  "init_task_info (\<lambda>_. 0) True m now blank_tasks tm =
     (0, blank_tasks\<lparr>pfstask := (\<lambda>_. [])(TASK_Q_HOME := rev [0..<TASK_BLOCK])\<rparr>,
      snd (add_to_delay_task m now
             (zero_timer\<lparr>t_loop := 1, span_time := 60, t_cb := Cb_report_2_nm\<rparr>) tm))"
  unfolding init_task_info_def init_queues_ok init_home_fold
  by (simp add: Let_def blank_tasks_def fun_eq_iff del: upt.simps upto.simps)


subsection \<open>First in, first out\<close>

text \<open>
  The contract a consumer of a queue relies on; \<open>avail x s\<close> says that \<open>x\<close> is on no queue.
  \<open>drain\<close> takes elements out until the queue is empty or \<open>n\<close> have been taken.
\<close>

fun drain :: "('s \<Rightarrow> ('a \<times> 's) option) \<Rightarrow> nat \<Rightarrow> 's \<Rightarrow> 'a list \<times> 's" where
  "drain deq 0 s = ([], s)"
| "drain deq (Suc n) s =
     (case deq s of None \<Rightarrow> ([], s)
      | Some (x, s') \<Rightarrow> (case drain deq n s' of (xs, s'') \<Rightarrow> (x # xs, s'')))"

locale fifo_queue =
  fixes items :: "'s \<Rightarrow> 'a list" and avail :: "'a \<Rightarrow> 's \<Rightarrow> bool"
    and enq :: "'a \<Rightarrow> 's \<Rightarrow> 's" and deq :: "'s \<Rightarrow> ('a \<times> 's) option"
  assumes enq_items: "avail x s \<Longrightarrow> items (enq x s) = items s @ [x]"
    and enq_avail: "avail x s \<Longrightarrow> avail y s \<Longrightarrow> x \<noteq> y \<Longrightarrow> avail y (enq x s)"
    and deq_empty: "items s = [] \<Longrightarrow> deq s = None"
    and deq_items: "items s = x # xs \<Longrightarrow> \<exists>s'. deq s = Some (x, s') \<and> items s' = xs"
begin

lemma enq_all:
  "distinct xs \<Longrightarrow> (\<And>x. x \<in> set xs \<Longrightarrow> avail x s) \<Longrightarrow> items (fold enq xs s) = items s @ xs"
proof (induction xs arbitrary: s)
  case (Cons x xs)
  then have "items (fold enq xs (enq x s)) = items (enq x s) @ xs"
    using enq_avail [of x s] by auto
  with Cons.prems enq_items [of x s] show ?case by auto
qed simp

lemma drain_items:
  "length (items s) \<le> n \<Longrightarrow> fst (drain deq n s) = items s \<and> items (snd (drain deq n s)) = []"
proof (induction n arbitrary: s)
  case (Suc n)
  show ?case
  proof (cases "items s")
    case Nil
    then show ?thesis by (simp add: deq_empty)
  next
    case (Cons x xs)
    then obtain s' where "deq s = Some (x, s')" "items s' = xs" using deq_items by blast
    moreover from this Suc Cons
    have "fst (drain deq n s') = items s' \<and> items (snd (drain deq n s')) = []" by simp
    ultimately show ?thesis using Cons by (simp add: case_prod_beta)
  qed
qed simp

lemma in_order:
  assumes "distinct xs" "\<And>x. x \<in> set xs \<Longrightarrow> avail x s" "length (items s) + length xs \<le> n"
  shows "fst (drain deq n (fold enq xs s)) = items s @ xs"
  using drain_items [of "fold enq xs s" n] enq_all [OF assms(1,2)] assms(3) by simp

end

text \<open>The queue \<open>q\<close> as a client sees it.\<close>

definition task_enq :: "(int \<Rightarrow> int) \<Rightarrow> int \<Rightarrow> int \<Rightarrow> nat \<Rightarrow> task_state \<Rightarrow> task_state" where
  "task_enq lock now q t s = snd (pfs_set_task lock now t q s)"

definition task_deq :: "(int \<Rightarrow> int) \<Rightarrow> int \<Rightarrow> int \<Rightarrow> task_state \<Rightarrow> (nat \<times> task_state) option" where
  "task_deq lock now q s =
     (case pfs_get_task lock None now q s of (ret, r, s') \<Rightarrow> map_option (\<lambda>t. (t, s')) r)"

lemma task_fifo:
  assumes "locks_free lock" and "status_ok q"
  shows "fifo_queue (\<lambda>s. pfstask s q) (\<lambda>t s. \<forall>r. t \<notin> set (pfstask s r))
           (task_enq lock now q) (task_deq lock now q)"
proof -
  have l: "lock q = 0 \<or> lock q = EDEADLK" using assms(1) by (simp add: locks_free_def)
  show ?thesis
  proof unfold_locales
    fix t and s :: task_state assume "\<forall>r. t \<notin> set (pfstask s r)"
    then show "pfstask (task_enq lock now q t s) q = pfstask s q @ [t]"
      using l assms(2) by (auto simp: task_enq_def pfs_set_task_def task_defs remove1_idem)
  next
    fix t u and s :: task_state assume "\<forall>r. t \<notin> set (pfstask s r)" "\<forall>r. u \<notin> set (pfstask s r)" "t \<noteq> u"
    then show "\<forall>r. u \<notin> set (pfstask (task_enq lock now q t s) r)"
      using l assms(2) by (auto simp: task_enq_def pfs_set_task_def task_defs remove1_idem)
  next
    fix s :: task_state assume "pfstask s q = []"
    then show "task_deq lock now q s = None"
      using l assms(2) by (auto simp: task_deq_def pfs_get_task_def)
  next
    fix s :: task_state and t ts assume "pfstask s q = t # ts"
    then show "\<exists>s'. task_deq lock now q s = Some (t, s') \<and> pfstask s' q = ts"
      using l assms(2) by (auto simp: task_deq_def pfs_get_task_def task_defs)
  qed
qed

text \<open>The queue from which the data plugin takes the transfers to run.\<close>

interpretation wait_q: fifo_queue "\<lambda>s. pfstask s TASK_Q_WAIT" "\<lambda>t s. \<forall>r. t \<notin> set (pfstask s r)"
  "task_enq (\<lambda>_. 0) 0 TASK_Q_WAIT" "task_deq (\<lambda>_. 0) 0 TASK_Q_WAIT"
  by (rule task_fifo) (simp_all add: locks_free_def status_ok_def)

text \<open>
  A queue is first in, first out: tasks that are put into a queue one after the other by
  \<^verbatim>\<open>pfs_set_task\<close> come out of \<^verbatim>\<open>pfs_get_task\<close> after the tasks that were there before and in
  the order in which they were put in.
\<close>

theorem task_queue_fifo:
  assumes "locks_free lock" and "status_ok q" and "distinct ts"
    and "\<And>t r. t \<in> set ts \<Longrightarrow> t \<notin> set (pfstask s r)"
    and "length (pfstask s q) + length ts \<le> n"
  shows "fst (drain (task_deq lock now q) n (fold (task_enq lock now q) ts s)) = pfstask s q @ ts"
  using fifo_queue.in_order [OF task_fifo [OF assms(1,2)] assms(3)] assms(4,5) by blast

theorem task_queue_fifo_witness:
  "fst (drain (task_deq (\<lambda>_. 0) 5 TASK_Q_WAIT) 9 (fold (task_enq (\<lambda>_. 0) 5 TASK_Q_WAIT) [3, 1, 2] example_tasks))
   = [7, 8, 3, 1, 2]"
proof -
  have p: "pfstask example_tasks r = (if r = TASK_Q_WAIT then [7, 8] else [])" for r
    by (simp add: example_tasks_def)
  then have "t \<notin> set (pfstask example_tasks r)" if "t \<in> set [3, 1, 2]" for t r
    using that by auto
  from task_queue_fifo [OF _ _ _ this, where ts = "[3, 1, 2]" and lock = "\<lambda>_. 0" and q = TASK_Q_WAIT and n = 9 and now = 5] p show ?thesis
    by (simp add: locks_free_def status_ok_def)
qed

text \<open>
  \<^verbatim>\<open>pfs_set_task\<close> of a task that is still on another queue \<open>q\<close> (the data and upload plugins
  do this when a transfer ends or fails) moves it, but the counter of \<open>q\<close> keeps counting it:
  after the call \<^verbatim>\<open>taskcount[q]\<close> is one more than the number of tasks on \<open>q\<close>.
\<close>

theorem set_queued_task_drifts:
  assumes "tasks_ok H s" and "status_ok q" and "t \<in> set (pfstask s q)" and "q' \<noteq> q"
    and "pfs_set_task lock now t q' s = (ret, s')" and "ret \<noteq> -1"
  shows "t \<in> set (pfstask s' q') \<and> t \<notin> set (pfstask s' q) \<and>
         taskcount s' q = of_nat (length (pfstask s' q)) - home_offset q + 1"
proof -
  have Q: "queue_ok H s q" using assms(1,2) by (simp add: tasks_ok_def)
  have l: "length (pfstask s q) = Suc (length (remove1 t (pfstask s q)))"
    using assms(3) length_pos_if_in_set [OF assms(3)] by (auto simp: length_remove1)
  show ?thesis
    using assms(4-6) Q l
    by (auto simp: pfs_set_task_def queue_ok_def task_defs split: if_splits)
qed

theorem set_queued_task_drifts_witness:
  "taskcount (snd (pfs_set_task (\<lambda>_. 0) 5 7 TASK_Q_FIN example_tasks)) TASK_Q_WAIT = 2 \<and>
   pfstask (snd (pfs_set_task (\<lambda>_. 0) 5 7 TASK_Q_FIN example_tasks)) TASK_Q_WAIT = [8]"
proof -
  obtain ret s' where e: "pfs_set_task (\<lambda>_. 0) 5 7 TASK_Q_FIN example_tasks = (ret, s')" by force
  then have r: "ret \<noteq> -1" by (auto simp: pfs_set_task_def status_ok_def)
  have p: "pfstask s' TASK_Q_WAIT = [8]"
    using e by (auto simp: pfs_set_task_def status_ok_def example_tasks_def task_defs)
  have "status_ok TASK_Q_WAIT" "7 \<in> set (pfstask example_tasks TASK_Q_WAIT)"
    by (simp_all add: status_ok_def example_tasks_def)
  from set_queued_task_drifts [OF example_tasks_ok this _ e r] p e show ?thesis
    by (simp add: home_offset_def)
qed

end
