(* ===== verification/Pfs_Codec.thy ===== *)
theory Pfs_Codec
  imports Pfs_Prelude
begin

section \<open>Conversions (lib/common.c, lib/util\_*.c, lib/util.h)\<close>

text \<open>
  The string hash of the hash tables, base64 (temporary file names), hexadecimal, dotted IPv4
  addresses, time stamps, blanks and field splitting, and decimal printing.  Characters of a
  C \<^verbatim>\<open>char\<close> array are \<open>char\<close>, raw bytes are numbers below 256 or \<open>byte\<close>.
\<close>

subsection \<open>r5hash\<close>

text \<open>\<^verbatim>\<open>char\<close> is signed, so \<^verbatim>\<open>*p << 4\<close> and \<^verbatim>\<open>*p >> 4\<close> are signed shifts before the conversion.\<close>

definition schar :: "char \<Rightarrow> int" where
  "schar c = sint (of_char c :: byte)"

definition r5hash :: "string \<Rightarrow> uint32" where
  "r5hash p = fold (\<lambda>c h. h * 11 + word_of_int (push_bit 4 (schar c)) + word_of_int (drop_bit 4 (schar c))) p 0"

subsection \<open>base64\<close>

definition b64 :: string where
  "b64 = ''ABCDEFGHIJKLMNOPQRSTUVWXYZabcdefghijklmnopqrstuvwxyz0123456789+/''"

definition b64_idx :: "nat list \<Rightarrow> nat \<Rightarrow> nat" where
  "b64_idx d i =
     (let byte_offset = i * 6 div 8; bit_offset = i * 6 mod 8 in
      if bit_offset < 3 then drop_bit (2 - bit_offset) (d ! byte_offset) AND 0x3F
      else
        let idx = push_bit (bit_offset - 2) (d ! byte_offset) AND 0x3F in
        if byte_offset + 1 < length d
        then idx OR drop_bit (8 - (bit_offset - 2)) (d ! (byte_offset + 1))
        else idx)"

definition base64_encode :: "nat list \<Rightarrow> bool \<Rightarrow> string" where
  "base64_encode d pad =
     (let n = (length d * 8 + 5) div 6; out = map (\<lambda>i. b64 ! b64_idx d i) [0..<n] in
      out @ (if pad then replicate ((4 - n mod 4) mod 4) (CHR ''='') else []))"

text \<open>The standard's definition: three bytes give four digits of six bits.\<close>

fun b64_groups :: "nat list \<Rightarrow> nat list" where
  "b64_groups (a # b # c # r) =
     a div 4 # (a mod 4 * 16 + b div 16) # (b mod 16 * 4 + c div 64) # c mod 64 # b64_groups r"
| "b64_groups [a, b] = [a div 4, a mod 4 * 16 + b div 16, b mod 16 * 4]"
| "b64_groups [a] = [a div 4, a mod 4 * 16]"
| "b64_groups [] = []"

subsection \<open>Hexadecimal\<close>

definition hex_digits :: string where
  "hex_digits = ''0123456789abcdef''"

definition encode_hex :: "nat list \<Rightarrow> string" where
  "encode_hex bin = concat (map (\<lambda>b. [hex_digits ! drop_bit 4 b, hex_digits ! (b AND 15)]) bin)"

definition nibble :: "char \<Rightarrow> nat option" where
  "nibble x =
     (let s = 0x20 OR of_char x in
      if 48 \<le> s \<and> s \<le> 57 then Some (s - 48)
      else if 97 \<le> s \<and> s \<le> 102 then Some (s - 97 + 10)
      else None)"

fun decode_hex :: "string \<Rightarrow> nat \<Rightarrow> nat list" where
  "decode_hex (x # y # r) (Suc n) =
     (case nibble x of None \<Rightarrow> []
      | Some a \<Rightarrow> (case nibble y of None \<Rightarrow> [] | Some b \<Rightarrow> (a * 16 + b) # decode_hex r n))"
| "decode_hex _ _ = []"

subsection \<open>Dotted addresses\<close>

text \<open>\<^verbatim>\<open>strtoul(s, &s, 0)\<close> on a text that starts with a digit: the value and the rest.\<close>

definition hexval :: "char \<Rightarrow> nat option" where
  "hexval c = (if isdigit c then Some (digit_val c)
               else let u = of_char (tolower c) in
                    if (97::nat) \<le> u \<and> u \<le> 102 then Some (u - 87) else None)"

definition digit_in :: "nat \<Rightarrow> char \<Rightarrow> bool" where
  "digit_in base c = (case hexval c of None \<Rightarrow> False | Some v \<Rightarrow> v < base)"

definition digits_val :: "nat \<Rightarrow> string \<Rightarrow> nat" where
  "digits_val base ds = fold (\<lambda>c v. v * base + the (hexval c)) ds 0"

definition strtoul_base :: "nat \<Rightarrow> string \<Rightarrow> nat \<times> string" where
  "strtoul_base base s =
     (min (2 ^ 64 - 1) (digits_val base (takeWhile (digit_in base) s)), dropWhile (digit_in base) s)"

definition strtoul0 :: "string \<Rightarrow> nat \<times> string" where
  "strtoul0 s =
     (case s of
        c # r \<Rightarrow>
          if c = CHR ''0'' then
            (case r of
               x # h # _ \<Rightarrow> if tolower x = CHR ''x'' \<and> digit_in 16 h then strtoul_base 16 (tl r)
                            else strtoul_base 8 s
             | _ \<Rightarrow> strtoul_base 8 s)
          else strtoul_base 10 s
      | [] \<Rightarrow> (0, []))"

definition INADDR_NONE :: uint32 where
  "INADDR_NONE = 0xFFFFFFFF"

definition htonl :: "uint32 \<Rightarrow> uint32" where
  "htonl w = (case be32 w of [a, b, c, d] \<Rightarrow> of_le32 a b c d | _ \<Rightarrow> 0)"

definition starts_digit :: "string \<Rightarrow> bool" where
  "starts_digit s = (case s of c # _ \<Rightarrow> isdigit c | [] \<Rightarrow> False)"

definition at_dot :: "string \<Rightarrow> bool" where
  "at_dot s = (case s of c # _ \<Rightarrow> c = CHR ''.'' | [] \<Rightarrow> False)"

definition str2ip :: "string \<Rightarrow> uint32" where
  "str2ip str =
     (if \<not> starts_digit str then INADDR_NONE
      else
        let (v, str1) = strtoul0 str; addr = (of_nat v :: uint32) in
        if \<not> at_dot str1 then
          (let temp = drop_bit 24 addr in
           if temp = 0 \<or> temp \<ge> 224 then INADDR_NONE else htonl addr)
        else if \<not> starts_digit (tl str1) then INADDR_NONE
        else if addr = 0 \<or> addr \<ge> 224 then INADDR_NONE
        else
          let (v, str2) = strtoul0 (tl str1); temp = (of_nat v :: uint32) in
          if \<not> at_dot str2 then (if temp \<ge> 2 ^ 24 then INADDR_NONE else addr + htonl temp)
          else if \<not> starts_digit (tl str2) then INADDR_NONE
          else if temp \<ge> 256 then INADDR_NONE
          else
            let addr2 = addr + push_bit 8 temp;
                (v, str3) = strtoul0 (tl str2); temp = (of_nat v :: uint32) in
            if \<not> at_dot str3 then (if temp \<ge> 2 ^ 16 then INADDR_NONE else addr2 + htonl temp)
            else if \<not> starts_digit (tl str3) then INADDR_NONE
            else
              let addr3 = addr2 + push_bit 16 temp;
                  (v, _) = strtoul0 (tl str3); temp = (of_nat v :: uint32) in
              if temp \<ge> 256 then INADDR_NONE else addr3 + push_bit 24 temp)"

definition ip_octet :: "uint32 \<Rightarrow> nat \<Rightarrow> nat" where
  "ip_octet ip i = unat (ucast (drop_bit (8 * i) ip) :: byte)"

definition octet_str :: "nat \<Rightarrow> string" where
  "octet_str c =
     (if c \<ge> 100 then [digit_char (c div 100), digit_char (c div 10 mod 10), digit_char (c mod 10)]
      else if c \<ge> 10 then [digit_char (c div 10), digit_char (c mod 10)]
      else [digit_char c])"

definition ip2str :: "uint32 \<Rightarrow> string" where
  "ip2str ip = octet_str (ip_octet ip 0) @ ''.'' @ octet_str (ip_octet ip 1) @ ''.''
     @ octet_str (ip_octet ip 2) @ ''.'' @ octet_str (ip_octet ip 3)"

text \<open>\<^verbatim>\<open>resolve\<close> stands for \<^verbatim>\<open>get_ip_by_domain\<close>, the host name lookup.\<close>

definition get_uint32_ip :: "(string \<Rightarrow> string option) \<Rightarrow> string \<Rightarrow> uint32 \<times> string option" where
  "get_uint32_ip resolve sip =
     (let ip = str2ip sip in
      if ip = INADDR_NONE then
        (case resolve sip of
           None \<Rightarrow> (INADDR_NONE, None)
         | Some tmpip \<Rightarrow> (str2ip tmpip, Some (snprintf_s 16 tmpip)))
      else (ip, Some (snprintf_s 16 sip)))"

subsection \<open>Time stamps\<close>

record tm =
  tm_year :: int
  tm_mon :: int
  tm_mday :: int
  tm_hour :: int
  tm_min :: int
  tm_sec :: int

text \<open>\<^verbatim>\<open>%0wd\<close> of a number that is not negative.\<close>

definition pad0 :: "nat \<Rightarrow> nat \<Rightarrow> string" where
  "pad0 w n = replicate (w - length (dec n)) (CHR ''0'') @ dec n"

definition get_strtime_by_t :: "(int \<Rightarrow> tm) \<Rightarrow> int \<Rightarrow> string" where
  "get_strtime_by_t localtime now =
     (let t = localtime now in
      pad0 4 (nat (tm_year t + 1900)) @ pad0 2 (nat (tm_mon t + 1)) @ pad0 2 (nat (tm_mday t))
      @ pad0 2 (nat (tm_hour t)) @ pad0 2 (nat (tm_min t)) @ pad0 2 (nat (tm_sec t)))"

definition get_time_t :: "(tm \<Rightarrow> int) \<Rightarrow> string \<Rightarrow> int" where
  "get_time_t mktime p =
     (if length p \<noteq> 14 then 0
      else mktime
        \<lparr>tm_year = atoi (take 4 p) - 1900, tm_mon = atoi (take 2 (drop 4 p)) - 1,
         tm_mday = atoi (take 2 (drop 6 p)), tm_hour = atoi (take 2 (drop 8 p)),
         tm_min = atoi (take 2 (drop 10 p)), tm_sec = atoi (take 2 (drop 12 p))\<rparr>)"

subsection \<open>Blanks and fields\<close>

fun trim_tail :: "nat \<Rightarrow> string \<Rightarrow> string" where
  "trim_tail c [] = []"
| "trim_tail c (x # s) =
     (if x = CHR '' '' then (if c + 1 = 1 then x # trim_tail (c + 1) s else trim_tail (c + 1) s)
      else x # trim_tail 0 s)"

definition trim_in :: "string \<Rightarrow> string" where
  "trim_in s = trim_tail 0 (dropWhile (\<lambda>x. x = CHR '' '') s)"

text \<open>
  \<^verbatim>\<open>str_explode\<close>: the fields of a line, at most \<open>n\<close>; the last of \<open>n\<close> keeps the rest of the line.
  \<open>ifs\<close> is the table of separators.
\<close>

function str_explode :: "(char \<Rightarrow> bool) \<Rightarrow> nat \<Rightarrow> string \<Rightarrow> string list" where
  "str_explode ifs n line =
     (case dropWhile ifs line of
        [] \<Rightarrow> []
      | c # r \<Rightarrow>
          if c = CHR 0x22 \<or> c = CHR 0x27 then
            (case strchr c r of
               None \<Rightarrow> [r]
             | Some (f, rest) \<Rightarrow> f # (if n \<le> 1 then [] else str_explode ifs (n - 1) rest))
          else if n \<le> 1 then [rev (dropWhile ifs (rev (c # r)))]
          else
            (case dropWhile (\<lambda>x. \<not> ifs x) (c # r) of
               [] \<Rightarrow> [c # r]
             | _ # rest \<Rightarrow> takeWhile (\<lambda>x. \<not> ifs x) (c # r) # str_explode ifs (n - 1) rest))"
  by pat_completeness auto
termination
  by (relation "measure (\<lambda>(_, n, _). n)") auto

declare str_explode.simps [simp del]

subsection \<open>Decimal printing\<close>

fun put_digits :: "nat \<Rightarrow> nat \<Rightarrow> string" where
  "put_digits 0 n = [digit_char n]"
| "put_digits (Suc k) n = put_digits k (n div 10) @ [digit_char (n mod 10)]"

definition digit_count :: "nat \<Rightarrow> nat" where
  "digit_count n =
     (if n < 10 then 1 else if n < 100 then 2 else if n < 1000 then 3 else if n < 10000 then 4
      else if n < 100000 then 5 else if n < 1000000 then 6 else if n < 10000000 then 7
      else if n < 100000000 then 8 else if n < 1000000000 then 9 else 10)"

definition uint2str :: "uint32 \<Rightarrow> string" where
  "uint2str n = put_digits (digit_count (unat n) - 1) (unat n)"

subsection \<open>Decimal texts\<close>

lemma put_digits_dec: "n < 10 ^ Suc k \<Longrightarrow> 10 ^ k \<le> n \<or> k = 0 \<Longrightarrow> put_digits k n = dec n"
proof (induction k arbitrary: n)
  case 0
  then show ?case by (simp add: dec.simps [of n])
next
  case (Suc k)
  have "n div 10 < 10 ^ Suc k" using Suc.prems(1) by (simp add: less_mult_imp_div_less mult.commute)
  moreover have "10 ^ k \<le> n div 10"
    using Suc.prems(2) by (simp add: less_eq_div_iff_mult_less_eq mult.commute)
  ultimately have "put_digits k (n div 10) = dec (n div 10)" using Suc.IH by simp
  moreover have "\<not> n < 10"
    using Suc.prems(2) le_trans [of 10 "10 * 10 ^ k" n] by simp
  ultimately show ?case using dec.simps [of n] by simp
qed

lemma uint2str_dec: "uint2str n = dec (unat n)"
proof -
  have "unat n < 4294967296" using unsigned_less [of n, where ?'a = nat] by simp
  then show ?thesis
    unfolding uint2str_def digit_count_def by (simp add: put_digits_dec)
qed

lemma octet_str_dec: "c < 256 \<Longrightarrow> octet_str c = dec c"
  by (simp add: octet_str_def dec.simps [of c] dec.simps [of "c div 10"] dec.simps [of "c div 100"]
      div_mult2_eq [symmetric] less_mult_imp_div_less not_less div_le_mono)
    (use div_le_mono [of 100 c 10] in auto)

lemma dec_hd_nonzero: "n \<noteq> 0 \<Longrightarrow> hd (dec n) \<noteq> CHR ''0''"
proof (induction n rule: dec.induct)
  case (1 n)
  show ?case
  proof (cases "n < 10")
    case True
    have "of_char (digit_char n) = 48 + n" using True by (simp add: digit_char_def)
    then have "digit_char n \<noteq> CHR ''0''" using "1.prems" by auto
    then show ?thesis using True by (simp add: dec.simps [of n])
  next
    case False
    then show ?thesis using "1.IH" by (simp add: dec.simps [of n])
  qed
qed

subsection \<open>Addresses\<close>

lemma digit_in_10: "digit_in 10 c = isdigit c"
proof -
  have "digit_val c < 10" if "isdigit c"
    using that by (auto simp: isdigit_def digit_val_def)
  moreover have "\<not> u - 87 < 10" if "97 \<le> u" for u :: nat
    using that by simp
  ultimately show ?thesis
    by (auto simp: digit_in_def hexval_def Let_def)
qed

lemma digits_val_10: "(\<And>c. c \<in> set ds \<Longrightarrow> isdigit c) \<Longrightarrow> digits_val 10 ds = dec_val 0 ds"
proof -
  have "(\<And>c. c \<in> set ds \<Longrightarrow> isdigit c) \<Longrightarrow>
        fold (\<lambda>c v. v * 10 + the (hexval c)) ds v = dec_val v ds" for v
    by (induction ds arbitrary: v) (auto simp: hexval_def)
  then show "(\<And>c. c \<in> set ds \<Longrightarrow> isdigit c) \<Longrightarrow> digits_val 10 ds = dec_val 0 ds"
    by (simp add: digits_val_def)
qed

text \<open>A printed number, followed by the end or by something that is no digit, reads back.\<close>

lemma strtoul0_dec:
  assumes n: "n < 2 ^ 64" and s: "s = [] \<or> at_dot s"
  shows "strtoul0 (dec n @ s) = (n, s)"
proof (cases "n = 0")
  case True
  have "digit_char 0 = CHR ''0''" by code_simp
  then have "dec n = ''0''" using True by (simp add: dec.simps [of 0])
  moreover have "takeWhile (digit_in 8) s = []" "dropWhile (digit_in 8) s = s"
    using s by (auto simp: at_dot_def digit_in_def hexval_def isdigit_def tolower_def split: list.splits)
  moreover have "digit_in 8 (CHR ''0'')" "the (hexval (CHR ''0'')) = 0"
    by (simp_all add: digit_in_def hexval_def isdigit_def digit_val_def)
  moreover have "\<not> tolower (CHR ''.'') = CHR ''x''" by (simp add: tolower_def)
  ultimately show ?thesis
    using True s by (auto simp: strtoul0_def strtoul_base_def digits_val_def at_dot_def split: list.splits)
next
  case False
  obtain c cs where d: "dec n = c # cs" by (cases "dec n") auto
  have "c \<noteq> CHR ''0''" using dec_hd_nonzero [OF False] d by simp
  then have "strtoul0 (dec n @ s) = strtoul_base 10 (dec n @ s)"
    using d by (simp add: strtoul0_def)
  moreover have "takeWhile isdigit (dec n @ s) = dec n" "dropWhile isdigit (dec n @ s) = s"
    using s takeWhile_isdigit_dec_append dropWhile_isdigit_dec_append dec_digits
    by (auto simp: at_dot_def isdigit_def split: list.splits)
  moreover have "digit_in 10 = isdigit" using digit_in_10 by blast
  moreover have "digits_val 10 (dec n) = n"
    using digits_val_10 [of "dec n"] dec_digits dec_val_dec [of n] by simp
  ultimately show ?thesis using n by (simp add: strtoul_base_def min_def)
qed

lemma ip_octet_nat: "ip_octet ip i = unat ip div 2 ^ (8 * i) mod 256"
  unfolding ip_octet_def unsigned_ucast_eq unsigned_drop_bit_eq
  using unsigned_less [of ip, where ?'a = nat] by (simp add: drop_bit_eq_div take_bit_eq_mod)

lemma ip_octet_less: "ip_octet ip i < 256"
  by (simp add: ip_octet_nat)

lemma ip_octets_sum:
  "of_nat (ip_octet ip 0) + push_bit 8 (of_nat (ip_octet ip 1))
   + push_bit 16 (of_nat (ip_octet ip 2)) + push_bit 24 (of_nat (ip_octet ip 3)) = ip"
proof -
  have n: "unat ip < 256 * (256 * (256 * 256))"
    using unsigned_less [of ip, where ?'a = nat] by simp
  have "n mod 256 + n div 256 mod 256 * 256 + n div 65536 mod 256 * 65536
        + n div 16777216 mod 256 * 16777216 = n" if "n < 4294967296" for n :: nat
  proof -
    define a b c where "a = n div 256" and "b = a div 256" and "c = b div 256"
    have "n = n mod 256 + 256 * a" "a = a mod 256 + 256 * b" "b = b mod 256 + 256 * c"
      by (simp_all add: a_def b_def c_def)
    moreover have bc: "b = n div 65536" "c = n div 16777216"
      by (simp_all add: a_def b_def c_def div_mult2_eq [symmetric])
    moreover have "c mod 256 = c"
      using that by (simp add: bc less_mult_imp_div_less)
    ultimately have "n mod 256 + a mod 256 * 256 + b mod 256 * 65536 + c mod 256 * 16777216 = n"
      by linarith
    then show ?thesis by (simp only: a_def bc)
  qed
  then have "ip_octet ip 0 + ip_octet ip 1 * 256 + ip_octet ip 2 * 65536
        + ip_octet ip 3 * 16777216 = unat ip"
    using n by (simp add: ip_octet_nat)
  then have "(of_nat (ip_octet ip 0 + ip_octet ip 1 * 256 + ip_octet ip 2 * 65536
        + ip_octet ip 3 * 16777216) :: uint32) = of_nat (unat ip)"
    by simp
  then show ?thesis by (simp add: push_bit_eq_mult mult.commute)
qed

lemma starts_digit_dec: "starts_digit (dec n @ s)"
  using dec_digits [of _ n] by (cases "dec n") (auto simp: starts_digit_def)

text \<open>
  Printing an address with \<^verbatim>\<open>ip2str\<close> and reading it with \<^verbatim>\<open>str2ip\<close> gives the address back, for
  every address of the classes A to C (first octet 1 to 223); the address is kept in network
  byte order throughout.
\<close>

theorem ip_roundtrip:
  assumes "1 \<le> ip_octet ip 0" and "ip_octet ip 0 < 224"
  shows "str2ip (ip2str ip) = ip"
proof -
  let ?o = "ip_octet ip"
  have small: "?o i < 256" "?o i < 2 ^ 64" for i
    using ip_octet_less [of ip i] by auto
  have ne: "(of_nat (?o 0) :: uint32) \<noteq> 0" "\<not> (of_nat (?o 0) :: uint32) \<ge> 224"
    using assms by (auto simp: word_le_nat_alt unat_of_nat word_unat_eq_iff)
  have lt: "\<not> (of_nat (?o i) :: uint32) \<ge> 256" for i
    using small [of i] by (auto simp: word_le_nat_alt unat_of_nat)
  show ?thesis
    unfolding str2ip_def ip2str_def octet_str_dec [OF small(1)]
    using ne lt small ip_octets_sum [of ip]
    by (simp add: starts_digit_dec starts_digit_dec [of _ "[]", simplified] strtoul0_dec at_dot_def
        strtoul0_dec [of _ "[]", simplified] add.assoc)
qed

theorem ip_roundtrip_witness: "str2ip ''10.0.0.255'' = 0xFF00000A"
proof -
  have "ip2str 0xFF00000A = ''10.0.0.255''" by code_simp
  with ip_roundtrip [of "0xFF00000A"] show ?thesis
    by (simp add: ip_octet_nat)
qed

subsection \<open>base64 and hexadecimal\<close>

lemma or_disjoint_16: "x < 4 \<Longrightarrow> y < 16 \<Longrightarrow> (x * 16) OR y = x * 16 + (y :: nat)"
proof -
  have "\<forall>x \<in> set [0..<4]. \<forall>y \<in> set [0..<16]. (x * 16) OR y = x * 16 + (y :: nat)" by code_simp
  then show "x < 4 \<Longrightarrow> y < 16 \<Longrightarrow> (x * 16) OR y = x * 16 + (y :: nat)" by simp
qed

lemma or_disjoint_4: "x < 16 \<Longrightarrow> y < 4 \<Longrightarrow> (x * 4) OR y = x * 4 + (y :: nat)"
proof -
  have "\<forall>x \<in> set [0..<16]. \<forall>y \<in> set [0..<4]. (x * 4) OR y = x * 4 + (y :: nat)" by code_simp
  then show "x < 16 \<Longrightarrow> y < 4 \<Longrightarrow> (x * 4) OR y = x * 4 + (y :: nat)" by simp
qed

lemma and_63: "n AND 63 = n mod (64 :: nat)"
  using take_bit_eq_mask [of 6 n] by (simp add: take_bit_eq_mod mask_eq_exp_minus_1)

lemma and_15: "n AND 15 = n mod (16 :: nat)"
  using take_bit_eq_mask [of 4 n] by (simp add: take_bit_eq_mod mask_eq_exp_minus_1)

lemma shl_mod_64:
  "push_bit 4 a mod 64 = a mod 4 * (16 :: nat)" "push_bit 2 a mod 64 = a mod 16 * (4 :: nat)"
  using mult_mod_left [of 16 a 4] mult_mod_left [of 4 a 16] mod_mult_mult2 [of a 16 4]
    mod_mult_mult2 [of a 4 16]
  by (simp_all add: push_bit_eq_mult)

lemma b64_idx_shift: "b64_idx (a # b # c # r) (i + 4) = b64_idx r i"
proof -
  have "(i + 4) * 6 = i * 6 + 3 * 8" by simp
  then have "(i + 4) * 6 div 8 = i * 6 div 8 + 3" "(i + 4) * 6 mod 8 = i * 6 mod 8"
    by (simp_all only: div_mult_self1 mod_mult_self1)
  then show ?thesis by (simp add: b64_idx_def Let_def)
qed

lemma b64_idx_head:
  assumes "a < 256" "b < 256" "c < 256"
  shows "b64_idx (a # r) 0 = a div 4"
    and "b64_idx [a] 1 = a mod 4 * 16"
    and "b64_idx (a # b # r) 1 = a mod 4 * 16 + b div 16"
    and "b64_idx [a, b] 2 = b mod 16 * 4"
    and "b64_idx (a # b # c # r) 2 = b mod 16 * 4 + c div 64"
    and "b64_idx (a # b # c # r) 3 = c mod 64"
proof -
  have "a div 4 mod 64 = a div 4" "b div 16 < 16" "c div 64 < 4"
    using assms by (simp_all add: less_mult_imp_div_less)
  then show "b64_idx (a # r) 0 = a div 4"
    and "b64_idx [a] 1 = a mod 4 * 16"
    and "b64_idx (a # b # r) 1 = a mod 4 * 16 + b div 16"
    and "b64_idx [a, b] 2 = b mod 16 * 4"
    and "b64_idx (a # b # c # r) 2 = b mod 16 * 4 + c div 64"
    and "b64_idx (a # b # c # r) 3 = c mod 64"
    by (simp_all add: b64_idx_def Let_def and_63 drop_bit_eq_div shl_mod_64 or_disjoint_16 or_disjoint_4)
qed

lemma upt_add_4: "[0..<n + 4] = [0, 1, 2, 3] @ map (\<lambda>i. i + 4) [0..<n]"
proof -
  have "[0..<4] = [0, 1, 2, 3]" by code_simp
  with upt_add_eq_append [of 0 4 n] map_add_upt [of 4 n] show ?thesis by (simp add: add.commute)
qed

lemma base64_indices:
  assumes "\<And>x. x \<in> set d \<Longrightarrow> x < 256"
  shows "map (b64_idx d) [0..<(length d * 8 + 5) div 6] = b64_groups d"
  using assms
proof (induction d rule: b64_groups.induct)
  case (1 a b c r)
  have n: "(length (a # b # c # r) * 8 + 5) div 6 = (length r * 8 + 5) div 6 + 4" by simp
  have "b64_groups r = map (\<lambda>i. b64_idx (a # b # c # r) (i + 4)) [0..<(length r * 8 + 5) div 6]"
    using 1 by (simp only: b64_idx_shift) auto
  then show ?case
    unfolding n upt_add_4 using "1.prems"
    by (simp add: b64_idx_head [of a b c] comp_def del: One_nat_def)
next
  case (2 a b)
  moreover have "[0..<3] = [0, 1, 2]" by code_simp
  ultimately show ?case by (simp add: b64_idx_head [of a b 0] del: One_nat_def)
next
  case (3 a)
  moreover have "[0..<2] = [0, 1]" by code_simp
  ultimately show ?case by (simp add: b64_idx_head [of a 0 0] del: One_nat_def)
qed simp

lemma b64_sum_less:
  "b < 256 \<Longrightarrow> a mod 4 * 16 + b div 16 < (64 :: nat)" "b < 256 \<Longrightarrow> a mod 16 * 4 + b div 64 < (64 :: nat)"
  by (rule order_less_le_trans [of _ "3 * 16 + 16"], intro add_le_less_mono mult_right_mono;
      simp add: less_mult_imp_div_less; presburger)
    (rule order_less_le_trans [of _ "15 * 4 + 4"], intro add_le_less_mono mult_right_mono;
      simp add: less_mult_imp_div_less; presburger)

lemma b64_groups_less: "(\<And>x. x \<in> set d \<Longrightarrow> x < 256) \<Longrightarrow> y \<in> set (b64_groups d) \<Longrightarrow> y < 64"
proof (induction d rule: b64_groups.induct)
  case (1 a b c r)
  then have "a div 4 < 64" "a mod 4 * 16 + b div 16 < 64" "b mod 16 * 4 + c div 64 < 64" "c mod 64 < 64"
    by (simp_all add: less_mult_imp_div_less b64_sum_less)
  with 1 show ?case by auto
next
  case (2 a b)
  then have "a div 4 < 64" "a mod 4 * 16 + b div 16 < 64" "b mod 16 * 4 < 64"
    by (simp_all add: less_mult_imp_div_less b64_sum_less)
  with 2 show ?case by auto
next
  case (3 a)
  then have "a div 4 < 64" "a mod 4 * 16 < 64" by (simp_all add: less_mult_imp_div_less)
  with 3 show ?case by auto
qed simp

lemma digit_split:
  assumes "x * k + y = x' * k + y'" "y < k" "y' < (k :: nat)"
  shows "x = x' \<and> y = y'"
proof -
  have "(x * k + y) div k = x" "(x' * k + y') div k = x'" "(x * k + y) mod k = y" "(x' * k + y') mod k = y'"
    using assms(2,3) by auto
  with assms(1) show ?thesis by metis
qed

lemma b64_groups_inj:
  assumes "\<And>x. x \<in> set d \<Longrightarrow> x < 256" "\<And>x. x \<in> set e \<Longrightarrow> x < 256" "b64_groups d = b64_groups e"
  shows "d = e"
  using assms
proof (induction d arbitrary: e rule: b64_groups.induct)
  case (1 a b c r)
  then obtain a' b' c' r' where e: "e = a' # b' # c' # r'"
    by (cases e rule: b64_groups.cases) auto
  have lt: "b div 16 < 16" "b' div 16 < 16" "c div 64 < 4" "c' div 64 < 4"
    using "1.prems" e by (simp_all add: less_mult_imp_div_less)
  have "a mod 4 = a' mod 4 \<and> b div 16 = b' div 16" 
    using "1.prems"(3) e lt by (intro digit_split) auto
  moreover have "b mod 16 = b' mod 16 \<and> c div 64 = c' div 64" 
    using "1.prems"(3) e lt by (intro digit_split) auto
  moreover have "a div 4 = a' div 4" "c mod 64 = c' mod 64" using "1.prems"(3) e by auto
  ultimately have "a = a'" "b = b'" "c = c'" by (metis mult_div_mod_eq)+
  moreover have "r = r'" using 1 e by simp
  ultimately show ?case using e by simp
next
  case (2 a b)
  then obtain a' b' where e: "e = [a', b']"
    by (cases e rule: b64_groups.cases) auto
  have "b div 16 < 16" "b' div 16 < 16" using "2.prems" e by (simp_all add: less_mult_imp_div_less)
  moreover have "a mod 4 * 16 + b div 16 = a' mod 4 * 16 + b' div 16" using "2.prems"(3) e by simp
  ultimately have "a mod 4 = a' mod 4 \<and> b div 16 = b' div 16" using digit_split by blast
  moreover have "a div 4 = a' div 4" "b mod 16 = b' mod 16" using "2.prems"(3) e by auto
  ultimately show ?case using e by (metis mult_div_mod_eq)
next
  case (3 a)
  then obtain a' where e: "e = [a']"
    by (cases e rule: b64_groups.cases) auto
  then have "a div 4 = a' div 4" "a mod 4 = a' mod 4" using "3.prems"(3) by auto
  then show ?case using e by (metis mult_div_mod_eq)
next
  case 4
  then show ?case by (cases e rule: b64_groups.cases) auto
qed

lemma b64_inj: "i < 64 \<Longrightarrow> j < 64 \<Longrightarrow> b64 ! i = b64 ! j \<Longrightarrow> i = j"
proof -
  have "distinct b64 \<and> length b64 = 64" by code_simp
  then show "i < 64 \<Longrightarrow> j < 64 \<Longrightarrow> b64 ! i = b64 ! j \<Longrightarrow> i = j"
    using nth_eq_iff_index_eq by metis
qed

text \<open>
  The bit-offset loop of \<^verbatim>\<open>base64_encode\<close> computes the standard's encoding, three bytes to
  four digits with zero bits filled up at the end, and distinct inputs have distinct encodings
  (the temporary names it makes cannot collide), with and without padding.
\<close>

theorem base64_standard:
  assumes "\<And>x. x \<in> set d \<Longrightarrow> x < 256" and "\<And>x. x \<in> set e \<Longrightarrow> x < 256"
  shows "base64_encode d False = map (\<lambda>i. b64 ! i) (b64_groups d) \<and>
         base64_encode d True = base64_encode d False
           @ replicate ((4 - length (b64_groups d) mod 4) mod 4) (CHR ''='') \<and>
         (base64_encode d False = base64_encode e False \<longrightarrow> d = e)"
proof -
  have enc: "map (\<lambda>i. b64 ! b64_idx x i) [0..<(length x * 8 + 5) div 6] = map (\<lambda>i. b64 ! i) (b64_groups x)"
    if "\<And>y. y \<in> set x \<Longrightarrow> y < 256" for x
    using base64_indices [of x] that by (metis (no_types, lifting) list.map_comp map_cong comp_apply)
  have len: "length (b64_groups d) = (length d * 8 + 5) div 6"
    using base64_indices [of d] assms(1) by (metis length_map length_upt minus_nat.diff_0)
  have "d = e" if "map (\<lambda>i. b64 ! i) (b64_groups d) = map (\<lambda>i. b64 ! i) (b64_groups e)"
  proof -
    have "b64_groups d = b64_groups e"
      using that b64_groups_less [OF assms(1)] b64_groups_less [OF assms(2)] b64_inj
      by (intro map_inj_on [of "\<lambda>i. b64 ! i"]) (auto simp: inj_on_def)
    then show ?thesis using b64_groups_inj assms by blast
  qed
  then show ?thesis
    using enc [OF assms(1)] enc [OF assms(2)] len by (simp add: base64_encode_def Let_def)
qed

theorem base64_standard_witness: "base64_encode [77, 97] True = ''TWE='' \<and> base64_encode [77, 97] False = ''TWE''"
proof -
  have "map (\<lambda>i. b64 ! i) (b64_groups [77, 97]) = ''TWE''" "length (b64_groups [77, 97]) = 3"
    by code_simp+
  moreover have "x < 256" if "x \<in> set [77, 97]" for x :: nat using that by auto
  ultimately show ?thesis using base64_standard [of "[77, 97]" "[77, 97]"] by simp
qed

lemma hex_nibble: "v < 16 \<Longrightarrow> nibble (hex_digits ! v) = Some v"
proof -
  have "\<forall>v \<in> set [0..<16]. nibble (hex_digits ! v) = Some v" by code_simp
  then show "v < 16 \<Longrightarrow> nibble (hex_digits ! v) = Some v" by simp
qed

text \<open>\<^verbatim>\<open>decode_hex\<close> reads back what \<^verbatim>\<open>encode_hex\<close> wrote, cut to the size of the buffer.\<close>

lemma hex_roundtrip: "(\<And>b. b \<in> set bin \<Longrightarrow> b < 256) \<Longrightarrow> decode_hex (encode_hex bin) n = take n bin"
proof (induction bin arbitrary: n)
  case Nil
  then show ?case by (simp add: encode_hex_def)
next
  case (Cons b bin)
  have "b < 256" using Cons.prems by simp
  then have "nibble (hex_digits ! drop_bit 4 b) = Some (b div 16)" "nibble (hex_digits ! (b AND 15)) = Some (b mod 16)"
    by (simp_all add: hex_nibble and_15 drop_bit_eq_div less_mult_imp_div_less)
  moreover have "decode_hex (encode_hex bin) m = take m bin" for m
    using Cons by simp
  ultimately show ?case
    by (cases n) (simp_all add: encode_hex_def)
qed

subsection \<open>Time stamps\<close>

lemma atoi_pad0:
  assumes "n < 10 ^ w" and "w \<le> 9"
  shows "atoi (pad0 w n) = int n"
proof -
  have n: "n < 10 ^ 9"
    using assms le_trans [of "10 ^ w" "10 ^ w" "10 ^ 9 :: nat"] power_increasing [of w 9 "10 :: nat"] by linarith
  have z: "dec_val 0 (replicate k (CHR ''0'') @ ds) = dec_val 0 ds" for k ds
    by (induction k) (simp_all add: digit_val_def)
  have all: "c \<in> set (pad0 w n) \<Longrightarrow> isdigit c" for c
    using dec_digits [of c n] by (auto simp: pad0_def isdigit_def)
  obtain c cs where p: "pad0 w n = c # cs"
    by (cases "pad0 w n") (auto simp: pad0_def)
  then have c: "isdigit c" using all by simp
  have tw: "takeWhile isdigit cs = cs"
    using all p by (simp add: takeWhile_eq_all_conv)
  have v: "dec_val 0 (c # cs) = n"
    unfolding p [symmetric] pad0_def z using dec_val_dec [of n] by simp
  have "dropWhile isspace (c # cs) = c # cs" using c isdigit_not_space by simp
  then have "strtol10 (pad0 w n) = int n"
    unfolding strtol10_def Let_def p using c isdigit_not_sign [OF c] v n by (simp add: tw min_def)
  then show ?thesis using n by (simp add: atoi_of_strtol10)
qed

lemma length_dec_le:
  assumes "n < 10 ^ w" "0 < w"
  shows "length (dec n) \<le> w"
proof (cases "n = 0")
  case True
  then show ?thesis using assms by (simp add: dec.simps [of 0])
next
  case False
  then have "10 ^ (length (dec n) - 1) \<le> n" using dec_length_bounds by simp
  then have "(10 :: nat) ^ (length (dec n) - 1) < 10 ^ w" using assms(1) by linarith
  then have "length (dec n) - 1 < w" by (rule power_less_imp_less_exp [rotated]) simp
  then show ?thesis by simp
qed

lemma length_pad0: "n < 10 ^ w \<Longrightarrow> 0 < w \<Longrightarrow> length (pad0 w n) = w"
  using length_dec_le [of n w] by (simp add: pad0_def)

text \<open>
  A time stamp written by \<^verbatim>\<open>get_strtime_by_t\<close> has 14 digits and is read by \<^verbatim>\<open>get_time_t\<close> as the
  broken-down time it was made from: reading it is \<^verbatim>\<open>mktime\<close> of \<^verbatim>\<open>localtime\<close>, for every calendar
  time with a four-digit year and whatever the time zone functions are.
\<close>

theorem strtime_roundtrip:
  assumes "localtime now = \<lparr>tm_year = y, tm_mon = mo, tm_mday = d, tm_hour = h, tm_min = mi, tm_sec = s\<rparr>"
    and "-1900 \<le> y \<and> y < 8100" and "0 \<le> mo \<and> mo < 12" and "1 \<le> d \<and> d \<le> 31"
    and "0 \<le> h \<and> h < 24" and "0 \<le> mi \<and> mi < 60" and "0 \<le> s \<and> s \<le> 60"
  shows "length (get_strtime_by_t localtime now) = 14 \<and>
         get_time_t mktime (get_strtime_by_t localtime now) = mktime (localtime now)"
proof -
  let ?s = "get_strtime_by_t localtime now"
  let ?Y = "pad0 4 (nat (y + 1900))" and ?M = "pad0 2 (nat (mo + 1))" and ?D = "pad0 2 (nat d)"
  let ?H = "pad0 2 (nat h)" and ?I = "pad0 2 (nat mi)" and ?S = "pad0 2 (nat s)"
  have eq: "?s = ?Y @ ?M @ ?D @ ?H @ ?I @ ?S"
    using assms(1) by (simp add: get_strtime_by_t_def)
  have len: "length ?Y = 4" "length ?M = 2" "length ?D = 2" "length ?H = 2" "length ?I = 2" "length ?S = 2"
    using assms(2-) by (auto intro!: length_pad0)
  have val: "atoi ?Y = y + 1900" "atoi ?M = mo + 1" "atoi ?D = d" "atoi ?H = h" "atoi ?I = mi" "atoi ?S = s"
    using assms(2-) by (auto simp: atoi_pad0)
  show ?thesis
    unfolding get_time_t_def eq using len val assms(1) by simp
qed

theorem strtime_roundtrip_witness:
  "get_time_t (\<lambda>t. tm_year t * 100 + tm_mon t) (get_strtime_by_t
     (\<lambda>_. \<lparr>tm_year = 113, tm_mon = 8, tm_mday = 7, tm_hour = 23, tm_min = 5, tm_sec = 9\<rparr>) 1378566309) = 11308"
  using strtime_roundtrip [of "\<lambda>_. \<lparr>tm_year = 113, tm_mon = 8, tm_mday = 7, tm_hour = 23, tm_min = 5, tm_sec = 9\<rparr>"
      1378566309 113 8 7 23 5 9 "\<lambda>t. tm_year t * 100 + tm_mon t"] by simp

subsection \<open>Blanks and fields\<close>

lemma trim_tail_single: "trim_tail c s = t \<Longrightarrow> t = u @ [x, y] @ v \<Longrightarrow> \<not> (x = CHR '' '' \<and> y = CHR '' '')"
proof (induction c s arbitrary: t u rule: trim_tail.induct)
  case (2 c z s)
  show ?case
  proof (cases u)
    case Nil
    have start: "trim_tail (Suc k) s \<noteq> CHR '' '' # w" for k s w
      by (induction s arbitrary: k) auto
    from Nil 2 show ?thesis by (auto simp: start split: if_splits)
  next
    case (Cons a u')
    with 2 show ?thesis by (auto split: if_splits)
  qed
qed auto

lemma trim_in_no_double: "trim_in s = u @ [x, y] @ v \<Longrightarrow> \<not> (x = CHR '' '' \<and> y = CHR '' '')"
  unfolding trim_in_def using trim_tail_single by blast

lemma trim_in_words: "filter (\<lambda>c. c \<noteq> CHR '' '') (trim_in s) = filter (\<lambda>c. c \<noteq> CHR '' '') s"
proof -
  have "filter (\<lambda>c. c \<noteq> CHR '' '') (trim_tail n t) = filter (\<lambda>c. c \<noteq> CHR '' '') t" for n t
    by (induction n t rule: trim_tail.induct) auto
  moreover have "filter (\<lambda>c. c \<noteq> CHR '' '') (dropWhile (\<lambda>x. x = CHR '' '') s) = filter (\<lambda>c. c \<noteq> CHR '' '') s"
    by (induction s) auto
  ultimately show ?thesis by (simp add: trim_in_def)
qed

text \<open>Fields joined by a separator are taken apart again.\<close>

fun join_fields :: "char \<Rightarrow> string list \<Rightarrow> string" where
  "join_fields c [] = []"
| "join_fields c [f] = f"
| "join_fields c (f # fs) = f @ c # join_fields c fs"

definition plain_field :: "(char \<Rightarrow> bool) \<Rightarrow> string \<Rightarrow> bool" where
  "plain_field ifs f \<longleftrightarrow>
     f \<noteq> [] \<and> (\<forall>c \<in> set f. \<not> ifs c) \<and> hd f \<noteq> CHR 0x22 \<and> hd f \<noteq> CHR 0x27"

lemma str_explode_step:
  assumes "plain_field ifs f" "ifs c" "1 < n"
  shows "str_explode ifs n (f @ c # r) = f # str_explode ifs (n - 1) r"
proof -
  obtain x xs where f: "f = x # xs" using assms(1) by (cases f) (auto simp: plain_field_def)
  have tw: "takeWhile (\<lambda>x. \<not> ifs x) (f @ c # r) = f" "dropWhile (\<lambda>x. \<not> ifs x) (f @ c # r) = c # r"
    using assms(1,2) by (auto simp: plain_field_def takeWhile_append2 dropWhile_append2)
  have "dropWhile ifs (f @ c # r) = f @ c # r" using assms(1) f by (simp add: plain_field_def)
  then show ?thesis
    using assms(1,3) tw f unfolding str_explode.simps [of ifs n "f @ c # r"]
    by (simp add: plain_field_def)
qed

lemma str_explode_last: "plain_field ifs f \<Longrightarrow> str_explode ifs n f = [f]"
proof -
  assume p: "plain_field ifs f"
  then obtain x xs where f: "f = x # xs" by (cases f) (auto simp: plain_field_def)
  have "dropWhile ifs (rev f) = rev f"
    using p by (cases f rule: rev_cases) (auto simp: plain_field_def)
  moreover have "dropWhile (\<lambda>x. \<not> ifs x) xs = []"
    using p f by (simp add: plain_field_def)
  ultimately show ?thesis
    using p f by (subst str_explode.simps)
      (simp add: plain_field_def dropWhile_eq_Nil_conv [THEN iffD2] del: rev.simps split: list.split)
qed

lemma str_explode_join:
  assumes "\<And>f. f \<in> set fs \<Longrightarrow> plain_field ifs f" "ifs c" "length fs \<le> n"
  shows "str_explode ifs n (join_fields c fs) = fs"
  using assms
proof (induction c fs arbitrary: n rule: join_fields.induct)
  case (1 c)
  then show ?case by (simp add: str_explode.simps)
next
  case (2 c f)
  then show ?case by (simp add: str_explode_last)
next
  case (3 c f g fs)
  then show ?case by (simp add: str_explode_step)
qed

end
