(* ===== verification/Pfs_Md5.thy ===== *)
theory Pfs_Md5
  imports Pfs_Prelude
begin

section \<open>Message digests (lib/md5.c)\<close>

text \<open>
  The digest with which every transferred file is checked.  A context holds the chaining value, the
  number of bits as two 32-bit words and a block of 64 bytes.  The model keeps the wrap-around of
  the bit count and the partial writes into the block; the last part of the theory proves that
  feeding a message in arbitrary pieces gives the digest of RFC 1321 of the whole message.
\<close>

subsection \<open>The transformation of a block\<close>

definition F1 :: "uint32 \<Rightarrow> uint32 \<Rightarrow> uint32 \<Rightarrow> uint32" where
  "F1 x y z = z XOR (x AND (y XOR z))"

definition F2 :: "uint32 \<Rightarrow> uint32 \<Rightarrow> uint32 \<Rightarrow> uint32" where
  "F2 x y z = F1 z x y"

definition F3 :: "uint32 \<Rightarrow> uint32 \<Rightarrow> uint32 \<Rightarrow> uint32" where
  "F3 x y z = x XOR y XOR z"

definition F4 :: "uint32 \<Rightarrow> uint32 \<Rightarrow> uint32 \<Rightarrow> uint32" where
  "F4 x y z = y XOR (x OR NOT z)"

type_synonym md5_regs = "uint32 \<times> uint32 \<times> uint32 \<times> uint32"

definition rotl32 :: "nat \<Rightarrow> uint32 \<Rightarrow> uint32" where
  "rotl32 s w = push_bit s w OR drop_bit (32 - s) w"

text \<open>
  One line \<^verbatim>\<open>MD5STEP(f, w, x, y, z, in[k] + c, s)\<close>.  The next line has the registers in the order
  \<^verbatim>\<open>z, w, x, y\<close>, so the step returns them in that order; after 64 steps they are back in place.
\<close>

definition MD5STEP ::
  "uint32 list \<Rightarrow> (uint32 \<Rightarrow> uint32 \<Rightarrow> uint32 \<Rightarrow> uint32) \<times> nat \<times> uint32 \<times> nat \<Rightarrow> md5_regs \<Rightarrow> md5_regs"
where
  "MD5STEP inp = (\<lambda>(f, k, c, s) (w, x, y, z).
     let w1 = w + (f x y z + (inp ! k + c)); w2 = rotl32 s w1; w3 = w2 + x in (z, w3, x, y))"

definition md5_steps :: "((uint32 \<Rightarrow> uint32 \<Rightarrow> uint32 \<Rightarrow> uint32) \<times> nat \<times> uint32 \<times> nat) list" where
  "md5_steps =
     [(F1, 0, 0xd76aa478, 7), (F1, 1, 0xe8c7b756, 12), (F1, 2, 0x242070db, 17),
      (F1, 3, 0xc1bdceee, 22), (F1, 4, 0xf57c0faf, 7), (F1, 5, 0x4787c62a, 12),
      (F1, 6, 0xa8304613, 17), (F1, 7, 0xfd469501, 22), (F1, 8, 0x698098d8, 7),
      (F1, 9, 0x8b44f7af, 12), (F1, 10, 0xffff5bb1, 17), (F1, 11, 0x895cd7be, 22),
      (F1, 12, 0x6b901122, 7), (F1, 13, 0xfd987193, 12), (F1, 14, 0xa679438e, 17),
      (F1, 15, 0x49b40821, 22), (F2, 1, 0xf61e2562, 5), (F2, 6, 0xc040b340, 9),
      (F2, 11, 0x265e5a51, 14), (F2, 0, 0xe9b6c7aa, 20), (F2, 5, 0xd62f105d, 5),
      (F2, 10, 0x02441453, 9), (F2, 15, 0xd8a1e681, 14), (F2, 4, 0xe7d3fbc8, 20),
      (F2, 9, 0x21e1cde6, 5), (F2, 14, 0xc33707d6, 9), (F2, 3, 0xf4d50d87, 14),
      (F2, 8, 0x455a14ed, 20), (F2, 13, 0xa9e3e905, 5), (F2, 2, 0xfcefa3f8, 9),
      (F2, 7, 0x676f02d9, 14), (F2, 12, 0x8d2a4c8a, 20), (F3, 5, 0xfffa3942, 4),
      (F3, 8, 0x8771f681, 11), (F3, 11, 0x6d9d6122, 16), (F3, 14, 0xfde5380c, 23),
      (F3, 1, 0xa4beea44, 4), (F3, 4, 0x4bdecfa9, 11), (F3, 7, 0xf6bb4b60, 16),
      (F3, 10, 0xbebfbc70, 23), (F3, 13, 0x289b7ec6, 4), (F3, 0, 0xeaa127fa, 11),
      (F3, 3, 0xd4ef3085, 16), (F3, 6, 0x04881d05, 23), (F3, 9, 0xd9d4d039, 4),
      (F3, 12, 0xe6db99e5, 11), (F3, 15, 0x1fa27cf8, 16), (F3, 2, 0xc4ac5665, 23),
      (F4, 0, 0xf4292244, 6), (F4, 7, 0x432aff97, 10), (F4, 14, 0xab9423a7, 15),
      (F4, 5, 0xfc93a039, 21), (F4, 12, 0x655b59c3, 6), (F4, 3, 0x8f0ccc92, 10),
      (F4, 10, 0xffeff47d, 15), (F4, 1, 0x85845dd1, 21), (F4, 8, 0x6fa87e4f, 6),
      (F4, 15, 0xfe2ce6e0, 10), (F4, 6, 0xa3014314, 15), (F4, 13, 0x4e0811a1, 21),
      (F4, 4, 0xf7537e82, 6), (F4, 11, 0xbd3af235, 10), (F4, 2, 0x2ad7d2bb, 15),
      (F4, 9, 0xeb86d391, 21)]"

fun le_words :: "bytes \<Rightarrow> uint32 list" where
  "le_words (a # b # c # d # r) = of_le32 a b c d # le_words r"
| "le_words _ = []"

definition MD5Transform :: "md5_regs \<Rightarrow> bytes \<Rightarrow> md5_regs" where
  "MD5Transform buf block =
     (case buf of (a0, b0, c0, d0) \<Rightarrow>
      case fold (MD5STEP (le_words block)) md5_steps buf of (a, b, c, d) \<Rightarrow>
        (a0 + a, b0 + b, c0 + c, d0 + d))"

subsection \<open>Contexts\<close>

record MD5Context =
  md_buf :: md5_regs
  md_bits0 :: uint32
  md_bits1 :: uint32
  md_in :: bytes

abbreviation md5_iv :: md5_regs where
  "md5_iv \<equiv> (0x67452301, 0xefcdab89, 0x98badcfe, 0x10325476)"

definition MD5Init :: "MD5Context \<Rightarrow> MD5Context" where
  "MD5Init ctx = ctx\<lparr>md_buf := md5_iv, md_bits0 := 0, md_bits1 := 0\<rparr>"

text \<open>\<^verbatim>\<open>while (len >= 64)\<close>: each block is copied into the context and transformed.\<close>

function md5_blocks :: "md5_regs \<Rightarrow> bytes \<Rightarrow> bytes \<Rightarrow> md5_regs \<times> bytes \<times> bytes" where
  "md5_blocks buf inp d =
     (if length d \<ge> 64
      then md5_blocks (MD5Transform buf (put_at 0 (take 64 d) inp)) (put_at 0 (take 64 d) inp) (drop 64 d)
      else (buf, inp, d))"
  by pat_completeness auto
termination
  by (relation "measure (\<lambda>(_, _, d). length d)") auto

declare md5_blocks.simps [simp del]

definition MD5Update :: "MD5Context \<Rightarrow> bytes \<Rightarrow> MD5Context" where
  "MD5Update ctx data =
     (let len = (of_nat (length data) :: uint32);
          t = md_bits0 ctx;
          b0 = t + push_bit 3 len;
          b1 = (if b0 < t then md_bits1 ctx + 1 else md_bits1 ctx) + drop_bit 29 len;
          n = unat (drop_bit 3 t AND 0x3F);
          ctx1 = ctx\<lparr>md_bits0 := b0, md_bits1 := b1\<rparr>
      in if n \<noteq> 0 \<and> length data < 64 - n
         then ctx1\<lparr>md_in := put_at n data (md_in ctx)\<rparr>
         else
           let (buf, inp, d) =
                 (if n \<noteq> 0 then
                    let inp = put_at n (take (64 - n) data) (md_in ctx)
                    in (MD5Transform (md_buf ctx) inp, inp, drop (64 - n) data)
                  else (md_buf ctx, md_in ctx, data));
               (buf', inp', d') = md5_blocks buf inp d
           in ctx1\<lparr>md_buf := buf', md_in := put_at 0 d' inp'\<rparr>)"

text \<open>The registers before the last block of \<^verbatim>\<open>MD5Final\<close>, and that block.\<close>

definition md5_padded :: "MD5Context \<Rightarrow> md5_regs \<times> bytes" where
  "md5_padded ctx =
     (let n = unat (drop_bit 3 (md_bits0 ctx) AND 0x3F);
          in1 = put_at n [0x80] (md_in ctx);
          p = n + 1;
          count = 64 - 1 - n;
          (buf, in2) =
            (if count < 8 then
               let blk = put_at p (replicate count 0) in1
               in (MD5Transform (md_buf ctx) blk, put_at 0 (replicate 56 0) blk)
             else (md_buf ctx, put_at p (replicate (count - 8) 0) in1))
      in (buf, put_at 60 (le32 (md_bits1 ctx)) (put_at 56 (le32 (md_bits0 ctx)) in2)))"

definition MD5Final :: "MD5Context \<Rightarrow> bytes" where
  "MD5Final ctx =
     (case md5_padded ctx of (buf, in3) \<Rightarrow>
      case MD5Transform buf in3 of (a, b, c, d) \<Rightarrow> le32 a @ le32 b @ le32 c @ le32 d)"

text \<open>
  What \<^verbatim>\<open>MD5Final\<close> leaves in the context: its \<^verbatim>\<open>memset\<close> clears \<^verbatim>\<open>sizeof(ctx)\<close> bytes, the size of a pointer,
  which are the first two registers; the bit count stays.
\<close>

definition MD5Final_ctx :: "MD5Context \<Rightarrow> MD5Context" where
  "MD5Final_ctx ctx =
     (case md5_padded ctx of (buf, in3) \<Rightarrow>
      case MD5Transform buf in3 of (a, b, c, d) \<Rightarrow> ctx\<lparr>md_buf := (0, 0, c, d), md_in := in3\<rparr>)"

definition blank_ctx :: MD5Context where
  "blank_ctx = \<lparr>md_buf = (0, 0, 0, 0), md_bits0 = 0, md_bits1 = 0, md_in = replicate 64 0\<rparr>"

definition MD5Digest :: "bytes \<Rightarrow> bytes" where
  "MD5Digest msg = MD5Final (MD5Update (MD5Init blank_ctx) msg)"

text \<open>\<^verbatim>\<open>getmd5\<close> of util_misc.c is the same sequence of calls.\<close>

definition getmd5 :: "bytes \<Rightarrow> bytes" where
  "getmd5 data = MD5Final (MD5Update (MD5Init blank_ctx) data)"

text \<open>
  \<^verbatim>\<open>getfilemd5\<close> reads the file in pieces; \<open>reads\<close> are the successive results of \<^verbatim>\<open>fread\<close>: the bytes
  read, and whether the end of the file was seen.  \<open>None\<close> is a file that cannot be opened or read.
\<close>

fun md5_read :: "nat \<Rightarrow> MD5Context \<Rightarrow> (bytes \<times> bool) list \<Rightarrow> MD5Context option" where
  "md5_read bufsize ctx [] = None"
| "md5_read bufsize ctx ((d, eof) # rs) =
     (if length d > 0 then
        let ctx' = MD5Update ctx d in
        if length d < bufsize then Some ctx' else md5_read bufsize ctx' rs
      else if eof then Some ctx else None)"

definition getfilemd5 :: "(bytes \<times> bool) list option \<Rightarrow> bytes option" where
  "getfilemd5 reads =
     (case reads of None \<Rightarrow> None
      | Some rs \<Rightarrow> map_option MD5Final (md5_read (2 ^ 20) (MD5Init blank_ctx) rs))"

definition hmac_key :: "bytes \<Rightarrow> bytes" where
  "hmac_key password =
     (let pw = (if length password > 64 then MD5Digest password else password)
      in put_at 0 pw (replicate 64 0))"

definition MD5HMAC :: "bytes \<Rightarrow> bytes \<Rightarrow> bytes" where
  "MD5HMAC password challenge =
     (let key = hmac_key password; ipad = map (\<lambda>b. b XOR 0x36) key; opad = map (\<lambda>b. b XOR 0x5c) key;
          response = MD5Final (MD5Update (MD5Update (MD5Init blank_ctx) ipad) challenge)
      in MD5Final (MD5Update (MD5Update (MD5Init blank_ctx) opad) response))"

definition MD5HMAC2 :: "bytes \<Rightarrow> bytes \<Rightarrow> bytes \<Rightarrow> bytes" where
  "MD5HMAC2 password challenge challenge2 =
     (let key = hmac_key password; ipad = map (\<lambda>b. b XOR 0x36) key; opad = map (\<lambda>b. b XOR 0x5c) key;
          response = MD5Final (MD5Update (MD5Update (MD5Update (MD5Init blank_ctx) ipad) challenge) challenge2)
      in MD5Final (MD5Update (MD5Update (MD5Init blank_ctx) opad) response))"

subsection \<open>The digest of RFC 1321\<close>

text \<open>
  The specification: the message is padded by one bit, zeros and its length in bits modulo
  \<open>2 ^ 64\<close>, cut into blocks of 64 bytes, and each block is compressed.  The auxiliary functions,
  the order of the words and the rotations are those of the RFC; the table of sine constants is
  taken over.
\<close>

definition rfc_f :: "nat \<Rightarrow> uint32 \<Rightarrow> uint32 \<Rightarrow> uint32 \<Rightarrow> uint32" where
  "rfc_f i x y z =
     (if i < 16 then (x AND y) OR (NOT x AND z)
      else if i < 32 then (x AND z) OR (y AND NOT z)
      else if i < 48 then x XOR y XOR z
      else y XOR (x OR NOT z))"

definition rfc_k :: "nat \<Rightarrow> nat" where
  "rfc_k i =
     (if i < 16 then i
      else if i < 32 then (5 * i + 1) mod 16
      else if i < 48 then (3 * i + 5) mod 16
      else 7 * i mod 16)"

definition rfc_s :: "nat \<Rightarrow> nat" where
  "rfc_s i = [[7, 12, 17, 22], [5, 9, 14, 20], [4, 11, 16, 23], [6, 10, 15, 21]] ! (i div 16) ! (i mod 4)"

definition rfc_t :: "nat \<Rightarrow> uint32" where
  "rfc_t i = (case md5_steps ! i of (_, _, c, _) \<Rightarrow> c)"

definition rfc_compress :: "md5_regs \<Rightarrow> bytes \<Rightarrow> md5_regs" where
  "rfc_compress buf block =
     (case fold (\<lambda>i (a, b, c, d).
              (d, b + rotl32 (rfc_s i) (a + rfc_f i b c d + le_words block ! rfc_k i + rfc_t i), b, c))
            [0..<64] buf of (a, b, c, d) \<Rightarrow>
      case buf of (a0, b0, c0, d0) \<Rightarrow> (a0 + a, b0 + b, c0 + c, d0 + d))"

function rfc_process :: "md5_regs \<Rightarrow> bytes \<Rightarrow> md5_regs" where
  "rfc_process buf d =
     (if length d \<ge> 64 then rfc_process (rfc_compress buf (take 64 d)) (drop 64 d) else buf)"
  by pat_completeness auto
termination
  by (relation "measure (\<lambda>(_, d). length d)") auto

declare rfc_process.simps [simp del]

definition rfc_pad :: "bytes \<Rightarrow> bytes" where
  "rfc_pad m = m @ [0x80] @ replicate ((119 - length m mod 64) mod 64) 0
     @ le32 (of_nat (8 * length m)) @ le32 (of_nat (8 * length m div 2 ^ 32))"

definition rfc_md5 :: "bytes \<Rightarrow> bytes" where
  "rfc_md5 m = (case rfc_process md5_iv (rfc_pad m) of (a, b, c, d) \<Rightarrow> le32 a @ le32 b @ le32 c @ le32 d)"

subsection \<open>The transformation is the RFC's compression\<close>

lemma F_rfc:
  "F1 x y z = (x AND y) OR (NOT x AND z)" "F2 x y z = (x AND z) OR (y AND NOT z)"
  by (rule bit_eqI; auto simp: F1_def F2_def bit_simps)+

lemma md5_steps_rfc:
  "i < 64 \<Longrightarrow> md5_steps ! i = (rfc_f i, rfc_k i, rfc_t i, rfc_s i)"
proof -
  let ?rest = "\<lambda>(f, r). r"
  have rest: "map snd md5_steps = map (\<lambda>i. (rfc_k i, rfc_t i, rfc_s i)) [0..<64]"
    by (simp add: md5_steps_def rfc_k_def rfc_t_def rfc_s_def upt_rec)
  have fns: "map fst md5_steps = map (\<lambda>i. if i < 16 then F1 else if i < 32 then F2 else if i < 48 then F3 else F4) [0..<64]"
    by (simp add: md5_steps_def upt_rec)
  have "rfc_f i = (if i < 16 then F1 else if i < 32 then F2 else if i < 48 then F3 else F4)" for i
    by (auto simp: fun_eq_iff rfc_f_def F_rfc F3_def F4_def)
  moreover assume i: "i < 64"
  moreover have "length md5_steps = 64" by (simp add: md5_steps_def)
  ultimately have "fst (md5_steps ! i) = rfc_f i"
    using nth_map [of i md5_steps fst] nth_upt [of 0 i 64] unfolding fns
    by (auto simp del: upt.simps split: if_splits)
  moreover have "snd (md5_steps ! i) = (rfc_k i, rfc_t i, rfc_s i)"
    using i nth_map [of i md5_steps snd] \<open>length md5_steps = 64\<close> unfolding rest by simp
  ultimately show ?thesis by (metis prod.collapse)
qed

lemma MD5Transform_rfc: "MD5Transform = rfc_compress"
proof -
  have l: "length md5_steps = 64" by (simp add: md5_steps_def)
  have tab: "md5_steps = map (\<lambda>i. (rfc_f i, rfc_k i, rfc_t i, rfc_s i)) [0..<64]"
    by (rule nth_equalityI) (simp_all add: l md5_steps_rfc)
  have step: "MD5STEP w (rfc_f i, rfc_k i, rfc_t i, rfc_s i) =
      (\<lambda>(a, b, c, d). (d, b + rotl32 (rfc_s i) (a + rfc_f i b c d + w ! rfc_k i + rfc_t i), b, c))" for w i
    by (auto simp: MD5STEP_def fun_eq_iff Let_def add_ac)
  have "fold (MD5STEP w) (map (\<lambda>i. (rfc_f i, rfc_k i, rfc_t i, rfc_s i)) [0..<64]) = fold (\<lambda>i (a, b, c, d).
      (d, b + rotl32 (rfc_s i) (a + rfc_f i b c d + w ! rfc_k i + rfc_t i), b, c)) [0..<64]" for w
    unfolding fold_map comp_def step ..
  then show ?thesis
    unfolding MD5Transform_def [abs_def] rfc_compress_def [abs_def] tab [symmetric] by (auto simp: fun_eq_iff split: prod.splits)
qed

subsection \<open>Contexts represent messages\<close>

text \<open>Compressing the full blocks of a message; the rest is shorter than a block.\<close>

function md5_proc :: "md5_regs \<Rightarrow> bytes \<Rightarrow> md5_regs \<times> bytes" where
  "md5_proc buf d =
     (if length d \<ge> 64 then md5_proc (MD5Transform buf (take 64 d)) (drop 64 d) else (buf, d))"
  by pat_completeness auto
termination
  by (relation "measure (\<lambda>(_, d). length d)") auto

declare md5_proc.simps [simp del]

lemma md5_proc_short: "length d < 64 \<Longrightarrow> md5_proc buf d = (buf, d)"
  by (simp add: md5_proc.simps)

lemma md5_proc_block:
  "length b = 64 \<Longrightarrow> md5_proc buf (b @ d) = md5_proc (MD5Transform buf b) d"
  by (subst md5_proc.simps) simp

lemma md5_proc_append:
  "md5_proc buf (d @ e) = (case md5_proc buf d of (b, r) \<Rightarrow> md5_proc b (r @ e))"
proof (induction buf d rule: md5_proc.induct)
  case (1 buf d)
  show ?case
  proof (cases "length d \<ge> 64")
    case True
    then have "md5_proc buf (d @ e) = md5_proc (MD5Transform buf (take 64 d)) (drop 64 d @ e)"
      by (subst md5_proc.simps) simp
    moreover have "md5_proc buf d = md5_proc (MD5Transform buf (take 64 d)) (drop 64 d)"
      using True by (subst md5_proc.simps) simp
    ultimately show ?thesis using 1 True by simp
  qed (simp add: md5_proc_short)
qed

lemma md5_proc_rest: "length (snd (md5_proc buf d)) = length d mod 64"
proof (induction buf d rule: md5_proc.induct)
  case (1 buf d)
  then show ?case
    by (subst md5_proc.simps) (simp add: le_mod_geq)
qed

lemma rfc_process_proc: "rfc_process buf d = fst (md5_proc buf d)"
proof (induction buf d rule: md5_proc.induct)
  case (1 buf d)
  then show ?case
    by (subst md5_proc.simps, subst rfc_process.simps) (simp add: MD5Transform_rfc)
qed

lemma put_at_all: "length src = length d \<Longrightarrow> put_at 0 src d = src"
  by (simp add: put_at_def)

lemma md5_blocks_proc:
  assumes "length inp = 64"
  shows "\<exists>inp'. length inp' = 64 \<and>
     md5_blocks buf inp d = (fst (md5_proc buf d), inp', snd (md5_proc buf d))"
  using assms
proof (induction buf inp d rule: md5_blocks.induct)
  case (1 buf inp d)
  show ?case
  proof (cases "length d \<ge> 64")
    case True
    then have p: "put_at 0 (take 64 d) inp = take 64 d"
      using 1(2) by (intro put_at_all) simp
    with 1 True show ?thesis
      by (subst md5_blocks.simps) (simp add: md5_proc.simps [of buf d])
  next
    case False
    with 1(2) show ?thesis
      by (subst md5_blocks.simps) (simp add: md5_proc_short)
  qed
qed

definition ctx_ok :: "MD5Context \<Rightarrow> bytes \<Rightarrow> bool" where
  "ctx_ok ctx m \<longleftrightarrow> length (md_in ctx) = 64 \<and>
     md5_proc md5_iv m = (md_buf ctx, take (length m mod 64) (md_in ctx)) \<and>
     md_bits0 ctx = of_nat (8 * length m) \<and> md_bits1 ctx = of_nat (8 * length m div 2 ^ 32)"

lemma ctx_ok_init: "length (md_in ctx) = 64 \<Longrightarrow> ctx_ok (MD5Init ctx) []"
  by (simp add: ctx_ok_def MD5Init_def md5_proc_short)

lemma ctx_count:
  assumes "md_bits0 ctx = of_nat (8 * n)"
  shows "unat (drop_bit 3 (md_bits0 ctx) AND 0x3F) = n mod 64"
proof -
  have "(0x3F :: uint32) = mask 6" by (simp add: mask_eq_exp_minus_1)
  then have "drop_bit 3 (md_bits0 ctx) AND 0x3F = take_bit 6 (drop_bit 3 (md_bits0 ctx))"
    by (simp add: take_bit_eq_mask)
  also have "unat (take_bit 6 (drop_bit 3 (md_bits0 ctx))) = unat (md_bits0 ctx) div 8 mod 64"
    by (simp add: unsigned_take_bit_eq unsigned_drop_bit_eq take_bit_eq_mod drop_bit_eq_div
        unat_mod_distrib unat_div_distrib)
  also have "unat (md_bits0 ctx) = 8 * n mod 2 ^ 32"
    using assms by (simp add: unat_of_nat del: of_nat_mult)
  also have "8 * n mod 2 ^ 32 div 8 mod 64 = n mod 64"
  proof -
    have "8 * n mod 2 ^ 32 = 8 * (n mod 2 ^ 29)" using mult_mod_right [of 8 n "2 ^ 29"] by simp
    then show ?thesis by (simp add: mod_mod_cancel)
  qed
  finally show ?thesis .
qed

text \<open>The two words of the bit count, with the carry between them.\<close>

lemma bit_count_carry:
  fixes L n :: nat
  defines "t \<equiv> (of_nat (8 * L) :: uint32)" and "len \<equiv> (of_nat n :: uint32)"
  assumes "n < 2 ^ 32"
  shows "t + push_bit 3 len = of_nat (8 * (L + n))"
    and "(if t + push_bit 3 len < t then of_nat (8 * L div 2 ^ 32) + 1 else of_nat (8 * L div 2 ^ 32))
         + drop_bit 29 len = (of_nat (8 * (L + n) div 2 ^ 32) :: uint32)"
proof -
  show b0: "t + push_bit 3 len = of_nat (8 * (L + n))"
    by (simp add: t_def len_def push_bit_eq_mult)
  let ?x = "8 * L mod 2 ^ 32" and ?y = "8 * n mod 2 ^ 32"
  have ux: "unat t = ?x" by (simp add: t_def unat_of_nat del: of_nat_mult)
  have us: "unat (of_nat (8 * (L + n)) :: uint32) = (?x + ?y) mod 2 ^ 32"
    by (simp add: unat_of_nat mod_add_eq distrib_left del: of_nat_mult of_nat_add)
  have carry: "(t + push_bit 3 len < t) = (2 ^ 32 \<le> ?x + ?y)"
  proof (cases "2 ^ 32 \<le> ?x + ?y")
    case True
    have "?x < 2 ^ 32" "?y < 2 ^ 32" by simp_all
    with True have "(?x + ?y) mod 2 ^ 32 = ?x + ?y - 2 ^ 32"
      by (simp add: le_mod_geq)
    also have "\<dots> < ?x" using True \<open>?y < 2 ^ 32\<close> by linarith
    finally show ?thesis unfolding b0 word_less_nat_alt ux us using True by simp
  next
    case False
    then show ?thesis unfolding b0 word_less_nat_alt ux us by simp
  qed
  have hi: "drop_bit 29 len = of_nat (8 * n div 2 ^ 32)"
  proof -
    have "unat (drop_bit 29 len) = n div 2 ^ 29"
      using assms(3) by (simp add: len_def unsigned_drop_bit_eq drop_bit_eq_div unat_of_nat unat_div_distrib)
    moreover have "8 * n div 2 ^ 32 = n div 2 ^ 29"
      using div_mult_mult1 [of 8 n "2 ^ 29"] by simp
    moreover have "n div 2 ^ 29 < 2 ^ 32" using assms(3) by (simp add: less_mult_imp_div_less)
    ultimately show ?thesis by (simp add: word_unat_eq_iff unat_of_nat)
  qed
  have "8 * (L + n) div 2 ^ 32 = 8 * L div 2 ^ 32 + 8 * n div 2 ^ 32 + (?x + ?y) div 2 ^ 32"
    unfolding distrib_left by (rule div_add1_eq)
  moreover have "(?x + ?y) div 2 ^ 32 = (if 2 ^ 32 \<le> ?x + ?y then 1 else 0)"
  proof -
    have "?x + ?y < 2 * 2 ^ 32" by (simp add: add_strict_mono)
    then show ?thesis by (auto simp: div_if less_mult_imp_div_less)
  qed
  ultimately show "(if t + push_bit 3 len < t then of_nat (8 * L div 2 ^ 32) + 1 else of_nat (8 * L div 2 ^ 32))
         + drop_bit 29 len = (of_nat (8 * (L + n) div 2 ^ 32) :: uint32)"
    unfolding carry hi by simp
qed

lemma take_put_at_0: "length d \<le> length inp \<Longrightarrow> take (length d) (put_at 0 d inp) = d"
  by (simp add: put_at_def)

lemma ctx_ok_update [pfs_inv]:
  assumes ok: "ctx_ok ctx m" and len: "length d < 2 ^ 32"
  shows "ctx_ok (MD5Update ctx d) (m @ d)"
proof -
  let ?n = "length m mod 64" and ?r = "take (length m mod 64) (md_in ctx)"
  have i64: "length (md_in ctx) = 64" and P: "md5_proc md5_iv m = (md_buf ctx, ?r)"
    and b: "md_bits0 ctx = of_nat (8 * length m)" "md_bits1 ctx = of_nat (8 * length m div 2 ^ 32)"
    using ok by (simp_all add: ctx_ok_def)
  have n64: "?n < 64" by simp
  have r: "length ?r = ?n" using i64 n64 by simp
  note bits = bit_count_carry [OF len, of "length m"]
  have cnt: "unat (drop_bit 3 (md_bits0 ctx) AND 0x3F) = ?n" using ctx_count b(1) by blast
  have app: "md5_proc md5_iv (m @ d) = md5_proc (md_buf ctx) (?r @ d)"
    using md5_proc_append [of md5_iv m d] P by simp
  show ?thesis
  proof (cases "?n \<noteq> 0 \<and> length d < 64 - ?n")
    case True
    then have lt: "?n + length d < 64" by linarith
    then have short: "length (?r @ d) < 64" by (simp only: r length_append)
    have l: "length (m @ d) mod 64 = ?n + length d"
    proof -
      have "?n + length d < 64" using True by linarith
      then have "(?n + length d) mod 64 = ?n + length d" by (rule mod_less)
      then show ?thesis by (simp only: mod_add_left_eq length_append)
    qed
    have "take (?n + length d) (put_at ?n d (md_in ctx)) = ?r @ d"
      using r by (simp add: put_at_def)
    moreover have "MD5Update ctx d = ctx\<lparr>md_bits0 := of_nat (8 * (length m + length d)),
        md_bits1 := of_nat (8 * (length m + length d) div 2 ^ 32), md_in := put_at ?n d (md_in ctx)\<rparr>"
      using True bits unfolding MD5Update_def Let_def cnt unfolding b by simp
    moreover have "length (put_at ?n d (md_in ctx)) = 64"
      using lt i64 by (simp add: put_at_def)
    ultimately show ?thesis
      using app md5_proc_short [OF short] l by (simp add: ctx_ok_def)
  next
    case False
    define buf inp e where "buf = (if ?n \<noteq> 0 then MD5Transform (md_buf ctx) (?r @ take (64 - ?n) d) else md_buf ctx)"
      and "inp = (if ?n \<noteq> 0 then ?r @ take (64 - ?n) d else md_in ctx)"
      and "e = (if ?n \<noteq> 0 then drop (64 - ?n) d else d)"
    have blk: "put_at ?n (take (64 - ?n) d) (md_in ctx) = ?r @ take (64 - ?n) d" if "?n \<noteq> 0"
      using that False i64 by (simp add: put_at_def)
    have inp64: "length inp = 64" using False i64 r by (auto simp: inp_def)
    have pe: "md5_proc (md_buf ctx) (?r @ d) = md5_proc buf e"
    proof (cases "?n = 0")
      case True
      then show ?thesis using r by (simp add: buf_def e_def)
    next
      case nz: False
      have "length (?r @ take (64 - ?n) d) = 64" using False nz r by simp
      from md5_proc_block [OF this, of "md_buf ctx" "drop (64 - ?n) d"]
      show ?thesis using nz by (simp add: buf_def e_def)
    qed
    obtain inp' where inp': "length inp' = 64"
      "md5_blocks buf inp e = (fst (md5_proc buf e), inp', snd (md5_proc buf e))"
      using md5_blocks_proc [OF inp64] by blast
    have len': "length (snd (md5_proc buf e)) = length (m @ d) mod 64"
      using md5_proc_rest [of md5_iv "m @ d"] app pe by simp
    then have "length (snd (md5_proc buf e)) \<le> length inp'" using inp'(1) by simp
    then have tk: "take (length (m @ d) mod 64) (put_at 0 (snd (md5_proc buf e)) inp') = snd (md5_proc buf e)"
      and lp: "length (put_at 0 (snd (md5_proc buf e)) inp') = 64"
      using take_put_at_0 [of "snd (md5_proc buf e)" inp'] inp'(1) len' by (simp_all add: put_at_def)
    have "MD5Update ctx d = ctx\<lparr>md_bits0 := of_nat (8 * (length m + length d)),
        md_bits1 := of_nat (8 * (length m + length d) div 2 ^ 32), md_buf := fst (md5_proc buf e),
        md_in := put_at 0 (snd (md5_proc buf e)) inp'\<rparr>"
      using False inp'(2) bits blk
      unfolding MD5Update_def Let_def cnt unfolding b
      by (cases "?n = 0") (simp_all add: buf_def inp_def e_def)
    then show ?thesis
      using app pe tk lp by (simp add: ctx_ok_def)
  qed
qed

lemma put_length_words:
  "length blk = 64 \<Longrightarrow> length z = 56 \<Longrightarrow> put_at 60 (le32 v) (put_at 56 (le32 u) (put_at 0 z blk)) = z @ le32 u @ le32 v"
  by (simp add: put_at_def le32_def)

lemma MD5Final_rfc:
  assumes ok: "ctx_ok ctx m"
  shows "MD5Final ctx = rfc_md5 m"
proof -
  let ?n = "length m mod 64" and ?r = "take (length m mod 64) (md_in ctx)"
  let ?B = "le32 (md_bits0 ctx) @ le32 (md_bits1 ctx)"
  let ?z = "\<lambda>k. replicate k (0 :: byte)"
  have i64: "length (md_in ctx) = 64" and P: "md5_proc md5_iv m = (md_buf ctx, ?r)"
    and b: "md_bits0 ctx = of_nat (8 * length m)" "md_bits1 ctx = of_nat (8 * length m div 2 ^ 32)"
    using ok by (simp_all add: ctx_ok_def)
  have n64: "?n < 64" by simp
  have r: "length ?r = ?n" using i64 n64 by simp
  have l32: "length (le32 w) = 4" for w by (simp add: le32_def)
  have cnt: "unat (drop_bit 3 (md_bits0 ctx) AND 0x3F) = ?n" using ctx_count b(1) by blast
  have pad: "rfc_process md5_iv (rfc_pad m) = fst (md5_proc (md_buf ctx)
      (?r @ [0x80] @ ?z ((119 - ?n) mod 64) @ ?B))"
    using md5_proc_append [of md5_iv m] P b by (simp add: rfc_process_proc rfc_pad_def)
  have one: "fst (md5_proc buf blk) = MD5Transform buf blk" if "length blk = 64" for buf blk
    using md5_proc_block [OF that, of buf "[]"] by (simp add: md5_proc_short)
  show ?thesis
  proof (cases "63 - ?n < 8")
    case True
    let ?b1 = "?r @ [0x80] @ ?z (63 - ?n)" and ?b2 = "?z 56 @ ?B"
    have k: "(119 - ?n) mod 64 = (63 - ?n) + 56" using True n64 by simp
    have "length ?b1 = 64" "length ?b2 = 64" using r n64 l32 by simp_all
    then have "fst (md5_proc (md_buf ctx) (?b1 @ ?b2)) = MD5Transform (MD5Transform (md_buf ctx) ?b1) ?b2"
      using md5_proc_block [of ?b1] one by simp
    then have "rfc_process md5_iv (rfc_pad m) = MD5Transform (MD5Transform (md_buf ctx) ?b1) ?b2"
      unfolding pad k replicate_add by simp
    moreover have "put_at (?n + 1) (?z (63 - ?n)) (put_at ?n [0x80] (md_in ctx)) = ?b1"
      using r i64 n64 by (simp add: put_at_def)
    moreover have "put_at 60 (le32 v) (put_at 56 (le32 u) (put_at 0 (?z 56) ?b1)) = ?z 56 @ le32 u @ le32 v" for u v
      using put_length_words [OF \<open>length ?b1 = 64\<close>] by simp
    ultimately show ?thesis
      using True by (simp add: MD5Final_def md5_padded_def rfc_md5_def Let_def cnt)
  next
    case False
    let ?b = "?r @ [0x80] @ ?z (55 - ?n) @ ?B"
    have n: "?n \<le> 55" using False n64 by linarith
    have "(119 - q) mod 64 = 55 - q" if "q \<le> 55" for q :: nat
    proof -
      have "119 - q = 55 - q + 64" using that by simp
      then show ?thesis by (simp only: mod_add_self2) simp
    qed
    then have k: "(119 - ?n) mod 64 = 55 - ?n" using n by blast
    have "length ?b = 64" using r n l32 by simp
    then have "rfc_process md5_iv (rfc_pad m) = MD5Transform (md_buf ctx) ?b"
      unfolding pad k using one by simp
    moreover have "put_at 60 (le32 v) (put_at 56 (le32 u) (put_at (?n + 1) (?z (63 - ?n - 8)) (put_at ?n [0x80] (md_in ctx))))
        = ?r @ [0x80] @ ?z (55 - ?n) @ le32 u @ le32 v" for u v
    proof -
      have "56 - ?n = Suc (55 - ?n)" "60 - ?n = Suc (59 - ?n)" "59 - ?n - (55 - ?n) = 4" using n by simp_all
      moreover have "min (59 - ?n) (55 - ?n) = 55 - ?n" "Suc (63 - ?n) \<le> 64 - ?n" using n by linarith+
      ultimately show ?thesis using r i64 n by (simp add: put_at_def l32)
    qed
    ultimately show ?thesis
      using False by (simp add: MD5Final_def md5_padded_def rfc_md5_def Let_def cnt)
  qed
qed

lemma ctx_ok_pieces:
  "ctx_ok ctx m \<Longrightarrow> (\<And>d. d \<in> set ds \<Longrightarrow> length d < 2 ^ 32) \<Longrightarrow> ctx_ok (fold (\<lambda>d c. MD5Update c d) ds ctx) (m @ concat ds)"
proof (induction ds arbitrary: ctx m)
  case (Cons d ds)
  have "ctx_ok (MD5Update ctx d) (m @ d)" using Cons.prems ctx_ok_update by simp
  with Cons.IH [of "MD5Update ctx d" "m @ d"] Cons.prems show ?case by simp
qed simp



text \<open>
  The file digest: reading a file whose contents are \<open>d\<close> in full buffers, the last one shorter or
  followed by an end-of-file read, gives the digest of \<open>d\<close>.
\<close>

lemma md5_read_pieces:
  assumes "ctx_ok ctx m" "\<And>d. d \<in> set ds \<Longrightarrow> length d = bs" "0 < bs" "bs < 2 ^ 32" "length l < bs"
  shows "\<exists>ctx'. md5_read bs ctx (map (\<lambda>d. (d, False)) ds @ [(l, True)]) = Some ctx' \<and> ctx_ok ctx' (m @ concat ds @ l)"
  using assms
proof (induction ds arbitrary: ctx m)
  case Nil
  then show ?case using ctx_ok_update [OF Nil.prems(1), of l] by simp
next
  case (Cons d ds)
  have "ctx_ok (MD5Update ctx d) (m @ d)" using Cons.prems ctx_ok_update by simp
  from Cons.IH [OF this] Cons.prems show ?case by (simp add: Let_def)
qed

lemma getfilemd5_contents:
  assumes "\<And>d. d \<in> set ds \<Longrightarrow> length d = 2 ^ 20" "length l < 2 ^ 20"
  shows "getfilemd5 (Some (map (\<lambda>d. (d, False)) ds @ [(l, True)])) = Some (rfc_md5 (concat ds @ l))"
proof -
  have "ctx_ok (MD5Init blank_ctx) []" by (rule ctx_ok_init) (simp add: blank_ctx_def)
  from md5_read_pieces [OF this, of ds "2 ^ 20" l] assms show ?thesis
    by (auto simp: getfilemd5_def MD5Final_rfc)
qed

end
