(* ===== verification/Pfs_Config.thy ===== *)
theory Pfs_Config
  imports Pfs_Codec
begin

section \<open>Configuration (lib/myconfig.c)\<close>

text \<open>
  The configuration is a hash table of 256 chains of entries; an entry is found by the \<^verbatim>\<open>r5hash\<close> of
  its key and the key itself, and a new entry is put at the head of its chain, so that it hides an
  older one.  Entries also hang on one of 256 lists by section prefix (\<^verbatim>\<open>prelist\<close>), from which a
  file can be written back.  Entries are store cells (\<open>cf_mc\<close>) because both lists and the cached
  integer value refer to the same cell.  Values of \<^verbatim>\<open>VAL_MAX_LEN\<close> or more characters overrun
  their cell in the code and are outside the model.
\<close>

subsection \<open>State\<close>

abbreviation VAL_MAX_LEN :: nat where "VAL_MAX_LEN \<equiv> 1024"
abbreviation MAX_RELOAD_KEY_NUM :: nat where "MAX_RELOAD_KEY_NUM \<equiv> 128"

record myconfig =
  mc_hash :: uint32
  mc_key :: string
  mc_val :: string
  mc_intval :: int

record prehash =
  ph_pre :: string
  ph_used :: bool
  ph_list :: "nat list"

record cfg_state =
  cf_mc :: "nat \<Rightarrow> myconfig"
  cf_hash :: "nat \<Rightarrow> nat list"
  cf_pre :: "prehash list"
  cf_next :: nat
  cf_inited :: bool
  cf_reload_key :: "string list"
  cf_reload_cb :: "nat list"

definition default_reload_keys :: "string list" where
  "default_reload_keys = [''log_level'', ''log_rotate_size'', ''log_rotate_time'',
     ''epoll_batch_events'', ''recv_timeout'', ''send_timeout'', ''keepalive_timeout'',
     ''forward_timeout'', ''forward_connect_timeout'', ''download_speed'', ''tcp_nodelay'',
     ''traffic_control'', ''traffic_pending_max'', ''traffic_pending_delta'',
     ''traffic_pending_mode'', ''traffic_pending_send'']"

definition empty_config :: cfg_state where
  "empty_config = \<lparr>cf_mc = (\<lambda>_. \<lparr>mc_hash = 0, mc_key = [], mc_val = [], mc_intval = -1\<rparr>),
     cf_hash = (\<lambda>_. []), cf_pre = replicate 256 \<lparr>ph_pre = [], ph_used = False, ph_list = []\<rparr>,
     cf_next = 0, cf_inited = False, cf_reload_key = default_reload_keys, cf_reload_cb = []\<rparr>"

definition SEP :: "char \<Rightarrow> bool" where
  "SEP c \<longleftrightarrow> c = CHR '' '' \<or> c = CHR ''.'' \<or> c = CHR ''-'' \<or> c = CHR ''_''"

definition bucket :: "uint32 \<Rightarrow> nat" where
  "bucket h = unat (h AND 0xff)"

text \<open>The key under which \<^verbatim>\<open>myconfig_put_value\<close> stores, and the one \<^verbatim>\<open>myconfig_delete_value\<close> looks for.\<close>

definition cfg_key :: "string \<Rightarrow> string \<Rightarrow> string" where
  "cfg_key pre key0 = map (\<lambda>c. tolower (if SEP c then CHR ''_'' else c)) (pre @ key0)"

definition del_key :: "string \<Rightarrow> string \<Rightarrow> string" where
  "del_key prefix key = map (\<lambda>c. if SEP c then CHR ''_'' else c) (prefix @ key)"

subsection \<open>Storing, deleting and finding\<close>

definition cfg_match :: "cfg_state \<Rightarrow> string \<Rightarrow> nat \<Rightarrow> bool" where
  "cfg_match s key i \<longleftrightarrow> mc_hash (cf_mc s i) = r5hash key \<and> mc_key (cf_mc s i) = key"

text \<open>The index of the prefix list a new entry goes to; 256 when there is none.\<close>

fun pre_index :: "string \<Rightarrow> prehash list \<Rightarrow> nat" where
  "pre_index pre [] = 0"
| "pre_index pre (p # ps) =
     (if \<not> ph_used p \<or> take (length pre) (ph_pre p) = pre then 0 else Suc (pre_index pre ps))"

definition myconfig_put_value ::
  "bool \<Rightarrow> string \<Rightarrow> string \<Rightarrow> string \<Rightarrow> cfg_state \<Rightarrow> int \<times> cfg_state" where
  "myconfig_put_value malloc_ok pre key0 val s =
     (if \<not> malloc_ok then (-1, s)
      else
        let i = cf_next s; key = cfg_key pre key0; h = r5hash key;
            s1 = s\<lparr>cf_mc := (cf_mc s)(i := \<lparr>mc_hash = h, mc_key = key, mc_val = val, mc_intval = -1\<rparr>),
                   cf_hash := (cf_hash s)(bucket h := i # cf_hash s (bucket h)),
                   cf_next := i + 1\<rparr>;
            n = pre_index pre (cf_pre s1)
        in if n \<ge> 256 then (0, s1)
           else
             let p = cf_pre s1 ! n;
                 p' = p\<lparr>ph_used := True, ph_pre := put_at 0 pre (ph_pre p), ph_list := i # ph_list p\<rparr>
             in (1, s1\<lparr>cf_pre := (cf_pre s1)[n := p']\<rparr>))"

definition myconfig_delete_value :: "string \<Rightarrow> string \<Rightarrow> cfg_state \<Rightarrow> int \<times> cfg_state" where
  "myconfig_delete_value prefix key s =
     (let str = del_key prefix key; b = bucket (r5hash str);
          dead = filter (cfg_match s str) (cf_hash s b)
      in (1, s\<lparr>cf_hash := (cf_hash s)(b := filter (\<lambda>i. \<not> cfg_match s str i) (cf_hash s b)),
               cf_pre := map (\<lambda>p. p\<lparr>ph_list := filter (\<lambda>i. i \<notin> set dead) (ph_list p)\<rparr>) (cf_pre s)\<rparr>))"

definition cfg_find :: "string \<Rightarrow> cfg_state \<Rightarrow> nat option" where
  "cfg_find key s = List.find (cfg_match s key) (cf_hash s (bucket (r5hash key)))"

definition myconfig_get_value :: "string \<Rightarrow> cfg_state \<Rightarrow> string option" where
  "myconfig_get_value key s = map_option (\<lambda>i. mc_val (cf_mc s i)) (cfg_find key s)"

text \<open>The values of a repeated key, the oldest first.\<close>

definition myconfig_get_multivalue :: "string \<Rightarrow> nat \<Rightarrow> cfg_state \<Rightarrow> string option" where
  "myconfig_get_multivalue key index s =
     (let is = filter (cfg_match s key) (rev (cf_hash s (bucket (r5hash key)))) in
      if index < length is then Some (mc_val (cf_mc s (is ! index))) else None)"

definition int_of_val :: "string \<Rightarrow> int option" where
  "int_of_val v =
     (if (case v of c # _ \<Rightarrow> isdigit c | [] \<Rightarrow> False)
         \<or> (case v of c # d # _ \<Rightarrow> c = CHR ''-'' \<and> isdigit d | _ \<Rightarrow> False) then Some (atoi v)
      else if strcasecmp_eq v ''On'' then Some 1
      else if strcasecmp_eq v ''Off'' then Some 0
      else if strcasecmp_eq v ''Yes'' then Some 1
      else if strcasecmp_eq v ''No'' then Some 0
      else if strcasecmp_eq v ''True'' then Some 1
      else if strcasecmp_eq v ''False'' then Some 0
      else if strcasecmp_eq v ''enable'' then Some 1
      else if strcasecmp_eq v ''disable'' then Some 0
      else if strcasecmp_eq v ''enabled'' then Some 1
      else if strcasecmp_eq v ''disabled'' then Some 0
      else None)"

definition myconfig_get_intval :: "string \<Rightarrow> int \<Rightarrow> cfg_state \<Rightarrow> int \<times> cfg_state" where
  "myconfig_get_intval key def s =
     (case cfg_find key s of
        None \<Rightarrow> (def, s)
      | Some i \<Rightarrow>
          let m = cf_mc s i in
          if mc_intval m = -1 then
            (case int_of_val (mc_val m) of
               None \<Rightarrow> (def, s)
             | Some v \<Rightarrow> (v, s\<lparr>cf_mc := (cf_mc s)(i := m\<lparr>mc_intval := v\<rparr>)\<rparr>))
          else (mc_intval m, s))"

definition myconfig_get_size :: "string \<Rightarrow> int \<Rightarrow> cfg_state \<Rightarrow> uint64" where
  "myconfig_get_size key def s =
     (case cfg_find key s of
        None \<Rightarrow> word_of_int def
      | Some i \<Rightarrow>
          let v = mc_val (cf_mc s i) in
          if \<not> starts_digit v then word_of_int def
          else
            let (n, pp) = strtoul0 v; w = (of_nat n :: uint64);
                u = (case pp of c # _ \<Rightarrow> tolower c | [] \<Rightarrow> NUL)
            in if u = CHR ''b'' then w
               else if u = CHR ''k'' then w * 1024
               else if u = CHR ''m'' then w * (1024 * 1024)
               else if u = CHR ''g'' then w * (1024 * 1024 * 1024)
               else w)"

definition myconfig_update_value :: "bool \<Rightarrow> string \<Rightarrow> string \<Rightarrow> cfg_state \<Rightarrow> int \<times> cfg_state" where
  "myconfig_update_value malloc_ok key value s =
     (case cfg_find key s of
        Some i \<Rightarrow> (1, s\<lparr>cf_mc := (cf_mc s)(i := (cf_mc s i)\<lparr>mc_val := value\<rparr>)\<rparr>)
      | None \<Rightarrow>
          (case strchr (CHR ''_'') key of
             Some (pre, key0) \<Rightarrow> myconfig_put_value malloc_ok (pre @ ''-'') key0 value s
           | None \<Rightarrow> myconfig_put_value malloc_ok [] key value s))"

definition myconfig_register_reload :: "nat \<Rightarrow> string list \<Rightarrow> cfg_state \<Rightarrow> cfg_state" where
  "myconfig_register_reload func keys s =
     (let s1 = s\<lparr>cf_reload_cb := func # cf_reload_cb s\<rparr> in
      if keys \<noteq> [] \<and> MAX_RELOAD_KEY_NUM - length (cf_reload_key s) > length keys
      then s1\<lparr>cf_reload_key := cf_reload_key s @ keys\<rparr> else s1)"

definition myconfig_cleanup :: "cfg_state \<Rightarrow> cfg_state" where
  "myconfig_cleanup s = s\<lparr>cf_hash := (\<lambda>_. []), cf_reload_cb := []\<rparr>"

subsection \<open>Reading a file\<close>

definition blank :: "char \<Rightarrow> bool" where
  "blank c \<longleftrightarrow> c = CHR '' '' \<or> c = CHR 0x09 \<or> c = CHR 0x0D"

definition isalnum :: "char \<Rightarrow> bool" where
  "isalnum c \<longleftrightarrow> isdigit c \<or> (65 \<le> (of_char c :: nat) \<and> of_char c \<le> (90 :: nat))
     \<or> (97 \<le> (of_char c :: nat) \<and> of_char c \<le> (122 :: nat))"

definition rstrip :: "(char \<Rightarrow> bool) \<Rightarrow> string \<Rightarrow> string" where
  "rstrip P s = rev (dropWhile P (rev s))"

definition section_name :: "string \<Rightarrow> string" where
  "section_name name = dropWhile SEP (rstrip SEP name @ ''-'')"

text \<open>One line: the section it leaves in force, and the key and value it sets, if any.\<close>

definition parse_line :: "string \<Rightarrow> string \<Rightarrow> string \<times> (string \<times> string) option" where
  "parse_line sec line =
     (case dropWhile blank line of
        [] \<Rightarrow> (sec, None)
      | c # r \<Rightarrow>
          if c = CHR ''['' then
            (case strchr (CHR '']'') r of
               None \<Rightarrow> (sec, None)
             | Some (name, _) \<Rightarrow> (section_name name, None))
          else if c = CHR ''#'' \<or> c = CHR '';'' then (sec, None)
          else
            let stop = (\<lambda>x. blank x \<or> x = CHR ''='');
                k = takeWhile (\<lambda>x. \<not> stop x) (c # r);
                p = dropWhile blank (dropWhile (\<lambda>x. \<not> stop x) (c # r));
                p1 = dropWhile (\<lambda>x. x = CHR ''='') p;
                v = rstrip blank (dropWhile blank p1)
            in if k \<noteq> [] \<and> isalnum (hd k) \<and> v \<noteq> [] then (sec, Some (k, v)) else (sec, None))"

definition load_entry :: "string \<Rightarrow> string \<Rightarrow> string \<Rightarrow> cfg_state \<Rightarrow> cfg_state" where
  "load_entry sec k v s =
     (if \<not> cf_inited s then snd (myconfig_put_value True sec k v s)
      else if k \<in> set (cf_reload_key s)
      then snd (myconfig_put_value True sec k v (snd (myconfig_delete_value sec k s)))
      else s)"

definition load_line :: "string \<Rightarrow> string \<times> cfg_state \<Rightarrow> string \<times> cfg_state" where
  "load_line line = (\<lambda>(sec, s).
     case parse_line sec line of
       (sec', None) \<Rightarrow> (sec', s)
     | (sec', Some (k, v)) \<Rightarrow> (sec', load_entry sec' k v s))"

text \<open>
  The loop \<^verbatim>\<open>while (p < buf+len)\<close>.  When the last line has no newline, \<^verbatim>\<open>p\<close> becomes the null pointer,
  which is smaller than the end of the buffer, and \<^verbatim>\<open>strchr\<close> is called on it: \<open>None\<close>.
\<close>

function load_text :: "string \<Rightarrow> string \<times> cfg_state \<Rightarrow> cfg_state option" where
  "load_text content st =
     (if content = [] then Some (snd st)
      else (case strchr (CHR 0x0A) content of
              Some (line, rest) \<Rightarrow> load_text rest (load_line line st)
            | None \<Rightarrow> None))"
  by pat_completeness auto
termination
proof (relation "measure (\<lambda>(t, _). length t)")
  show "((rest, load_line line st), (content, st)) \<in> measure (\<lambda>(t, _). length t)"
    if "strchr (CHR 0x0A) content = Some x2" "(line, rest) = x2" for content st x2 line rest
  proof -
    have "content = line @ CHR 0x0A # rest" using that strchr_Some_iff by auto
    then show ?thesis by simp
  qed
qed auto

declare load_text.simps [simp del]

definition myconfig_loadfile0 :: "string option \<Rightarrow> cfg_state \<Rightarrow> (int \<times> cfg_state) option" where
  "myconfig_loadfile0 file s =
     (case file of
        None \<Rightarrow> Some (-1, s)
      | Some content \<Rightarrow> map_option (Pair 0) (load_text content ([], s)))"

definition load_arg :: "string \<Rightarrow> cfg_state \<Rightarrow> cfg_state" where
  "load_arg arg s =
     (case dropWhile (\<lambda>x. x = CHR ''-'') arg of
        [] \<Rightarrow> s
      | c # r \<Rightarrow>
          if c = CHR '';'' \<or> c = CHR ''#'' \<or> c = CHR ''='' then s
          else (case strchr (CHR ''='') (c # r) of
                  None \<Rightarrow> snd (myconfig_put_value True [] (c # r) ''1'' s)
                | Some (k, q) \<Rightarrow>
                    let q' = dropWhile (\<lambda>x. x = CHR ''='') q;
                        s1 = (if q' \<noteq> q then snd (myconfig_delete_value [] k s) else s)
                    in if q' \<noteq> [] then snd (myconfig_put_value True [] k q' s1) else s1))"

definition myconfig_init :: "string option \<Rightarrow> string list \<Rightarrow> cfg_state \<Rightarrow> (int \<times> cfg_state) option" where
  "myconfig_init file args s =
     (let s0 = s\<lparr>cf_hash := (\<lambda>_. []), cf_pre := map (\<lambda>p. p\<lparr>ph_list := []\<rparr>) (cf_pre s)\<rparr> in
      case myconfig_loadfile0 file s0 of
        None \<Rightarrow> None
      | Some (r, s1) \<Rightarrow>
          if r < 0 then Some (-1, s1)
          else Some (0, (fold load_arg args s1)\<lparr>cf_inited := True\<rparr>))"

subsection \<open>The table as a map\<close>

definition cfg_ok :: "cfg_state \<Rightarrow> bool" where
  "cfg_ok s \<longleftrightarrow> (\<forall>b. \<forall>i \<in> set (cf_hash s b). i < cf_next s)"

definition cfg_put :: "string \<times> string \<Rightarrow> string \<Rightarrow> cfg_state \<Rightarrow> cfg_state" where
  "cfg_put = (\<lambda>(pre, key0) v s. snd (myconfig_put_value True pre key0 v s))"

lemma put_value_tables:
  fixes s pre key0 val
  defines "s' \<equiv> snd (myconfig_put_value True pre key0 val s)"
    and "k \<equiv> cfg_key pre key0"
  shows "cf_mc s' = (cf_mc s)(cf_next s := \<lparr>mc_hash = r5hash k, mc_key = k, mc_val = val, mc_intval = -1\<rparr>)"
    and "cf_hash s' = (cf_hash s)(bucket (r5hash k) := cf_next s # cf_hash s (bucket (r5hash k)))"
    and "cf_next s' = cf_next s + 1" and "cf_inited s' = cf_inited s" and "cf_reload_key s' = cf_reload_key s"
  by (simp_all add: s'_def k_def myconfig_put_value_def Let_def)

lemma cfg_ok_put [pfs_inv]: "cfg_ok s \<Longrightarrow> cfg_ok (cfg_put r v s)"
  by (cases r) (auto simp: cfg_ok_def cfg_put_def put_value_tables less_Suc_eq split: if_splits)

lemma cfg_find_put:
  assumes "cfg_ok s"
  shows "cfg_find k (cfg_put (pre, key0) v s) =
    (if k = cfg_key pre key0 then Some (cf_next s) else cfg_find k s)"
proof -
  let ?s = "cfg_put (pre, key0) v s" and ?k = "cfg_key pre key0" and ?b = "bucket (r5hash k)"
  have old: "List.find (cfg_match ?s k) (cf_hash s ?b) = List.find (cfg_match s k) (cf_hash s ?b)"
    using assms by (intro find_cong) (auto simp: cfg_ok_def cfg_match_def cfg_put_def put_value_tables)
  have new: "cfg_match ?s k (cf_next s) = (k = ?k)"
    by (auto simp: cfg_match_def cfg_put_def put_value_tables)
  have "cf_hash ?s ?b = (if ?b = bucket (r5hash ?k) then cf_next s # cf_hash s ?b else cf_hash s ?b)"
    by (simp add: cfg_put_def put_value_tables)
  then show ?thesis using old new by (auto simp: cfg_find_def)
qed

lemma cfg_find_less: "cfg_ok s \<Longrightarrow> cfg_find k s = Some i \<Longrightarrow> i < cf_next s"
  by (auto simp: cfg_find_def cfg_ok_def find_Some_iff) (metis nth_mem)

interpretation cfg: keyed_store cfg_ok "\<lambda>(pre, key0). cfg_key pre key0" cfg_put myconfig_get_value
proof
  show "cfg_ok (cfg_put r v s)" if "cfg_ok s" for s r v using that by (rule cfg_ok_put)
  show "myconfig_get_value k (cfg_put r v s)
      = (if k = (case r of (pre, key0) \<Rightarrow> cfg_key pre key0) then Some v else myconfig_get_value k s)"
    if "cfg_ok s" for s k r v
    using that cfg_find_put [OF that, of k _ _ v] cfg_find_less [OF that, of k]
    by (cases r; cases "cfg_find k s")
      (auto simp: myconfig_get_value_def cfg_put_def put_value_tables)
qed

subsection \<open>Loading a file\<close>

lemma load_text_lines:
  "(\<And>l. l \<in> set ls \<Longrightarrow> CHR 0x0A \<notin> set l) \<Longrightarrow>
   load_text (concat (map (\<lambda>l. l @ [CHR 0x0A]) ls)) st = Some (snd (fold load_line ls st))"
proof (induction ls arbitrary: st)
  case (Cons l ls)
  have "strchr (CHR 0x0A) (l @ CHR 0x0A # concat (map (\<lambda>l. l @ [CHR 0x0A]) ls))
      = Some (l, concat (map (\<lambda>l. l @ [CHR 0x0A]) ls))"
    using Cons.prems by (simp add: strchr_Some_iff)
  then show ?case
    using Cons by (subst load_text.simps) simp
qed (simp add: load_text.simps)

text \<open>How an entry is written: its section, then key and value.\<close>

definition section_line :: "string \<Rightarrow> string" where
  "section_line sec = ''['' @ sec @ '']''"

definition entry_line :: "string \<Rightarrow> string \<Rightarrow> string" where
  "entry_line k v = k @ '' = '' @ v"

definition plain_entry :: "string \<times> string \<times> string \<Rightarrow> bool" where
  "plain_entry = (\<lambda>(sec, k, v).
     CHR '']'' \<notin> set sec \<and> CHR 0x0A \<notin> set (sec @ k @ v) \<and>
     k \<noteq> [] \<and> isalnum (hd k) \<and> (\<forall>c \<in> set k. \<not> blank c \<and> c \<noteq> CHR ''='') \<and>
     v \<noteq> [] \<and> \<not> blank (hd v) \<and> hd v \<noteq> CHR ''='' \<and> \<not> blank (last v))"

lemma parse_section_line: "CHR '']'' \<notin> set sec \<Longrightarrow> parse_line s0 (section_line sec) = (section_name sec, None)"
  by (simp add: parse_line_def section_line_def blank_def strchr_append)

lemma isalnum_plain: "isalnum c \<Longrightarrow> c \<noteq> CHR ''['' \<and> c \<noteq> CHR ''#'' \<and> c \<noteq> CHR '';''"
  by (auto simp: isalnum_def isdigit_def)

lemma rstrip_id: "v \<noteq> [] \<Longrightarrow> \<not> P (last v) \<Longrightarrow> rstrip P v = v"
  by (cases v rule: rev_cases) (simp_all add: rstrip_def)

lemma parse_entry_line:
  assumes "plain_entry (sec, k, v)"
  shows "parse_line s0 (entry_line k v) = (s0, Some (k, v))"
proof -
  let ?stop = "\<lambda>x. blank x \<or> x = CHR ''=''"
  obtain c r where k: "k = c # r" using assms by (cases k) (auto simp: plain_entry_def)
  obtain d w where v: "v = d # w" using assms by (cases v) (auto simp: plain_entry_def)
  have b: "blank (CHR '' '')" "\<not> blank (CHR ''='')" by (simp_all add: blank_def)
  have noblank: "\<not> ?stop x" if "x \<in> set k" for x using that assms by (auto simp: plain_entry_def)
  have lead: "dropWhile blank (entry_line k v) = entry_line k v"
    using noblank k by (simp add: entry_line_def)
  have t: "takeWhile (\<lambda>x. \<not> ?stop x) (entry_line k v) = k"
    unfolding entry_line_def using noblank b by (subst takeWhile_append2) auto
  have d: "dropWhile (\<lambda>x. \<not> ?stop x) (entry_line k v) = '' = '' @ v"
    unfolding entry_line_def using noblank b by (subst dropWhile_append2) auto
  have "dropWhile blank ('' = '' @ v) = CHR ''='' # CHR '' '' # v" using b by simp
  moreover have "dropWhile blank (CHR '' '' # v) = v" using b v assms by (simp add: plain_entry_def)
  moreover have "rstrip blank v = v" using assms by (intro rstrip_id) (auto simp: plain_entry_def)
  moreover have "isalnum c" using assms k by (simp add: plain_entry_def)
  moreover obtain rr where E: "entry_line k v = c # rr" using k by (simp add: entry_line_def)
  ultimately show ?thesis
    using isalnum_plain [of c] k v b
    unfolding parse_line_def Let_def lead unfolding E list.case t [unfolded E] d [unfolded E]
    by simp
qed

definition render :: "(string \<times> string \<times> string) list \<Rightarrow> string" where
  "render es = concat (map (\<lambda>l. l @ [CHR 0x0A])
     (concat (map (\<lambda>(sec, k, v). [section_line sec, entry_line k v]) es)))"

lemma load_entries:
  assumes "\<And>e. e \<in> set es \<Longrightarrow> plain_entry e" and "\<not> cf_inited s"
  shows "snd (fold load_line (concat (map (\<lambda>(sec, k, v). [section_line sec, entry_line k v]) es)) (sec0, s))
    = fold (\<lambda>(r, v). cfg_put r v) (map (\<lambda>(sec, k, v). ((section_name sec, k), v)) es) s"
  using assms
proof (induction es arbitrary: s sec0)
  case (Cons e es)
  obtain sec k v where e: "e = (sec, k, v)" by (cases e)
  then have p: "plain_entry (sec, k, v)" using Cons.prems by simp
  have one: "load_line (entry_line k v) (load_line (section_line sec) (sec0, s))
      = (section_name sec, cfg_put (section_name sec, k) v s)"
    using p parse_section_line [of sec sec0] parse_entry_line [OF p, of "section_name sec"] Cons.prems(2)
    by (simp add: load_line_def load_entry_def cfg_put_def plain_entry_def)
  have "\<not> cf_inited (cfg_put (section_name sec, k) v s)"
    using Cons.prems(2) by (simp add: cfg_put_def put_value_tables)
  with Cons one e show ?case by simp
qed simp



lemma load_text_unterminated:
  "(\<And>l. l \<in> set ls \<Longrightarrow> CHR 0x0A \<notin> set l) \<Longrightarrow> tail \<noteq> [] \<Longrightarrow> CHR 0x0A \<notin> set tail \<Longrightarrow>
   load_text (concat (map (\<lambda>l. l @ [CHR 0x0A]) ls) @ tail) st = None"
proof (induction ls arbitrary: st)
  case Nil
  then have "strchr (CHR 0x0A) tail = None"
    by (cases "strchr (CHR 0x0A) tail") (auto simp: strchr_Some_iff)
  with Nil show ?case by (subst load_text.simps) simp
next
  case (Cons l ls)
  have "strchr (CHR 0x0A) (l @ CHR 0x0A # concat (map (\<lambda>l. l @ [CHR 0x0A]) ls) @ tail)
      = Some (l, concat (map (\<lambda>l. l @ [CHR 0x0A]) ls) @ tail)"
    using Cons.prems by (simp add: strchr_Some_iff)
  then show ?case
    using Cons by (subst load_text.simps) simp
qed

text \<open>
  A configuration file whose last line is not terminated by a newline is never loaded: whatever
  its lines are, the loop runs into the null pointer.
\<close>

theorem config_unterminated_crashes:
  assumes "file = concat (map (\<lambda>l. l @ [CHR 0x0A]) ls) @ tail"
    and "\<And>l. l \<in> set ls \<Longrightarrow> CHR 0x0A \<notin> set l" and "tail \<noteq> []" and "CHR 0x0A \<notin> set tail"
  shows "myconfig_loadfile0 (Some file) s = None"
  using load_text_unterminated [OF assms(2-4)] assms(1) by (simp add: myconfig_loadfile0_def)

theorem config_unterminated_crashes_witness:
  "myconfig_loadfile0 (Some (''a = 1'' @ [CHR 0x0A] @ ''b = 2'')) empty_config = None"
  using config_unterminated_crashes [of "''a = 1'' @ [CHR 0x0A] @ ''b = 2''" "[''a = 1'']" "''b = 2''" empty_config]
  by simp

subsection \<open>Integer values\<close>

lemma find_upd_same_key:
  assumes "cf_hash s' = cf_hash s" and "\<And>i. mc_hash (cf_mc s' i) = mc_hash (cf_mc s i)"
    and "\<And>i. mc_key (cf_mc s' i) = mc_key (cf_mc s i)"
  shows "cfg_find k s' = cfg_find k s"
  using assms by (simp add: cfg_find_def cfg_match_def [abs_def])

text \<open>
  \<^verbatim>\<open>myconfig_get_intval\<close> of a value that was put and never updated is the value's number, or the
  default when it is no number, and asking again gives the same answer; but once asked, a later
  \<^verbatim>\<open>myconfig_update_value\<close> of the key changes the text and not the number: the integer that was
  cached is returned for the new value too (unless it was -1).
\<close>

theorem intval_cached:
  assumes "cfg_ok s" and "key = cfg_key pre key0"
    and "s1 = snd (myconfig_put_value True pre key0 v s)"
    and "int_of_val v = Some n" and "n \<noteq> -1"
    and "s2 = snd (myconfig_get_intval key d s1)"
    and "s3 = snd (myconfig_update_value m key v' s2)"
  shows "fst (myconfig_get_intval key d s1) = n \<and> fst (myconfig_get_intval key d' s2) = n \<and>
         myconfig_get_value key s3 = Some v' \<and> fst (myconfig_get_intval key d' s3) = n"
proof -
  have s1: "s1 = cfg_put (pre, key0) v s" using assms(3) by (simp add: cfg_put_def)
  have f1: "cfg_find key s1 = Some (cf_next s)"
    using cfg_find_put [OF assms(1)] assms(2) s1 by simp
  have mc: "cf_mc s1 (cf_next s) = \<lparr>mc_hash = r5hash key, mc_key = key, mc_val = v, mc_intval = -1\<rparr>"
    using assms(2,3) by (simp add: put_value_tables)
  have g1: "myconfig_get_intval key d s1
      = (n, s1\<lparr>cf_mc := (cf_mc s1)(cf_next s := (cf_mc s1 (cf_next s))\<lparr>mc_intval := n\<rparr>)\<rparr>)"
    using f1 mc assms(4) by (simp add: myconfig_get_intval_def)
  have s2: "s2 = s1\<lparr>cf_mc := (cf_mc s1)(cf_next s := (cf_mc s1 (cf_next s))\<lparr>mc_intval := n\<rparr>)\<rparr>"
    using g1 assms(6) by simp
  have f2: "cfg_find key s2 = Some (cf_next s)"
    using find_upd_same_key [of s2 s1 key] f1 by (simp add: s2)
  have s3: "s3 = s2\<lparr>cf_mc := (cf_mc s2)(cf_next s := (cf_mc s2 (cf_next s))\<lparr>mc_val := v'\<rparr>)\<rparr>"
    using f2 assms(7) by (simp add: myconfig_update_value_def)
  have f3: "cfg_find key s3 = Some (cf_next s)"
    using find_upd_same_key [of s3 s2 key] f2 by (simp add: s3)
  show ?thesis
    using g1 f2 f3 assms(5)
    by (simp add: myconfig_get_intval_def myconfig_get_value_def) (simp add: s3 s2)
qed

theorem intval_cached_witness:
  "\<exists>s3. myconfig_get_value ''log_level'' s3 = Some ''4'' \<and> fst (myconfig_get_intval ''log_level'' 0 s3) = 2"
proof -
  have "cfg_ok empty_config" by (simp add: cfg_ok_def empty_config_def)
  moreover have "''log_level'' = cfg_key ''log-'' ''Level''" by code_simp
  moreover have "int_of_val ''2'' = Some 2" by code_simp
  ultimately show ?thesis
    using intval_cached [of empty_config "''log_level''" "''log-''" "''Level''" _ "''2''" 2 _ 0 _ True "''4''" 0,
        OF _ _ refl _ _ refl refl]
    by auto
qed

end
