(* ===== verification/Pfs_Topology.thy ===== *)
theory Pfs_Topology
  imports Pfs_Config
begin

section \<open>Addresses, domains and groups (network/pfs_init.c)\<close>

text \<open>
  Every server knows the addresses of all others: a hash table \<^verbatim>\<open>allip\<close> from addresses to roles, the
  domains (sets of storage servers that mirror each other) and the groups of domains, read from the
  group files named in the configuration.  Domains are store cells because the address table and
  two lists refer to them.  Files are given by their lines, \<^verbatim>\<open>malloc\<close> and locks by their results.
\<close>

subsection \<open>Data\<close>

abbreviation MAX_IP_DOMAIN :: nat where "MAX_IP_DOMAIN \<equiv> 64"
abbreviation MAX_NAMESERVER :: nat where "MAX_NAMESERVER \<equiv> 64"
abbreviation MAXDISKS :: nat where "MAXDISKS \<equiv> 32"
abbreviation ROLE_UNKOWN :: nat where "ROLE_UNKOWN \<equiv> 0"
abbreviation ROLE_STORAGE :: nat where "ROLE_STORAGE \<equiv> 1"
abbreviation ROLE_NAMESERVER :: nat where "ROLE_NAMESERVER \<equiv> 2"
abbreviation ROLE_POSS_MASTER :: nat where "ROLE_POSS_MASTER \<equiv> 3"

record t_ip_info =
  ip_role :: nat
  ip_sip :: string
  ip_uip :: uint32
  ip_ptr :: "nat option"

record t_pfs_domain =
  dm_domain :: string
  dm_sips :: "nat \<Rightarrow> string"
  dm_self :: "nat \<Rightarrow> bool"
  dm_offline :: "nat \<Rightarrow> uint8"
  dm_iperrdisk :: "nat \<Rightarrow> nat \<Rightarrow> uint8"
  dm_ips :: "nat \<Rightarrow> uint32"
  dm_diskfree :: uint32
  dm_taskcount :: uint32
  dm_load :: uint32
  dm_ipcount :: nat
  dm_index :: nat

record t_pfs_group_list =
  gl_group :: string
  gl_dlist :: "nat list"

record topo =
  tp_allip :: "nat \<Rightarrow> t_ip_info list"
  tp_dom :: "nat \<Rightarrow> t_pfs_domain"
  tp_alldomain :: "nat list"
  tp_grouplist :: "t_pfs_group_list list"
  tp_next :: nat
  tp_localip :: "uint32 list"

definition zero_domain :: t_pfs_domain where
  "zero_domain = \<lparr>dm_domain = [], dm_sips = (\<lambda>_. []), dm_self = (\<lambda>_. False), dm_offline = (\<lambda>_. 0),
     dm_iperrdisk = (\<lambda>_ _. 0), dm_ips = (\<lambda>_. 0), dm_diskfree = 0, dm_taskcount = 0, dm_load = 0,
     dm_ipcount = 0, dm_index = 0\<rparr>"

definition empty_topo :: topo where
  "empty_topo = \<lparr>tp_allip = (\<lambda>_. []), tp_dom = (\<lambda>_. zero_domain), tp_alldomain = [],
     tp_grouplist = [], tp_next = 0, tp_localip = replicate 64 0\<rparr>"

definition upd_dom :: "nat \<Rightarrow> (t_pfs_domain \<Rightarrow> t_pfs_domain) \<Rightarrow> topo \<Rightarrow> topo" where
  "upd_dom d f t = t\<lparr>tp_dom := (tp_dom t)(d := f (tp_dom t d))\<rparr>"

subsection \<open>The address table\<close>

definition ip_bucket :: "uint32 \<Rightarrow> nat" where
  "ip_bucket uip = unat (uip AND 0x1F)"

definition add_ip_2_pfs :: "bool \<Rightarrow> string \<Rightarrow> uint32 \<Rightarrow> nat \<Rightarrow> nat option \<Rightarrow> topo \<Rightarrow> int \<times> topo" where
  "add_ip_2_pfs malloc_ok sip uip role ptr t =
     (if \<not> malloc_ok then (-1, t)
      else (0, t\<lparr>tp_allip := (tp_allip t)(ip_bucket uip :=
             \<lparr>ip_role = role, ip_sip = snprintf_s 16 sip, ip_uip = uip, ip_ptr = ptr\<rparr>
               # tp_allip t (ip_bucket uip))\<rparr>))"

definition get_ip_info :: "uint32 \<Rightarrow> topo \<Rightarrow> t_ip_info option" where
  "get_ip_info uip t = List.find (\<lambda>i. ip_uip i = uip) (tp_allip t (ip_bucket uip))"

fun remove_first :: "('a \<Rightarrow> bool) \<Rightarrow> 'a list \<Rightarrow> 'a list" where
  "remove_first P [] = []"
| "remove_first P (x # xs) = (if P x then xs else x # remove_first P xs)"

definition del_ip_from_pfs :: "uint32 \<Rightarrow> topo \<Rightarrow> topo" where
  "del_ip_from_pfs uip t = t\<lparr>tp_allip := (tp_allip t)(ip_bucket uip :=
     remove_first (\<lambda>i. ip_uip i = uip) (tp_allip t (ip_bucket uip)))\<rparr>"

text \<open>\<^verbatim>\<open>localip\<close> has 64 places, ended by a zero; loopback interfaces are skipped.\<close>

definition init_local_ip :: "(string \<times> uint32) list \<Rightarrow> topo \<Rightarrow> topo" where
  "init_local_ip ifs t =
     (let ips = map snd (filter (\<lambda>(n, _). take 2 n \<noteq> ''lo'') ifs) in
      t\<lparr>tp_grouplist := [],
         tp_localip := fold (\<lambda>(i, ip) l. l[i mod 64 := ip]) (zip [0..<length ips] ips) (replicate 64 0)\<rparr>)"

definition check_self_ip :: "uint32 \<Rightarrow> topo \<Rightarrow> int" where
  "check_self_ip ip t = (if ip \<in> set (takeWhile (\<lambda>x. x \<noteq> 0) (tp_localip t)) then 0 else -1)"

definition get_self_role_ip_domain :: "topo \<Rightarrow> nat \<times> uint32 option \<times> t_pfs_domain option" where
  "get_self_role_ip_domain t =
     (case List.find (\<lambda>ip. get_ip_info ip t \<noteq> None) (takeWhile (\<lambda>x. x \<noteq> 0) (tp_localip t)) of
        None \<Rightarrow> (ROLE_UNKOWN, None, None)
      | Some ip \<Rightarrow>
          (case get_ip_info ip t of
             None \<Rightarrow> (ROLE_UNKOWN, None, None)
           | Some i \<Rightarrow>
               (ip_role i, Some ip,
                if ip_role i = ROLE_STORAGE then map_option (tp_dom t) (ip_ptr i) else None)))"

subsection \<open>Domains and groups\<close>

definition add_storage_to_domain :: "bool \<Rightarrow> string \<Rightarrow> nat \<Rightarrow> topo \<Rightarrow> int \<times> topo" where
  "add_storage_to_domain malloc_ok ip g t =
     (let n = dm_ipcount (tp_dom t g) in
      if n \<ge> MAX_IP_DOMAIN then (-1, t)
      else
        let uip = str2ip ip;
            t1 = upd_dom g (\<lambda>d. d\<lparr>dm_sips := (dm_sips d)(n := snprintf_s 16 ip),
                                 dm_ips := (dm_ips d)(n := uip),
                                 dm_self := (if check_self_ip uip t = 0 then (dm_self d)(n := True)
                                             else dm_self d)\<rparr>) t;
            (r, t2) = add_ip_2_pfs malloc_ok ip uip ROLE_STORAGE (Some g) t1
        in if r \<noteq> 0 then (-1, t2)
           else (0, upd_dom g (\<lambda>d. d\<lparr>dm_ipcount := n + 1\<rparr>) t2))"

definition destroy_storage_ip :: "nat \<Rightarrow> topo \<Rightarrow> topo" where
  "destroy_storage_ip d t =
     fold (\<lambda>i. del_ip_from_pfs (dm_ips (tp_dom t d) i)) [0..<dm_ipcount (tp_dom t d)] t"

definition destroy_old_group :: "string \<Rightarrow> topo \<Rightarrow> topo" where
  "destroy_old_group gname t =
     (let dead = concat (map gl_dlist (filter (\<lambda>g. gl_group g = gname) (tp_grouplist t)));
          t1 = t\<lparr>tp_grouplist := filter (\<lambda>g. gl_group g \<noteq> gname) (tp_grouplist t),
                 tp_alldomain := filter (\<lambda>d. d \<notin> set dead) (tp_alldomain t)\<rparr>
      in fold destroy_storage_ip dead t1)"

text \<open>The pieces of a text between commas.\<close>

function commas :: "string \<Rightarrow> string list" where
  "commas s = (case strchr (CHR '','') s of None \<Rightarrow> [s] | Some (a, r) \<Rightarrow> a # commas r)"
  by pat_completeness auto
termination
proof (relation "measure length")
  show "(r, s) \<in> measure length" if "strchr (CHR '','') s = Some x2" "(a, r) = x2" for s x2 a r
  proof -
    have "s = a @ CHR '','' # r" using that strchr_Some_iff by auto
    then show ?thesis by simp
  qed
qed auto

declare commas.simps [simp del]

fun add_storages :: "bool \<Rightarrow> string list \<Rightarrow> nat \<Rightarrow> topo \<Rightarrow> int \<times> topo" where
  "add_storages m [] g t = (0, t)"
| "add_storages m (ip # ips) g t =
     (case add_storage_to_domain m ip g t of (r, t') \<Rightarrow>
        if r \<noteq> 0 then (-1, t') else add_storages m ips g t')"

text \<open>One line \<^verbatim>\<open>domain:ip,ip,...\<close> of a group file; the new domain goes to the front of both lists.\<close>

definition group_line :: "bool \<Rightarrow> string \<Rightarrow> topo \<Rightarrow> int \<times> topo" where
  "group_line m line t =
     (let buf = (case strrchr (CHR 0x0A) line of None \<Rightarrow> line | Some (a, _) \<Rightarrow> a) in
      case strchr (CHR '':'') buf of
        None \<Rightarrow> (-1, t)
      | Some (name, ips) \<Rightarrow>
          if \<not> m then (-1, t)
          else
            let d = tp_next t;
                t1 = t\<lparr>tp_next := d + 1,
                       tp_dom := (tp_dom t)(d := zero_domain\<lparr>dm_domain := snprintf_s 128 name\<rparr>),
                       tp_alldomain := d # tp_alldomain t,
                       tp_grouplist := (case tp_grouplist t of [] \<Rightarrow> []
                          | g # gs \<Rightarrow> g\<lparr>gl_dlist := d # gl_dlist g\<rparr> # gs)\<rparr>
            in add_storages m (commas ips) d t1)"

fun group_lines :: "bool \<Rightarrow> string list \<Rightarrow> topo \<Rightarrow> int \<times> topo" where
  "group_lines m [] t = (0, t)"
| "group_lines m (l # ls) t =
     (case group_line m l t of (r, t') \<Rightarrow> if r \<noteq> 0 then (-1, t') else group_lines m ls t')"

definition init_group ::
  "bool \<Rightarrow> cfg_state \<Rightarrow> (string \<Rightarrow> string list option) \<Rightarrow> string \<Rightarrow> topo \<Rightarrow> int \<times> topo" where
  "init_group m cfg files gname t =
     (let t1 = destroy_old_group gname t in
      case myconfig_get_value (snprintf_s 256 (''iplist_'' @ gname)) cfg of
        None \<Rightarrow> (-1, t1)
      | Some ips \<Rightarrow>
          let t2 = t1\<lparr>tp_grouplist := \<lparr>gl_group = gname, gl_dlist = []\<rparr> # tp_grouplist t1\<rparr> in
          case files ips of None \<Rightarrow> (-1, t2) | Some ls \<Rightarrow> group_lines m ls t2)"

fun init_groups ::
  "bool \<Rightarrow> cfg_state \<Rightarrow> (string \<Rightarrow> string list option) \<Rightarrow> string list \<Rightarrow> topo \<Rightarrow> int \<times> topo" where
  "init_groups m cfg files [] t = (0, t)"
| "init_groups m cfg files (g # gs) t =
     (if \<not> m then (-1, t)
      else case init_group m cfg files (snprintf_s 128 g) t of (r, t') \<Rightarrow>
        if r \<noteq> 0 then (-1, t') else init_groups m cfg files gs t')"

definition get_cfg_lock :: "int \<Rightarrow> int" where
  "get_cfg_lock ret = (if ret \<noteq> 0 \<and> ret \<noteq> 35 then -1 else 0)"

text \<open>\<open>names\<close> are the values of the repeated key \<^verbatim>\<open>group_name\<close>; the last result says whether to stop.\<close>

definition init_storage ::
  "int \<Rightarrow> bool \<Rightarrow> cfg_state \<Rightarrow> (string \<Rightarrow> string list option) \<Rightarrow> string list \<Rightarrow> topo \<Rightarrow> int \<times> topo \<times> bool" where
  "init_storage lock m cfg files names t =
     (if get_cfg_lock lock \<noteq> 0 then (-1, t, True)
      else case init_groups m cfg files names t of (r, t') \<Rightarrow>
        (if names = [] then -1 else r, t', False))"

text \<open>The server address entries, and the name servers; each is also put into the address table.\<close>

definition init_poss :: "(string \<Rightarrow> string option) \<Rightarrow> bool \<Rightarrow> cfg_state \<Rightarrow> topo \<Rightarrow> int \<times> string \<times> topo" where
  "init_poss resolve m cfg t =
     (case myconfig_get_value ''poss_server_ip'' cfg of
        None \<Rightarrow> (-1, [], t)
      | Some ip \<Rightarrow>
          let possip = (case snd (get_uint32_ip resolve ip) of Some s \<Rightarrow> s | None \<Rightarrow> []);
              (r, t') = add_ip_2_pfs m possip (str2ip possip) ROLE_POSS_MASTER None t
          in (r, possip, t'))"

fun init_nameserver ::
  "(string \<Rightarrow> string option) \<Rightarrow> bool \<Rightarrow> nat \<Rightarrow> string list \<Rightarrow> topo \<Rightarrow> int \<times> (nat \<times> uint32) list \<times> topo" where
  "init_nameserver resolve m i [] t = (0, [], t)"
| "init_nameserver resolve m i (v # vs) t =
     (case get_uint32_ip resolve v of (uip, sip) \<Rightarrow>
        if i \<ge> MAX_NAMESERVER then (0, [(i, uip)], t)
        else case add_ip_2_pfs m (case sip of Some s \<Rightarrow> s | None \<Rightarrow> []) uip ROLE_NAMESERVER None t of (r, t1) \<Rightarrow>
          if r \<noteq> 0 then (-1, [(i, uip)], t1)
          else case init_nameserver resolve m (i + 1) vs t1 of (r', ws, t2) \<Rightarrow> (r', (i, uip) # ws, t2))"

subsection \<open>Using the domains\<close>

definition get_domain :: "string \<Rightarrow> topo \<Rightarrow> t_pfs_domain option \<times> topo" where
  "get_domain domain t =
     (case List.find (\<lambda>d. dm_domain (tp_dom t d) = domain) (tp_alldomain t) of
        None \<Rightarrow> (None, t)
      | Some d \<Rightarrow>
          let dm = tp_dom t d; i = dm_index dm + 1;
              dm' = dm\<lparr>dm_index := if i \<ge> dm_ipcount dm then 0 else i\<rparr>
          in (Some dm', t\<lparr>tp_dom := (tp_dom t)(d := dm')\<rparr>))"

definition update_domain_info :: "uint32 \<Rightarrow> uint32 \<Rightarrow> t_pfs_domain \<Rightarrow> t_pfs_domain" where
  "update_domain_info tc ld d = d\<lparr>dm_taskcount := dm_taskcount d + tc, dm_load := dm_load d + ld\<rparr>"

definition self_index :: "t_pfs_domain \<Rightarrow> nat option" where
  "self_index sd = List.find (dm_self sd) [0..<dm_ipcount sd]"

definition set_self_disk_err :: "nat \<Rightarrow> uint8 \<Rightarrow> t_pfs_domain \<Rightarrow> t_pfs_domain" where
  "set_self_disk_err k v sd =
     (case self_index sd of
        Some j \<Rightarrow> sd\<lparr>dm_iperrdisk := (dm_iperrdisk sd)(j := (dm_iperrdisk sd j)(k mod MAXDISKS := v))\<rparr>
      | None \<Rightarrow> sd)"

definition check_domain_disk_err :: "nat \<Rightarrow> t_pfs_domain \<Rightarrow> bool" where
  "check_domain_disk_err k sd = list_ex (\<lambda>j. dm_iperrdisk sd j (k mod MAXDISKS) \<noteq> 0) [0..<dm_ipcount sd]"

definition get_self_err_disk :: "t_pfs_domain \<Rightarrow> bytes option" where
  "get_self_err_disk sd = map_option (\<lambda>j. map (dm_iperrdisk sd j) [0..<MAXDISKS]) (self_index sd)"

definition set_domain_diskerr :: "bytes \<Rightarrow> uint32 \<Rightarrow> t_pfs_domain \<Rightarrow> t_pfs_domain" where
  "set_domain_diskerr errdisk ip sd =
     (case List.find (\<lambda>j. dm_ips sd j = ip) [0..<dm_ipcount sd] of
        Some j \<Rightarrow> sd\<lparr>dm_iperrdisk := (dm_iperrdisk sd)(j :=
                    (\<lambda>k. if k < MAXDISKS then errdisk ! k else dm_iperrdisk sd j k))\<rparr>
      | None \<Rightarrow> sd)"

text \<open>C's remainder has the sign of the dividend.\<close>

definition crem :: "int \<Rightarrow> int \<Rightarrow> int" where
  "crem a b = (if a < 0 then - ((- a) mod \<bar>b\<bar>) else a mod \<bar>b\<bar>)"

text \<open>The two directory numbers of a path \<^verbatim>\<open>.../d1/d2/name\<close>.\<close>

definition get_dir1_dir2 :: "int \<Rightarrow> int \<Rightarrow> string \<Rightarrow> (int \<times> int) option" where
  "get_dir1_dir2 DIR1 DIR2 pathsrc =
     (case strrchr (CHR ''/'') (snprintf_s 256 pathsrc) of
        None \<Rightarrow> None
      | Some (p1, _) \<Rightarrow>
          (case strrchr (CHR ''/'') p1 of
             None \<Rightarrow> None
           | Some (p2, t2) \<Rightarrow>
               (case strrchr (CHR ''/'') p2 of
                  None \<Rightarrow> None
                | Some (_, t3) \<Rightarrow> Some (crem (atoi t3) DIR1, crem (atoi t2) DIR2))))"

subsection \<open>The address table as a map\<close>

definition ip_entry :: "uint32 \<Rightarrow> topo \<Rightarrow> (nat \<times> nat option) option" where
  "ip_entry uip t = map_option (\<lambda>i. (ip_role i, ip_ptr i)) (get_ip_info uip t)"

definition ip_put :: "string \<times> uint32 \<Rightarrow> nat \<times> nat option \<Rightarrow> topo \<Rightarrow> topo" where
  "ip_put = (\<lambda>(sip, uip) (role, ptr) t. snd (add_ip_2_pfs True sip uip role ptr t))"

lemma ip_entry_put:
  "ip_entry k (ip_put (sip, uip) v t) = (if k = uip then Some v else ip_entry k t)"
  by (cases v) (auto simp: ip_entry_def ip_put_def add_ip_2_pfs_def get_ip_info_def)

interpretation ipt: keyed_store "\<lambda>_. True" snd ip_put ip_entry
  by unfold_locales (auto simp: ip_entry_put)

lemma ip_entry_upd_dom [simp]: "ip_entry k (upd_dom d f t) = ip_entry k t"
  by (simp add: ip_entry_def get_ip_info_def upd_dom_def)

subsection \<open>Loading a group file\<close>

lemma commas_join:
  "fs \<noteq> [] \<Longrightarrow> (\<And>f. f \<in> set fs \<Longrightarrow> CHR '','' \<notin> set f) \<Longrightarrow> commas (join_fields (CHR '','') fs) = fs"
proof (induction "CHR '',''" fs rule: join_fields.induct)
  case (2 f)
  then have "strchr (CHR '','') f = None"
    by (cases "strchr (CHR '','') f") (auto simp: strchr_Some_iff)
  then show ?case by (simp add: commas.simps)
next
  case (3 f g fs)
  have "strchr (CHR '','') (f @ CHR '','' # join_fields (CHR '','') (g # fs))
      = Some (f, join_fields (CHR '','') (g # fs))"
    using 3 by (simp add: strchr_Some_iff)
  with 3 show ?case by (subst commas.simps) simp
qed simp

lemma add_storage_effect:
  assumes "dm_ipcount (tp_dom t g) < MAX_IP_DOMAIN"
  shows "\<exists>t'. add_storage_to_domain True ip g t = (0, t') \<and>
    dm_ipcount (tp_dom t' g) = dm_ipcount (tp_dom t g) + 1 \<and>
    dm_ips (tp_dom t' g) = (dm_ips (tp_dom t g))(dm_ipcount (tp_dom t g) := str2ip ip) \<and>
    dm_domain (tp_dom t' g) = dm_domain (tp_dom t g) \<and>
    tp_alldomain t' = tp_alldomain t \<and>
    ip_entry k t' = (if k = str2ip ip then Some (ROLE_STORAGE, Some g) else ip_entry k t)"
proof -
  have "ip_entry k (snd (add_ip_2_pfs True ip u ROLE_STORAGE (Some g) t1))
      = (if k = u then Some (ROLE_STORAGE, Some g) else ip_entry k t1)" for u t1
    using ip_entry_put [of k ip u "(ROLE_STORAGE, Some g)" t1] by (simp add: ip_put_def)
  with assms show ?thesis
    by (auto simp: add_storage_to_domain_def Let_def add_ip_2_pfs_def upd_dom_def ip_entry_def get_ip_info_def)
qed

lemma add_storages_effect:
  assumes "dm_ipcount (tp_dom t g) + length ips \<le> MAX_IP_DOMAIN"
  shows "\<exists>t'. add_storages True ips g t = (0, t') \<and>
    dm_ipcount (tp_dom t' g) = dm_ipcount (tp_dom t g) + length ips \<and>
    (\<forall>i. dm_ips (tp_dom t' g) i =
       (if dm_ipcount (tp_dom t g) \<le> i \<and> i < dm_ipcount (tp_dom t g) + length ips
        then str2ip (ips ! (i - dm_ipcount (tp_dom t g))) else dm_ips (tp_dom t g) i)) \<and>
    dm_domain (tp_dom t' g) = dm_domain (tp_dom t g) \<and> tp_alldomain t' = tp_alldomain t \<and>
    (\<forall>k. ip_entry k t' = (if k \<in> str2ip ` set ips then Some (ROLE_STORAGE, Some g) else ip_entry k t))"
  using assms
proof (induction ips arbitrary: t)
  case (Cons ip ips)
  let ?n = "dm_ipcount (tp_dom t g)"
  have "?n < MAX_IP_DOMAIN" using Cons.prems by simp
  note add = add_storage_effect [OF this, of ip]
  obtain t1 where t1: "add_storage_to_domain True ip g t = (0, t1)" using add by blast
  with add have e1: "dm_ipcount (tp_dom t1 g) = ?n + 1"
    "dm_ips (tp_dom t1 g) = (dm_ips (tp_dom t g))(?n := str2ip ip)"
    "dm_domain (tp_dom t1 g) = dm_domain (tp_dom t g)" "tp_alldomain t1 = tp_alldomain t"
    "\<And>k. ip_entry k t1 = (if k = str2ip ip then Some (ROLE_STORAGE, Some g) else ip_entry k t)"
    by simp_all
  have pre: "dm_ipcount (tp_dom t1 g) + length ips \<le> MAX_IP_DOMAIN" using Cons.prems e1(1) by simp
  from Cons.IH [OF pre] obtain t2 where t2: "add_storages True ips g t1 = (0, t2)"
    "dm_ipcount (tp_dom t2 g) = ?n + 1 + length ips"
    "\<And>i. dm_ips (tp_dom t2 g) i = (if ?n + 1 \<le> i \<and> i < ?n + 1 + length ips
        then str2ip (ips ! (i - (?n + 1))) else dm_ips (tp_dom t1 g) i)"
    "dm_domain (tp_dom t2 g) = dm_domain (tp_dom t1 g)" "tp_alldomain t2 = tp_alldomain t1"
    "\<And>k. ip_entry k t2 = (if k \<in> str2ip ` set ips then Some (ROLE_STORAGE, Some g) else ip_entry k t1)"
    unfolding e1(1) by blast
  have "dm_ips (tp_dom t2 g) i = (if ?n \<le> i \<and> i < ?n + length (ip # ips)
        then str2ip ((ip # ips) ! (i - ?n)) else dm_ips (tp_dom t g) i)" for i
    using t2(3) [of i] e1(2) by (cases "i = ?n") (auto simp: nth_Cons' Suc_le_eq)
  then show ?case using t1 t2 e1 by auto
qed auto

text \<open>
  A line \<^verbatim>\<open>name:ip,...,ip\<close> of a group file (at most 64 addresses) makes a domain that is found by
  its name, lists the addresses in their order, and is what the address table gives for each of
  them, as storage servers; every other address keeps its entry.
\<close>

theorem domain_line_loaded:
  assumes "ips \<noteq> []" and "length ips \<le> MAX_IP_DOMAIN" and "length name < 128"
    and "\<And>c. c \<in> set name \<Longrightarrow> c \<noteq> CHR '':'' \<and> c \<noteq> CHR 0x0A"
    and "\<And>ip c. ip \<in> set ips \<Longrightarrow> c \<in> set ip \<Longrightarrow> c \<noteq> CHR '','' \<and> c \<noteq> CHR 0x0A"
    and "d = tp_next t"
  shows "\<exists>t'. group_line True (name @ '':'' @ join_fields (CHR '','') ips @ [CHR 0x0A]) t = (0, t') \<and>
    tp_alldomain t' = d # tp_alldomain t \<and> dm_domain (tp_dom t' d) = name \<and>
    map (dm_ips (tp_dom t' d)) [0..<dm_ipcount (tp_dom t' d)] = map str2ip ips \<and>
    (\<forall>k. ip_entry k t' = (if k \<in> str2ip ` set ips then Some (ROLE_STORAGE, Some d) else ip_entry k t))"
proof -
  let ?buf = "name @ '':'' @ join_fields (CHR '','') ips"
  let ?t1 = "t\<lparr>tp_next := d + 1,
      tp_dom := (tp_dom t)(d := zero_domain\<lparr>dm_domain := snprintf_s 128 name\<rparr>),
      tp_alldomain := d # tp_alldomain t,
      tp_grouplist := (case tp_grouplist t of [] \<Rightarrow> [] | g # gs \<Rightarrow> g\<lparr>gl_dlist := d # gl_dlist g\<rparr> # gs)\<rparr>"
  have nl: "CHR 0x0A \<notin> set (join_fields c fs)" if "\<And>f. f \<in> set fs \<Longrightarrow> CHR 0x0A \<notin> set f" "c \<noteq> CHR 0x0A" for c fs
    using that by (induction c fs rule: join_fields.induct) auto
  have "strrchr (CHR 0x0A) (?buf @ [CHR 0x0A]) = Some (?buf, [])"
    by (simp add: strrchr_Some_iff)
  moreover have "strchr (CHR '':'') ?buf = Some (name, join_fields (CHR '','') ips)"
    using assms(4) by (auto simp: strchr_Some_iff)
  moreover have "commas (join_fields (CHR '','') ips) = ips"
    using assms(1,5) by (intro commas_join) auto
  ultimately have line: "group_line True (?buf @ [CHR 0x0A]) t = add_storages True ips d ?t1"
    unfolding assms(6) by (simp add: group_line_def Let_def)
  have "dm_ipcount (tp_dom ?t1 d) + length ips \<le> MAX_IP_DOMAIN"
    using assms(2) by (simp add: zero_domain_def)
  from add_storages_effect [OF this] obtain t' where t': "add_storages True ips d ?t1 = (0, t')"
    "dm_ipcount (tp_dom t' d) = length ips"
    "\<And>i. i < length ips \<Longrightarrow> dm_ips (tp_dom t' d) i = str2ip (ips ! i)"
    "dm_domain (tp_dom t' d) = name" "tp_alldomain t' = d # tp_alldomain t"
    "\<And>k. ip_entry k t' = (if k \<in> str2ip ` set ips then Some (ROLE_STORAGE, Some d) else ip_entry k t)"
    using assms(3) by (auto simp: zero_domain_def ip_entry_def get_ip_info_def snprintf_s_def)
  have "map (dm_ips (tp_dom t' d)) [0..<dm_ipcount (tp_dom t' d)] = map str2ip ips"
    using t'(2,3) by (intro nth_equalityI) auto
  with line t' show ?thesis by auto
qed

theorem domain_line_loaded_witness:
  "\<exists>t'. group_line True (''web1:10.0.0.1,10.0.0.2'' @ [CHR 0x0A]) empty_topo = (0, t') \<and>
     ip_entry (str2ip ''10.0.0.2'') t' = Some (ROLE_STORAGE, Some 0)"
proof -
  have n: "c \<noteq> CHR '':'' \<and> c \<noteq> CHR 0x0A" if "c \<in> set ''web1''" for c using that by auto
  have i: "c \<noteq> CHR '','' \<and> c \<noteq> CHR 0x0A" if "ip \<in> set [''10.0.0.1'', ''10.0.0.2'']" "c \<in> set ip" for ip c
    using that by auto
  have z: "0 = tp_next empty_topo" by (simp add: empty_topo_def)
  have "\<exists>t'. group_line True (''web1'' @ '':'' @ join_fields (CHR '','') [''10.0.0.1'', ''10.0.0.2''] @ [CHR 0x0A]) empty_topo = (0, t') \<and>
    tp_alldomain t' = 0 # tp_alldomain empty_topo \<and> dm_domain (tp_dom t' 0) = ''web1'' \<and>
    map (dm_ips (tp_dom t' 0)) [0..<dm_ipcount (tp_dom t' 0)] = map str2ip [''10.0.0.1'', ''10.0.0.2''] \<and>
    (\<forall>k. ip_entry k t' = (if k \<in> str2ip ` set [''10.0.0.1'', ''10.0.0.2''] then Some (ROLE_STORAGE, Some 0)
        else ip_entry k empty_topo))"
    by (rule domain_line_loaded [OF _ _ _ n i z]) auto
  then show ?thesis by auto
qed

subsection \<open>Rotation within a domain\<close>

lemma mod_shift_inj:
  assumes "(a + x) mod c = (a + y) mod c" "x < c" "y < (c :: nat)"
  shows "x = y"
proof -
  have "x' = y'" if "(a + x') mod c = (a + y') mod c" "x' < c" "x' \<le> y'" "y' < c" for x' y'
  proof -
    have "c dvd (a + y') - (a + x')" using that mod_eq_dvd_iff_nat [of "a + x'" "a + y'" c] by simp
    then have "c dvd y' - x'" by simp
    moreover have "y' - x' < c" using that by simp
    ultimately show ?thesis using that(3) by (metis dvd_imp_le le_antisym diff_is_0_eq gr0I not_less)
  qed
  with assms show ?thesis by (metis nat_le_linear)
qed

fun get_domain_run :: "string \<Rightarrow> nat \<Rightarrow> topo \<Rightarrow> nat list" where
  "get_domain_run name 0 t = []"
| "get_domain_run name (Suc n) t =
     (case get_domain name t of
        (None, _) \<Rightarrow> []
      | (Some d, t') \<Rightarrow> dm_index d # get_domain_run name n t')"

lemma get_domain_run_rotates:
  assumes "List.find (\<lambda>d. dm_domain (tp_dom t d) = name) (tp_alldomain t) = Some d"
    and "dm_ipcount (tp_dom t d) = c" "dm_index (tp_dom t d) = i" "i < c"
  shows "get_domain_run name n t = map (\<lambda>k. (i + k + 1) mod c) [0..<n]"
  using assms
proof (induction n arbitrary: t i)
  case (Suc n)
  let ?i = "if i + 1 \<ge> c then 0 else i + 1"
  let ?t = "t\<lparr>tp_dom := (tp_dom t)(d := (tp_dom t d)\<lparr>dm_index := ?i\<rparr>)\<rparr>"
  have i: "?i = (i + 1) mod c" using Suc.prems(4) by (auto simp: mod_less le_less_Suc_eq dest: le_antisym)
  have g: "get_domain name t = (Some ((tp_dom t d)\<lparr>dm_index := ?i\<rparr>), ?t)"
    using Suc.prems by (simp add: get_domain_def Let_def)
  have same: "(\<lambda>e. dm_domain (tp_dom ?t e) = name) = (\<lambda>e. dm_domain (tp_dom t e) = name)"
    by auto
  have "get_domain_run name n ?t = map (\<lambda>k. (?i + k + 1) mod c) [0..<n]"
    by (rule Suc.IH) (use Suc.prems same in auto)
  moreover have "(?i + k + 1) mod c = (i + Suc k + 1) mod c" for k
    unfolding i by (simp add: mod_add_left_eq mod_Suc_eq)
      (metis add.commute add_Suc_right mod_Suc_eq mod_add_right_eq)
  ultimately show ?case
    using g i by (simp add: map_upt_Suc del: upt_Suc)
qed simp

text \<open>
  Requests for a domain are spread evenly: successive calls of \<^verbatim>\<open>get_domain\<close> give the servers of the
  domain in turn, so that any \<open>ipcount\<close> calls in a row name each of them exactly once.
\<close>

theorem get_domain_round_robin:
  assumes "List.find (\<lambda>d. dm_domain (tp_dom t d) = name) (tp_alldomain t) = Some d"
    and "c = dm_ipcount (tp_dom t d)" and "dm_index (tp_dom t d) < c"
  shows "get_domain_run name n t = map (\<lambda>k. (dm_index (tp_dom t d) + k + 1) mod c) [0..<n] \<and>
         distinct (get_domain_run name c t) \<and> set (get_domain_run name c t) = {0..<c}"
proof -
  let ?i = "dm_index (tp_dom t d)"
  have run: "get_domain_run name m t = map (\<lambda>k. (?i + k + 1) mod c) [0..<m]" for m
    using get_domain_run_rotates [OF assms(1) assms(2) [symmetric] refl assms(3)] .
  have c: "0 < c" using assms(3) by simp
  have "inj_on (\<lambda>k. (?i + k + 1) mod c) {0..<c}"
  proof (rule inj_onI)
    fix x y assume xy: "x \<in> {0..<c}" "y \<in> {0..<c}" "(?i + x + 1) mod c = (?i + y + 1) mod c"
    then have "(?i + 1 + x) mod c = (?i + 1 + y) mod c" by (simp only: add_ac)
    then show "x = y" by (rule mod_shift_inj) (use xy in auto)
  qed
  moreover from this have "(\<lambda>k. (?i + k + 1) mod c) ` {0..<c} = {0..<c}"
    by (intro endo_inj_surj) (use c in auto)
  ultimately show ?thesis
    unfolding run by (simp add: distinct_map del: upt_Suc)
qed

theorem get_domain_round_robin_witness:
  "get_domain_run ''web1'' 4 (empty_topo\<lparr>tp_alldomain := [0],
     tp_dom := (\<lambda>_. zero_domain\<lparr>dm_domain := ''web1'', dm_ipcount := 3\<rparr>)\<rparr>) = [1, 2, 0, 1]"
proof -
  have "[0..<4] = [0, 1, 2, 3]" by code_simp
  then show ?thesis
    using get_domain_round_robin [of "empty_topo\<lparr>tp_alldomain := [0],
        tp_dom := (\<lambda>_. zero_domain\<lparr>dm_domain := ''web1'', dm_ipcount := 3\<rparr>)\<rparr>" "''web1''" 0 3 4]
    by (simp add: zero_domain_def)
qed

subsection \<open>Directory numbers\<close>

text \<open>The directory numbers of a stored file are recovered from its path.\<close>

lemma dirs_of_path:
  assumes "CHR ''/'' \<notin> set name" and "d1 < DIR1" and "d2 < DIR2" and "DIR1 < 2 ^ 31" and "DIR2 < 2 ^ 31"
    and "path = prefix @ ''/'' @ dec d1 @ ''/'' @ dec d2 @ ''/'' @ name" and "length path < 256"
  shows "get_dir1_dir2 (int DIR1) (int DIR2) path = Some (int d1, int d2)"
proof -
  have nd: "CHR ''/'' \<notin> set (dec n)" for n
    using dec_digits [of "CHR ''/''" n] by (auto simp: isdigit_def)
  have "snprintf_s 256 path = (prefix @ ''/'' @ dec d1 @ ''/'' @ dec d2) @ CHR ''/'' # name"
    using assms(6,7) by (simp add: snprintf_s_def)
  then have 1: "strrchr (CHR ''/'') (snprintf_s 256 path) = Some (prefix @ ''/'' @ dec d1 @ ''/'' @ dec d2, name)"
    using assms(1) strrchr_append by metis
  have 2: "strrchr (CHR ''/'') (prefix @ ''/'' @ dec d1 @ ''/'' @ dec d2) = Some (prefix @ ''/'' @ dec d1, dec d2)"
    using strrchr_append [OF nd, of "prefix @ ''/'' @ dec d1" d2] by simp
  have 3: "strrchr (CHR ''/'') (prefix @ ''/'' @ dec d1) = Some (prefix, dec d1)"
    using strrchr_append [OF nd, of prefix d1] by simp
  have "atoi (dec d1) = int d1" "atoi (dec d2) = int d2"
    using assms(2-5) by (simp_all add: atoi_dec)
  then show ?thesis
    using 1 2 3 assms(2,3) by (simp add: get_dir1_dir2_def crem_def)
qed

end
