(* ===== verification/Pfs_Disk.thy ===== *)
theory Pfs_Disk
  imports Pfs_Topology Pfs_Timer
begin

section \<open>Disks and the choice of a directory (network/pfs_init.c)\<close>

text \<open>
  The files of a storage server lie in directories \<^verbatim>\<open>d1/d2\<close> that may be spread over several
  file systems.  \<open>refresh_disk_info\<close> groups the directories by file system, \<open>refresh_maxfreedisk\<close>
  chooses the file system with the most free space, and \<open>get_max_free_storage\<close> hands out its
  directories in turn.  What the file system answers (\<^verbatim>\<open>lstat\<close>, \<^verbatim>\<open>statfs\<close>) is an argument.
\<close>

subsection \<open>State and operations\<close>

abbreviation TOTALDIRS :: nat where "TOTALDIRS \<equiv> 10000"

record t_disk_info =
  di_fsid :: nat
  di_firstpath :: string
  di_count :: nat
  di_index :: nat
  di_cluster :: "nat \<Rightarrow> nat"

record disk_state =
  ds_disks :: "t_disk_info list"
  ds_max :: "nat option"
  ds_maxfree :: uint32

definition zero_disk :: t_disk_info where
  "zero_disk = \<lparr>di_fsid = 0, di_firstpath = [], di_count = 0, di_index = 0, di_cluster = (\<lambda>_. 0)\<rparr>"

definition zero_disks :: disk_state where
  "zero_disks = \<lparr>ds_disks = replicate MAXDISKS zero_disk, ds_max = None, ds_maxfree = 0\<rparr>"

text \<open>What \<^verbatim>\<open>statfs\<close> says of a path: whether it succeeded, the file system, free blocks, block size.\<close>

record statfs_t =
  sf_ok :: bool
  sf_fsid :: nat
  sf_bfree :: uint64
  sf_bsize :: uint64

record fs_env =
  fe_lstat :: "string \<Rightarrow> bool"
  fe_statfs :: "string \<Rightarrow> statfs_t"

definition disk_pos :: "nat \<Rightarrow> t_disk_info list \<Rightarrow> nat" where
  "disk_pos fsid ds = length (takeWhile (\<lambda>d. \<not> (di_count d = 0 \<or> di_fsid d = fsid)) ds)"

definition set_info_disk ::
  "fs_env \<Rightarrow> nat \<Rightarrow> string \<Rightarrow> nat \<Rightarrow> nat \<Rightarrow> disk_state \<Rightarrow> int \<times> disk_state" where
  "set_info_disk env DIR1 outdir d1 d2 s =
     (let sfs = fe_statfs env outdir;
          err = \<not> fe_lstat env outdir \<or> \<not> sf_ok sfs;
          dirs = d1 * DIR1 + d2;
          i = disk_pos (sf_fsid sfs) (ds_disks s);
          fin = (\<lambda>s. (0, if err then s else s\<lparr>ds_max := Some i\<rparr>))
      in if i \<ge> length (ds_disks s) then fin s
         else
           let d = ds_disks s ! i in
           if di_count d = 0 then
             fin (s\<lparr>ds_disks := (ds_disks s)[i := d\<lparr>di_fsid := sf_fsid sfs,
                    di_cluster := (di_cluster d)(0 := dirs), di_count := 1,
                    di_firstpath := snprintf_s 256 outdir\<rparr>]\<rparr>)
           else if di_count d \<ge> TOTALDIRS then (-1, s)
           else (case List.find (\<lambda>j. di_cluster d j = dirs \<or> di_cluster d j = 0) [0..<TOTALDIRS] of
                   None \<Rightarrow> (-1, s)
                 | Some j \<Rightarrow>
                     if di_cluster d j = dirs then fin s
                     else fin (s\<lparr>ds_disks := (ds_disks s)[i := d\<lparr>
                            di_cluster := (di_cluster d)(j := dirs), di_count := di_count d + 1\<rparr>]\<rparr>)))"

definition dir_path :: "string \<Rightarrow> nat \<Rightarrow> nat \<Rightarrow> string" where
  "dir_path datadir d1 d2 = datadir @ ''/'' @ dec d1 @ ''/'' @ dec d2 @ ''/''"

fun set_info_disks ::
  "fs_env \<Rightarrow> string \<Rightarrow> nat \<Rightarrow> (nat \<times> nat) list \<Rightarrow> disk_state \<Rightarrow> int \<times> disk_state" where
  "set_info_disks env datadir DIR1 [] s = (0, s)"
| "set_info_disks env datadir DIR1 ((d1, d2) # ds) s =
     (case set_info_disk env DIR1 (dir_path datadir d1 d2) d1 d2 s of (r, s') \<Rightarrow>
        if r \<noteq> 0 then (-1, s') else set_info_disks env datadir DIR1 ds s')"

definition all_dirs :: "nat \<Rightarrow> nat \<Rightarrow> (nat \<times> nat) list" where
  "all_dirs DIR1 DIR2 = concat (map (\<lambda>d1. map (Pair d1) [0..<DIR2]) [0..<DIR1])"

definition refresh_disk_info ::
  "fs_env \<Rightarrow> string \<Rightarrow> nat \<Rightarrow> nat \<Rightarrow> disk_state \<Rightarrow> int \<times> disk_state" where
  "refresh_disk_info env datadir DIR1 DIR2 s =
     (case set_info_disks env datadir DIR1 (all_dirs DIR1 DIR2) s of (r, s') \<Rightarrow>
        if r \<noteq> 0 then (-1, s') else if ds_max s' = None then (-1, s') else (0, s'))"

text \<open>
  One round of the loop of \<^verbatim>\<open>refresh_maxfreedisk\<close> on disk \<open>i\<close>; \<open>rnd\<close> are the results of \<^verbatim>\<open>rand()\<close>,
  used only when \<^verbatim>\<open>pfs_test\<close> is 1.
\<close>

definition disk_free_gb :: "statfs_t \<Rightarrow> uint64" where
  "disk_free_gb sfs = drop_bit 30 (sf_bfree sfs * sf_bsize sfs)"

definition check_disk ::
  "fs_env \<Rightarrow> bool \<Rightarrow> (nat \<Rightarrow> nat) \<Rightarrow> nat \<Rightarrow> t_disk_info \<Rightarrow> t_pfs_domain \<Rightarrow> bool \<times> t_pfs_domain" where
  "check_disk env pfs_test rnd i d sd =
     (if \<not> fe_lstat env (di_firstpath d) then (False, set_self_disk_err i 1 sd)
      else if \<not> sf_ok (fe_statfs env (di_firstpath d)) then (False, set_self_disk_err i 1 sd)
      else if pfs_test \<and> rnd i mod 2 \<noteq> 0 then (False, set_self_disk_err i 1 sd)
      else let sd1 = set_self_disk_err i 0 sd in (\<not> check_domain_disk_err i sd1, sd1))"

fun max_disk_loop ::
  "fs_env \<Rightarrow> bool \<Rightarrow> (nat \<Rightarrow> nat) \<Rightarrow> nat \<Rightarrow> t_disk_info list \<Rightarrow> uint32 \<times> nat \<Rightarrow> t_pfs_domain
     \<Rightarrow> (uint32 \<times> nat) \<times> t_pfs_domain" where
  "max_disk_loop env pt rnd i [] best sd = (best, sd)"
| "max_disk_loop env pt rnd i (d # ds) best sd =
     (if di_count d = 0 then (best, sd)
      else case check_disk env pt rnd i d sd of (ok, sd1) \<Rightarrow>
        let free = disk_free_gb (fe_statfs env (di_firstpath d));
            best' = (if ok \<and> (ucast (fst best) :: uint64) < free then (ucast free, i) else best)
        in max_disk_loop env pt rnd (i + 1) ds best' sd1)"

definition refresh_maxfreedisk ::
  "fs_env \<Rightarrow> bool \<Rightarrow> (nat \<Rightarrow> nat) \<Rightarrow> disk_state \<Rightarrow> t_pfs_domain \<Rightarrow> disk_state \<times> t_pfs_domain" where
  "refresh_maxfreedisk env pt rnd s sd =
     (case max_disk_loop env pt rnd 0 (ds_disks s) (0, 0) sd of ((v, i), sd') \<Rightarrow>
        (s\<lparr>ds_maxfree := v, ds_max := Some i\<rparr>, sd'))"

text \<open>The two directory numbers are left as they are when no disk has been chosen.\<close>

definition get_max_free_storage :: "nat \<Rightarrow> nat \<times> nat \<Rightarrow> disk_state \<Rightarrow> (nat \<times> nat) \<times> disk_state" where
  "get_max_free_storage DIR1 d12 s =
     (case ds_max s of
        None \<Rightarrow> (d12, s)
      | Some i \<Rightarrow>
          let d = ds_disks s ! i; dirs = di_cluster d (di_index d); j = di_index d + 1
          in ((dirs div DIR1, dirs mod DIR1),
              s\<lparr>ds_disks := (ds_disks s)[i := d\<lparr>di_index := if j \<ge> di_count d then 0 else j\<rparr>]\<rparr>))"

text \<open>\<open>created\<close> says for each directory whether \<^verbatim>\<open>createdir\<close> succeeded.\<close>

definition init_storage_dir ::
  "fs_env \<Rightarrow> (string \<Rightarrow> bool) \<Rightarrow> bool \<Rightarrow> (nat \<Rightarrow> nat) \<Rightarrow> string \<Rightarrow> nat \<Rightarrow> nat \<Rightarrow> nat option \<Rightarrow> int
     \<Rightarrow> t_pfs_domain \<Rightarrow> timer_state \<Rightarrow> int \<times> disk_state \<times> t_pfs_domain \<times> timer_state" where
  "init_storage_dir env created pt rnd datadir DIR1 DIR2 m now sd tm =
     (if \<not> pt \<and> list_ex (\<lambda>(d1, d2). \<not> created (dir_path datadir d1 d2)) (all_dirs DIR1 DIR2)
      then (-1, zero_disks, sd, tm)
      else case refresh_disk_info env datadir DIR1 DIR2 zero_disks of (r, s) \<Rightarrow>
        if r \<noteq> 0 then (-1, s, sd, tm)
        else case refresh_maxfreedisk env pt rnd s sd of (s1, sd1) \<Rightarrow>
          case add_to_delay_task m now
                 (zero_timer\<lparr>t_loop := 1, span_time := 600, t_cb := Cb_refresh_maxfreedisk\<rparr>) tm of
            (tr, tm1) \<Rightarrow> (if tr \<noteq> 0 then -1 else 0, s1, sd1, tm1))"

subsection \<open>The lower bound on free space\<close>

text \<open>
  \<^verbatim>\<open>disk_minfree\<close> of \<^verbatim>\<open>init_global\<close>: \<^verbatim>\<open>4 << 30\<close> and \<^verbatim>\<open>1 << 30\<close> are computed at the width of \<^verbatim>\<open>int\<close>
  before they are assigned to a 64-bit variable.
\<close>

definition mindiskfree_of :: "string option \<Rightarrow> uint64" where
  "mindiskfree_of v =
     (case v of
        None \<Rightarrow> scast (push_bit 30 (4 :: uint32))
      | Some s \<Rightarrow>
          let u = (case rev s of c # _ \<Rightarrow> tolower c | [] \<Rightarrow> NUL);
              unit = (if u = CHR ''m'' then push_bit 20 1 else if u = CHR ''k'' then push_bit 10 1
                      else push_bit 30 (1 :: uint32));
              i = atoi s
          in if i \<le> 0 then scast (push_bit 30 (4 :: uint32))
             else word_of_int i * scast unit)"

subsection \<open>Handing out directories\<close>

fun storage_run :: "nat \<Rightarrow> nat \<Rightarrow> disk_state \<Rightarrow> (nat \<times> nat) list" where
  "storage_run DIR1 0 s = []"
| "storage_run DIR1 (Suc n) s =
     (case get_max_free_storage DIR1 (0, 0) s of (d, s') \<Rightarrow> d # storage_run DIR1 n s')"

definition decode_dir :: "nat \<Rightarrow> nat \<Rightarrow> nat \<times> nat" where
  "decode_dir DIR1 dirs = (dirs div DIR1, dirs mod DIR1)"

lemma storage_run_rotates:
  assumes "ds_max s = Some i" "i < length (ds_disks s)" "di_cluster (ds_disks s ! i) = cl"
    "di_count (ds_disks s ! i) = c" "di_index (ds_disks s ! i) = x" "x < c"
  shows "storage_run DIR1 n s = map (\<lambda>k. decode_dir DIR1 (cl ((x + k) mod c))) [0..<n]"
  using assms
proof (induction n arbitrary: s x)
  case (Suc n)
  let ?x = "if x + 1 \<ge> c then 0 else x + 1"
  let ?s = "s\<lparr>ds_disks := (ds_disks s)[i := (ds_disks s ! i)\<lparr>di_index := ?x\<rparr>]\<rparr>"
  have x: "?x = (x + 1) mod c" using Suc.prems(6) by (auto simp: le_less_Suc_eq dest: le_antisym)
  have g: "get_max_free_storage DIR1 (0, 0) s = (decode_dir DIR1 (cl x), ?s)"
    using Suc.prems by (simp add: get_max_free_storage_def Let_def decode_dir_def)
  have "storage_run DIR1 n ?s = map (\<lambda>k. decode_dir DIR1 (cl ((?x + k) mod c))) [0..<n]"
    by (rule Suc.IH) (use Suc.prems in auto)
  moreover have "(?x + k) mod c = (x + Suc k) mod c" for k
    unfolding x by (simp add: mod_add_left_eq)
  ultimately show ?case
    using g Suc.prems(6) by (simp add: map_upt_Suc del: upt_Suc)
qed simp

subsection \<open>Grouping the directories by disk\<close>

text \<open>
  \<open>disk_holds d L\<close>: the disk has the directories with the codes \<open>L\<close>, in the order they were found.
  The code \<open>0\<close> of the very first directory cannot be told from an empty place: its place is taken
  by the next directory, and the zero after the last place stands for it.
\<close>

definition disk_holds :: "t_disk_info \<Rightarrow> nat list \<Rightarrow> bool" where
  "disk_holds d L \<longleftrightarrow> distinct L \<and> di_count d = length L \<and> di_index d = 0 \<and>
     di_cluster d = (\<lambda>j. let N = filter (\<lambda>c. c \<noteq> 0) L in if j < length N then N ! j else 0)"

lemma disk_holds_clusters:
  assumes "disk_holds d L"
  shows "map (di_cluster d) [0..<length L] = filter (\<lambda>c. c \<noteq> 0) L @ filter (\<lambda>c. c = 0) L"
proof -
  let ?N = "filter (\<lambda>c. c \<noteq> 0) L"
  have len: "length L = length ?N + length (filter (\<lambda>c. c = 0) L)"
    using sum_length_filter_compl [of "\<lambda>c. c \<noteq> 0" L] by simp
  have z: "filter (\<lambda>c. c = 0) L ! j = 0" if "j < length (filter (\<lambda>c. c = 0) L)" for j
    using nth_mem [OF that] by simp
  show ?thesis
    using assms len z by (intro nth_equalityI) (auto simp: disk_holds_def Let_def nth_append)
qed

lemma disk_holds_new:
  "disk_holds (zero_disk\<lparr>di_fsid := f, di_cluster := (di_cluster zero_disk)(0 := c), di_count := 1, di_firstpath := p\<rparr>) [c]"
  by (auto simp: disk_holds_def zero_disk_def fun_eq_iff)

lemma disk_holds_add:
  assumes "disk_holds d L" "c \<noteq> 0" "c \<notin> set L" "length L < TOTALDIRS"
  shows "\<exists>j. List.find (\<lambda>j. di_cluster d j = c \<or> di_cluster d j = 0) [0..<TOTALDIRS] = Some j \<and>
    di_cluster d j = 0 \<and>
    disk_holds (d\<lparr>di_cluster := (di_cluster d)(j := c), di_count := di_count d + 1\<rparr>) (L @ [c])"
proof -
  let ?N = "filter (\<lambda>c. c \<noteq> 0) L" and ?j = "length (filter (\<lambda>c. c \<noteq> 0) L)"
  have cl: "di_cluster d = (\<lambda>j. if j < length ?N then ?N ! j else 0)"
    using assms(1) unfolding disk_holds_def Let_def by blast
  have j: "?j < TOTALDIRS" using assms(4) length_filter_le [of "\<lambda>c. c \<noteq> 0" L] by linarith
  have before: "\<not> (di_cluster d k = c \<or> di_cluster d k = 0)" if "k < ?j" for k
    using that nth_mem [OF that] assms(3) by (auto simp: cl)
  have "List.find (\<lambda>j. di_cluster d j = c \<or> di_cluster d j = 0) [0..<TOTALDIRS] = Some ?j"
    unfolding find_Some_iff using j before by (intro exI [of _ ?j]) (auto simp: cl)
  moreover have "di_cluster d ?j = 0" by (simp add: cl)
  moreover have "disk_holds (d\<lparr>di_cluster := (di_cluster d)(?j := c), di_count := di_count d + 1\<rparr>) (L @ [c])"
    using assms(1-3) by (auto simp: disk_holds_def fun_eq_iff nth_append)
  ultimately show ?thesis by blast
qed

text \<open>The disks after the directories \<open>done\<close> (file system, code) have been entered.\<close>

definition disks_ok :: "(nat \<times> nat) list \<Rightarrow> nat list \<Rightarrow> disk_state \<Rightarrow> bool" where
  "disks_ok done fs s \<longleftrightarrow> length (ds_disks s) = MAXDISKS \<and> length fs \<le> MAXDISKS \<and>
     distinct fs \<and> set fs = fst ` set done \<and>
     (\<forall>i < length fs. di_fsid (ds_disks s ! i) = fs ! i \<and>
        disk_holds (ds_disks s ! i) (map snd (filter (\<lambda>p. fst p = fs ! i) done))) \<and>
     (\<forall>i. length fs \<le> i \<longrightarrow> i < MAXDISKS \<longrightarrow> ds_disks s ! i = zero_disk)"

lemma disks_okD:
  assumes "disks_ok done fs s"
  shows "set fs = fst ` set done" "length (ds_disks s) = MAXDISKS" "length fs \<le> MAXDISKS"
    "i < length fs \<Longrightarrow> di_fsid (ds_disks s ! i) = fs ! i"
    "i < length fs \<Longrightarrow> disk_holds (ds_disks s ! i) (map snd (filter (\<lambda>p. fst p = fs ! i) done))"
    "length fs \<le> i \<Longrightarrow> i < MAXDISKS \<Longrightarrow> ds_disks s ! i = zero_disk"
  using assms unfolding disks_ok_def by blast+

lemma disks_ok_zero: "disks_ok [] [] zero_disks"
  by (simp add: disks_ok_def zero_disks_def)

lemma disk_count_pos:
  assumes "disks_ok done fs s" "i < length fs"
  shows "di_count (ds_disks s ! i) \<noteq> 0"
proof -
  have "fs ! i \<in> fst ` set done" using assms nth_mem [of i fs] by (auto simp: disks_ok_def)
  then have "filter (\<lambda>p. fst p = fs ! i) done \<noteq> []" by (force simp: filter_empty_conv)
  then show ?thesis using assms by (auto simp: disks_ok_def disk_holds_def)
qed

lemma disk_pos_found:
  assumes ok: "disks_ok done fs s" and k: "k < length fs"
  shows "disk_pos (fs ! k) (ds_disks s) = k"
proof -
  let ?P = "\<lambda>d. \<not> (di_count d = 0 \<or> di_fsid d = fs ! k)"
  have "takeWhile ?P (ds_disks s) = take k (ds_disks s)"
  proof (rule takeWhile_eq_take_P_nth)
    show "?P (ds_disks s ! i)" if "i < k" "i < length (ds_disks s)" for i
      using that ok k disk_count_pos [OF ok, of i] nth_eq_iff_index_eq [of fs i k] by (auto simp: disks_ok_def)
    show "\<not> ?P (ds_disks s ! k)" using ok k by (auto simp: disks_ok_def)
  qed
  then show ?thesis using ok k by (simp add: disk_pos_def disks_ok_def)
qed

lemma disk_pos_new:
  assumes ok: "disks_ok done fs s" and f: "f \<notin> set fs" and l: "length fs < MAXDISKS"
  shows "disk_pos f (ds_disks s) = length fs"
proof -
  let ?P = "\<lambda>d. \<not> (di_count d = 0 \<or> di_fsid d = f)"
  have "takeWhile ?P (ds_disks s) = take (length fs) (ds_disks s)"
  proof (rule takeWhile_eq_take_P_nth)
    show "?P (ds_disks s ! i)" if "i < length fs" "i < length (ds_disks s)" for i
      using that ok f disk_count_pos [OF ok, of i] by (auto simp: disks_ok_def)
    show "\<not> ?P (ds_disks s ! length fs)" using ok l by (auto simp: disks_ok_def zero_disk_def)
  qed
  then show ?thesis using ok l by (simp add: disk_pos_def disks_ok_def)
qed

lemma disks_ok_step:
  assumes ok: "disks_ok done fs s"
    and c: "c \<notin> snd ` set done" "c = 0 \<Longrightarrow> done = []" "length done < TOTALDIRS"
    and cap: "card (insert f (fst ` set done)) \<le> MAXDISKS"
    and env: "fe_lstat env p" "sf_ok (fe_statfs env p)" "sf_fsid (fe_statfs env p) = f" "c = d1 * DIR1 + d2"
  shows "\<exists>fs' s'. set_info_disk env DIR1 p d1 d2 s = (0, s') \<and> disks_ok (done @ [(f, c)]) fs' s' \<and> ds_max s' \<noteq> None"
proof (cases "f \<in> set fs")
  case True
  then obtain k where k: "k < length fs" "fs ! k = f" by (auto simp: in_set_conv_nth)
  let ?L = "map snd (filter (\<lambda>q. fst q = f) done)" and ?d = "ds_disks s ! k"
  have h: "disk_holds ?d ?L" and fsid: "di_fsid ?d = f" and kl: "k < length (ds_disks s)"
    using ok k by (auto simp: disks_ok_def)
  have "done \<noteq> []" using ok True by (auto simp: disks_ok_def)
  then have c0: "c \<noteq> 0" using c(2) by blast
  have cL: "c \<notin> set ?L" using c(1) by auto
  have lL: "length ?L < TOTALDIRS" 
    using le_less_trans [OF length_filter_le c(3)] by simp
  obtain j where j: "List.find (\<lambda>j. di_cluster ?d j = c \<or> di_cluster ?d j = 0) [0..<TOTALDIRS] = Some j"
    "di_cluster ?d j = 0" "disk_holds (?d\<lparr>di_cluster := (di_cluster ?d)(j := c), di_count := di_count ?d + 1\<rparr>) (?L @ [c])"
    using disk_holds_add [OF h c0 cL lL] by blast
  have cnt: "di_count ?d \<noteq> 0" "\<not> di_count ?d \<ge> TOTALDIRS"
    using disk_count_pos [OF ok k(1)] h lL by (auto simp: disk_holds_def)
  let ?s = "s\<lparr>ds_disks := (ds_disks s)[k := ?d\<lparr>di_cluster := (di_cluster ?d)(j := c), di_count := di_count ?d + 1\<rparr>],
              ds_max := Some k\<rparr>"
  have "set_info_disk env DIR1 p d1 d2 s = (0, ?s)"
    using disk_pos_found [OF ok k(1)] k(2) kl cnt j c0 env by (auto simp: set_info_disk_def Let_def)
  moreover have "disks_ok (done @ [(f, c)]) fs ?s"
    unfolding disks_ok_def
  proof (intro conjI allI impI)
    show "set fs = fst ` set (done @ [(f, c)])" using ok True by (auto simp: disks_ok_def)
    show "di_fsid (ds_disks ?s ! i) = fs ! i" if "i < length fs" for i
      using ok that k fsid kl by (cases "i = k") (auto simp: disks_ok_def)
    show "disk_holds (ds_disks ?s ! i) (map snd (filter (\<lambda>q. fst q = fs ! i) (done @ [(f, c)])))" if "i < length fs" for i
    proof (cases "i = k")
      case True
      then show ?thesis using j(3) k(2) kl by simp
    next
      case False
      then have "f \<noteq> fs ! i" using ok that k nth_eq_iff_index_eq [of fs i k] by (auto simp: disks_ok_def)
      then show ?thesis using False ok that by (simp add: disks_ok_def)
    qed
    show "ds_disks ?s ! i = zero_disk" if "length fs \<le> i" "i < MAXDISKS" for i
      using ok that k by (simp add: disks_ok_def)
  qed (use ok in \<open>auto simp: disks_ok_def\<close>)
  ultimately show ?thesis by auto
next
  case False
  have "card (insert f (set fs)) \<le> MAXDISKS" using cap ok by (simp add: disks_ok_def)
  moreover have "card (set fs) = length fs" by (rule distinct_card) (use ok in \<open>simp add: disks_ok_def\<close>)
  ultimately have l: "length fs < MAXDISKS" using False by simp
  let ?n = "length fs"
  let ?d = "zero_disk\<lparr>di_fsid := f, di_cluster := (di_cluster zero_disk)(0 := c), di_count := 1, di_firstpath := snprintf_s 256 p\<rparr>"
  let ?s = "s\<lparr>ds_disks := (ds_disks s)[?n := ?d], ds_max := Some ?n\<rparr>"
  have z: "ds_disks s ! ?n = zero_disk" and nl: "?n < length (ds_disks s)" using ok l by (auto simp: disks_ok_def)
  have z0: "di_count zero_disk = 0" by (simp add: zero_disk_def)
  have "set_info_disk env DIR1 p d1 d2 s = (0, ?s)"
    using disk_pos_new [OF ok False l] z z0 nl env by (simp add: set_info_disk_def Let_def)
  moreover have "disks_ok (done @ [(f, c)]) (fs @ [f]) ?s"
    unfolding disks_ok_def
  proof (intro conjI allI impI)
    show "set (fs @ [f]) = fst ` set (done @ [(f, c)])" using ok by (auto simp: disks_ok_def)
    show "di_fsid (ds_disks ?s ! i) = (fs @ [f]) ! i" if "i < length (fs @ [f])" for i
      using ok that nl by (cases "i = ?n") (auto simp: disks_ok_def nth_append)
    show "disk_holds (ds_disks ?s ! i) (map snd (filter (\<lambda>q. fst q = (fs @ [f]) ! i) (done @ [(f, c)])))"
      if "i < length (fs @ [f])" for i
    proof (cases "i = ?n")
      case True
      have "filter (\<lambda>q. fst q = f) done = []" using False ok by (auto simp: disks_ok_def filter_empty_conv)
      then show ?thesis using True nl disk_holds_new [where f = f and c = c] by simp
    next
      case i: False
      then have "f \<noteq> fs ! i" using that False nth_mem [of i fs] by auto
      then show ?thesis using i that ok by (simp add: disks_ok_def nth_append)
    qed
    show "ds_disks ?s ! i = zero_disk" if "length (fs @ [f]) \<le> i" "i < MAXDISKS" for i
      using ok that by (simp add: disks_ok_def)
  qed (use ok l False in \<open>auto simp: disks_ok_def\<close>)
  ultimately show ?thesis by auto
qed

definition dir_fsid :: "fs_env \<Rightarrow> string \<Rightarrow> nat \<times> nat \<Rightarrow> nat" where
  "dir_fsid env datadir = (\<lambda>(d1, d2). sf_fsid (fe_statfs env (dir_path datadir d1 d2)))"

definition code_dir :: "nat \<Rightarrow> nat \<times> nat \<Rightarrow> nat" where
  "code_dir DIR1 = (\<lambda>(d1, d2). d1 * DIR1 + d2)"

lemma decode_code: "d2 < DIR1 \<Longrightarrow> decode_dir DIR1 (code_dir DIR1 (d1, d2)) = (d1, d2)"
  by (simp add: decode_dir_def code_dir_def)

lemma disks_ok_all:
  assumes "disks_ok done fs s" and "ds \<noteq> [] \<or> ds_max s \<noteq> None"
    and "\<And>d1 d2. (d1, d2) \<in> set ds \<Longrightarrow> fe_lstat env (dir_path dd d1 d2) \<and> sf_ok (fe_statfs env (dir_path dd d1 d2))"
    and "distinct (map (code_dir DIR1) ds)" and "snd ` set done \<inter> code_dir DIR1 ` set ds = {}"
    and "length done + length ds \<le> TOTALDIRS"
    and "card (fst ` set done \<union> dir_fsid env dd ` set ds) \<le> MAXDISKS"
    and "0 \<notin> code_dir DIR1 ` set (if done = [] then tl ds else ds)"
  shows "\<exists>fs' s'. set_info_disks env dd DIR1 ds s = (0, s') \<and> ds_max s' \<noteq> None \<and>
    disks_ok (done @ map (\<lambda>d. (dir_fsid env dd d, code_dir DIR1 d)) ds) fs' s'"
  using assms
proof (induction ds arbitrary: "done" fs s)
  case (Cons d ds)
  obtain d1 d2 where d: "d = (d1, d2)" by force
  let ?f = "dir_fsid env dd d" and ?c = "code_dir DIR1 d" and ?p = "dir_path dd d1 d2"
  have "\<exists>fs' s'. set_info_disk env DIR1 ?p d1 d2 s = (0, s') \<and> disks_ok (done @ [(?f, ?c)]) fs' s' \<and> ds_max s' \<noteq> None"
  proof (rule disks_ok_step [OF Cons.prems(1)])
    show "?c \<notin> snd ` set done" using Cons.prems(5) by auto
    show "done = []" if "?c = 0" using that Cons.prems(8) by (auto split: if_splits)
    show "length done < TOTALDIRS" using Cons.prems(6) by simp
    show "card (insert ?f (fst ` set done)) \<le> MAXDISKS"
      by (rule le_trans [OF card_mono Cons.prems(7)]) auto
  qed (use Cons.prems(3) d in \<open>auto simp: dir_fsid_def code_dir_def\<close>)
  then obtain fs1 s1 where s1: "set_info_disk env DIR1 ?p d1 d2 s = (0, s1)"
    "disks_ok (done @ [(?f, ?c)]) fs1 s1" "ds_max s1 \<noteq> None" by blast
  have "\<exists>fs' s'. set_info_disks env dd DIR1 ds s1 = (0, s') \<and> ds_max s' \<noteq> None \<and>
    disks_ok ((done @ [(?f, ?c)]) @ map (\<lambda>d. (dir_fsid env dd d, code_dir DIR1 d)) ds) fs' s'"
  proof (rule Cons.IH [OF s1(2)])
    show "snd ` set (done @ [(?f, ?c)]) \<inter> code_dir DIR1 ` set ds = {}"
      using Cons.prems(4,5) by auto
    show "card (fst ` set (done @ [(?f, ?c)]) \<union> dir_fsid env dd ` set ds) \<le> MAXDISKS"
      using Cons.prems(7) by (simp add: insert_commute Un_commute)
    show "0 \<notin> code_dir DIR1 ` set (if done @ [(?f, ?c)] = [] then tl ds else ds)"
      using Cons.prems(8) by (cases "done = []") auto
  qed (use Cons.prems s1(3) in auto)
  then show ?case using s1 d by simp
qed auto

lemma all_dirs_facts:
  assumes "DIR2 \<le> DIR1"
  shows "set (all_dirs DIR1 DIR2) = {0..<DIR1} \<times> {0..<DIR2}" "length (all_dirs DIR1 DIR2) = DIR1 * DIR2"
    "distinct (map (code_dir DIR1) (all_dirs DIR1 DIR2))" "0 \<notin> code_dir DIR1 ` set (tl (all_dirs DIR1 DIR2))"
proof -
  show st: "set (all_dirs DIR1 DIR2) = {0..<DIR1} \<times> {0..<DIR2}" by (auto simp: all_dirs_def)
  show "length (all_dirs DIR1 DIR2) = DIR1 * DIR2"
    by (simp add: all_dirs_def length_concat comp_def sum_list_triv)
  have "distinct (all_dirs DIR1 DIR2)"
    by (simp add: all_dirs_def distinct_product flip: product_concat_map)
  moreover have "inj_on (code_dir DIR1) (set (all_dirs DIR1 DIR2))"
    unfolding st using assms
    by (intro inj_on_inverseI [of _ "decode_dir DIR1"]) (auto simp: decode_code)
  ultimately show dist: "distinct (map (code_dir DIR1) (all_dirs DIR1 DIR2))" by (simp add: distinct_map)
  show "0 \<notin> code_dir DIR1 ` set (tl (all_dirs DIR1 DIR2))"
  proof (cases "all_dirs DIR1 DIR2")
    case (Cons d ds)
    then have "0 < DIR1" "0 < DIR2" using \<open>length (all_dirs DIR1 DIR2) = DIR1 * DIR2\<close>
      by (cases DIR1; cases DIR2; simp)+
    then have "d = (0, 0)" using Cons by (auto simp: all_dirs_def upt_conv_Cons)
    then show ?thesis using dist Cons by (auto simp: code_dir_def)
  qed simp
qed


definition example_env :: fs_env where
  "example_env = \<lparr>fe_lstat = (\<lambda>_. True),
     fe_statfs = (\<lambda>p. \<lparr>sf_ok = True, sf_fsid = 5, sf_bfree = 2 ^ 20, sf_bsize = 4096\<rparr>)\<rparr>"


subsection \<open>Choosing the disk\<close>

definition usable :: "fs_env \<Rightarrow> bool \<Rightarrow> (nat \<Rightarrow> nat) \<Rightarrow> t_pfs_domain \<Rightarrow> nat \<Rightarrow> t_disk_info \<Rightarrow> bool" where
  "usable env pt rnd sd i d \<longleftrightarrow> fe_lstat env (di_firstpath d) \<and> sf_ok (fe_statfs env (di_firstpath d)) \<and>
     \<not> (pt \<and> rnd i mod 2 \<noteq> 0) \<and> \<not> check_domain_disk_err i (set_self_disk_err i 0 sd)"

lemma self_err_other:
  assumes "i < MAXDISKS" "j < MAXDISKS" "i \<noteq> j"
  shows "check_domain_disk_err j (set_self_disk_err j 0 (set_self_disk_err i v sd))
       = check_domain_disk_err j (set_self_disk_err j 0 sd)"
proof -
  have "self_index (set_self_disk_err i v sd) = self_index sd"
    by (simp add: set_self_disk_err_def self_index_def split: option.splits)
  with assms show ?thesis
    by (auto simp: check_domain_disk_err_def set_self_disk_err_def list_ex_iff split: option.splits)
qed

lemma check_disk_usable:
  "fst (check_disk env pt rnd i d sd) = usable env pt rnd sd i d"
  by (auto simp: check_disk_def usable_def Let_def)

lemma usable_after:
  assumes "i < MAXDISKS" "j < MAXDISKS" "i \<noteq> j"
  shows "usable env pt rnd (snd (check_disk env pt rnd i d sd)) j d' = usable env pt rnd sd j d'"
  using self_err_other [OF assms] by (auto simp: check_disk_def usable_def Let_def)

definition free_gb :: "fs_env \<Rightarrow> t_disk_info \<Rightarrow> nat" where
  "free_gb env d = unat (disk_free_gb (fe_statfs env (di_firstpath d)))"

definition best_ok :: "(nat \<Rightarrow> bool) \<Rightarrow> (nat \<Rightarrow> nat) \<Rightarrow> nat \<Rightarrow> uint32 \<times> nat \<Rightarrow> bool" where
  "best_ok U F n b \<longleftrightarrow> (\<forall>k < n. U k \<longrightarrow> F k \<le> unat (fst b)) \<and>
     (b = (0, 0) \<or> (snd b < n \<and> U (snd b) \<and> F (snd b) = unat (fst b)))"

lemma max_disk_loop_best:
  assumes "i + length ds \<le> MAXDISKS" "\<And>d. d \<in> set ds \<Longrightarrow> di_count d \<noteq> 0 \<and> free_gb env d < 2 ^ 32"
    and "\<And>k. k < length ds \<Longrightarrow> U (i + k) = usable env pt rnd sd (i + k) (ds ! k) \<and> F (i + k) = free_gb env (ds ! k)"
    and "best_ok U F i b"
  shows "best_ok U F (i + length ds) (fst (max_disk_loop env pt rnd i ds b sd))"
  using assms
proof (induction ds arbitrary: i b sd)
  case (Cons d ds)
  let ?sd = "snd (check_disk env pt rnd i d sd)"
  let ?free = "disk_free_gb (fe_statfs env (di_firstpath d))"
  let ?b = "if usable env pt rnd sd i d \<and> (ucast (fst b) :: uint64) < ?free then (ucast ?free, i) else b"
  have U: "U i = usable env pt rnd sd i d" "F i = unat ?free"
    using Cons.prems(3) [of 0] by (auto simp: free_gb_def)
  have small: "unat ?free < 2 ^ 32" using Cons.prems(2) [of d] by (simp add: free_gb_def)
  then have uf: "unat (ucast ?free :: uint32) = unat ?free"
    by (simp add: unsigned_ucast_eq take_bit_nat_eq_self)
  have lt: "((ucast (fst b) :: uint64) < ?free) = (unat (fst b) < unat ?free)"
    by (simp add: word_less_nat_alt unsigned_ucast_eq take_bit_nat_eq_self
        less_trans [OF unsigned_less [of "fst b", where ?'a = nat]])
  have "best_ok U F (i + 1) ?b"
    using Cons.prems(4) U uf lt by (auto simp: best_ok_def less_Suc_eq)
  moreover have step: "max_disk_loop env pt rnd i (d # ds) b sd = max_disk_loop env pt rnd (i + 1) ds ?b ?sd"
    using Cons.prems(2) [of d] check_disk_usable [of env pt rnd i d sd] by (simp add: case_prod_beta Let_def)
  moreover have "U (i + 1 + k) = usable env pt rnd ?sd (i + 1 + k) (ds ! k) \<and> F (i + 1 + k) = free_gb env (ds ! k)"
    if "k < length ds" for k
    using Cons.prems(1) Cons.prems(3) [of "Suc k"] that usable_after [of i "i + 1 + k"] by simp
  ultimately have "best_ok U F (i + 1 + length ds) (fst (max_disk_loop env pt rnd (i + 1) ds ?b ?sd))"
    using Cons.IH [of "i + 1" ?sd ?b] Cons.prems(1,2) by simp
  then show ?case unfolding step by simp
qed simp

text \<open>
  The function \<^verbatim>\<open>refresh_maxfreedisk\<close> chooses the best disk.  With \<open>n\<close> disks in use, the free space it records
  (in gigabytes) is at least that of every usable disk, a disk being usable when the file system
  answers and no server of the domain reports it as broken; and it is the free space of the chosen
  disk, which is usable, unless it is zero.
\<close>

theorem max_disk_best:
  assumes "ds_disks s = ds @ rest" and "length ds \<le> MAXDISKS" and "rest = [] \<or> di_count (hd rest) = 0"
    and "\<And>d. d \<in> set ds \<Longrightarrow> di_count d \<noteq> 0 \<and> free_gb env d < 2 ^ 32"
    and "refresh_maxfreedisk env pt rnd s sd = (s', sd')"
  shows "(\<forall>k < length ds. usable env pt rnd sd k (ds ! k) \<longrightarrow> free_gb env (ds ! k) \<le> unat (ds_maxfree s')) \<and>
    (ds_maxfree s' = 0 \<or> (\<exists>k < length ds. ds_max s' = Some k \<and> usable env pt rnd sd k (ds ! k) \<and>
       free_gb env (ds ! k) = unat (ds_maxfree s')))"
proof -
  let ?U = "\<lambda>k. usable env pt rnd sd k (ds ! k)" and ?F = "\<lambda>k. free_gb env (ds ! k)"
  have app: "max_disk_loop env pt rnd i (ds @ rest) b x = max_disk_loop env pt rnd i ds b x" for i b x
  proof (induction ds arbitrary: i b x)
    case Nil
    then show ?case using assms(3) by (cases rest) auto
  qed (auto split: prod.splits simp: Let_def)
  have "best_ok ?U ?F (0 + length ds) (fst (max_disk_loop env pt rnd 0 ds (0, 0) sd))"
    by (rule max_disk_loop_best) (use assms(2,4) in \<open>auto simp: best_ok_def\<close>)
  moreover obtain k where k: "ds_max s' = Some k" "fst (max_disk_loop env pt rnd 0 ds (0, 0) sd) = (ds_maxfree s', k)"
    using assms(1,5) app by (auto simp: refresh_maxfreedisk_def split: prod.splits)
  ultimately show ?thesis
    by (auto simp: best_ok_def)
qed

theorem max_disk_best_witness:
  "\<exists>s' sd'. refresh_maxfreedisk example_env False (\<lambda>_. 0)
      (zero_disks\<lparr>ds_disks := [zero_disk\<lparr>di_count := 1\<rparr>]\<rparr>) zero_domain = (s', sd') \<and> 4 \<le> unat (ds_maxfree s')"
proof -
  let ?s = "zero_disks\<lparr>ds_disks := [zero_disk\<lparr>di_count := 1\<rparr>]\<rparr>"
  obtain s' sd' where r: "refresh_maxfreedisk example_env False (\<lambda>_. 0) ?s zero_domain = (s', sd')" by force
  have f: "free_gb example_env d = 4" for d
    by (simp add: free_gb_def disk_free_gb_def example_env_def)
  have "usable example_env False (\<lambda>_. 0) zero_domain 0 (zero_disk\<lparr>di_count := 1\<rparr>)"
    by (simp add: usable_def example_env_def check_domain_disk_err_def set_self_disk_err_def self_index_def zero_domain_def)
  with max_disk_best [of ?s "[zero_disk\<lparr>di_count := 1\<rparr>]" "[]" example_env False "\<lambda>_. 0" zero_domain s' sd'] r f
  show ?thesis by auto
qed

text \<open>
  A configured lower bound of \<open>n\<close> gigabytes is \<open>n * 2 ^ 30\<close> bytes, but the built-in default, meant
  to be four gigabytes, is zero: \<^verbatim>\<open>4 << 30\<close> does not fit the \<^verbatim>\<open>int\<close> it is computed in.
\<close>

theorem minfree_default_zero:
  "mindiskfree_of None = 0 \<and>
   (0 < n \<and> n < 2 ^ 31 \<longrightarrow> mindiskfree_of (Some (dec n @ ''G'')) = of_nat n * 2 ^ 30)"
proof -
  have "mindiskfree_of None = 0" by code_simp
  moreover have "mindiskfree_of (Some (dec n @ ''G'')) = of_nat n * 2 ^ 30" if "0 < n" "n < 2 ^ 31"
  proof -
    have "atoi (dec n @ ''G'') = int n" using that by (intro atoi_dec_append) (auto simp: isdigit_def)
    moreover have "tolower (CHR ''G'') = CHR ''g''" by code_simp
    moreover have "(scast (push_bit 30 (1 :: uint32)) :: uint64) = 2 ^ 30" by code_simp
    ultimately show ?thesis using that by (simp add: mindiskfree_of_def Let_def)
  qed
  ultimately show ?thesis by simp
qed

theorem minfree_default_zero_witness: "mindiskfree_of (Some (dec 2 @ ''G'')) = 2147483648"
  using minfree_default_zero [of 2] by simp

end
