(* ===== verification/Pfs_Event.thy ===== *)
theory Pfs_Event
  imports Pfs_Buffer Pfs_Protocol Pfs_Codec
begin

section \<open>The event loop of a plugin thread (network/pfs_so.c)\<close>

text \<open>
  Every plugin (a shared library with the functions \<^verbatim>\<open>svc_initconn\<close>, \<^verbatim>\<open>svc_recv\<close>, \<^verbatim>\<open>svc_send\<close>, \<^verbatim>\<open>svc_finiconn\<close>,
  \<^verbatim>\<open>svc_timeout\<close> and so on) runs in a thread of its own, around \<^verbatim>\<open>epoll_wait\<close>.  The plugin is a record of
  functions, its state the component \<open>lp_plug\<close> of the thread's state.  System calls are given by
  the list of their results in the order of the calls, a pair of the returned number and
  \<^verbatim>\<open>errno\<close>; where the list ends before the code stops calling, the result is \<open>None\<close>.  What goes
  out to the socket is returned as a list of pieces.  Memory is available.
\<close>

subsection \<open>State\<close>

datatype errno = EINTR | EAGAIN | EOTHER

type_synonym sys_ret = "int \<times> errno"

datatype sent = Sent_data bytes | Sent_file int int nat

record 'p loop =
  lp_acon :: "int \<Rightarrow> conn"
  lp_ev :: "int \<Rightarrow> (bool \<times> bool) option"
  lp_maxfds :: int
  lp_ibs :: nat
  lp_closed :: "int list"
  lp_plug :: 'p

record 'p solib =
  lib_initconn :: "int \<Rightarrow> 'p loop \<Rightarrow> int \<times> 'p loop"
  lib_recv :: "int \<Rightarrow> 'p loop \<Rightarrow> int \<times> 'p loop"
  lib_send :: "int \<Rightarrow> 'p loop \<Rightarrow> int \<times> 'p loop"
  lib_finiconn :: "(int \<Rightarrow> 'p loop \<Rightarrow> 'p loop) option"
  lib_send_once :: "(int \<Rightarrow> 'p loop \<Rightarrow> 'p loop) option"
  lib_check_send :: "(int \<Rightarrow> int \<Rightarrow> int \<Rightarrow> int) option"
  lib_timeout :: "('p loop \<Rightarrow> 'p loop) option"

abbreviation GSIZE :: nat where "GSIZE \<equiv> 1073741824"

definition upd_conn :: "int \<Rightarrow> (conn \<Rightarrow> conn) \<Rightarrow> 'p loop \<Rightarrow> 'p loop" where
  "upd_conn fd f s = s\<lparr>lp_acon := (lp_acon s)(fd := f (lp_acon s fd))\<rparr>"

subsection \<open>Connections\<close>

text \<open>\<^verbatim>\<open>epoll_mod\<close> of a descriptor that is not registered fails and changes nothing.\<close>

definition modify_fd_event :: "int \<Rightarrow> bool \<Rightarrow> 'p loop \<Rightarrow> 'p loop" where
  "modify_fd_event fd out s =
     (if lp_ev s fd = None then s else s\<lparr>lp_ev := (lp_ev s)(fd := Some (True, out))\<rparr>)"

definition add_fd_2_efd :: "(int \<Rightarrow> uint32) \<Rightarrow> int \<Rightarrow> 'p loop \<Rightarrow> 'p loop" where
  "add_fd_2_efd getpeerip fd s =
     (let c = lp_acon s fd;
          (sb, cl1) = mybuff_reinit (\<lambda>_. True) (lp_ibs s) (c_send_buff c);
          (rb, cl2) = mybuff_reinit (\<lambda>_. True) (lp_ibs s) (c_recv_buff c)
      in s\<lparr>lp_ev := (lp_ev s)(fd := Some (True, False)),
           lp_acon := (lp_acon s)(fd := \<lparr>c_peerip = ip2str (getpeerip fd), c_fd = fd,
             c_send_buff = sb, c_recv_buff = rb, c_send_len = 0\<rparr>),
           lp_closed := lp_closed s @ cl1 @ cl2\<rparr>)"

text \<open>\<open>fds\<close> are the descriptors \<^verbatim>\<open>accept\<close> returns before it fails.\<close>

fun accept_new :: "'p solib \<Rightarrow> (int \<Rightarrow> uint32) \<Rightarrow> int list \<Rightarrow> 'p loop \<Rightarrow> 'p loop" where
  "accept_new lib gp [] s = s"
| "accept_new lib gp (fd # fds) s =
     (if fd < 0 then s
      else if fd \<ge> lp_maxfds s then accept_new lib gp fds (s\<lparr>lp_closed := lp_closed s @ [fd]\<rparr>)
      else case lib_initconn lib fd s of (r, s1) \<Rightarrow>
        if r \<noteq> 0 then accept_new lib gp fds (s1\<lparr>lp_closed := lp_closed s1 @ [fd]\<rparr>)
        else accept_new lib gp fds (add_fd_2_efd gp fd s1))"

definition do_close :: "(int \<Rightarrow> 'p loop \<Rightarrow> 'p loop) option \<Rightarrow> int \<Rightarrow> 'p loop \<Rightarrow> 'p loop" where
  "do_close fini fd s =
     (if fd \<ge> 0 \<and> fd < lp_maxfds s then
        if c_fd (lp_acon s fd) < 0 then s
        else
          let s1 = (case fini of Some f \<Rightarrow> f fd s | None \<Rightarrow> s) in
          upd_conn fd (\<lambda>c. c\<lparr>c_fd := -1\<rparr>)
            (s1\<lparr>lp_ev := (lp_ev s1)(fd := None), lp_closed := lp_closed s1 @ [fd]\<rparr>)
      else s)"

subsection \<open>Sending\<close>

text \<open>The loop around \<^verbatim>\<open>send\<close>: the code, the last result, the connection, what was sent.\<close>

fun send_loop :: "sys_ret list \<Rightarrow> bytes \<Rightarrow> conn \<Rightarrow> (int \<times> int \<times> conn \<times> sent list) option" where
  "send_loop [] data c = None"
| "send_loop ((n, e) # rs) data c =
     (if n > 0 then
        Some (if nat n < length data then SEND_ADD_EPOLLOUT else SEND_ADD_EPOLLIN, n,
              c\<lparr>c_send_buff := mybuff_skipdata (c_send_buff c) (nat n), c_send_len := c_send_len c + n\<rparr>,
              [Sent_data (take (nat n) data)])
      else if e = EINTR then send_loop rs data c
      else if e = EAGAIN then Some (SEND_ADD_EPOLLOUT, n, c, [])
      else Some (SEND_CLOSE, n, c, []))"

text \<open>The loop around \<^verbatim>\<open>sendfile64\<close>, which also gives the descriptors closed by \<^verbatim>\<open>mybuff_skipfile\<close>.\<close>

fun sendfile_loop ::
  "(int \<Rightarrow> int \<Rightarrow> int) option \<Rightarrow> sys_ret list \<Rightarrow> int \<times> int \<times> nat \<Rightarrow> conn \<Rightarrow> (int \<times> int \<times> conn \<times> int list \<times> sent list) option" where
  "sendfile_loop check [] f c = None"
| "sendfile_loop check ((n, e) # rs) (lfd, start, len) c =
     (if n > 0 then
        (case mybuff_skipfile (c_send_buff c) (nat n) of (sb, closed) \<Rightarrow>
           Some (if nat n < len then SEND_ADD_EPOLLOUT else SEND_ADD_EPOLLIN, n,
                 c\<lparr>c_send_buff := sb, c_send_len := c_send_len c + n\<rparr>, closed,
                 [Sent_file lfd start (nat n)]))
      else if e = EINTR then sendfile_loop check rs (lfd, start, len) c
      else
        let ret = (if e = EAGAIN then SEND_ADD_EPOLLOUT else SEND_CLOSE);
            len1 = min len GSIZE;
            ret' = (case check of
                      Some f \<Rightarrow> if n = 0 \<and> f n (start + int len1) < 0 then SEND_CLOSE else ret
                    | None \<Rightarrow> ret)
        in Some (ret', n, c, [], []))"

text \<open>The two parts of \<^verbatim>\<open>do_send\<close> before its \<^verbatim>\<open>switch\<close>: first the bytes, then a file.\<close>

definition conn_send ::
  "(int \<Rightarrow> int \<Rightarrow> int) option \<Rightarrow> sys_ret list \<Rightarrow> sys_ret list \<Rightarrow> conn \<Rightarrow> (int \<times> int \<times> conn \<times> int list \<times> sent list) option" where
  "conn_send check ds fs c =
     (case (case mybuff_getdata (c_send_buff c) of
              Some data \<Rightarrow> send_loop ds data c
            | None \<Rightarrow> Some (SEND_ADD_EPOLLIN, 0, c, [])) of
        None \<Rightarrow> None
      | Some (ret, n, c1, out1) \<Rightarrow>
          if ret = SEND_ADD_EPOLLIN then
            (case mybuff_getfile (c_send_buff c1) of
               Some f \<Rightarrow>
                 map_option (\<lambda>(r, n', c2, cl, out2). (r, n', c2, cl, out1 @ out2)) (sendfile_loop check fs f c1)
             | None \<Rightarrow> Some (ret, n, c1, [], out1))
          else Some (ret, n, c1, [], out1))"

definition do_send ::
  "'p solib \<Rightarrow> sys_ret list \<Rightarrow> sys_ret list \<Rightarrow> int \<Rightarrow> 'p loop \<Rightarrow> ('p loop \<times> sent list) option" where
  "do_send lib ds fs fd s =
     (if c_fd (lp_acon s fd) < 0 then Some (s, [])
      else
        case conn_send (map_option (\<lambda>f. f fd) (lib_check_send lib)) ds fs (lp_acon s fd) of
          None \<Rightarrow> None
        | Some (ret, n, c, closed, out) \<Rightarrow>
            let s1 = (upd_conn fd (\<lambda>_. c) s)\<lparr>lp_closed := lp_closed s @ closed\<rparr> in
            if ret = SEND_CLOSE then Some (do_close (lib_finiconn lib) fd s1, out)
            else
              let s2 = modify_fd_event fd (ret = SEND_ADD_EPOLLOUT) s1;
                  s3 = (case lib_send_once lib of
                          Some f \<Rightarrow> if n > 0 then f fd s2 else s2 | None \<Rightarrow> s2)
              in if ret = SEND_ADD_EPOLLIN then
                   (case lib_send lib fd s3 of (r, s4) \<Rightarrow>
                      Some (if r = SEND_CLOSE then do_close (lib_finiconn lib) fd s4 else s4, out))
                 else Some (s3, out))"

subsection \<open>Receiving\<close>

datatype recv_end = Recv_ready | Recv_close

text \<open>
  The loop around \<^verbatim>\<open>recv\<close>.  A result carries the bytes received; the loop goes on after a full
  buffer.  The last component says whether the descriptor has to wait for input again.
\<close>

fun do_recv_loop :: "nat \<Rightarrow> (bytes \<times> sys_ret) list \<Rightarrow> conn \<Rightarrow> (recv_end \<times> conn \<times> bool) option" where
  "do_recv_loop ibs [] c = None"
| "do_recv_loop ibs ((d, n, e) # rs) c =
     (if n > 0 then
        (case mybuff_setdata (\<lambda>_. True) ibs (c_recv_buff c) d of
           None \<Rightarrow> None
         | Some rb \<Rightarrow>
             let c1 = c\<lparr>c_recv_buff := rb\<rparr> in
             if n = int ibs then do_recv_loop ibs rs c1 else Some (Recv_ready, c1, False))
      else if n = 0 then Some (Recv_close, c, False)
      else if e = EINTR then do_recv_loop ibs rs c
      else if e = EAGAIN then Some (Recv_ready, c, True)
      else Some (Recv_close, c, False))"

definition do_recv ::
  "'p solib \<Rightarrow> (bytes \<times> sys_ret) list \<Rightarrow> sys_ret list \<Rightarrow> sys_ret list \<Rightarrow> int \<Rightarrow> 'p loop \<Rightarrow> ('p loop \<times> sent list) option" where
  "do_recv lib rs ds fs fd s =
     (if c_fd (lp_acon s fd) < 0 then Some (s, [])
      else
        case do_recv_loop (lp_ibs s) rs (lp_acon s fd) of
          None \<Rightarrow> None
        | Some (Recv_close, c, _) \<Rightarrow> Some (do_close (lib_finiconn lib) fd (upd_conn fd (\<lambda>_. c) s), [])
        | Some (Recv_ready, c, again) \<Rightarrow>
            let s1 = upd_conn fd (\<lambda>_. c) s;
                s2 = (if again then modify_fd_event fd False s1 else s1);
                (ret, s3) = lib_recv lib fd s2
            in if ret = RECV_SEND then do_send lib ds fs fd s3
               else if ret = RECV_ADD_EPOLLIN then Some (modify_fd_event fd False s3, [])
               else if ret = RECV_ADD_EPOLLOUT then Some (modify_fd_event fd True s3, [])
               else if ret = RECV_ADD_EPOLLALL then Some (modify_fd_event fd True s3, [])
               else if ret = RECV_CLOSE then Some (do_close (lib_finiconn lib) fd s3, [])
               else Some (s3, []))"

text \<open>\<open>io\<close> are the results of the calls of \<^verbatim>\<open>do_recv\<close>, \<open>ds\<close> and \<open>fs\<close> those of a following \<^verbatim>\<open>do_send\<close>.\<close>

definition do_process ::
  "'p solib \<Rightarrow> (bytes \<times> sys_ret) list \<times> sys_ret list \<times> sys_ret list \<Rightarrow> sys_ret list \<times> sys_ret list \<Rightarrow> int \<Rightarrow> bool \<times> bool
     \<Rightarrow> 'p loop \<Rightarrow> ('p loop \<times> sent list) option" where
  "do_process lib io snd_io fd = (\<lambda>(ein, eout) s.
     if \<not> ein \<and> \<not> eout then Some (do_close (lib_finiconn lib) fd s, [])
     else
       case (if ein then (case io of (rs, ds, fs) \<Rightarrow> do_recv lib rs ds fs fd s) else Some (s, [])) of
         None \<Rightarrow> None
       | Some (s1, out1) \<Rightarrow>
           if eout then
             (case snd_io of (ds, fs) \<Rightarrow>
                map_option (\<lambda>(s2, out2). (s2, out1 @ out2)) (do_send lib ds fs fd s1))
           else Some (s1, out1))"

subsection \<open>What goes out, and in which order\<close>

fun data_of :: "sent list \<Rightarrow> bytes" where
  "data_of [] = []"
| "data_of (Sent_data d # out) = d @ data_of out"
| "data_of (Sent_file _ _ _ # out) = data_of out"

fun files_of :: "sent list \<Rightarrow> (int \<times> int \<times> nat) list" where
  "files_of [] = []"
| "files_of (Sent_data _ # out) = files_of out"
| "files_of (Sent_file a b n # out) = (a, b, n) # files_of out"

text \<open>No bytes follow a piece of a file.\<close>

fun data_first :: "sent list \<Rightarrow> bool" where
  "data_first [] = True"
| "data_first (Sent_data _ # out) = data_first out"
| "data_first (Sent_file _ _ _ # out) = (data_of out = [] \<and> data_first out)"

text \<open>The consecutive pieces of lengths \<open>ns\<close> of a file from an offset on.\<close>

fun ranges :: "int \<Rightarrow> int \<Rightarrow> nat list \<Rightarrow> (int \<times> int \<times> nat) list" where
  "ranges fd off [] = []"
| "ranges fd off (n # ns) = (fd, off, n) # ranges fd (off + int n) ns"

text \<open>
  Successive calls of \<^verbatim>\<open>do_send\<close> on a connection to which nothing is added in between, up to the
  first that closes it; the result of the last one comes first.
\<close>

fun send_calls ::
  "(int \<Rightarrow> int \<Rightarrow> int) option \<Rightarrow> (sys_ret list \<times> sys_ret list) list \<Rightarrow> int \<Rightarrow> conn \<Rightarrow> (int \<times> conn \<times> int list \<times> sent list) option" where
  "send_calls check [] ret c = Some (ret, c, [], [])"
| "send_calls check ((ds, fs) # rs) ret c =
     (case conn_send check ds fs c of
        None \<Rightarrow> None
      | Some (ret1, n, c1, cl1, out1) \<Rightarrow>
          if ret1 = SEND_CLOSE then Some (ret1, c1, cl1, out1)
          else case send_calls check rs ret1 c1 of
                 None \<Rightarrow> None
               | Some (ret2, c2, cl2, out2) \<Rightarrow> Some (ret2, c2, cl1 @ cl2, out1 @ out2))"

lemma data_of_append [simp]: "data_of (a @ b) = data_of a @ data_of b"
  by (induction a rule: data_of.induct) simp_all

lemma files_of_append [simp]: "files_of (a @ b) = files_of a @ files_of b"
  by (induction a rule: files_of.induct) simp_all

lemma data_first_append:
  "data_first a \<Longrightarrow> data_first b \<Longrightarrow> files_of a = [] \<or> data_of b = [] \<Longrightarrow> data_first (a @ b)"
  by (induction a rule: data_first.induct) auto

lemma ranges_append: "ranges fd off (ms @ ns) = ranges fd off ms @ ranges fd (off + int (sum_list ms)) ns"
  by (induction ms arbitrary: off) (simp_all add: algebra_simps)

lemma ranges_Nil_iff [simp]: "ranges fd off ns = [] \<longleftrightarrow> ns = []"
  by (cases ns) simp_all

lemma skipdata_file [simp]: "mybuff_getfile (mybuff_skipdata mb n) = mybuff_getfile mb"
  by (auto simp: mybuff_getfile_def mybuff_skipdata_def split: option.splits)

lemma skipfile_ok [pfs_inv]: "mb_ok mb \<Longrightarrow> mb_ok (fst (mybuff_skipfile mb n))"
  by (auto simp: mybuff_skipfile_def mb_ok_def split: option.splits)

lemma skipfile_getfile:
  assumes "mybuff_getfile mb = Some (fd, off, len)" and "0 < n"
  shows "mybuff_getfile (fst (mybuff_skipfile mb n))
      = (if n < len then Some (fd, off + int n, len - n) else None)
    \<and> snd (mybuff_skipfile mb n) = (if n < len then [] else [fd])"
  using assms by (auto simp: mybuff_getfile_def mybuff_skipfile_def split: if_splits)

text \<open>What the byte part of \<^verbatim>\<open>do_send\<close> does.\<close>

lemma send_loop_step:
  assumes "send_loop ds D c = Some (ret, n, c', out)" and "mb_ok (c_send_buff c)"
    and "mb_bytes (c_send_buff c) = D"
  shows "mb_ok (c_send_buff c') \<and> data_of out @ mb_bytes (c_send_buff c') = D \<and> files_of out = []
    \<and> data_first out \<and> mybuff_getfile (c_send_buff c') = mybuff_getfile (c_send_buff c)
    \<and> (ret = SEND_ADD_EPOLLIN \<longrightarrow> mb_bytes (c_send_buff c') = [])"
  using assms
  by (induction ds D c rule: send_loop.induct)
    (auto simp: skipdata_ok skipdata_bytes split: if_splits)

text \<open>What the file part does: one piece of the file, or nothing.\<close>

definition file_step ::
  "(int \<times> int \<times> nat) option \<Rightarrow> (int \<times> int \<times> nat) option \<Rightarrow> int list \<Rightarrow> (int \<times> int \<times> nat) list \<Rightarrow> bool" where
  "file_step f f' closed pieces \<longleftrightarrow>
     f' = f \<and> closed = [] \<and> pieces = [] \<or>
     (\<exists>fd off len n. f = Some (fd, off, len) \<and> 0 < n \<and> pieces = [(fd, off, n)] \<and>
        f' = (if n < len then Some (fd, off + int n, len - n) else None) \<and>
        closed = (if n < len then [] else [fd]))"

lemma sendfile_loop_step:
  assumes "sendfile_loop check fs f c = Some (ret, n, c', closed, out)" and "mb_ok (c_send_buff c)"
    and "mybuff_getfile (c_send_buff c) = Some f"
  shows "mb_ok (c_send_buff c') \<and> data_of out = [] \<and> data_first out
    \<and> mb_bytes (c_send_buff c') = mb_bytes (c_send_buff c)
    \<and> file_step (Some f) (mybuff_getfile (c_send_buff c')) closed (files_of out)
    \<and> (ret = SEND_ADD_EPOLLIN \<longrightarrow> mybuff_getfile (c_send_buff c') = None)"
  using assms
proof (induction check fs f c rule: sendfile_loop.induct)
  case (2 check n0 e rs lfd start len c)
  show ?case
  proof (cases "n0 > 0")
    case True
    let ?s = "mybuff_skipfile (c_send_buff c) (nat n0)"
    have p: "ret = (if nat n0 < len then SEND_ADD_EPOLLOUT else SEND_ADD_EPOLLIN)"
      "c_send_buff c' = fst ?s" "closed = snd ?s" "out = [Sent_file lfd start (nat n0)]"
      using 2(2) True by (auto split: prod.splits)
    have "file_step (Some (lfd, start, len)) (mybuff_getfile (fst ?s)) closed (files_of out)"
      unfolding file_step_def
      using skipfile_getfile [OF 2(4), of "nat n0"] True p(3,4)
      by (intro disjI2 exI [of _ lfd] exI [of _ start] exI [of _ len] exI [of _ "nat n0"]) auto
    then show ?thesis
      using skipfile_getfile [OF 2(4), of "nat n0"] True p skipfile_ok [OF 2(3), of "nat n0"] by auto
  next
    case False
    show ?thesis
    proof (cases "e = EINTR")
      case True
      then show ?thesis using False 2 by simp
    next
      case e: False
      show ?thesis
        using 2(2-4) False e by (auto simp: file_step_def Let_def split: if_splits option.splits)
    qed
  qed
qed simp

lemma conn_send_step:
  assumes "conn_send check ds fs c = Some (ret, n, c', closed, out)" and "mb_ok (c_send_buff c)"
  shows "mb_ok (c_send_buff c') \<and> data_of out @ mb_bytes (c_send_buff c') = mb_bytes (c_send_buff c)
    \<and> data_first out \<and> (files_of out \<noteq> [] \<longrightarrow> mb_bytes (c_send_buff c') = [])
    \<and> file_step (mybuff_getfile (c_send_buff c)) (mybuff_getfile (c_send_buff c')) closed (files_of out)
    \<and> (ret = SEND_ADD_EPOLLIN \<longrightarrow>
        mb_bytes (c_send_buff c') = [] \<and> mybuff_getfile (c_send_buff c') = None)"
proof -
  let ?first = "case mybuff_getdata (c_send_buff c) of Some data \<Rightarrow> send_loop ds data c
    | None \<Rightarrow> Some (SEND_ADD_EPOLLIN, 0, c, [])"
  obtain ret1 n1 c1 out1 where f: "?first = Some (ret1, n1, c1, out1)"
    using assms(1) unfolding conn_send_def by (cases ?first) auto
  have s1: "mb_ok (c_send_buff c1)" "data_of out1 @ mb_bytes (c_send_buff c1) = mb_bytes (c_send_buff c)"
    "files_of out1 = []" "data_first out1"
    "mybuff_getfile (c_send_buff c1) = mybuff_getfile (c_send_buff c)"
    "ret1 = SEND_ADD_EPOLLIN \<Longrightarrow> mb_bytes (c_send_buff c1) = []"
    using f send_loop_step [of ds "mb_bytes (c_send_buff c)" c ret1 n1 c1 out1] assms(2)
    by (auto simp: getdata_bytes [OF assms(2)] split: if_splits)
  show ?thesis
  proof (cases "ret1 = SEND_ADD_EPOLLIN \<and> mybuff_getfile (c_send_buff c1) \<noteq> None")
    case True
    then obtain fl where fl: "mybuff_getfile (c_send_buff c1) = Some fl" by auto
    obtain out2 where o2: "sendfile_loop check fs fl c1 = Some (ret, n, c', closed, out2)"
      "out = out1 @ out2"
      using assms(1) f True fl unfolding conn_send_def by auto
    note s2 = sendfile_loop_step [OF o2(1) s1(1) fl]
    show ?thesis
      using s1 s2 True o2(2) fl data_first_append [of out1 out2] by auto
  next
    case False
    have "ret = ret1" "c' = c1" "closed = []" "out = out1"
      using assms(1) f False unfolding conn_send_def by (auto split: if_splits option.splits)
    then show ?thesis
      using s1 False by (cases "mybuff_getfile (c_send_buff c)") (auto simp: file_step_def)
  qed
qed

text \<open>A file sent in pieces, as a whole.\<close>

definition file_run ::
  "(int \<times> int \<times> nat) option \<Rightarrow> (int \<times> int \<times> nat) option \<Rightarrow> int list \<Rightarrow> (int \<times> int \<times> nat) list \<Rightarrow> bool" where
  "file_run f f' closed pieces \<longleftrightarrow>
     (case f of
        None \<Rightarrow> f' = None \<and> closed = [] \<and> pieces = []
      | Some (fd, off, len) \<Rightarrow>
          (\<exists>ns. pieces = ranges fd off ns \<and> (\<forall>n\<in>set ns. 0 < n) \<and>
             (if sum_list ns < len
              then f' = Some (fd, off + int (sum_list ns), len - sum_list ns) \<and> closed = []
              else f' = None \<and> closed = [fd])))"

lemma file_run_refl: "mybuff_getfile mb = f \<Longrightarrow> file_run f f [] []"
  unfolding file_run_def
  by (auto simp: mybuff_getfile_def split: option.splits if_splits intro!: exI [of _ "[]"])

lemma file_run_step:
  assumes "file_step f f1 cl1 p1" and "file_run f1 f2 cl2 p2"
  shows "file_run f f2 (cl1 @ cl2) (p1 @ p2)"
  using assms(1) unfolding file_step_def
proof (elim disjE exE conjE)
  assume "f1 = f" "cl1 = []" "p1 = []"
  then show ?thesis using assms(2) by simp
next
  fix fd off len n
  assume f: "f = Some (fd, off, len)" "0 < n" "p1 = [(fd, off, n)]"
    "f1 = (if n < len then Some (fd, off + int n, len - n) else None)"
    "cl1 = (if n < len then [] else [fd])"
  show ?thesis
  proof (cases "n < len")
    case True
    obtain ns where ns: "p2 = ranges fd (off + int n) ns" "\<forall>m\<in>set ns. 0 < m"
      "if sum_list ns < len - n then f2 = Some (fd, off + int n + int (sum_list ns), len - n - sum_list ns) \<and> cl2 = []
       else f2 = None \<and> cl2 = [fd]"
      using assms(2) f True unfolding file_run_def by auto
    show ?thesis
      unfolding file_run_def f(1) option.case prod.case
      by (rule exI [of _ "n # ns"]) (use ns f True in \<open>auto simp: algebra_simps\<close>)
  next
    case False
    then show ?thesis
      using assms(2) f unfolding file_run_def
      by (auto intro!: exI [of _ "[n]"])
  qed
qed

lemma send_calls_in_order:
  assumes "send_calls check rs ret0 c = Some (ret, c', closed, out)" and "mb_ok (c_send_buff c)"
  shows "mb_ok (c_send_buff c') \<and> data_of out @ mb_bytes (c_send_buff c') = mb_bytes (c_send_buff c)
    \<and> data_first out \<and> (files_of out \<noteq> [] \<longrightarrow> mb_bytes (c_send_buff c') = [])
    \<and> file_run (mybuff_getfile (c_send_buff c)) (mybuff_getfile (c_send_buff c')) closed (files_of out)
    \<and> (rs \<noteq> [] \<and> ret = SEND_ADD_EPOLLIN \<longrightarrow>
        mb_bytes (c_send_buff c') = [] \<and> mybuff_getfile (c_send_buff c') = None)"
  using assms
proof (induction check rs ret0 c arbitrary: closed out rule: send_calls.induct)
  case (1 check ret c)
  then show ?case by (auto simp: file_run_refl)
next
  case (2 check ds fs rs ret0 c)
  obtain ret1 n c1 cl1 out1 where s: "conn_send check ds fs c = Some (ret1, n, c1, cl1, out1)"
    using "2.prems"(1) by (auto split: option.splits)
  note st = conn_send_step [OF s "2.prems"(2)]
  show ?case
  proof (cases "ret1 = SEND_CLOSE")
    case True
    then have "ret = ret1" "c' = c1" "closed = cl1" "out = out1"
      using "2.prems"(1) s by auto
    then show ?thesis
      using st True file_run_step [of _ _ cl1 "files_of out1" _ "[]" "[]"]
        file_run_refl [of "c_send_buff c1"] by auto
  next
    case False
    then obtain cl2 out2 where t: "send_calls check rs ret1 c1 = Some (ret, c', cl2, out2)"
      "closed = cl1 @ cl2" "out = out1 @ out2"
      using "2.prems"(1) s by (auto split: option.splits)
    have i: "mb_ok (c_send_buff c1)" using st by simp
    note ih = "2.IH" [OF s refl refl refl refl False t(1) i]
    have last: "mb_bytes (c_send_buff c') = [] \<and> mybuff_getfile (c_send_buff c') = None"
      if "ret = SEND_ADD_EPOLLIN"
    proof (cases "rs = []")
      case True
      then show ?thesis using t(1) st that by simp
    next
      case False
      then show ?thesis using ih that by simp
    qed
    have "file_run (mybuff_getfile (c_send_buff c)) (mybuff_getfile (c_send_buff c')) closed (files_of out)"
      using st ih t(2,3) by (auto intro: file_run_step)
    then show ?thesis
      using st ih last t(3) data_first_append [of out1 out2] by auto
  qed
qed

subsection \<open>The results of a plugin\<close>

text \<open>A connection as \<^verbatim>\<open>do_recv\<close> leaves it before it calls \<^verbatim>\<open>svc_recv\<close>.\<close>

definition recv_ready :: "(bytes \<times> sys_ret) list \<Rightarrow> int \<Rightarrow> 'p loop \<Rightarrow> 'p loop option" where
  "recv_ready rs fd s =
     (if c_fd (lp_acon s fd) < 0 then None
      else case do_recv_loop (lp_ibs s) rs (lp_acon s fd) of
             Some (Recv_ready, c, again) \<Rightarrow>
               Some (if again then modify_fd_event fd False (upd_conn fd (\<lambda>_. c) s) else upd_conn fd (\<lambda>_. c) s)
           | _ \<Rightarrow> None)"

text \<open>A result that is none of the five the \<^verbatim>\<open>switch\<close> knows is ignored: nothing is sent and no event changes.\<close>

lemma do_recv_unknown_result:
  assumes "recv_ready rs fd s = Some s1" and "lib_recv lib fd s1 = (ret, s2)"
    and "ret \<notin> {RECV_SEND, RECV_ADD_EPOLLIN, RECV_ADD_EPOLLOUT, RECV_ADD_EPOLLALL, RECV_CLOSE}"
  shows "do_recv lib rs ds fs fd s = Some (s2, [])"
  using assms unfolding recv_ready_def do_recv_def
  by (auto simp: Let_def split: if_splits option.splits recv_end.splits)

subsection \<open>Properties\<close>


definition example_conn :: conn where
  "example_conn = \<lparr>c_peerip = [], c_fd = 9,
     c_send_buff = \<lparr>mb_data = Some [1, 2, 3], mb_size = 20480, mb_len = 3, mb_fd = 7, mb_foffset = 0, mb_flen = 10\<rparr>,
     c_recv_buff = mybuff_init, c_send_len = 0\<rparr>"


end
