(* ===== verification/Pfs_Peers.thy ===== *)
theory Pfs_Peers
  imports Pfs_Prelude
begin

section \<open>Tables of connections\<close>

text \<open>
  The signalling and data plugins keep the same three structures for their connections: a list
  ordered by the last activity, on which the time-out works, 256 lists of connections hashed by
  the peer's address, in which a peer is looked up, and the user pointers of the connections.
  This theory states what happens to them when a connection is opened, used and closed, and
  shows once that a look-up finds an address exactly when a connection from it is open; the
  locale \<open>peer_registry\<close> is the interface through which each plugin obtains this for its own
  state and steps.
\<close>

record conns =
  cn_active :: "int list"
  cn_user :: "int set"
  cn_online :: "nat \<Rightarrow> int list"
  cn_ip :: "int \<Rightarrow> uint32"

text \<open>\<^verbatim>\<open>ip & ALLMASK\<close>\<close>

definition hash256 :: "uint32 \<Rightarrow> nat" where
  "hash256 ip = unat (0xFF AND ip)"

definition conns_add :: "int \<Rightarrow> uint32 \<Rightarrow> conns \<Rightarrow> conns" where
  "conns_add fd ip c = \<lparr>cn_active = remove1 fd (cn_active c) @ [fd], cn_user = insert fd (cn_user c),
     cn_online = (cn_online c)(hash256 ip := fd # cn_online c (hash256 ip)), cn_ip = (cn_ip c)(fd := ip)\<rparr>"

definition conns_move :: "int \<Rightarrow> conns \<Rightarrow> conns" where
  "conns_move fd c = c\<lparr>cn_active := remove1 fd (cn_active c) @ [fd]\<rparr>"

definition conns_del :: "int \<Rightarrow> conns \<Rightarrow> conns" where
  "conns_del fd c = \<lparr>cn_active = remove1 fd (cn_active c), cn_user = cn_user c - {fd},
     cn_online = (\<lambda>i. remove1 fd (cn_online c i)), cn_ip = (cn_ip c)(fd := 0)\<rparr>"

definition conns_find :: "uint32 \<Rightarrow> conns \<Rightarrow> int option" where
  "conns_find ip c = List.find (\<lambda>fd. cn_ip c fd = ip) (cn_online c (hash256 ip))"

definition conns_ok :: "conns \<Rightarrow> bool" where
  "conns_ok c \<longleftrightarrow> distinct (cn_active c) \<and> set (cn_active c) = cn_user c \<and>
     (\<forall>i. distinct (cn_online c i) \<and> set (cn_online c i) = {fd \<in> cn_user c. hash256 (cn_ip c fd) = i})"

definition conns_empty :: "conns \<Rightarrow> bool" where
  "conns_empty c \<longleftrightarrow> cn_active c = [] \<and> cn_user c = {} \<and> (\<forall>i. cn_online c i = [])"

lemma conns_empty_ok: "conns_empty c \<Longrightarrow> conns_ok c"
  by (simp add: conns_empty_def conns_ok_def)

lemma conns_add_ok [pfs_inv]: "conns_ok c \<Longrightarrow> fd \<notin> cn_user c \<Longrightarrow> conns_ok (conns_add fd ip c)"
  by (auto simp: conns_ok_def conns_add_def remove1_idem)

lemma conns_move_ok [pfs_inv]: "conns_ok c \<Longrightarrow> fd \<in> cn_user c \<Longrightarrow> conns_ok (conns_move fd c)"
  by (auto simp: conns_ok_def conns_move_def)

lemma conns_del_ok [pfs_inv]: "conns_ok c \<Longrightarrow> conns_ok (conns_del fd c)"
  by (auto simp: conns_ok_def conns_del_def)

lemma conns_find_iff: "conns_ok c \<Longrightarrow> conns_find ip c \<noteq> None \<longleftrightarrow> (\<exists>fd \<in> cn_user c. cn_ip c fd = ip)"
  by (auto simp: conns_find_def find_None_iff conns_ok_def)

lemma conns_find_Some: "conns_ok c \<Longrightarrow> conns_find ip c = Some fd \<Longrightarrow> fd \<in> cn_user c \<and> cn_ip c fd = ip"
  by (auto simp: conns_find_def find_Some_iff conns_ok_def dest!: nth_mem)

text \<open>What a plugin may do to its connections.\<close>

inductive conns_step :: "conns \<Rightarrow> conns \<Rightarrow> bool" where
  Add: "fd \<notin> cn_user c \<Longrightarrow> conns_step c (conns_add fd ip c)"
| Move: "fd \<in> cn_user c \<Longrightarrow> conns_step c (conns_move fd c)"
| Del: "conns_step c (conns_del fd c)"

lemma conns_step_ok: "conns_step c c' \<Longrightarrow> conns_ok c \<Longrightarrow> conns_ok c'"
  by (induction rule: conns_step.induct) (auto intro: pfs_inv)

lemma conns_steps_ok: "conns_step\<^sup>*\<^sup>* c c' \<Longrightarrow> conns_ok c \<Longrightarrow> conns_ok c'"
  by (induction rule: rtranclp_induct) (auto intro: conns_step_ok)

lemma conns_steps_list:
  assumes "conns_step\<^sup>*\<^sup>* c c'" and "distinct (cn_active c) \<and> set (cn_active c) = cn_user c"
  shows "distinct (cn_active c') \<and> set (cn_active c') = cn_user c'"
  using assms
proof (induction rule: rtranclp_induct)
  case (step c1 c2)
  then have "distinct (cn_active c1)" "set (cn_active c1) = cn_user c1" by auto
  with step.hyps(2) show ?case
    by (cases rule: conns_step.cases) (auto simp: conns_add_def conns_move_def conns_del_def)
qed simp

locale peer_registry =
  fixes conns_of :: "'s \<Rightarrow> conns" and step :: "'s \<Rightarrow> 's \<Rightarrow> bool"
  assumes step_conns: "step s s' \<Longrightarrow> conns_step\<^sup>*\<^sup>* (conns_of s) (conns_of s')"
begin

lemma steps_conns: "step\<^sup>*\<^sup>* s s' \<Longrightarrow> conns_step\<^sup>*\<^sup>* (conns_of s) (conns_of s')"
  by (induction rule: rtranclp_induct) (auto dest: step_conns intro: rtranclp_trans)

lemma reachable_ok: "step\<^sup>*\<^sup>* s s' \<Longrightarrow> conns_empty (conns_of s) \<Longrightarrow> conns_ok (conns_of s')"
  using steps_conns conns_steps_ok conns_empty_ok by blast

lemma found_iff_connected:
  assumes "step\<^sup>*\<^sup>* s s'" and "conns_empty (conns_of s)"
  shows "conns_find ip (conns_of s') \<noteq> None \<longleftrightarrow> (\<exists>fd \<in> cn_user (conns_of s'). cn_ip (conns_of s') fd = ip)"
    and "distinct (cn_active (conns_of s')) \<and> set (cn_active (conns_of s')) = cn_user (conns_of s')"
  using reachable_ok [OF assms] conns_find_iff by (auto simp: conns_ok_def)

end

end
