(* ===== verification/Pfs_Nameserver.thy ===== *)
theory Pfs_Nameserver
  imports Pfs_Protocol Pfs_Topology Pfs_Peers
begin

section \<open>The name server's signalling plugin (network/N)\<close>

text \<open>
  The name server keeps a connection with every storage server, collects their load, chooses the
  best domain of every group every ten minutes and tells clients which storage server to talk to.
  A connection is known by its descriptor: \<open>ns_peer fd\<close> is the block \<^verbatim>\<open>acon[fd].user\<close> points to
  and \<open>ns_user\<close> the set of descriptors where that pointer is not null; the lists of peers are
  lists of descriptors.  \<open>ns_send fd\<close> are the bytes queued in the connection's send buffer
  (a queue of bytes, as Pfs_Buffer shows), \<open>ns_epollout\<close> the descriptors for which output events
  were requested.  The clock's reading is an argument.
\<close>

subsection \<open>State\<close>

abbreviation MAX_GROUP :: nat where "MAX_GROUP \<equiv> 64"
abbreviation POLICY_DISKFREE :: nat where "POLICY_DISKFREE \<equiv> 0"
abbreviation POLICY_LOAD :: nat where "POLICY_LOAD \<equiv> 1"
abbreviation POLICY_TASKCOUNT :: nat where "POLICY_TASKCOUNT \<equiv> 2"
abbreviation ON_LINE :: uint8 where "ON_LINE \<equiv> 3"
abbreviation ADD_SET_GROUP :: uint8 where "ADD_SET_GROUP \<equiv> 0"
abbreviation ADD_QUERY_DIR :: uint8 where "ADD_QUERY_DIR \<equiv> 5"
abbreviation RET_CLOSE_MALLOC :: int where "RET_CLOSE_MALLOC \<equiv> 303"

record pfs_fcs_peer =
  pe_fd :: int
  pe_hbtime :: uint32
  pe_ip :: uint32
  pe_taskcount :: uint32
  pe_load :: uint32
  pe_diskfree :: uint32
  pe_server_stat :: uint8
  pe_close :: bool

record ns_state =
  ns_topo :: topo
  ns_peer :: "int \<Rightarrow> pfs_fcs_peer"
  ns_user :: "int set"
  ns_activelist :: "int list"
  ns_online :: "nat \<Rightarrow> int list"
  ns_change :: "nat \<Rightarrow> (string \<times> string) list"
  ns_select :: "nat \<Rightarrow> (string \<times> int) list"
  ns_proxy :: "(uint32 \<times> string) list"
  ns_group_array :: "string list"
  ns_bestdomain :: "nat \<Rightarrow> t_pfs_domain"
  ns_last :: int
  ns_self_stat :: uint8
  ns_stop :: bool
  ns_policy :: nat
  ns_up_port :: uint16
  ns_timeout :: uint16
  ns_send :: "int \<Rightarrow> bytes"
  ns_epollout :: "int set"
  ns_closed :: "int list"

definition zero_peer :: pfs_fcs_peer where
  "zero_peer = \<lparr>pe_fd = 0, pe_hbtime = 0, pe_ip = 0, pe_taskcount = 0, pe_load = 0, pe_diskfree = 0,
     pe_server_stat = 0, pe_close = False\<rparr>"

definition upd_peer :: "int \<Rightarrow> (pfs_fcs_peer \<Rightarrow> pfs_fcs_peer) \<Rightarrow> ns_state \<Rightarrow> ns_state" where
  "upd_peer fd f s = s\<lparr>ns_peer := (ns_peer s)(fd := f (ns_peer s fd))\<rparr>"

definition hash16 :: "string \<Rightarrow> nat" where
  "hash16 s = unat (r5hash s AND 0x0F)"

subsection \<open>The servers that are on line (pfs_sig_base.c)\<close>

definition find_ip_stat :: "uint32 \<Rightarrow> ns_state \<Rightarrow> int option" where
  "find_ip_stat ip s = List.find (\<lambda>fd. pe_ip (ns_peer s fd) = ip) (ns_online s (hash256 ip))"

definition pfs_max :: "uint32 \<Rightarrow> uint32 \<Rightarrow> uint32" where
  "pfs_max a b = (if a < b then b else a)"

definition pfs_min :: "uint32 \<Rightarrow> uint32 \<Rightarrow> uint32" where
  "pfs_min a b = (if a > b then b else a)"

text \<open>The loop over a domain's servers; it also counts those on line.\<close>

fun online_scan :: "ns_state \<Rightarrow> nat list \<Rightarrow> t_pfs_domain \<times> nat \<Rightarrow> t_pfs_domain \<times> nat" where
  "online_scan s [] dn = dn"
| "online_scan s (j # js) (d, online) =
     (case find_ip_stat (dm_ips d j) s of
        None \<Rightarrow> online_scan s js (d, online)
      | Some fd \<Rightarrow>
          let p = ns_peer s fd in
          online_scan s js
            (d\<lparr>dm_diskfree := pfs_max (dm_diskfree d) (pe_diskfree p),
               dm_load := pfs_min (dm_load d) (pe_load p),
               dm_taskcount := pfs_min (dm_taskcount d) (pe_taskcount p)\<rparr>, online + 1))"

definition check_more_half_online :: "ns_state \<Rightarrow> t_pfs_domain \<Rightarrow> int \<times> t_pfs_domain" where
  "check_more_half_online s d =
     (case online_scan s [0..<dm_ipcount d] (d, 0) of
        (d', online) \<Rightarrow> (if online * 2 \<ge> dm_ipcount d then 0 else -1, d'))"

definition sortdomain :: "nat \<Rightarrow> t_pfs_domain \<Rightarrow> t_pfs_domain \<Rightarrow> bool" where
  "sortdomain policy s1 s2 =
     (if policy = POLICY_LOAD then dm_load s1 > dm_load s2
      else if policy = POLICY_TASKCOUNT then dm_taskcount s1 > dm_taskcount s2
      else dm_diskfree s2 > dm_diskfree s1)"

text \<open>The choice of \<^verbatim>\<open>update_group_domain\<close>: \<open>best\<close> is \<^verbatim>\<open>ddomain\<close>, a pointer to a domain.\<close>

fun pick_domain :: "nat list \<Rightarrow> nat option \<Rightarrow> ns_state \<Rightarrow> nat option \<times> ns_state" where
  "pick_domain [] best s = (best, s)"
| "pick_domain (d # ds) best s =
     (case check_more_half_online s (tp_dom (ns_topo s) d) of (r, dm) \<Rightarrow>
        let s1 = s\<lparr>ns_topo := upd_dom d (\<lambda>_. dm) (ns_topo s)\<rparr> in
        if r \<noteq> 0 then pick_domain ds best s1
        else case best of
               None \<Rightarrow> pick_domain ds (Some d) s1
             | Some b \<Rightarrow>
                 if sortdomain (ns_policy s) (tp_dom (ns_topo s1) b) dm then pick_domain ds (Some d) s1
                 else pick_domain ds best s1)"

definition group_slot :: "string \<Rightarrow> ns_state \<Rightarrow> nat option" where
  "group_slot g s = List.find (\<lambda>i. ns_group_array s ! i = [] \<or> g = ns_group_array s ! i) [0..<MAX_GROUP]"

definition update_group_domain :: "t_pfs_group_list \<Rightarrow> ns_state \<Rightarrow> int \<times> ns_state" where
  "update_group_domain grp s =
     (case pick_domain (gl_dlist grp) None s of
        (None, s1) \<Rightarrow> (-1, s1)
      | (Some d, s1) \<Rightarrow>
          (0, case group_slot (gl_group grp) s1 of
                None \<Rightarrow> s1
              | Some i \<Rightarrow>
                  s1\<lparr>ns_group_array := (if ns_group_array s1 ! i = []
                       then (ns_group_array s1)[i := snprintf_s 128 (gl_group grp)]
                       else ns_group_array s1),
                     ns_bestdomain := (ns_bestdomain s1)(i := tp_dom (ns_topo s1) d)\<rparr>))"

fun update_groups :: "t_pfs_group_list list \<Rightarrow> bool \<Rightarrow> ns_state \<Rightarrow> bool \<times> ns_state" where
  "update_groups [] err s = (err, s)"
| "update_groups (g # gs) err s =
     (case update_group_domain g s of (r, s1) \<Rightarrow> update_groups gs (err \<or> r \<noteq> 0) s1)"

text \<open>\<open>lock\<close> is the result of locking the configuration mutex.\<close>

definition update_sort_policy :: "int \<Rightarrow> int \<Rightarrow> ns_state \<Rightarrow> ns_state" where
  "update_sort_policy lock now s =
     (if now - ns_last s < 600 then s
      else if get_cfg_lock lock \<noteq> 0 then s\<lparr>ns_stop := True\<rparr>
      else case update_groups (tp_grouplist (ns_topo s)) False (s\<lparr>ns_last := now\<rparr>) of
             (err, s1) \<Rightarrow> if err then s1\<lparr>ns_last := 0\<rparr> else s1)"

definition get_domain_by_group :: "string \<Rightarrow> ns_state \<Rightarrow> nat option" where
  "get_domain_by_group g s =
     (case group_slot g s of
        Some i \<Rightarrow> if ns_group_array s ! i = [] then None else Some i
      | None \<Rightarrow> None)"

subsection \<open>Renamed domains, storage selection and proxies\<close>

definition get_newname_by_oldname :: "string \<Rightarrow> ns_state \<Rightarrow> string option" where
  "get_newname_by_oldname old s =
     map_option snd (List.find (\<lambda>(o', _). o' = old) (ns_change s (hash16 old)))"

definition add_name_change :: "bool \<Rightarrow> string \<Rightarrow> string \<Rightarrow> ns_state \<Rightarrow> int \<times> ns_state" where
  "add_name_change malloc_ok old new s =
     (case get_newname_by_oldname old s of
        Some new2 \<Rightarrow> (if new2 = new then 0 else -1, s)
      | None \<Rightarrow>
          if \<not> malloc_ok then (-1, s)
          else (0, s\<lparr>ns_change := (ns_change s)(hash16 old :=
                   (snprintf_s 64 old, snprintf_s 64 new) # ns_change s (hash16 old))\<rparr>))"

text \<open>A line \<^verbatim>\<open>old:new\<close>, with the newline cut off.\<close>

definition chomp :: "string \<Rightarrow> string" where
  "chomp line = (case strrchr (CHR 0x0A) line of None \<Rightarrow> line | Some (a, _) \<Rightarrow> a)"

fun name_change_lines :: "bool \<Rightarrow> string list \<Rightarrow> ns_state \<Rightarrow> int \<times> ns_state" where
  "name_change_lines m [] s = (0, s)"
| "name_change_lines m (l # ls) s =
     (case strchr (CHR '':'') (chomp l) of
        None \<Rightarrow> (-1, s)
      | Some (old, new) \<Rightarrow>
          (case add_name_change m old new s of (r, s1) \<Rightarrow>
             if r \<noteq> 0 then (-1, s1) else name_change_lines m ls s1))"

definition do_init_name_change :: "bool \<Rightarrow> string list option \<Rightarrow> ns_state \<Rightarrow> int \<times> ns_state" where
  "do_init_name_change m file s = (case file of None \<Rightarrow> (-1, s) | Some ls \<Rightarrow> name_change_lines m ls s)"

definition get_type_by_name :: "string \<Rightarrow> ns_state \<Rightarrow> int" where
  "get_type_by_name name s =
     (case List.find (\<lambda>(d, _). d = name) (ns_select s (hash16 name)) of Some (_, t) \<Rightarrow> t | None \<Rightarrow> -1)"

definition add_storage_select :: "bool \<Rightarrow> string \<Rightarrow> int \<Rightarrow> ns_state \<Rightarrow> int \<times> ns_state" where
  "add_storage_select malloc_ok name type s =
     (let type1 = get_type_by_name name s in
      if type1 \<ge> 0 then (if type1 = type then 0 else -1, s)
      else if \<not> malloc_ok then (-1, s)
      else (0, s\<lparr>ns_select := (ns_select s)(hash16 name :=
               (snprintf_s 64 name, type) # ns_select s (hash16 name))\<rparr>))"

fun storage_select_lines :: "bool \<Rightarrow> string list \<Rightarrow> ns_state \<Rightarrow> int \<times> ns_state" where
  "storage_select_lines m [] s = (0, s)"
| "storage_select_lines m (l # ls) s =
     (case strchr (CHR '':'') (chomp l) of
        None \<Rightarrow> (-1, s)
      | Some (name, t) \<Rightarrow>
          (case add_storage_select m name (atoi t) s of (r, s1) \<Rightarrow>
             if r \<noteq> 0 then (-1, s1) else storage_select_lines m ls s1))"

definition do_init_storage_select :: "bool \<Rightarrow> string list option \<Rightarrow> ns_state \<Rightarrow> int \<times> ns_state" where
  "do_init_storage_select m file s = (case file of None \<Rightarrow> (-1, s) | Some ls \<Rightarrow> storage_select_lines m ls s)"

text \<open>
  \<open>ns_proxy\<close> are the places of \<^verbatim>\<open>proxy_ip\<close> and \<^verbatim>\<open>proxy_sip\<close> that were written; both have sixteen, and
  the loop does not check it: \<open>None\<close> is the write behind the end of the arrays.
\<close>

definition do_init_proxy :: "string list option \<Rightarrow> ns_state \<Rightarrow> (int \<times> ns_state) option" where
  "do_init_proxy file s =
     (case file of
        None \<Rightarrow> Some (-1, s)
      | Some ls \<Rightarrow>
          if length ls > 16 then None
          else Some (0, s\<lparr>ns_proxy := map (\<lambda>l. (str2ip (chomp l), snprintf_s 16 (chomp l))) ls\<rparr>))"

subsection \<open>Answering the clients (pfs_sig_sub.c)\<close>

definition on_line :: "ns_state \<Rightarrow> uint32 \<Rightarrow> bool" where
  "on_line s ip \<longleftrightarrow> find_ip_stat ip s \<noteq> None"

text \<open>The chosen address (empty for the result \<open>-1\<close>) and the domain with its advanced index.\<close>

definition get_valid_ip_4_up :: "ns_state \<Rightarrow> t_pfs_domain \<Rightarrow> string \<times> t_pfs_domain" where
  "get_valid_ip_4_up s d =
     (let type = get_type_by_name (dm_domain d) s;
          index = (if dm_index d \<ge> dm_ipcount d \<or> type = 1 then 0 else dm_index d);
          first = List.find (\<lambda>j. on_line s (dm_ips d j)) [0..<dm_ipcount d];
          sip1 = (case first of Some j \<Rightarrow> snprintf_s 16 (dm_sips d j) | None \<Rightarrow> []);
          j = (case first of Some j \<Rightarrow> j | None \<Rightarrow> dm_ipcount d);
          sip = (if type \<noteq> 1 \<and> j \<noteq> index \<and> on_line s (dm_ips d index)
                 then snprintf_s 16 (dm_sips d index) else sip1)
      in (sip, d\<lparr>dm_index := if type \<noteq> 1 then index + 1 else index\<rparr>))"

definition storage_reply :: "string \<Rightarrow> ns_state \<Rightarrow> string" where
  "storage_reply sip s =
     (if sip = [] then ''N not found valid storage!'' else sip @ '':'' @ dec (unat (ns_up_port s)))"

text \<open>
  The domain a client named, by its current name or by a name it used to have; \<^verbatim>\<open>get_domain\<close> copies
  the domain, and advances the index of the original.
\<close>

definition lookup_domain :: "string \<Rightarrow> ns_state \<Rightarrow> t_pfs_domain option \<times> ns_state" where
  "lookup_domain name s =
     (case get_domain name (ns_topo s) of
        (Some d, t) \<Rightarrow> (Some d, s\<lparr>ns_topo := t\<rparr>)
      | (None, _) \<Rightarrow>
          (case get_newname_by_oldname name s of
             None \<Rightarrow> (None, s)
           | Some new \<Rightarrow>
               (case get_domain new (ns_topo s) of
                  (Some d, t) \<Rightarrow> (Some d, s\<lparr>ns_topo := t\<rparr>)
                | (None, _) \<Rightarrow> (None, s))))"

text \<open>
  For a domain name the code keeps a pointer to a variable of an inner block and uses it after the block;
  the model gives the value the variable had.
\<close>

definition get_dstip_group :: "string \<Rightarrow> uint8 \<Rightarrow> ns_state \<Rightarrow> string \<times> ns_state" where
  "get_dstip_group grp type s =
     (let best = (\<lambda>i. case get_valid_ip_4_up s (ns_bestdomain s i) of
            (sip, d) \<Rightarrow> (storage_reply sip s, s\<lparr>ns_bestdomain := (ns_bestdomain s)(i := d)\<rparr>));
          err = ''ERROR group name '' @ grp
      in if grp = [] then best 0
         else if type = ADD_SET_GROUP then
           (case get_domain_by_group grp s of Some i \<Rightarrow> best i | None \<Rightarrow> (err, s))
         else
           (case lookup_domain grp s of
              (Some d, s1) \<Rightarrow> (storage_reply (fst (get_valid_ip_4_up s1 d)) s1, s1)
            | (None, s1) \<Rightarrow> (err, s1)))"

definition get_dstip_group_modi_del :: "string \<Rightarrow> ns_state \<Rightarrow> string \<times> ns_state" where
  "get_dstip_group_modi_del domain s =
     (if domain = [] then (''domain is NULL'', s)
      else
        case lookup_domain domain s of
          (Some d, s1) \<Rightarrow> (storage_reply (fst (get_valid_ip_4_up s1 d)) s1, s1)
        | (None, s1) \<Rightarrow> (''domain '' @ [CHR 0x27] @ domain @ [CHR 0x27] @ '' not found'', s1))"

definition queue_msg :: "int \<Rightarrow> bytes \<Rightarrow> ns_state \<Rightarrow> ns_state" where
  "queue_msg fd m s = s\<lparr>ns_send := (ns_send s)(fd := ns_send s fd @ m)\<rparr>"

definition want_out :: "int \<Rightarrow> ns_state \<Rightarrow> ns_state" where
  "want_out fd s = s\<lparr>ns_epollout := insert fd (ns_epollout s)\<rparr>"

definition text_msg :: "uint8 \<Rightarrow> uint8 \<Rightarrow> string \<Rightarrow> bytes" where
  "text_msg cmd status reply = create_sig_msg cmd status (bytes_of reply) (of_nat (length reply))"

definition active_send :: "int \<Rightarrow> int \<Rightarrow> t_pfs_sig_head \<Rightarrow> bytes \<Rightarrow> ns_state \<Rightarrow> ns_state" where
  "active_send now fd h b s =
     want_out fd (queue_msg fd (create_sig_msg (h_cmdid h) (h_status h) b (h_bodylen h))
       (upd_peer fd (\<lambda>p. p\<lparr>pe_hbtime := word_of_int now\<rparr>) s))"

text \<open>A client behind a proxy is answered with the proxy's address; the result says whether it was.\<close>

definition check_proxy_ip :: "int \<Rightarrow> uint32 \<Rightarrow> uint8 \<Rightarrow> uint8 \<Rightarrow> ns_state \<Rightarrow> int \<times> ns_state" where
  "check_proxy_ip fd ip cmdid status s =
     (case List.find (\<lambda>(p, _). p = ip) (takeWhile (\<lambda>(p, _). p \<noteq> 0) (ns_proxy s)) of
        None \<Rightarrow> (0, s)
      | Some (_, sip) \<Rightarrow>
          (-1, want_out fd (queue_msg fd
             (text_msg (if cmdid = UPLOAD_REQ then UPLOAD_RSP else MODI_DEL_RSP) status
               (sip @ '':'' @ dec (unat (ns_up_port s)))) s)))"

text \<open>The three counters of a \<^verbatim>\<open>LOADINFO_REQ\<close>, copied from the body in the machine's byte order.\<close>

definition u32_at :: "nat \<Rightarrow> bytes \<Rightarrow> uint32" where
  "u32_at i b = of_le32 (b ! i) (b ! (i + 1)) (b ! (i + 2)) (b ! (i + 3))"

definition ns_do_req :: "int \<Rightarrow> int \<Rightarrow> ns_state handler" where
  "ns_do_req now fd s h b =
     (case check_proxy_ip fd (pe_ip (ns_peer s fd)) (h_cmdid h) (h_status h) s of (pr, s0) \<Rightarrow>
        if pr \<noteq> 0 then (RECV_SEND, upd_peer fd (\<lambda>p. p\<lparr>pe_close := True\<rparr>) s0)
        else
          let s1 = upd_peer fd (\<lambda>p. p\<lparr>pe_hbtime := word_of_int now\<rparr>) s0;
              body = cstr (str_of b);
              answer = (\<lambda>cmd (reply, s2).
                (RECV_SEND, upd_peer fd (\<lambda>p. p\<lparr>pe_close := True\<rparr>)
                   (want_out fd (queue_msg fd (text_msg cmd (h_status h) reply) s2))))
          in if h_cmdid h = HEARTBEAT_REQ then
               let s2 = queue_msg fd (create_sig_msg HEARTBEAT_RSP (h_status h) [ns_self_stat s1] 1) s1 in
               (RECV_SEND,
                if h_bodylen h \<noteq> 1 then s2
                else upd_peer fd (\<lambda>p. p\<lparr>pe_server_stat := b ! 0\<rparr>) s2)
             else if h_cmdid h = UPLOAD_REQ then
               answer UPLOAD_RSP (get_dstip_group body (h_status h) s1)
             else if h_cmdid h = MODI_DEL_REQ then
               answer MODI_DEL_RSP
                 (if h_status h = ADD_QUERY_DIR then get_dstip_group body ADD_SET_GROUP s1
                  else get_dstip_group_modi_del body s1)
             else if h_cmdid h = LOADINFO_REQ then
               (RECV_ADD_EPOLLIN,
                if h_bodylen h \<noteq> 12 then s1
                else upd_peer fd (\<lambda>p. p\<lparr>pe_taskcount := u32_at 0 b, pe_load := u32_at 4 b,
                                       pe_diskfree := u32_at 8 b\<rparr>) s1)
             else (RECV_ADD_EPOLLIN, s1))"

subsection \<open>Connections (pfs_sig.c)\<close>

text \<open>
  \<^verbatim>\<open>accept\<close> returns a descriptor that is not in use, whose user pointer \<^verbatim>\<open>svc_finiconn\<close> has cleared.
\<close>

definition ns_svc_initconn :: "bool \<Rightarrow> int \<Rightarrow> uint32 \<Rightarrow> int \<Rightarrow> ns_state \<Rightarrow> int \<times> ns_state" where
  "ns_svc_initconn malloc_ok now ip fd s =
     (if fd \<notin> ns_user s \<and> \<not> malloc_ok then (RET_CLOSE_MALLOC, s)
      else
        (0, s\<lparr>ns_peer := (ns_peer s)(fd := zero_peer\<lparr>pe_hbtime := word_of_int now, pe_fd := fd, pe_ip := ip\<rparr>),
              ns_user := insert fd (ns_user s),
              ns_activelist := remove1 fd (ns_activelist s) @ [fd],
              ns_online := (ns_online s)(hash256 ip := fd # ns_online s (hash256 ip))\<rparr>))"

definition touch :: "int \<Rightarrow> int \<Rightarrow> ns_state \<Rightarrow> ns_state" where
  "touch now fd s = (upd_peer fd (\<lambda>p. p\<lparr>pe_hbtime := word_of_int now\<rparr>) s)
     \<lparr>ns_activelist := remove1 fd (ns_activelist s) @ [fd]\<rparr>"

definition ns_check_req :: "int \<Rightarrow> int \<Rightarrow> ns_state \<Rightarrow> bytes \<Rightarrow> int \<times> ns_state \<times> bytes" where
  "ns_check_req now fd s buf = check_req_with (ns_do_req now fd) s buf"

text \<open>\<open>buf\<close> are the bytes of the connection's receive buffer, and what is left of them.\<close>

definition ns_svc_recv :: "int \<Rightarrow> int \<Rightarrow> ns_state \<Rightarrow> bytes \<Rightarrow> int \<times> ns_state \<times> bytes" where
  "ns_svc_recv now fd s buf = recv_loop (ns_do_req now fd) RECV_ADD_EPOLLIN (touch now fd s) buf"

definition ns_svc_send :: "int \<Rightarrow> int \<Rightarrow> ns_state \<Rightarrow> int \<times> ns_state" where
  "ns_svc_send now fd s =
     (if pe_close (ns_peer s fd) then (SEND_CLOSE, s) else (SEND_ADD_EPOLLIN, touch now fd s))"

definition ns_svc_finiconn :: "int \<Rightarrow> ns_state \<Rightarrow> ns_state" where
  "ns_svc_finiconn fd s =
     (if fd \<notin> ns_user s then s
      else s\<lparr>ns_activelist := remove1 fd (ns_activelist s),
             ns_online := (\<lambda>i. remove1 fd (ns_online s i)),
             ns_user := ns_user s - {fd}, ns_peer := (ns_peer s)(fd := zero_peer)\<rparr>)"

text \<open>\<^verbatim>\<open>do_close\<close> of the event loop on an open connection.\<close>

definition ns_do_close :: "int \<Rightarrow> ns_state \<Rightarrow> ns_state" where
  "ns_do_close fd s = (let s1 = ns_svc_finiconn fd s in s1\<lparr>ns_closed := ns_closed s1 @ [fd]\<rparr>)"

definition ns_idle :: "int \<Rightarrow> ns_state \<Rightarrow> int \<Rightarrow> bool" where
  "ns_idle now s fd \<longleftrightarrow>
     (let t = now - uint (pe_hbtime (ns_peer s fd)) in
      \<not> t < uint (ns_timeout s) \<and> t > uint (ns_timeout s) * 10)"

definition ns_svc_timeout :: "int \<Rightarrow> int \<Rightarrow> ns_state \<Rightarrow> ns_state" where
  "ns_svc_timeout lock now s =
     update_sort_policy lock now
       (fold (\<lambda>fd st. if ns_idle now st fd then ns_do_close fd st else st) (ns_activelist s) s)"

text \<open>Start-up, after the log is open; the files are the values of three configuration keys.\<close>

definition ns_svc_init ::
  "bool \<Rightarrow> int \<Rightarrow> int \<Rightarrow> string list option option \<Rightarrow> string list option option \<Rightarrow> string list option option \<Rightarrow> ns_state \<Rightarrow> (int \<times> ns_state) option" where
  "ns_svc_init m lock now name_change_file storage_select_file proxy_file s0 =
     (let s = s0\<lparr>ns_activelist := [], ns_online := (\<lambda>_. []), ns_change := (\<lambda>_. []), ns_select := (\<lambda>_. [])\<rparr>;
          (r1, s1) = (case name_change_file of None \<Rightarrow> (0, s) | Some f \<Rightarrow> do_init_name_change m f s)
      in if r1 \<noteq> 0 then Some (-1, s1)
         else
           let (r2, s2) = (case storage_select_file of None \<Rightarrow> (0, s1) | Some f \<Rightarrow> do_init_storage_select m f s1)
           in if r2 \<noteq> 0 then Some (-1, s2)
              else
                let s3 = s2\<lparr>ns_proxy := []\<rparr> in
                case (case proxy_file of None \<Rightarrow> Some (0, s3) | Some f \<Rightarrow> do_init_proxy f s3) of
                  None \<Rightarrow> None
                | Some (r3, s4) \<Rightarrow>
                    if r3 \<noteq> 0 then Some (-1, s4)
                    else Some (0, (update_sort_policy lock now s4)\<lparr>ns_self_stat := ON_LINE\<rparr>))"

subsection \<open>The receive loop\<close>

lemma ns_do_req_result: "fst (ns_do_req now fd s h b) \<in> {RECV_SEND, RECV_ADD_EPOLLIN}"
  by (auto simp: ns_do_req_def Let_def split: prod.splits)

interpretation ns: framed_service "ns_do_req now fd" for now fd
proof
  fix s h b
  show "fst (ns_do_req now fd s h b) \<noteq> -1" and "fst (ns_do_req now fd s h b) \<noteq> RECV_CLOSE"
    using ns_do_req_result [of now fd s h b] by auto
qed

subsection \<open>The tables of connections\<close>

text \<open>The part of the state that the tables of connections are.\<close>

definition conns_of :: "ns_state \<Rightarrow> conns" where
  "conns_of s = \<lparr>cn_active = ns_activelist s, cn_user = ns_user s, cn_online = ns_online s,
     cn_ip = (\<lambda>fd. pe_ip (ns_peer s fd))\<rparr>"

definition ns_ok :: "ns_state \<Rightarrow> bool" where
  "ns_ok s \<longleftrightarrow> conns_ok (conns_of s)"

lemma conns_of_touch: "conns_of (touch now fd s) = conns_move fd (conns_of s)"
  by (auto simp: conns_of_def touch_def upd_peer_def conns_move_def)

lemma conns_of_initconn:
  "conns_of (snd (ns_svc_initconn m now ip fd s)) =
     (if fd \<notin> ns_user s \<and> \<not> m then conns_of s else conns_add fd ip (conns_of s))"
  by (auto simp: conns_of_def ns_svc_initconn_def conns_add_def)

lemma conns_of_close:
  "conns_of (ns_do_close fd s) = (if fd \<notin> ns_user s then conns_of s else conns_del fd (conns_of s))"
  by (auto simp: conns_of_def ns_do_close_def ns_svc_finiconn_def conns_del_def zero_peer_def Let_def)

lemma find_ip_stat_conns: "find_ip_stat ip s = conns_find ip (conns_of s)"
  by (simp add: find_ip_stat_def conns_find_def conns_of_def)

lemma conns_upd_peer [simp]:
  "(\<And>p. pe_ip (f p) = pe_ip p) \<Longrightarrow> conns_of (upd_peer fd f s) = conns_of s"
  by (auto simp: conns_of_def upd_peer_def fun_eq_iff)

lemma conns_queue_msg [simp]: "conns_of (queue_msg fd m s) = conns_of s"
  by (simp add: conns_of_def queue_msg_def)

lemma conns_want_out [simp]: "conns_of (want_out fd s) = conns_of s"
  by (simp add: conns_of_def want_out_def)

lemma conns_topo [simp]: "conns_of (s\<lparr>ns_topo := t\<rparr>) = conns_of s"
  by (simp add: conns_of_def)

lemma conns_bestdomain [simp]: "conns_of (s\<lparr>ns_bestdomain := t\<rparr>) = conns_of s"
  by (simp add: conns_of_def)

lemma conns_check_proxy_ip [simp]: "conns_of (snd (check_proxy_ip fd ip c st s)) = conns_of s"
  by (auto simp: check_proxy_ip_def split: option.splits)

lemma conns_lookup_domain: "conns_of (snd (lookup_domain n s)) = conns_of s"
  by (auto simp: lookup_domain_def split: prod.splits option.splits)

lemma conns_get_dstip_group [simp]: "conns_of (snd (get_dstip_group g ty s)) = conns_of s"
  using conns_lookup_domain [of g s]
  by (auto simp: get_dstip_group_def Let_def split: prod.splits option.splits)

lemma conns_get_dstip_group_modi_del [simp]: "conns_of (snd (get_dstip_group_modi_del g s)) = conns_of s"
  using conns_lookup_domain [of g s]
  by (auto simp: get_dstip_group_modi_del_def split: prod.splits option.splits)

lemma conns_ns_do_req [simp]: "conns_of (snd (ns_do_req now fd s h b)) = conns_of s"
proof -
  obtain pr s0 where p: "check_proxy_ip fd (pe_ip (ns_peer s fd)) (h_cmdid h) (h_status h) s = (pr, s0)"
    by fastforce
  then have s0: "conns_of s0 = conns_of s"
    using conns_check_proxy_ip [of fd "pe_ip (ns_peer s fd)" "h_cmdid h" "h_status h" s] by simp
  show ?thesis
    by (auto simp: ns_do_req_def p s0 Let_def split_beta)
qed

lemma conns_handle_all: "conns_of (snd (handle_all (ns_do_req now fd) ret s fs)) = conns_of s"
proof (induction fs arbitrary: ret s)
  case (Cons m fs)
  obtain h b where "m = (h, b)" by fastforce
  then show ?case
    using Cons.IH [of _ "snd (ns_do_req now fd s h b)"] by (simp add: split_beta)
qed simp

lemma conns_of_recv: "conns_of (fst (snd (ns_svc_recv now fd s buf))) = conns_move fd (conns_of s)"
  using conns_handle_all [of now fd RECV_ADD_EPOLLIN "touch now fd s" "frames buf"]
  by (simp add: ns_svc_recv_def ns.recv_loop_frames conns_of_touch)

lemma touch_ok [pfs_inv]: "ns_ok s \<Longrightarrow> fd \<in> ns_user s \<Longrightarrow> ns_ok (touch now fd s)"
  using conns_move_ok [of "conns_of s" fd] by (simp add: ns_ok_def conns_of_touch) (simp add: conns_of_def)

lemma conns_close_idle:
  "conns_step\<^sup>*\<^sup>* (conns_of s) (conns_of (fold (\<lambda>fd st. if ns_idle now st fd then ns_do_close fd st else st) fds s))"
proof (induction fds arbitrary: s)
  case (Cons fd fds)
  let ?s = "if ns_idle now s fd then ns_do_close fd s else s"
  have "conns_step\<^sup>*\<^sup>* (conns_of s) (conns_of ?s)"
    by (auto simp: conns_of_close intro: conns_step.Del)
  then show ?case using Cons [of ?s] by simp
qed simp

lemma conns_pick_domain: "conns_of (snd (pick_domain ds best s)) = conns_of s"
  by (induction ds best s rule: pick_domain.induct)
    (auto simp: Let_def split: prod.splits option.splits)

lemma conns_update_group_domain: "conns_of (snd (update_group_domain g s)) = conns_of s"
proof -
  obtain best s1 where p: "pick_domain (gl_dlist g) None s = (best, s1)" by fastforce
  then have "conns_of s1 = conns_of s" using conns_pick_domain [of "gl_dlist g" None s] by simp
  then show ?thesis
    by (auto simp: update_group_domain_def p conns_of_def split: option.splits)
qed

lemma conns_update_groups: "conns_of (snd (update_groups gs err s)) = conns_of s"
proof (induction gs arbitrary: err s)
  case (Cons g gs)
  then show ?case
    using conns_update_group_domain [of g s] by (simp add: split_beta)
qed simp

lemma conns_update_sort_policy: "conns_of (update_sort_policy lock now s) = conns_of s"
proof -
  obtain err s1 where u: "update_groups (tp_grouplist (ns_topo s)) False (s\<lparr>ns_last := now\<rparr>) = (err, s1)"
    by fastforce
  have "conns_of s1 = conns_of (s\<lparr>ns_last := now\<rparr>)"
    using conns_update_groups [of "tp_grouplist (ns_topo s)" False "s\<lparr>ns_last := now\<rparr>"] u by simp
  then have "conns_of s1 = conns_of s" and "conns_of (s1\<lparr>ns_last := 0\<rparr>) = conns_of s"
    and "conns_of (s\<lparr>ns_stop := True\<rparr>) = conns_of s"
    by (simp_all add: conns_of_def)
  then show ?thesis by (simp add: update_sort_policy_def u)
qed

lemma conns_of_timeout: "conns_step\<^sup>*\<^sup>* (conns_of s) (conns_of (ns_svc_timeout lock now s))"
  unfolding ns_svc_timeout_def conns_update_sort_policy by (rule conns_close_idle)

text \<open>What the event loop does to the plugin; \<open>now\<close>, \<open>lock\<close> and the data are the environment's.\<close>

inductive ns_step :: "ns_state \<Rightarrow> ns_state \<Rightarrow> bool" where
  Accept: "fd \<notin> ns_user s \<Longrightarrow> ns_step s (snd (ns_svc_initconn m now ip fd s))"
| Recv: "fd \<in> ns_user s \<Longrightarrow> ns_step s (fst (snd (ns_svc_recv now fd s buf)))"
| Send: "fd \<in> ns_user s \<Longrightarrow> ns_step s (snd (ns_svc_send now fd s))"
| Close: "ns_step s (ns_do_close fd s)"
| Timeout: "ns_step s (ns_svc_timeout lock now s)"

lemma ns_step_conns: "ns_step s s' \<Longrightarrow> conns_step\<^sup>*\<^sup>* (conns_of s) (conns_of s')"
proof (induction rule: ns_step.induct)
  case (Accept fd s m now ip)
  then show ?case
    by (auto simp: conns_of_initconn intro!: r_into_rtranclp conns_step.Add) (simp add: conns_of_def)
next
  case (Recv fd s now buf)
  then show ?case
    by (auto simp: conns_of_recv intro!: r_into_rtranclp conns_step.Move) (simp add: conns_of_def)
next
  case (Send fd s now)
  then show ?case
    by (auto simp: ns_svc_send_def conns_of_touch intro!: r_into_rtranclp conns_step.Move) (simp add: conns_of_def)
next
  case (Close s fd)
  show ?case by (auto simp: conns_of_close intro: conns_step.Del)
qed (rule conns_of_timeout)

interpretation ns_peers: peer_registry conns_of ns_step
  by unfold_locales (rule ns_step_conns)

definition ns_start :: "ns_state \<Rightarrow> bool" where
  "ns_start s \<longleftrightarrow> ns_activelist s = [] \<and> ns_user s = {} \<and> (\<forall>i. ns_online s i = [])"

subsection \<open>Choosing a domain\<close>

lemma on_line_peers:
  "ns_online s = ns_online s' \<Longrightarrow> (\<And>fd. pe_ip (ns_peer s fd) = pe_ip (ns_peer s' fd)) \<Longrightarrow> on_line s = on_line s'"
  by (simp add: on_line_def find_ip_stat_def fun_eq_iff)

lemma on_line_cong: "conns_of s = conns_of s' \<Longrightarrow> on_line s = on_line s'"
  by (auto simp: on_line_def find_ip_stat_conns fun_eq_iff)

definition scan_domain :: "ns_state \<Rightarrow> nat \<Rightarrow> t_pfs_domain" where
  "scan_domain s d = snd (check_more_half_online s (tp_dom (ns_topo s) d))"

definition half_online :: "ns_state \<Rightarrow> t_pfs_domain \<Rightarrow> bool" where
  "half_online s d \<longleftrightarrow>
     dm_ipcount d \<le> 2 * length (filter (\<lambda>j. on_line s (dm_ips d j)) [0..<dm_ipcount d])"

lemma online_scan_count:
  "snd (online_scan s js (d, n)) = n + length (filter (\<lambda>j. on_line s (dm_ips d j)) js)"
proof (induction js arbitrary: d n)
  case (Cons j js)
  then show ?case by (auto simp: on_line_def Let_def split: option.splits)
qed simp

lemma check_half_online: "fst (check_more_half_online s d) = 0 \<longleftrightarrow> half_online s d"
  using online_scan_count [of s "[0..<dm_ipcount d]" d 0]
  by (auto simp: check_more_half_online_def half_online_def split: prod.splits)

lemma online_scan_load_zero: "dm_load d = 0 \<Longrightarrow> dm_load (fst (online_scan s js (d, n))) = 0"
proof (induction js arbitrary: d n)
  case (Cons j js)
  then show ?case by (auto simp: Let_def pfs_min_def split: option.splits)
qed simp

lemma check_online_cong:
  "ns_online s = ns_online s' \<Longrightarrow> ns_peer s = ns_peer s' \<Longrightarrow>
   check_more_half_online s d = check_more_half_online s' d"
proof -
  assume a: "ns_online s = ns_online s'" "ns_peer s = ns_peer s'"
  have "online_scan s js dn = online_scan s' js dn" for js dn
  proof (induction js arbitrary: dn)
    case (Cons j js)
    then show ?case using a by (cases dn) (auto simp: find_ip_stat_def Let_def split: option.splits)
  qed simp
  then show ?thesis by (simp add: check_more_half_online_def)
qed

text \<open>The choice as a fold over the domains that qualify.\<close>

definition better_of :: "nat \<Rightarrow> (nat \<Rightarrow> t_pfs_domain) \<Rightarrow> nat \<Rightarrow> nat option \<Rightarrow> nat option" where
  "better_of policy val d best =
     (case best of
        None \<Rightarrow> Some d
      | Some b \<Rightarrow> if sortdomain policy (val b) (val d) then Some d else Some b)"

lemma fold_better_cong:
  "(\<And>d. d \<in> set ds \<union> set_option best \<Longrightarrow> v d = w d) \<Longrightarrow>
   fold (better_of pol v) ds best = fold (better_of pol w) ds best"
proof (induction ds arbitrary: best)
  case (Cons d ds)
  have "better_of pol v d best = better_of pol w d best"
    using Cons.prems by (auto simp: better_of_def split: option.splits)
  moreover have "set_option (better_of pol w d best) \<subseteq> insert d (set_option best)"
    by (auto simp: better_of_def split: option.splits)
  ultimately show ?case
    using Cons.IH [of "better_of pol w d best"] Cons.prems by auto
qed simp

lemma pick_domain_fold:
  assumes "distinct ds" and "set_option best \<inter> set ds = {}"
  shows "\<exists>t. snd (pick_domain ds best s) = s\<lparr>ns_topo := t\<rparr>
      \<and> tp_dom t = (\<lambda>d. if d \<in> set ds then scan_domain s d else tp_dom (ns_topo s) d)
      \<and> fst (pick_domain ds best s) =
          fold (better_of (ns_policy s) (tp_dom t)) (filter (\<lambda>d. half_online s (tp_dom (ns_topo s) d)) ds) best"
  using assms
proof (induction ds arbitrary: best s)
  case Nil
  then show ?case by (intro exI [of _ "ns_topo s"]) simp
next
  case (Cons d ds)
  obtain r dm where c: "check_more_half_online s (tp_dom (ns_topo s) d) = (r, dm)" by fastforce
  have dm: "scan_domain s d = dm" and q: "r = 0 \<longleftrightarrow> half_online s (tp_dom (ns_topo s) d)"
    using c check_half_online [of s "tp_dom (ns_topo s) d"] by (simp_all add: scan_domain_def)
  let ?s1 = "s\<lparr>ns_topo := upd_dom d (\<lambda>_. dm) (ns_topo s)\<rparr>"
  have dom1: "tp_dom (upd_dom d (\<lambda>_. dm) (ns_topo s)) = (tp_dom (ns_topo s))(d := dm)"
    by (simp add: upd_dom_def)
  have sc: "scan_domain ?s1 e = scan_domain s e" if "e \<noteq> d" for e
    using that check_online_cong [of ?s1 s] by (simp add: scan_domain_def dom1)
  have ho: "half_online ?s1 x = half_online s x" for x
    using on_line_cong [of ?s1 s] by (simp add: half_online_def)
  have d: "d \<notin> set ds" "distinct ds" using Cons.prems(1) by auto
  have key: "fst (pick_domain (d # ds) best s) = fst (pick_domain ds b' ?s1) \<and>
      snd (pick_domain (d # ds) best s) = snd (pick_domain ds b' ?s1)"
    if "b' = (if r = 0 then better_of (ns_policy s) (tp_dom (ns_topo ?s1)) d best else best)" for b'
    using that c dom1 by (auto simp: better_of_def Let_def split: option.splits)
  define b' where "b' = (if r = 0 then better_of (ns_policy s) (tp_dom (ns_topo ?s1)) d best else best)"
  have b's: "set_option b' \<subseteq> insert d (set_option best)"
    by (auto simp: b'_def better_of_def split: option.splits if_splits)
  then have disj: "set_option b' \<inter> set ds = {}" using Cons.prems d by auto
  obtain t where t: "snd (pick_domain ds b' ?s1) = ?s1\<lparr>ns_topo := t\<rparr>"
    "tp_dom t = (\<lambda>e. if e \<in> set ds then scan_domain ?s1 e else tp_dom (ns_topo ?s1) e)"
    "fst (pick_domain ds b' ?s1) =
      fold (better_of (ns_policy ?s1) (tp_dom t)) (filter (\<lambda>e. half_online ?s1 (tp_dom (ns_topo ?s1) e)) ds) b'"
    using Cons.IH [OF d(2) disj] by blast
  have dom: "tp_dom t = (\<lambda>e. if e \<in> set (d # ds) then scan_domain s e else tp_dom (ns_topo s) e)"
  proof
    fix e
    show "tp_dom t e = (if e \<in> set (d # ds) then scan_domain s e else tp_dom (ns_topo s) e)"
      using sc [of e] dm dom1 d(1) by (cases "e = d") (simp_all add: t(2))
  qed
  have fl: "filter (\<lambda>e. half_online ?s1 (tp_dom (ns_topo ?s1) e)) ds
      = filter (\<lambda>e. half_online s (tp_dom (ns_topo s) e)) ds"
    using d(1) ho dom1 by (intro filter_cong) auto
  have b'2: "b' = (if r = 0 then better_of (ns_policy s) (tp_dom t) d best else best)"
    using dom dom1 dm Cons.prems(2) by (auto simp: b'_def better_of_def split: option.splits)
  have "fst (pick_domain (d # ds) best s) =
      fold (better_of (ns_policy s) (tp_dom t)) (filter (\<lambda>e. half_online s (tp_dom (ns_topo s) e)) (d # ds)) best"
    using key [OF b'_def] t(3) fl b'2 q by simp
  then show ?case
    using key [OF b'_def] t(1) dom by (intro exI [of _ t]) simp
qed

lemma not_sortdomain:
  "\<not> sortdomain p b d \<longleftrightarrow>
     (if p = POLICY_LOAD then dm_load b \<le> dm_load d
      else if p = POLICY_TASKCOUNT then dm_taskcount b \<le> dm_taskcount d
      else dm_diskfree d \<le> dm_diskfree b)"
  by (auto simp: sortdomain_def)

lemma sortdomain_trans: "sortdomain p b d \<Longrightarrow> \<not> sortdomain p b e \<Longrightarrow> \<not> sortdomain p d e"
  by (auto simp: sortdomain_def split: if_splits)

lemma fold_better_best:
  "(case fold (better_of pol v) ds best of
      None \<Rightarrow> ds = [] \<and> best = None
    | Some b \<Rightarrow> b \<in> set ds \<union> set_option best \<and>
        (\<forall>d \<in> set ds \<union> set_option best. \<not> sortdomain pol (v b) (v d)))"
proof (induction ds arbitrary: best)
  case Nil
  then show ?case by (auto simp: sortdomain_def split: option.splits)
next
  case (Cons d ds)
  let ?b = "better_of pol v d best"
  have ne: "?b \<noteq> None" by (auto simp: better_of_def split: option.splits)
  have sub: "set_option ?b \<subseteq> insert d (set_option best)"
    by (auto simp: better_of_def split: option.splits)
  obtain b where b: "fold (better_of pol v) ds ?b = Some b" "b \<in> set ds \<union> set_option ?b"
    "\<forall>e \<in> set ds \<union> set_option ?b. \<not> sortdomain pol (v b) (v e)"
    using Cons.IH [of ?b] ne by (auto split: option.splits)
  have drop: "\<not> sortdomain pol (v b) (v e)" if "e \<in> insert d (set_option best)" for e
  proof (cases "e \<in> set_option ?b")
    case False
    obtain c where c: "?b = Some c" using ne by blast
    have "\<not> sortdomain pol (v c) (v e)"
      using False that c
      by (auto simp: better_of_def sortdomain_def split: option.splits if_splits)
    moreover have "\<not> sortdomain pol (v b) (v c)" using b(3) c by simp
    ultimately show ?thesis by (auto simp: sortdomain_def split: if_splits)
  qed (use b in auto)
  show ?case using b sub drop by auto
qed

lemma pick_domain_best:
  assumes "distinct ds"
  shows "case fst (pick_domain ds None s) of
      None \<Rightarrow> \<forall>d\<in>set ds. \<not> half_online s (tp_dom (ns_topo s) d)
    | Some b \<Rightarrow> b \<in> set ds \<and> half_online s (tp_dom (ns_topo s) b)
        \<and> tp_dom (ns_topo (snd (pick_domain ds None s))) b = scan_domain s b
        \<and> (\<forall>d\<in>set ds. half_online s (tp_dom (ns_topo s) d) \<longrightarrow>
             \<not> sortdomain (ns_policy s) (scan_domain s b) (scan_domain s d))"
proof -
  let ?q = "filter (\<lambda>d. half_online s (tp_dom (ns_topo s) d)) ds"
  obtain t where t: "snd (pick_domain ds None s) = s\<lparr>ns_topo := t\<rparr>"
    "tp_dom t = (\<lambda>d. if d \<in> set ds then scan_domain s d else tp_dom (ns_topo s) d)"
    "fst (pick_domain ds None s) = fold (better_of (ns_policy s) (tp_dom t)) ?q None"
    using pick_domain_fold [OF assms, of None s] by auto
  show ?thesis
    using fold_better_best [where pol = "ns_policy s" and v = "tp_dom t" and ds = ?q and best = None] t(1,3)
    by (auto simp: t(2) filter_empty_conv split: option.splits)
qed

lemma group_slot_bound: "group_slot g s = Some i \<Longrightarrow> i < MAX_GROUP"
  by (auto simp: group_slot_def find_Some_iff)

lemma group_slot_stored:
  assumes "group_slot g s = Some i" and "length (ns_group_array s) = MAX_GROUP" and "g \<noteq> []"
    and "ns_group_array s' = (if ns_group_array s ! i = [] then (ns_group_array s)[i := g] else ns_group_array s)"
  shows "get_domain_by_group g s' = Some i"
proof -
  let ?ga = "ns_group_array s'"
  have i: "i < MAX_GROUP" "ns_group_array s ! i = [] \<or> g = ns_group_array s ! i"
    "\<And>j. j < i \<Longrightarrow> ns_group_array s ! j \<noteq> [] \<and> g \<noteq> ns_group_array s ! j"
    using assms(1) by (auto simp: group_slot_def find_Some_iff)
  have at: "?ga ! i = g" "\<And>j. j < i \<Longrightarrow> ?ga ! j = ns_group_array s ! j"
    using i assms(2,4) by auto
  have "group_slot g s' = Some i"
    unfolding group_slot_def find_Some_iff
    using i at by (intro exI [of _ i]) auto
  then show ?thesis using at(1) assms(3) by (simp add: get_domain_by_group_def)
qed

lemma pick_domain_groups: "ns_group_array (snd (pick_domain ds best s)) = ns_group_array s"
  by (induction ds best s rule: pick_domain.induct)
    (auto simp: Let_def split: prod.splits option.splits)

subsection \<open>Choosing a server\<close>

lemma valid_ip_online:
  assumes "j < dm_ipcount d" and "on_line s (dm_ips d j)"
  shows "\<exists>k < dm_ipcount d. on_line s (dm_ips d k) \<and> fst (get_valid_ip_4_up s d) = snprintf_s 16 (dm_sips d k)"
proof -
  have "List.find (\<lambda>j. on_line s (dm_ips d j)) [0..<dm_ipcount d] \<noteq> None"
    using assms by (auto simp: find_None_iff)
  then obtain k where k: "List.find (\<lambda>j. on_line s (dm_ips d j)) [0..<dm_ipcount d] = Some k" by auto
  then have k': "k < dm_ipcount d" "on_line s (dm_ips d k)" by (auto simp: find_Some_iff)
  define m where "m = (if dm_index d \<ge> dm_ipcount d \<or> get_type_by_name (dm_domain d) s = 1 then 0 else dm_index d)"
  have m: "m < dm_ipcount d" using k' by (auto simp: m_def)
  have eq: "fst (get_valid_ip_4_up s d) = snprintf_s 16 (dm_sips d
      (if get_type_by_name (dm_domain d) s \<noteq> 1 \<and> k \<noteq> m \<and> on_line s (dm_ips d m) then m else k))"
    using k by (simp add: get_valid_ip_4_up_def Let_def m_def)
  show ?thesis
  proof (cases "get_type_by_name (dm_domain d) s \<noteq> 1 \<and> k \<noteq> m \<and> on_line s (dm_ips d m)")
    case True
    then have "on_line s (dm_ips d m)" by simp
    with m eq True show ?thesis by (intro exI [of _ m]) simp
  next
    case False
    with k' eq show ?thesis by (intro exI [of _ k]) auto
  qed
qed

lemma valid_ip_all_online:
  assumes "0 < dm_ipcount d" and "\<And>j. j < dm_ipcount d \<Longrightarrow> on_line s (dm_ips d j)"
    and "get_type_by_name (dm_domain d) s \<noteq> 1" and "dm_index d \<le> dm_ipcount d"
  shows "get_valid_ip_4_up s d =
    (snprintf_s 16 (dm_sips d (dm_index d mod dm_ipcount d)),
     d\<lparr>dm_index := dm_index d mod dm_ipcount d + 1\<rparr>)"
proof -
  have f: "List.find (\<lambda>j. on_line s (dm_ips d j)) [0..<dm_ipcount d] = Some 0"
    using assms(1,2) by (auto simp: find_Some_iff intro!: exI [of _ 0])
  have "dm_index d mod dm_ipcount d = (if dm_index d \<ge> dm_ipcount d then 0 else dm_index d)"
    using assms(1,4) by (cases "dm_index d = dm_ipcount d") auto
  moreover have "dm_index d mod dm_ipcount d < dm_ipcount d" using assms(1) by simp
  ultimately show ?thesis
    using f assms by (auto simp: get_valid_ip_4_up_def Let_def)
qed

text \<open>A number of clients in a row that ask for a server of a group, and what they are told.\<close>

fun upload_run :: "string \<Rightarrow> nat \<Rightarrow> ns_state \<Rightarrow> string list" where
  "upload_run g 0 s = []"
| "upload_run g (Suc n) s = (case get_dstip_group g ADD_SET_GROUP s of (r, s1) \<Rightarrow> r # upload_run g n s1)"

lemma upload_run_rotates:
  assumes "get_domain_by_group g s = Some i" and "g \<noteq> []" and "d = ns_bestdomain s i"
    and "0 < dm_ipcount d" and "dm_index d \<le> dm_ipcount d"
    and "\<And>j. j < dm_ipcount d \<Longrightarrow> on_line s (dm_ips d j) \<and> dm_sips d j \<noteq> [] \<and> length (dm_sips d j) < 16"
    and "get_type_by_name (dm_domain d) s \<noteq> 1"
  shows "upload_run g n s =
    map (\<lambda>k. dm_sips d ((dm_index d + k) mod dm_ipcount d) @ '':'' @ dec (unat (ns_up_port s))) [0..<n]"
  using assms
proof (induction n arbitrary: s d)
  case (Suc n)
  let ?m = "dm_index d mod dm_ipcount d"
  let ?d = "d\<lparr>dm_index := ?m + 1\<rparr>"
  let ?s = "s\<lparr>ns_bestdomain := (ns_bestdomain s)(i := ?d)\<rparr>"
  have m: "?m < dm_ipcount d" using Suc.prems(4) by simp
  have v: "get_valid_ip_4_up s d = (snprintf_s 16 (dm_sips d ?m), ?d)"
    using valid_ip_all_online [of d s] Suc.prems by blast
  have sip: "snprintf_s 16 (dm_sips d ?m) = dm_sips d ?m" "dm_sips d ?m \<noteq> []"
    using Suc.prems(6) [OF m] by (simp_all add: cstr_simps)
  have step: "get_dstip_group g ADD_SET_GROUP s =
      (dm_sips d ?m @ '':'' @ dec (unat (ns_up_port s)), ?s)"
    using Suc.prems(1,2,3) v sip by (simp add: get_dstip_group_def storage_reply_def)
  have ol: "on_line ?s = on_line s" by (rule on_line_cong) (simp add: conns_of_def)
  have gs: "get_domain_by_group g ?s = get_domain_by_group g s"
    "get_type_by_name x ?s = get_type_by_name x s" for x
    by (simp_all add: get_domain_by_group_def group_slot_def get_type_by_name_def split: option.splits)
  have e: "Suc (?m + k) mod dm_ipcount d = Suc (dm_index d + k) mod dm_ipcount d" for k
    using mod_add_left_eq [of "dm_index d" "dm_ipcount d" "Suc k"] by simp
  have "upload_run g n ?s = map (\<lambda>k. dm_sips ?d ((dm_index ?d + k) mod dm_ipcount ?d) @ '':'' @ dec (unat (ns_up_port ?s))) [0..<n]"
    using Suc.prems m ol gs by (intro Suc.IH) (auto intro!: Suc_leI)
  also have "\<dots> = map (\<lambda>k. dm_sips d ((dm_index d + Suc k) mod dm_ipcount d) @ '':'' @ dec (unat (ns_up_port s))) [0..<n]"
    by (simp add: e)
  finally have r: "upload_run g n ?s = \<dots>" .
  have "[0..<Suc n] = 0 # map Suc [0..<n]" by (metis map_Suc_upt upt_conv_Cons zero_less_Suc)
  then show ?case using r step by (simp add: comp_def)
qed simp

subsection \<open>A connection's stream\<close>

text \<open>The data of a connection as it arrives, each piece followed by a call of \<^verbatim>\<open>svc_recv\<close>.\<close>

fun ns_stream :: "int \<Rightarrow> int \<Rightarrow> ns_state \<Rightarrow> bytes \<Rightarrow> bytes list \<Rightarrow> ns_state \<times> bytes" where
  "ns_stream now fd s buf [] = (s, buf)"
| "ns_stream now fd s buf (d # ds) =
     (case ns_svc_recv now fd s (buf @ d) of (_, s', buf') \<Rightarrow> ns_stream now fd s' buf' ds)"

definition touched :: "int \<Rightarrow> int \<Rightarrow> ns_state \<Rightarrow> bool" where
  "touched now fd s \<longleftrightarrow> pe_hbtime (ns_peer s fd) = word_of_int now \<and>
     remove1 fd (ns_activelist s) @ [fd] = ns_activelist s"

lemma touch_touched: "touched now fd s \<Longrightarrow> touch now fd s = s"
proof -
  assume t: "touched now fd s"
  have "(ns_peer s fd)\<lparr>pe_hbtime := word_of_int now\<rparr> = ns_peer s fd"
    using t by (cases "ns_peer s fd") (simp add: touched_def)
  then have "upd_peer fd (\<lambda>p. p\<lparr>pe_hbtime := word_of_int now\<rparr>) s = s"
    unfolding upd_peer_def by (simp only: fun_upd_triv) simp
  then show ?thesis using t by (simp add: touch_def touched_def)
qed

lemma touched_touch: "ns_ok s \<Longrightarrow> touched now fd (touch now fd s)"
  by (simp add: touched_def touch_def upd_peer_def ns_ok_def conns_ok_def conns_of_def remove1_append)

lemma peers_lookup_domain: "ns_peer (snd (lookup_domain n s)) = ns_peer s"
  by (auto simp: lookup_domain_def split: prod.splits option.splits)

lemma peers_get_dstip_group [simp]: "ns_peer (snd (get_dstip_group g ty s)) = ns_peer s"
  using peers_lookup_domain [of g s]
  by (auto simp: get_dstip_group_def Let_def split: prod.splits option.splits)

lemma peers_get_dstip_group_modi_del [simp]: "ns_peer (snd (get_dstip_group_modi_del g s)) = ns_peer s"
  using peers_lookup_domain [of g s]
  by (auto simp: get_dstip_group_modi_del_def split: prod.splits option.splits)

lemma peers_check_proxy_ip: "ns_peer (snd (check_proxy_ip fd ip c st s)) = ns_peer s"
  by (auto simp: check_proxy_ip_def want_out_def queue_msg_def split: option.splits)

lemma hbtime_ns_do_req:
  assumes "pe_hbtime (ns_peer s fd) = word_of_int now"
  shows "pe_hbtime (ns_peer (snd (ns_do_req now fd s h b)) fd) = word_of_int now"
proof -
  obtain pr s0 where p: "check_proxy_ip fd (pe_ip (ns_peer s fd)) (h_cmdid h) (h_status h) s = (pr, s0)"
    by fastforce
  then have s0: "ns_peer s0 = ns_peer s"
    using peers_check_proxy_ip [of fd "pe_ip (ns_peer s fd)" "h_cmdid h" "h_status h" s] by simp
  show ?thesis
    using assms by (simp add: ns_do_req_def p s0 Let_def split_beta upd_peer_def want_out_def queue_msg_def)
qed

lemma touched_ns_do_req: "touched now fd s \<Longrightarrow> touched now fd (snd (ns_do_req now fd s h b))"
  using conns_ns_do_req [of now fd s h b] hbtime_ns_do_req [of s fd now h b]
  by (simp add: touched_def conns_of_def)

lemma touched_handle_all: "touched now fd s \<Longrightarrow> touched now fd (snd (handle_all (ns_do_req now fd) ret s ms))"
proof (induction ms arbitrary: ret s)
  case (Cons m ms)
  obtain h b where "m = (h, b)" by fastforce
  then show ?case
    using Cons.IH touched_ns_do_req [OF Cons.prems, of h b] by (simp add: split_beta)
qed simp

lemma ns_stream_pieces:
  "touched now fd s \<Longrightarrow> ns_stream now fd s buf ds = recv_pieces (ns_do_req now fd) s buf ds"
proof (induction ds arbitrary: s buf)
  case (Cons d ds)
  have "ns_svc_recv now fd s (buf @ d) = recv_loop (ns_do_req now fd) RECV_ADD_EPOLLIN s (buf @ d)"
    using touch_touched [OF Cons.prems] by (simp add: ns_svc_recv_def)
  moreover have "touched now fd (fst (snd (recv_loop (ns_do_req now fd) RECV_ADD_EPOLLIN s (buf @ d))))"
    using touched_handle_all [OF Cons.prems] by (simp add: ns.recv_loop_frames)
  ultimately show ?case using Cons.IH by (auto split: prod.splits)
qed simp

lemma ns_stream_first:
  assumes "ns_ok s" and "ds \<noteq> []"
  shows "ns_stream now fd s buf ds = recv_pieces (ns_do_req now fd) (touch now fd s) buf ds"
proof -
  obtain d ds' where ds: "ds = d # ds'" using assms(2) by (cases ds) auto
  have t: "touched now fd (touch now fd s)" by (rule touched_touch) (rule assms(1))
  have "ns_stream now fd s buf ds = ns_stream now fd (touch now fd s) buf ds"
    using touch_touched [OF t] by (simp add: ds ns_svc_recv_def)
  then show ?thesis using ns_stream_pieces [OF t] by simp
qed

subsection \<open>Properties\<close>

text \<open>
  C8: whatever connections are opened, closed and timed out and whatever they send, the name
  server's two tables stay exact: a storage server counts as on line if and only if a
  connection from its address is open, each open connection is on the time-out list once, and
  nothing else is.
\<close>

theorem online_iff_connected:
  assumes "ns_start s0" and "ns_step\<^sup>*\<^sup>* s0 s"
  shows "(on_line s ip \<longleftrightarrow> (\<exists>fd\<in>ns_user s. pe_ip (ns_peer s fd) = ip))
    \<and> distinct (ns_activelist s) \<and> set (ns_activelist s) = ns_user s"
proof -
  have "conns_empty (conns_of s0)" using assms(1) by (simp add: ns_start_def conns_empty_def conns_of_def)
  from ns_peers.found_iff_connected(1) [OF assms(2) this, of ip] ns_peers.found_iff_connected(2) [OF assms(2) this]
  show ?thesis by (simp add: on_line_def find_ip_stat_conns) (simp add: conns_of_def)
qed

definition example_ns :: ns_state where
  "example_ns = \<lparr>ns_topo = empty_topo, ns_peer = (\<lambda>_. zero_peer), ns_user = {}, ns_activelist = [],
     ns_online = (\<lambda>_. []), ns_change = (\<lambda>_. []), ns_select = (\<lambda>_. []), ns_proxy = [],
     ns_group_array = replicate MAX_GROUP [], ns_bestdomain = (\<lambda>_. zero_domain), ns_last = 0,
     ns_self_stat = 0, ns_stop = False, ns_policy = 0, ns_up_port = 5211, ns_timeout = 300,
     ns_send = (\<lambda>_. []), ns_epollout = {}, ns_closed = []\<rparr>"

theorem online_iff_connected_witness:
  "let s = snd (ns_svc_initconn True 1000 0x0100007F 5 example_ns) in
     on_line s 0x0100007F \<and> \<not> on_line s 0x0200007F"
proof -
  let ?s = "snd (ns_svc_initconn True 1000 0x0100007F 5 example_ns)"
  have start: "ns_start example_ns" by (simp add: ns_start_def example_ns_def)
  have "ns_step example_ns ?s" by (rule Accept) (simp add: example_ns_def)
  then have steps: "ns_step\<^sup>*\<^sup>* example_ns ?s" by simp
  show ?thesis
    using online_iff_connected [OF start steps, of "0x0100007F"]
      online_iff_connected [OF start steps, of "0x0200007F"]
    by (simp add: Let_def ns_svc_initconn_def example_ns_def)
qed

text \<open>
  C25: every ten minutes each group gets its best domain: a domain takes part only if at least
  half of its servers are on line, the chosen one is among these and none of them is better
  under the configured policy, it is the one later requests for the group find, and the update
  reports an error exactly when no domain takes part.
\<close>

theorem best_domain_chosen:
  assumes "distinct (gl_dlist g)" and "update_group_domain g s = (r, s')"
    and "length (ns_group_array s) = MAX_GROUP" and "group_slot (gl_group g) s = Some i"
    and "gl_group g \<noteq> []" and "length (gl_group g) < 128"
  shows "if \<exists>d\<in>set (gl_dlist g). half_online s (tp_dom (ns_topo s) d)
    then r = 0 \<and> get_domain_by_group (gl_group g) s' = Some i \<and>
      (\<exists>b\<in>set (gl_dlist g). half_online s (tp_dom (ns_topo s) b) \<and> ns_bestdomain s' i = scan_domain s b \<and>
         (\<forall>d\<in>set (gl_dlist g). half_online s (tp_dom (ns_topo s) d) \<longrightarrow>
            (if ns_policy s = POLICY_LOAD then dm_load (scan_domain s b) \<le> dm_load (scan_domain s d)
             else if ns_policy s = POLICY_TASKCOUNT then dm_taskcount (scan_domain s b) \<le> dm_taskcount (scan_domain s d)
             else dm_diskfree (scan_domain s d) \<le> dm_diskfree (scan_domain s b))))
    else r = -1"
proof (cases "fst (pick_domain (gl_dlist g) None s)")
  case None
  then show ?thesis
    using pick_domain_best [OF assms(1), of s] assms(2)
    by (auto simp: update_group_domain_def split: prod.splits)
next
  case (Some b)
  obtain s1 where p: "pick_domain (gl_dlist g) None s = (Some b, s1)"
    using Some by (metis prod.collapse)
  have b: "b \<in> set (gl_dlist g)" "half_online s (tp_dom (ns_topo s) b)"
    "tp_dom (ns_topo s1) b = scan_domain s b"
    "\<forall>d\<in>set (gl_dlist g). half_online s (tp_dom (ns_topo s) d) \<longrightarrow>
       \<not> sortdomain (ns_policy s) (scan_domain s b) (scan_domain s d)"
    using pick_domain_best [OF assms(1), of s] p by simp_all
  have ga: "ns_group_array s1 = ns_group_array s"
    using pick_domain_groups [of "gl_dlist g" None s] p by simp
  then have slot: "group_slot (gl_group g) s1 = Some i" using assms(4) by (simp add: group_slot_def)
  let ?ga = "if ns_group_array s1 ! i = [] then (ns_group_array s1)[i := gl_group g] else ns_group_array s1"
  have "snprintf_s 128 (gl_group g) = gl_group g" using assms(6) by (simp add: cstr_simps)
  then have res: "r = 0" "s' = s1\<lparr>ns_group_array := ?ga, ns_bestdomain := (ns_bestdomain s1)(i := scan_domain s b)\<rparr>"
    using assms(2) p slot b(3) by (auto simp: update_group_domain_def)
  have "get_domain_by_group (gl_group g) s' = Some i"
    by (rule group_slot_stored [OF slot]) (use ga assms(3,5) res(2) in simp_all)
  moreover have "ns_bestdomain s' i = scan_domain s b" using res(2) by simp
  ultimately show ?thesis using b res(1) unfolding not_sortdomain by auto
qed

definition example_group :: t_pfs_group_list where
  "example_group = \<lparr>gl_group = ''img'', gl_dlist = [1, 2]\<rparr>"

text \<open>Two domains of one server each; only the second one's is connected.\<close>

definition example_ns2 :: ns_state where
  "example_ns2 = snd (ns_svc_initconn True 1000 0x0200007F 5
     (example_ns\<lparr>ns_topo := empty_topo\<lparr>tp_dom :=
        (\<lambda>_. zero_domain)(1 := zero_domain\<lparr>dm_ipcount := 1, dm_ips := (\<lambda>_. 0x0100007F)\<rparr>,
                           2 := zero_domain\<lparr>dm_ipcount := 1, dm_ips := (\<lambda>_. 0x0200007F), dm_sips := (\<lambda>_. ''127.0.0.2'')\<rparr>)\<rparr>\<rparr>))"

lemma example_ns2_online:
  "\<not> half_online example_ns2 (tp_dom (ns_topo example_ns2) 1)"
  "half_online example_ns2 (tp_dom (ns_topo example_ns2) 2)"
  by (simp_all add: half_online_def on_line_def find_ip_stat_def example_ns2_def example_ns_def
      ns_svc_initconn_def hash256_def)

theorem best_domain_chosen_witness:
  "\<exists>r s'. update_group_domain example_group example_ns2 = (r, s') \<and> r = 0 \<and>
     get_domain_by_group ''img'' s' = Some 0"
proof -
  obtain r s' where u: "update_group_domain example_group example_ns2 = (r, s')" by fastforce
  have "group_slot ''img'' example_ns2 = Some 0"
    by (simp add: group_slot_def example_ns2_def ns_svc_initconn_def example_ns_def upt_conv_Cons)
  moreover have "length (ns_group_array example_ns2) = MAX_GROUP"
    by (simp add: example_ns2_def ns_svc_initconn_def example_ns_def)
  ultimately show ?thesis
    using best_domain_chosen [of example_group example_ns2 r s' 0] u example_ns2_online
    by (auto simp: example_group_def split: if_splits)
qed

text \<open>
  The policies that compare load or task count do not work.  A domain starts with load
  zero and every report is combined by minimum, so the load of every domain stays zero and under
  \<^verbatim>\<open>POLICY_LOAD\<close> the first domain with half of its servers on line is chosen, whatever loads
  are reported.
\<close>

theorem load_policy_blind:
  assumes "ns_policy s = POLICY_LOAD" and "distinct ds" and "\<forall>d\<in>set ds. dm_load (tp_dom (ns_topo s) d) = 0"
  shows "fst (pick_domain ds None s) = List.find (\<lambda>d. half_online s (tp_dom (ns_topo s) d)) ds
    \<and> (\<forall>d\<in>set ds. dm_load (tp_dom (ns_topo (snd (pick_domain ds None s))) d) = 0)"
proof -
  let ?q = "\<lambda>d. half_online s (tp_dom (ns_topo s) d)"
  obtain t where t: "snd (pick_domain ds None s) = s\<lparr>ns_topo := t\<rparr>"
    "tp_dom t = (\<lambda>d. if d \<in> set ds then scan_domain s d else tp_dom (ns_topo s) d)"
    "fst (pick_domain ds None s) = fold (better_of POLICY_LOAD (tp_dom t)) (filter ?q ds) None"
    using pick_domain_fold [OF assms(2), of None s] assms(1) by auto
  have z: "dm_load (tp_dom t d) = 0" if "d \<in> set ds" for d
    using that assms(3) online_scan_load_zero [of "tp_dom (ns_topo s) d" s]
    by (simp add: t(2) scan_domain_def check_more_half_online_def split: prod.splits)
      (metis fst_conv)
  have stay: "fold (better_of POLICY_LOAD (tp_dom t)) es (Some b) = Some b"
    if "b \<in> set ds" "set es \<subseteq> set ds" for es b
    using that z by (induction es) (auto simp: better_of_def sortdomain_def)
  have "fold (better_of POLICY_LOAD (tp_dom t)) (filter ?q es) None = List.find ?q es" if "set es \<subseteq> set ds" for es
    using that
  proof (induction es)
    case (Cons e es)
    have "set (filter ?q es) \<subseteq> set ds" using Cons.prems by auto
    then show ?case
      using Cons stay [of e "filter ?q es"] by (simp add: better_of_def [of _ _ e None])
  qed simp
  then show ?thesis using t z by simp
qed

theorem load_policy_blind_witness:
  "fst (pick_domain [1, 2] None (example_ns2\<lparr>ns_policy := POLICY_LOAD\<rparr>)) = Some 2"
proof -
  let ?s = "example_ns2\<lparr>ns_policy := POLICY_LOAD\<rparr>"
  have "half_online ?s = half_online example_ns2"
    using on_line_cong [of ?s example_ns2] by (simp add: half_online_def conns_of_def fun_eq_iff)
  then show ?thesis
    using load_policy_blind [of ?s "[1, 2]"] example_ns2_online
    by (simp add: example_ns2_def ns_svc_initconn_def example_ns_def zero_domain_def)
qed

text \<open>
  As long as all servers of a group's best domain are on line (and the domain is not
  configured to use the first server only), successive clients are sent to its servers in turn,
  starting at the domain's index.
\<close>

theorem uploads_rotate:
  assumes "get_domain_by_group g s = Some i" and "g \<noteq> []" and "d = ns_bestdomain s i"
    and "0 < dm_ipcount d" and "dm_index d \<le> dm_ipcount d"
    and "\<forall>j < dm_ipcount d. on_line s (dm_ips d j) \<and> dm_sips d j \<noteq> [] \<and> length (dm_sips d j) < 16"
    and "get_type_by_name (dm_domain d) s \<noteq> 1"
  shows "upload_run g n s =
    map (\<lambda>k. dm_sips d ((dm_index d + k) mod dm_ipcount d) @ '':'' @ dec (unat (ns_up_port s))) [0..<n]"
  using upload_run_rotates [OF assms(1-5) _ assms(7)] assms(6) by blast

theorem uploads_rotate_witness:
  "upload_run ''img'' 2 (example_ns2\<lparr>ns_group_array := ''img'' # replicate 63 [],
     ns_bestdomain := (\<lambda>_. tp_dom (ns_topo example_ns2) 2)\<rparr>) = [''127.0.0.2:5211'', ''127.0.0.2:5211'']"
proof -
  let ?d = "tp_dom (ns_topo example_ns2) 2"
  let ?s = "example_ns2\<lparr>ns_group_array := ''img'' # replicate 63 [], ns_bestdomain := (\<lambda>_. ?d)\<rparr>"
  have d: "dm_ipcount ?d = 1" "dm_index ?d = 0" "dm_sips ?d = (\<lambda>_. ''127.0.0.2'')" "dm_domain ?d = []"
    by (simp_all add: example_ns2_def ns_svc_initconn_def zero_domain_def)
  have g: "get_domain_by_group ''img'' ?s = Some 0"
    by (simp add: get_domain_by_group_def group_slot_def upt_conv_Cons)
  have "on_line ?s (dm_ips ?d 0)"
    by (simp add: on_line_def find_ip_stat_def example_ns2_def example_ns_def ns_svc_initconn_def hash256_def)
  moreover have "get_type_by_name [] ?s \<noteq> 1" "ns_up_port ?s = 5211"
    by (simp_all add: get_type_by_name_def example_ns2_def example_ns_def ns_svc_initconn_def)
  moreover have "[0..<2] = [0, 1 :: nat]" "dec 5211 = ''5211''" by code_simp+
  ultimately show ?thesis
    using uploads_rotate [OF g _ refl, of 2] d by (simp del: dec.simps)
qed

text \<open>
  C26: how the network cuts a connection's data into pieces makes no difference to the name
  server: after the last piece its whole state, the replies queued and the bytes still waiting
  for the rest of a message are the same.
\<close>

theorem nameserver_segmentation:
  assumes "ns_ok s" and "concat ds = concat es" and "ds \<noteq> []" and "es \<noteq> []"
  shows "ns_stream now fd s [] ds = ns_stream now fd s [] es"
  using ns_stream_first [OF assms(1,3)] ns_stream_first [OF assms(1,4)]
    ns.segmentation_independent [OF assms(2)] by simp

theorem nameserver_segmentation_witness:
  "ns_stream 1000 5 example_ns [] [[0, 1, 1], [0, 7, 0]] = ns_stream 1000 5 example_ns [] [[0], [1, 1, 0, 7], [0]]"
proof -
  have "ns_ok example_ns" by (simp add: ns_ok_def conns_ok_def conns_of_def example_ns_def)
  then show ?thesis using nameserver_segmentation [of example_ns "[[0, 1, 1], [0, 7, 0]]" "[[0], [1, 1, 0, 7], [0]]"] by simp
qed

lemma group_request_answered:
  assumes "NUL \<notin> set g" and "g \<noteq> []" and "length g < MAX_SIG_BODY"
    and "get_domain_by_group g s = Some i" and "d = ns_bestdomain s i"
    and "j < dm_ipcount d" and "on_line s (dm_ips d j)"
    and "\<forall>k < dm_ipcount d. dm_sips d k \<noteq> [] \<and> length (dm_sips d k) < 16"
    and "fst (check_proxy_ip fd (pe_ip (ns_peer s fd)) UPLOAD_REQ ADD_SET_GROUP s) = 0"
    and "ns_svc_recv now fd s (create_sig_msg UPLOAD_REQ ADD_SET_GROUP (bytes_of g) (of_nat (length g)))
           = (ret, s', buf)"
  shows "\<exists>k < dm_ipcount d. on_line s (dm_ips d k) \<and> buf = []
    \<and> ns_send s' = (ns_send s)(fd := ns_send s fd @
        text_msg UPLOAD_RSP ADD_SET_GROUP (dm_sips d k @ '':'' @ dec (unat (ns_up_port s))))
    \<and> fd \<in> ns_epollout s' \<and> fst (ns_svc_send now fd s') = SEND_CLOSE"
proof -
  let ?h = "\<lparr>h_bodylen = of_nat (length g), h_cmdid = UPLOAD_REQ, h_status = ADD_SET_GROUP\<rparr>"
  let ?m = "create_sig_msg UPLOAD_REQ ADD_SET_GROUP (bytes_of g) (of_nat (length g))"
  let ?s0 = "touch now fd s"
  let ?s1 = "upd_peer fd (\<lambda>p. p\<lparr>pe_hbtime := word_of_int now\<rparr>) ?s0"
  have n: "unat (of_nat (length g) :: uint16) = length g"
    using assms(3) by (simp add: unat_of_nat take_bit_nat_eq_self)
  have fr: "frames ?m = [(?h, bytes_of g)]"
    using frames_create [of "of_nat (length g)" "bytes_of g" UPLOAD_REQ ADD_SET_GROUP "[]"] n
    by (simp add: frames.simps [of "[]"])
  have rs: "rest ?m = []"
    using length_create_sig_msg [of "of_nat (length g)" "bytes_of g" UPLOAD_REQ ADD_SET_GROUP] n
      head_of_create [of UPLOAD_REQ ADD_SET_GROUP "bytes_of g" "of_nat (length g)" "[]"]
    by (simp add: rest.simps [of ?m] rest.simps [of "[]"])
  have s': "s' = snd (ns_do_req now fd ?s0 ?h (bytes_of g))" "buf = []"
    using assms(10) fr rs by (auto simp: ns_svc_recv_def ns.recv_loop_frames split: prod.splits)
  have ol: "on_line ?s1 = on_line s"
    by (rule on_line_peers) (simp_all add: touch_def upd_peer_def)
  have pr: "check_proxy_ip fd (pe_ip (ns_peer ?s0 fd)) UPLOAD_REQ ADD_SET_GROUP ?s0 = (0, ?s0)"
    using assms(9) by (auto simp: check_proxy_ip_def touch_def upd_peer_def split: option.splits)
  have gd: "get_domain_by_group g ?s1 = Some i" "ns_bestdomain ?s1 i = d" "ns_up_port ?s1 = ns_up_port s"
    using assms(4,5) by (simp_all add: get_domain_by_group_def group_slot_def touch_def upd_peer_def cong: option.case_cong)
  obtain k where k: "k < dm_ipcount d" "on_line ?s1 (dm_ips d k)"
    "fst (get_valid_ip_4_up ?s1 d) = snprintf_s 16 (dm_sips d k)"
    using valid_ip_online [of j d ?s1] assms(6,7) ol by auto
  have sip: "snprintf_s 16 (dm_sips d k) = dm_sips d k" "dm_sips d k \<noteq> []"
    using assms(8) k(1) by (auto simp: cstr_simps)
  have reply: "get_dstip_group g ADD_SET_GROUP ?s1 =
      (dm_sips d k @ '':'' @ dec (unat (ns_up_port s)),
       ?s1\<lparr>ns_bestdomain := (ns_bestdomain ?s1)(i := snd (get_valid_ip_4_up ?s1 d))\<rparr>)"
    using assms(2) gd k(3) sip by (simp add: get_dstip_group_def storage_reply_def split_beta)
  have body: "cstr g = g" using assms(1) by (simp add: cstr_simps)
  have "ns_do_req now fd ?s0 ?h (bytes_of g) = (RECV_SEND, upd_peer fd (\<lambda>p. p\<lparr>pe_close := True\<rparr>)
      (want_out fd (queue_msg fd (text_msg UPLOAD_RSP ADD_SET_GROUP (dm_sips d k @ '':'' @ dec (unat (ns_up_port s))))
        (?s1\<lparr>ns_bestdomain := (ns_bestdomain ?s1)(i := snd (get_valid_ip_4_up ?s1 d))\<rparr>))))"
    by (simp add: ns_do_req_def pr body reply)
  then show ?thesis
    using k(1,2) ol s'
    by (intro exI [of _ k]) (simp add: upd_peer_def want_out_def queue_msg_def touch_def ns_svc_send_def)
qed

text \<open>
  C4: a client that asks for a server of a known group is answered: when at least one server
  of the group's best domain is on line, the one message \<^verbatim>\<open>address:port\<close> of an on-line server of that
  domain is queued for this client and for no other, output is requested, and once it is out the
  connection is closed.
\<close>

theorem upload_answered:
  assumes "NUL \<notin> set g" and "g \<noteq> []" and "length g < MAX_SIG_BODY"
    and "get_domain_by_group g s = Some i" and "d = ns_bestdomain s i"
    and "j < dm_ipcount d" and "on_line s (dm_ips d j)"
    and "\<forall>k < dm_ipcount d. dm_sips d k \<noteq> [] \<and> length (dm_sips d k) < 16"
    and "fst (check_proxy_ip fd (pe_ip (ns_peer s fd)) UPLOAD_REQ ADD_SET_GROUP s) = 0"
    and "ns_svc_recv now fd s (create_sig_msg UPLOAD_REQ ADD_SET_GROUP (bytes_of g) (of_nat (length g)))
           = (ret, s', buf)"
  shows "\<exists>k < dm_ipcount d. on_line s (dm_ips d k) \<and> buf = []
    \<and> ns_send s' = (ns_send s)(fd := ns_send s fd @
        text_msg UPLOAD_RSP ADD_SET_GROUP (dm_sips d k @ '':'' @ dec (unat (ns_up_port s))))
    \<and> fd \<in> ns_epollout s' \<and> fst (ns_svc_send now fd s') = SEND_CLOSE"
  using group_request_answered [OF assms] .

lemma text_msg_length: "length r < MAX_SIG_BODY \<Longrightarrow> length (text_msg c st r) = length r + 4"
  using length_create_sig_msg [of "of_nat (length r)" "bytes_of r" c st]
  by (simp add: text_msg_def unat_of_nat take_bit_nat_eq_self)

text \<open>The example's second domain as the best domain of group \<^verbatim>\<open>img\<close>.\<close>

definition example_ns3 :: ns_state where
  "example_ns3 = example_ns2\<lparr>ns_group_array := ''img'' # replicate 63 [],
     ns_bestdomain := (\<lambda>_. tp_dom (ns_topo example_ns2) 2)\<rparr>"

theorem upload_answered_witness:
  "\<exists>ret s' buf. ns_svc_recv 2000 9 example_ns3 (create_sig_msg UPLOAD_REQ ADD_SET_GROUP (bytes_of ''img'') 3)
       = (ret, s', buf)
     \<and> ns_send s' 9 = text_msg UPLOAD_RSP ADD_SET_GROUP ''127.0.0.2:5211'' \<and> 9 \<in> ns_epollout s'"
proof -
  let ?s = example_ns3
  let ?d = "ns_bestdomain ?s 0"
  have d: "dm_ipcount ?d = 1" "dm_sips ?d = (\<lambda>_. ''127.0.0.2'')"
    by (simp_all add: example_ns3_def example_ns2_def ns_svc_initconn_def)
  have g: "get_domain_by_group ''img'' ?s = Some 0"
    by (simp add: get_domain_by_group_def group_slot_def upt_conv_Cons example_ns3_def)
  have o: "on_line ?s (dm_ips ?d 0)" and p: "ns_up_port ?s = 5211" and q: "ns_send ?s 9 = []" and x: "ns_proxy ?s = []"
    by (simp_all add: on_line_def find_ip_stat_def example_ns3_def example_ns2_def example_ns_def
        ns_svc_initconn_def hash256_def)
  have px: "fst (check_proxy_ip 9 (pe_ip (ns_peer ?s 9)) UPLOAD_REQ ADD_SET_GROUP ?s) = 0"
    by (simp add: check_proxy_ip_def x)
  obtain ret s' buf where r: "ns_svc_recv 2000 9 ?s (create_sig_msg UPLOAD_REQ ADD_SET_GROUP
      (bytes_of ''img'') (of_nat (length ''img''))) = (ret, s', buf)"
    by (metis prod_cases3)
  have n: "NUL \<notin> set ''img''" "''img'' \<noteq> []" "length ''img'' < MAX_SIG_BODY" "0 < dm_ipcount ?d"
    "\<forall>k < dm_ipcount ?d. dm_sips ?d k \<noteq> [] \<and> length (dm_sips ?d k) < 16"
    by (simp_all add: NUL_def d)
  obtain k where "ns_send s' = (ns_send ?s)(9 := ns_send ?s 9 @
        text_msg UPLOAD_RSP ADD_SET_GROUP (dm_sips ?d k @ '':'' @ dec (unat (ns_up_port ?s))))" "9 \<in> ns_epollout s'"
    using upload_answered [OF n(1-3) g refl n(4) o n(5) px r] by blast
  moreover have "dec (unat (5211 :: uint16)) = ''5211''" by code_simp
  ultimately have "ns_send s' 9 = text_msg UPLOAD_RSP ADD_SET_GROUP ''127.0.0.2:5211''" "9 \<in> ns_epollout s'"
    unfolding p q d(2) by simp_all
  moreover have "of_nat (length ''img'') = (3 :: uint16)" by simp
  ultimately show ?thesis using r by metis
qed

text \<open>
  The reply to a request for an unknown group repeats the group's name, which the client
  chooses, and \<^verbatim>\<open>create_sig_msg\<close> copies it into \<^verbatim>\<open>obuf\<close>, an array of 2048 bytes: a name of more than 2027
  characters makes the message longer than the array.
\<close>

theorem unknown_group_reply:
  assumes "g \<noteq> []" and "get_domain_by_group g s = None" and "length g \<le> 65000"
  shows "fst (get_dstip_group g ADD_SET_GROUP s) = ''ERROR group name '' @ g
    \<and> length (text_msg UPLOAD_RSP ADD_SET_GROUP (fst (get_dstip_group g ADD_SET_GROUP s))) = length g + 21
    \<and> (length (text_msg UPLOAD_RSP ADD_SET_GROUP (fst (get_dstip_group g ADD_SET_GROUP s))) > 2048
        \<longleftrightarrow> length g > 2027)"
proof -
  have r: "fst (get_dstip_group g ADD_SET_GROUP s) = ''ERROR group name '' @ g"
    using assms(1,2) by (simp add: get_dstip_group_def Let_def)
  have "length (text_msg UPLOAD_RSP ADD_SET_GROUP (''ERROR group name '' @ g)) = length g + 21"
    using text_msg_length [of "''ERROR group name '' @ g"] assms(3) by simp
  then show ?thesis unfolding r by (intro conjI refl) (assumption, linarith)
qed

theorem unknown_group_reply_witness:
  "length (text_msg UPLOAD_RSP ADD_SET_GROUP (fst (get_dstip_group (replicate 3000 (CHR ''a'')) ADD_SET_GROUP example_ns))) = 3021"
proof -
  have "get_domain_by_group (replicate 3000 (CHR ''a'')) example_ns = None"
    by (simp add: get_domain_by_group_def group_slot_def example_ns_def upt_conv_Cons)
  then have "length (text_msg UPLOAD_RSP ADD_SET_GROUP (fst (get_dstip_group (replicate 3000 (CHR ''a'')) ADD_SET_GROUP example_ns)))
      = length (replicate 3000 (CHR ''a'')) + 21"
    by (intro conjunct1 [OF conjunct2 [OF unknown_group_reply]]) simp_all
  also have "\<dots> = 3021" by simp
  finally show ?thesis .
qed

end
