(* ===== verification/Pfs_Poss.thy ===== *)
theory Pfs_Poss
  imports Pfs_Codec Pfs_Protocol
begin

section \<open>The operation server (lib/pro_poss.c, network/POSS)\<close>

text \<open>
  The operation server (POSS) collects status lines and log data from all servers and hands commands of
  the operators on to them.  Its messages have a head of three words in network order; a
  \<^verbatim>\<open>REQ_SUBMIT\<close> is followed by data that is written to a file as it arrives, in the states
  \<^verbatim>\<open>PREPARE_SYNCFILE\<close> and \<^verbatim>\<open>SYNCFILEING\<close> of the connection.  Connections are known by their descriptors,
  files by their names (\<open>po_file\<close> gives the contents), the receive buffer is an argument and a result.
  The clock, the printed time, the results of \<^verbatim>\<open>open\<close> and \<^verbatim>\<open>write\<close> and what lies behind the received
  data in memory are the environment's.
\<close>

subsection \<open>Messages (pro_poss.c)\<close>

abbreviation HEADSIZE :: nat where "HEADSIZE \<equiv> 12"
abbreviation REQ_AUTH :: uint32 where "REQ_AUTH \<equiv> 0x00000001"
abbreviation REQ_SUBMIT :: uint32 where "REQ_SUBMIT \<equiv> 0x00000002"
abbreviation REQ_HEARTBEAT :: uint32 where "REQ_HEARTBEAT \<equiv> 0x00000005"
abbreviation REQ_PFS_CMD :: uint32 where "REQ_PFS_CMD \<equiv> 0x00000008"
abbreviation RSP_PFS_CMD :: uint32 where "RSP_PFS_CMD \<equiv> 0x80000008"
abbreviation REQ_STOPPFS :: uint32 where "REQ_STOPPFS \<equiv> 0x00000009"
abbreviation E_NOT_SUFFIC :: int where "E_NOT_SUFFIC \<equiv> 1"

record t_head_info =
  ph_totallen :: uint32
  ph_cmdid :: uint32
  ph_seq :: uint32

text \<open>The static counter of \<^verbatim>\<open>getseq\<close>: the value returned and the next one.\<close>

definition getseq :: "uint32 \<Rightarrow> uint32 \<times> uint32" where
  "getseq seq = (seq, seq + 1)"

definition create_poss_head :: "uint32 \<Rightarrow> nat \<Rightarrow> uint32 \<Rightarrow> bytes \<times> uint32" where
  "create_poss_head cmdid datalen seq0 =
     (let (seq, seq1) = getseq seq0; totallen = of_nat HEADSIZE + of_nat datalen in
      (be32 totallen @ be32 cmdid @ be32 seq, seq1))"

definition create_msg :: "uint32 \<Rightarrow> bytes \<Rightarrow> uint32 \<Rightarrow> bytes \<times> uint32" where
  "create_msg cmdid inbuf seq0 =
     (let (seq, seq1) = getseq seq0; totallen = of_nat HEADSIZE + of_nat (length inbuf);
          p = be32 totallen @ be32 cmdid @ be32 seq
      in if length inbuf = 0 then (p, seq1) else (p @ inbuf, seq1))"

fun poss_head_of :: "bytes \<Rightarrow> t_head_info" where
  "poss_head_of (a0 # a1 # a2 # a3 # b0 # b1 # b2 # b3 # c0 # c1 # c2 # c3 # _) =
     \<lparr>ph_totallen = of_be32 a0 a1 a2 a3, ph_cmdid = of_be32 b0 b1 b2 b3, ph_seq = of_be32 c0 c1 c2 c3\<rparr>"
| "poss_head_of _ = \<lparr>ph_totallen = 0, ph_cmdid = 0, ph_seq = 0\<rparr>"

definition parse_msg :: "bytes \<Rightarrow> int \<times> t_head_info" where
  "parse_msg inbuf =
     (if length inbuf < HEADSIZE then (E_NOT_SUFFIC, poss_head_of []) else (0, poss_head_of inbuf))"

subsection \<open>State\<close>

abbreviation S_LOGOUT :: nat where "S_LOGOUT \<equiv> 0"
abbreviation S_CONNECTED :: nat where "S_CONNECTED \<equiv> 1"
abbreviation S_IDLE :: nat where "S_IDLE \<equiv> 5"
abbreviation S_PREPARE_SYNCFILE :: nat where "S_PREPARE_SYNCFILE \<equiv> 8"
abbreviation S_SYNCFILEING :: nat where "S_SYNCFILEING \<equiv> 9"
abbreviation STAT_MAX :: nat where "STAT_MAX \<equiv> 5"

record t_poss_data_info =
  pd_recvlen :: int
  pd_datalen :: int
  pd_opentime :: int
  pd_outfile :: string

record pfs_poss_peer =
  pp_ip :: string
  pp_cfgip :: uint32
  pp_con_ip :: uint32
  pp_fd :: int
  pp_local_in_fd :: int
  pp_hbtime :: uint32
  pp_datainfo :: t_poss_data_info
  pp_sock_stat :: nat
  pp_server_stat :: uint8
  pp_role :: nat

record poss_state =
  po_peer :: "int \<Rightarrow> pfs_poss_peer"
  po_user :: "int set"
  po_activelist :: "int list"
  po_online :: "nat \<Rightarrow> int list"
  po_cfg :: "nat \<Rightarrow> int list"
  po_stat_fd :: int
  po_stat_file :: string
  po_stat_last :: int
  po_file :: "string \<Rightarrow> bytes"
  po_send :: "int \<Rightarrow> bytes"
  po_epollout :: "int set"
  po_closed :: "int list"
  po_seq :: uint32

record poss_env =
  en_now :: int
  en_day :: string
  en_open :: "string \<Rightarrow> int"
  en_write :: "nat \<Rightarrow> int"
  en_behind :: bytes
  en_path :: string
  en_poss_interval :: int
  en_stat_interval :: int
  en_timeout :: int
  en_rename :: bool

definition zero_poss_peer :: pfs_poss_peer where
  "zero_poss_peer = \<lparr>pp_ip = [], pp_cfgip = 0, pp_con_ip = 0, pp_fd = 0, pp_local_in_fd = 0, pp_hbtime = 0,
     pp_datainfo = \<lparr>pd_recvlen = 0, pd_datalen = 0, pd_opentime = 0, pd_outfile = []\<rparr>,
     pp_sock_stat = S_LOGOUT, pp_server_stat = 0, pp_role = 0\<rparr>"

definition upd_poss :: "int \<Rightarrow> (pfs_poss_peer \<Rightarrow> pfs_poss_peer) \<Rightarrow> poss_state \<Rightarrow> poss_state" where
  "upd_poss fd f s = s\<lparr>po_peer := (po_peer s)(fd := f (po_peer s fd))\<rparr>"

definition upd_data :: "int \<Rightarrow> (t_poss_data_info \<Rightarrow> t_poss_data_info) \<Rightarrow> poss_state \<Rightarrow> poss_state" where
  "upd_data fd f s = upd_poss fd (\<lambda>p. p\<lparr>pp_datainfo := f (pp_datainfo p)\<rparr>) s"

text \<open>The last component of a path.\<close>

definition basename :: "string \<Rightarrow> string" where
  "basename p = (case strrchr (CHR ''/'') p of None \<Rightarrow> p | Some (_, b) \<Rightarrow> b)"

definition append_file :: "string \<Rightarrow> bytes \<Rightarrow> poss_state \<Rightarrow> poss_state" where
  "append_file f b s = s\<lparr>po_file := (po_file s)(f := po_file s f @ b)\<rparr>"

text \<open>\<^verbatim>\<open>rename\<close> replaces the target; when it fails nothing but a log line happens.\<close>

definition rename_file :: "bool \<Rightarrow> string \<Rightarrow> string \<Rightarrow> poss_state \<Rightarrow> poss_state" where
  "rename_file ok a b s = (if ok then s\<lparr>po_file := (po_file s)(a := [], b := po_file s a)\<rparr> else s)"

definition PATH_INDIR :: string where "PATH_INDIR = ''indir''"
definition PATH_OUTDIR :: string where "PATH_OUTDIR = ''outdir''"
definition PATH_WKDIR :: string where "PATH_WKDIR = ''workdir''"
definition PATH_BKDIR :: string where "PATH_BKDIR = ''bkdir''"

definition iprole :: "string list" where
  "iprole = [''unkown'', ''storage'', ''nameserver'', ''poss_master'', ''self_ip'']"

definition s_server_stat :: "string list" where
  "s_server_stat = [''UNKOWN_STAT'', ''WAIT_SYNC'', ''SYNCING'', ''ON_LINE'', ''OFFLINE'']"

definition out_name :: "poss_env \<Rightarrow> string \<Rightarrow> string" where
  "out_name env f = snprintf_s 256 (en_path env @ ''/'' @ PATH_OUTDIR @ ''/'' @ basename f)"

subsection \<open>The status file\<close>

definition check_stat_file :: "poss_env \<Rightarrow> poss_state \<Rightarrow> int \<times> poss_state" where
  "check_stat_file env s0 =
     (if po_stat_fd s0 \<ge> 0 \<and> \<not> en_now env - po_stat_last s0 \<ge> en_stat_interval env then (0, s0)
      else
        let s1 = (if po_stat_fd s0 \<ge> 0
                  then rename_file (en_rename env) (po_stat_file s0) (out_name env (po_stat_file s0))
                         (s0\<lparr>po_stat_fd := -1, po_closed := po_closed s0 @ [po_stat_fd s0]\<rparr>)
                  else s0);
            file = snprintf_s 256 (en_path env @ ''/'' @ PATH_WKDIR @ ''/poss_stat_'' @ en_day env);
            fd = en_open env file;
            s2 = s1\<lparr>po_stat_file := file, po_stat_fd := fd\<rparr>
        in if fd < 0 then (-1, s2) else (0, s2\<lparr>po_stat_last := en_now env\<rparr>))"

subsection \<open>Data that is stored as it arrives (pfs_poss_sub.c)\<close>

definition check_close_local :: "poss_env \<Rightarrow> int \<Rightarrow> poss_state \<Rightarrow> int \<times> poss_state" where
  "check_close_local env fd s =
     (let p = po_peer s fd; d = pp_datainfo p in
      (RECV_ADD_EPOLLOUT,
       if pp_local_in_fd p > 0 \<and> en_now env - pd_opentime d \<ge> en_poss_interval env
       then rename_file (en_rename env) (pd_outfile d) (out_name env (pd_outfile d))
              ((upd_poss fd (\<lambda>p. p\<lparr>pp_local_in_fd := -1\<rparr>) s)\<lparr>po_closed := po_closed s @ [pp_local_in_fd p]\<rparr>)
       else s))"

definition poss_touch :: "poss_env \<Rightarrow> int \<Rightarrow> poss_state \<Rightarrow> poss_state" where
  "poss_touch env fd s = (upd_poss fd (\<lambda>p. p\<lparr>pp_hbtime := word_of_int (en_now env)\<rparr>) s)
     \<lparr>po_activelist := remove1 fd (po_activelist s) @ [fd]\<rparr>"

definition syncing :: "pfs_poss_peer \<Rightarrow> bool" where
  "syncing p \<longleftrightarrow> pp_sock_stat p = S_PREPARE_SYNCFILE \<or> pp_sock_stat p = S_SYNCFILEING"

text \<open>
  \<open>remainlen\<close> is an \<^verbatim>\<open>int\<close> compared with a \<^verbatim>\<open>size_t\<close>: a negative one counts as very large.
\<close>

definition sub_recv :: "poss_env \<Rightarrow> int \<Rightarrow> poss_state \<Rightarrow> bytes \<Rightarrow> int \<times> poss_state \<times> bytes" where
  "sub_recv env fd s0 buf =
     (let s = poss_touch env fd s0; p = po_peer s fd in
      if syncing p then
        if buf = [] then (RECV_ADD_EPOLLIN, s, buf)
        else
          let d = pp_datainfo p;
              remainlen = pd_datalen d - pd_recvlen d;
              len = (if remainlen < 0 then length buf else min (length buf) (nat remainlen));
              n = en_write env len
          in if n < 0 then (RECV_CLOSE, s, buf)
             else
               let s1 = upd_data fd (\<lambda>d. d\<lparr>pd_recvlen := pd_recvlen d + n\<rparr>)
                          (append_file (pd_outfile d) (take (nat n) buf) s);
                   buf1 = drop (nat n) buf
               in if pd_recvlen d + n \<ge> pd_datalen d then
                    (case check_close_local env fd (upd_poss fd (\<lambda>p. p\<lparr>pp_sock_stat := S_IDLE\<rparr>) s1) of
                       (r, s2) \<Rightarrow> (r, s2, buf1))
                  else (RECV_ADD_EPOLLIN, s1, buf1)
      else (RECV_ADD_EPOLLIN, s, buf))"

definition data_file :: "poss_env \<Rightarrow> pfs_poss_peer \<Rightarrow> string" where
  "data_file env p = snprintf_s 256 (en_path env @ ''/'' @ PATH_WKDIR @ ''/'' @ iprole ! pp_role p @ ''_poss_''
     @ pp_ip p @ ''_'' @ en_day env @ ''.master'')"

definition process_data_req :: "poss_env \<Rightarrow> int \<Rightarrow> t_head_info \<Rightarrow> poss_state \<Rightarrow> bytes \<Rightarrow> int \<times> poss_state \<times> bytes" where
  "process_data_req env fd h s buf =
     (let p = po_peer s fd; file = data_file env p; localfd = en_open env file;
          opened = (if pp_local_in_fd p < 0 then
                      let s1 = upd_data fd (\<lambda>d. d\<lparr>pd_outfile := file\<rparr>) s in
                      if localfd < 0 then (False, s1)
                      else (True, upd_data fd (\<lambda>d. d\<lparr>pd_opentime := en_now env\<rparr>)
                                    (upd_poss fd (\<lambda>p. p\<lparr>pp_local_in_fd := localfd\<rparr>) s1))
                    else (True, s))
      in if \<not> fst opened then (RECV_CLOSE, snd opened, buf)
         else
           sub_recv env fd
             (upd_data fd (\<lambda>d. d\<lparr>pd_datalen := sint (ph_totallen h - of_nat HEADSIZE), pd_recvlen := 0\<rparr>)
               (upd_poss fd (\<lambda>p. p\<lparr>pp_sock_stat := S_SYNCFILEING\<rparr>) (snd opened)))
             (drop HEADSIZE buf))"

subsection \<open>Receiving (pfs_poss.c)\<close>

text \<open>
  \<open>Overrun\<close> is a \<^verbatim>\<open>strncpy\<close> behind the end of the 128 bytes of \<^verbatim>\<open>sip\<close>; it writes as many bytes as its length
  argument says, whatever the source holds.
\<close>

datatype poss_ret = Ret int | Overrun

text \<open>The bytes of a message behind the received data, where it claims more than it has.\<close>

definition body_at :: "poss_env \<Rightarrow> bytes \<Rightarrow> byte" where
  "body_at env data = (if HEADSIZE < length data then data ! HEADSIZE else hd (en_behind env @ [0]))"

definition status_line :: "poss_env \<Rightarrow> int \<Rightarrow> t_head_info \<Rightarrow> bytes \<Rightarrow> poss_state \<Rightarrow> poss_state" where
  "status_line env fd h data s =
     (let pre = bytes_of (en_day env @ ''|'' @ pp_ip (po_peer s fd) @ ''|'');
          st = body_at env data;
          s1 = (if ph_cmdid h = REQ_HEARTBEAT then upd_poss fd (\<lambda>p. p\<lparr>pp_server_stat := st\<rparr>) s else s);
          body = (if ph_cmdid h = REQ_HEARTBEAT then bytes_of (s_server_stat ! (unat st mod STAT_MAX))
                  else if ph_totallen h < of_nat HEADSIZE then drop HEADSIZE data @ en_behind env
                  else take (unat (ph_totallen h) - HEADSIZE) (drop HEADSIZE data))
      in append_file (po_stat_file s) (pre @ body @ bytes_of [CHR 0x0A]) s1)"

definition poss_check_req :: "poss_env \<Rightarrow> int \<Rightarrow> poss_state \<Rightarrow> bytes \<Rightarrow> poss_ret \<times> poss_state \<times> bytes" where
  "poss_check_req env fd s buf =
     (if buf = [] then (Ret (-1), s, buf)
      else
        let (ret, h) = parse_msg buf in
        if ret > 0 then (Ret (-1), s, buf)
        else if ph_cmdid h = REQ_HEARTBEAT \<or> ph_cmdid h = RSP_PFS_CMD \<or> ph_cmdid h = REQ_AUTH then
          if length buf < unat (ph_totallen h) then (Ret (-1), s, buf)
          else if ph_cmdid h = REQ_AUTH then
            if ph_totallen h - of_nat HEADSIZE > 128 then (Overrun, s, buf)
            else (Ret 0, s, drop (unat (ph_totallen h)) buf)
          else
            (Ret 0, if po_stat_fd s \<ge> 0 then status_line env fd h buf s else s,
             drop (unat (ph_totallen h)) buf)
        else if ph_cmdid h = REQ_SUBMIT then
          (case process_data_req env fd h s buf of (r, s1, buf1) \<Rightarrow> (Ret r, s1, buf1))
        else (Ret RECV_CLOSE, s, buf))"

text \<open>
  The loop of \<^verbatim>\<open>svc_recv\<close>.  A message of total length zero is consumed by dropping no byte, so the loop need
  not end: \<open>None\<close> when \<open>fuel\<close> calls of \<^verbatim>\<open>check_req\<close> were not enough.
\<close>

fun poss_loop :: "nat \<Rightarrow> poss_env \<Rightarrow> int \<Rightarrow> poss_state \<Rightarrow> bytes \<Rightarrow> (poss_ret \<times> poss_state \<times> bytes) option" where
  "poss_loop 0 env fd s buf = None"
| "poss_loop (Suc n) env fd s buf =
     (case poss_check_req env fd s buf of (subret, s1, buf1) \<Rightarrow>
        if subret = Ret (-1) then Some (Ret RECV_ADD_EPOLLIN, s1, buf1)
        else if subret \<in> {Overrun, Ret RECV_CLOSE, Ret RECV_ADD_EPOLLIN} then Some (subret, s1, buf1)
        else poss_loop n env fd s1 buf1)"

definition poss_svc_recv :: "nat \<Rightarrow> poss_env \<Rightarrow> int \<Rightarrow> poss_state \<Rightarrow> bytes \<Rightarrow> (poss_ret \<times> poss_state \<times> bytes) option" where
  "poss_svc_recv fuel env fd s0 buf =
     (let s = poss_touch env fd s0 in
      if syncing (po_peer s fd) then
        (case sub_recv env fd s buf of (ret, s1, buf1) \<Rightarrow>
           if ret = RECV_ADD_EPOLLIN \<or> ret = RECV_CLOSE then Some (Ret ret, s1, buf1)
           else poss_loop fuel env fd s1 buf1)
      else poss_loop fuel env fd s buf)"

subsection \<open>Connections\<close>

definition poss_hash :: "uint32 \<Rightarrow> nat" where
  "poss_hash ip = unat (0xFF AND ip)"

text \<open>\<^verbatim>\<open>svc_finiconn\<close> keeps the block of a closed connection for the next one with the descriptor.\<close>

definition poss_svc_initconn :: "bool \<Rightarrow> poss_env \<Rightarrow> uint32 \<Rightarrow> int \<Rightarrow> poss_state \<Rightarrow> int \<times> poss_state" where
  "poss_svc_initconn malloc_ok env ip fd s =
     (if fd \<notin> po_user s \<and> \<not> malloc_ok then (303, s)
      else
        (0, s\<lparr>po_user := insert fd (po_user s),
              po_peer := (po_peer s)(fd := zero_poss_peer\<lparr>pp_hbtime := word_of_int (en_now env),
                 pp_sock_stat := S_CONNECTED, pp_fd := fd, pp_con_ip := ip, pp_local_in_fd := -1, pp_ip := ip2str ip\<rparr>),
              po_activelist := remove1 fd (po_activelist s) @ [fd],
              po_online := (po_online s)(poss_hash ip := fd # po_online s (poss_hash ip))\<rparr>))"

definition poss_svc_send :: "int \<Rightarrow> int" where
  "poss_svc_send fd = SEND_ADD_EPOLLIN"

definition poss_svc_finiconn :: "poss_env \<Rightarrow> int \<Rightarrow> poss_state \<Rightarrow> poss_state" where
  "poss_svc_finiconn env fd s =
     (if fd \<notin> po_user s then s
      else
        let s1 = snd (check_close_local env fd (upd_data fd (\<lambda>d. d\<lparr>pd_opentime := 0\<rparr>) s));
            lfd = pp_local_in_fd (po_peer s1 fd)
        in s1\<lparr>po_closed := (if lfd > 0 then po_closed s1 @ [lfd] else po_closed s1),
              po_activelist := remove1 fd (po_activelist s1),
              po_online := (\<lambda>i. remove1 fd (po_online s1 i)),
              po_cfg := (\<lambda>i. remove1 fd (po_cfg s1 i)),
              po_peer := (po_peer s1)(fd := zero_poss_peer)\<rparr>)"

definition poss_do_close :: "poss_env \<Rightarrow> int \<Rightarrow> poss_state \<Rightarrow> poss_state" where
  "poss_do_close env fd s = (let s1 = poss_svc_finiconn env fd s in s1\<lparr>po_closed := po_closed s1 @ [fd]\<rparr>)"

subsection \<open>Commands of the operators\<close>

definition poss_find_ip_stat :: "uint32 \<Rightarrow> poss_state \<Rightarrow> int option" where
  "poss_find_ip_stat ip s =
     (case List.find (\<lambda>fd. pp_cfgip (po_peer s fd) = ip) (po_cfg s (poss_hash ip)) of
        Some fd \<Rightarrow> Some fd
      | None \<Rightarrow> List.find (\<lambda>fd. pp_con_ip (po_peer s fd) = ip) (po_online s (poss_hash ip)))"

definition strncasecmp_pre :: "string \<Rightarrow> string \<Rightarrow> bool" where
  "strncasecmp_pre pre s \<longleftrightarrow> map tolower (take (length pre) s) = map tolower pre"

definition poss_queue :: "int \<Rightarrow> bytes \<Rightarrow> poss_state \<Rightarrow> poss_state" where
  "poss_queue fd m s = s\<lparr>po_send := (po_send s)(fd := po_send s fd @ m), po_epollout := insert fd (po_epollout s)\<rparr>"

text \<open>The message is cut at its last newline, for the peers that follow too.\<close>

definition cut_newline :: "string \<Rightarrow> string" where
  "cut_newline msg = (case strrchr (CHR 0x0A) msg of None \<Rightarrow> msg | Some (a, _) \<Rightarrow> a)"

definition do_peer_msg :: "string \<Rightarrow> int \<Rightarrow> poss_state \<Rightarrow> string \<times> poss_state" where
  "do_peer_msg msg0 fd s =
     (let msg = cut_newline msg0; pfd = pp_fd (po_peer s fd) in
      if strncasecmp_pre ''pfs_cmd=stoppfs'' msg then
        (case create_poss_head REQ_STOPPFS 0 (po_seq s) of
           (head, seq) \<Rightarrow> (msg, poss_queue pfd head (s\<lparr>po_seq := seq\<rparr>)))
      else
        (case create_poss_head REQ_PFS_CMD (length msg) (po_seq s) of
           (head, seq) \<Rightarrow> (msg, poss_queue pfd (head @ bytes_of msg) (s\<lparr>po_seq := seq\<rparr>))))"

definition do_ip_msg :: "(string \<Rightarrow> string option) \<Rightarrow> string \<Rightarrow> string \<Rightarrow> poss_state \<Rightarrow> string \<times> poss_state" where
  "do_ip_msg resolve msg sip s =
     (case fst (get_uint32_ip resolve sip) of ip \<Rightarrow>
        if ip = INADDR_NONE then (msg, s)
        else case poss_find_ip_stat ip s of None \<Rightarrow> (msg, s) | Some fd \<Rightarrow> do_peer_msg msg fd s)"

definition do_domain_msg :: "string \<Rightarrow> poss_state \<Rightarrow> poss_state" where
  "do_domain_msg msg s = snd (fold (\<lambda>fd (m, st). do_peer_msg m fd st) (po_activelist s) (msg, s))"

function do_ip_list :: "(string \<Rightarrow> string option) \<Rightarrow> string \<Rightarrow> string \<Rightarrow> poss_state \<Rightarrow> poss_state" where
  "do_ip_list resolve msg s st =
     (case strchr (CHR '','') s of
        None \<Rightarrow> snd (do_ip_msg resolve msg s st)
      | Some (ip, r) \<Rightarrow> (case do_ip_msg resolve msg ip st of (m, st1) \<Rightarrow> do_ip_list resolve m r st1))"
  by pat_completeness auto
termination
  by (relation "measure (\<lambda>(_, _, s, _). length s)") (auto dest!: strchr_SomeD)

declare do_ip_list.simps [simp del]

definition do_sub_msg :: "(string \<Rightarrow> string option) \<Rightarrow> string \<Rightarrow> poss_state \<Rightarrow> poss_state" where
  "do_sub_msg resolve buf st =
     (if \<not> strncasecmp_pre ''iplist='' buf then st
      else case strchr (CHR ''&'') buf of
             None \<Rightarrow> st
           | Some (a, msg) \<Rightarrow>
               let s = drop 7 a in
               if strncasecmp_pre ''allip'' s then do_domain_msg msg st
               else do_ip_list resolve msg s st)"

text \<open>The files of the input directory with their lines; a file that cannot be opened has none.\<close>

definition check_indir :: "(string \<Rightarrow> string option) \<Rightarrow> (string \<times> string list option) list \<Rightarrow> poss_state \<Rightarrow> poss_state" where
  "check_indir resolve files st =
     fold (\<lambda>(name, ls) st. if take 1 name = ''.'' then st
             else case ls of None \<Rightarrow> st | Some ls \<Rightarrow> fold (do_sub_msg resolve) ls st) files st"

definition poss_svc_timeout :: "(string \<Rightarrow> string option) \<Rightarrow> poss_env \<Rightarrow> (string \<times> string list option) list \<Rightarrow> poss_state \<Rightarrow> poss_state" where
  "poss_svc_timeout resolve env files s =
     check_indir resolve files (snd (check_stat_file env
       (fold (\<lambda>fd st.
          let p = po_peer st fd;
              st1 = (if pp_fd p > 0 \<and> \<not> syncing p then snd (check_close_local env (pp_fd p) st) else st)
          in if en_now env - uint (pp_hbtime (po_peer st1 fd)) > en_timeout env * 10
             then poss_do_close env (pp_fd (po_peer st1 fd)) st1 else st1)
        (po_activelist s) s)))"

definition poss_svc_init :: "poss_env \<Rightarrow> poss_state \<Rightarrow> int \<times> poss_state" where
  "poss_svc_init env s =
     check_stat_file env (s\<lparr>po_activelist := [], po_online := (\<lambda>_. []), po_cfg := (\<lambda>_. []),
       po_stat_fd := -1, po_stat_file := [], po_stat_last := 0\<rparr>)"

subsection \<open>Heads\<close>

lemma poss_head_of_head:
  "poss_head_of (be32 a @ be32 b @ be32 c @ t) = \<lparr>ph_totallen = a, ph_cmdid = b, ph_seq = c\<rparr>"
  by (simp add: be32_def wire_simps)

lemma parse_msg_head:
  "parse_msg (be32 a @ be32 b @ be32 c @ t) = (0, \<lparr>ph_totallen = a, ph_cmdid = b, ph_seq = c\<rparr>)"
  by (simp only: parse_msg_def poss_head_of_head) simp

lemma create_msg_eq:
  "create_msg cmd b seq = (be32 (of_nat (HEADSIZE + length b)) @ be32 cmd @ be32 seq @ b, seq + 1)"
  by (simp add: create_msg_def getseq_def Let_def)

lemma create_poss_head_eq:
  "create_poss_head cmd n seq = (be32 (of_nat (HEADSIZE + n)) @ be32 cmd @ be32 seq, seq + 1)"
  by (simp add: create_poss_head_def getseq_def Let_def)

subsection \<open>Submitted data\<close>

lemma longer_prefix: "a @ b = h @ t \<Longrightarrow> length h \<le> length a \<Longrightarrow> \<exists>c. a = h @ c \<and> c @ b = t"
  by (auto simp: append_eq_append_conv2)

definition submit_stream :: "(uint32 \<times> bytes) list \<Rightarrow> bytes" where
  "submit_stream ms = concat (map (\<lambda>(seq, b). fst (create_msg REQ_SUBMIT b seq)) ms)"

definition bodies :: "(uint32 \<times> bytes) list \<Rightarrow> bytes" where
  "bodies ms = concat (map snd ms)"

text \<open>The data of a connection in pieces, each followed by \<^verbatim>\<open>svc_recv\<close>.\<close>

fun poss_pieces :: "poss_env \<Rightarrow> int \<Rightarrow> poss_state \<Rightarrow> bytes \<Rightarrow> bytes list \<Rightarrow> (poss_state \<times> bytes) option" where
  "poss_pieces env fd s buf [] = Some (s, buf)"
| "poss_pieces env fd s buf (d # ds) =
     (case poss_svc_recv (Suc (length (buf @ d))) env fd s (buf @ d) of
        Some (r, s', buf') \<Rightarrow> if r = Ret RECV_ADD_EPOLLIN then poss_pieces env fd s' buf' ds else None
      | None \<Rightarrow> None)"

definition store_env :: "poss_env \<Rightarrow> string \<Rightarrow> bool" where
  "store_env env f \<longleftrightarrow> en_open env f > 0 \<and> (\<forall>n. en_write env n = int n) \<and> en_poss_interval env > 0"

text \<open>The connection's data goes to file \<open>f\<close>: it is open, or it is the one that will be opened.\<close>

definition stores_to :: "poss_env \<Rightarrow> int \<Rightarrow> string \<Rightarrow> poss_state \<Rightarrow> bool" where
  "stores_to env fd f s \<longleftrightarrow>
     (let p = po_peer s fd; d = pp_datainfo p in
      data_file env p = f \<and>
      (pp_local_in_fd p < 0 \<or> pp_local_in_fd p > 0 \<and> pd_outfile d = f \<and> pd_opentime d = en_now env))"

definition missing :: "int \<Rightarrow> poss_state \<Rightarrow> int" where
  "missing fd s = pd_datalen (pp_datainfo (po_peer s fd)) - pd_recvlen (pp_datainfo (po_peer s fd))"

lemma data_file_cong: "pp_role p = pp_role q \<Longrightarrow> pp_ip p = pp_ip q \<Longrightarrow> data_file env p = data_file env q"
  by (simp add: data_file_def)

lemma sub_recv_partial:
  assumes "store_env env f" and "stores_to env fd f s" and "syncing (po_peer s fd)"
    and "pp_local_in_fd (po_peer s fd) > 0" and "int (length buf) < missing fd s"
  shows "\<exists>s'. sub_recv env fd s buf = (RECV_ADD_EPOLLIN, s', []) \<and> stores_to env fd f s'
    \<and> syncing (po_peer s' fd) \<and> pp_local_in_fd (po_peer s' fd) > 0
    \<and> missing fd s' = missing fd s - int (length buf) \<and> po_file s' = (po_file s)(f := po_file s f @ buf)"
  using assms
  by (auto simp: sub_recv_def store_env_def stores_to_def missing_def syncing_def poss_touch_def upd_poss_def
      upd_data_def append_file_def Let_def data_file_def)

lemma sub_recv_complete:
  assumes "store_env env f" and "stores_to env fd f s" and "syncing (po_peer s fd)"
    and "pp_local_in_fd (po_peer s fd) > 0" and "missing fd s = int (length r)" and "buf = r @ t" and "buf \<noteq> []"
  shows "\<exists>s'. sub_recv env fd s buf = (RECV_ADD_EPOLLOUT, s', t) \<and> stores_to env fd f s'
    \<and> \<not> syncing (po_peer s' fd) \<and> po_file s' = (po_file s)(f := po_file s f @ r)"
  using assms
  by (auto simp: sub_recv_def store_env_def stores_to_def missing_def syncing_def poss_touch_def upd_poss_def
      upd_data_def append_file_def check_close_local_def Let_def data_file_def)

lemma sub_recv_empty:
  assumes "stores_to env fd f s" and "syncing (po_peer s fd)" and "pp_local_in_fd (po_peer s fd) > 0"
  shows "\<exists>s'. sub_recv env fd s [] = (RECV_ADD_EPOLLIN, s', []) \<and> stores_to env fd f s'
    \<and> syncing (po_peer s' fd) \<and> pp_local_in_fd (po_peer s' fd) > 0
    \<and> missing fd s' = missing fd s \<and> po_file s' = po_file s"
  using assms
  by (auto simp: sub_recv_def stores_to_def missing_def syncing_def poss_touch_def upd_poss_def Let_def data_file_def)

lemma sint_body_length:
  assumes "n < 2 ^ 31"
  shows "sint (of_nat (HEADSIZE + n) - of_nat HEADSIZE :: uint32) = int n"
proof -
  have "of_nat (HEADSIZE + n) - of_nat HEADSIZE = (word_of_int (int n) :: uint32)" by simp
  then show ?thesis using assms by (simp only: int_word_sint) simp
qed

lemma process_data_req_starts:
  assumes "store_env env f" and "stores_to env fd f s"
    and "ph_totallen h = of_nat (HEADSIZE + n)" and "n < 2 ^ 31"
  shows "\<exists>s'. process_data_req env fd h s buf = sub_recv env fd s' (drop HEADSIZE buf) \<and> stores_to env fd f s'
    \<and> syncing (po_peer s' fd) \<and> pp_local_in_fd (po_peer s' fd) > 0 \<and> missing fd s' = int n \<and> po_file s' = po_file s"
proof -
  let ?p = "po_peer s fd"
  let ?o = "if pp_local_in_fd ?p < 0
    then upd_data fd (\<lambda>d. d\<lparr>pd_opentime := en_now env\<rparr>)
      (upd_poss fd (\<lambda>p. p\<lparr>pp_local_in_fd := en_open env f\<rparr>) (upd_data fd (\<lambda>d. d\<lparr>pd_outfile := f\<rparr>) s))
    else s"
  let ?s = "upd_data fd (\<lambda>d. d\<lparr>pd_datalen := int n, pd_recvlen := 0\<rparr>)
    (upd_poss fd (\<lambda>p. p\<lparr>pp_sock_stat := S_SYNCFILEING\<rparr>) ?o)"
  have n: "sint (ph_totallen h - of_nat HEADSIZE) = int n"
    unfolding assms(3) by (rule sint_body_length [OF assms(4)])
  have f: "data_file env ?p = f" "en_open env f > 0"
    using assms(1,2) by (simp_all add: store_env_def stores_to_def Let_def)
  have "process_data_req env fd h s buf = sub_recv env fd ?s (drop HEADSIZE buf)"
    using f unfolding process_data_req_def Let_def n by simp
  moreover have "stores_to env fd f ?s" "syncing (po_peer ?s fd)" "pp_local_in_fd (po_peer ?s fd) > 0"
    "missing fd ?s = int n" "po_file ?s = po_file s"
    using assms(2) f
    by (auto simp: stores_to_def missing_def syncing_def upd_poss_def upd_data_def data_file_def Let_def)
  ultimately show ?thesis by blast
qed

text \<open>
  What the connection still has to store: \<open>fut\<close> is the data not yet received, \<open>rem\<close> the bytes of it and of
  the buffer that have to go to the file.
\<close>

definition awaits :: "poss_env \<Rightarrow> int \<Rightarrow> string \<Rightarrow> poss_state \<Rightarrow> bytes \<Rightarrow> bytes \<Rightarrow> bytes \<Rightarrow> bool" where
  "awaits env fd f s buf fut rem \<longleftrightarrow> stores_to env fd f s \<and>
     (\<exists>ms. (\<forall>m\<in>set ms. length (snd m) < 2 ^ 31) \<and>
       (\<not> syncing (po_peer s fd) \<and> length buf < HEADSIZE \<and> buf @ fut = submit_stream ms \<and> rem = bodies ms \<or>
        (\<exists>r. syncing (po_peer s fd) \<and> pp_local_in_fd (po_peer s fd) > 0 \<and> missing fd s = int (length r)
             \<and> buf = [] \<and> buf @ fut = r @ submit_stream ms \<and> rem = r @ bodies ms)))"

text \<open>One call of \<^verbatim>\<open>sub_recv\<close> while data is being stored: more is needed, or the message is complete.\<close>

lemma sub_recv_phase:
  assumes "store_env env f" and "stores_to env fd f s" and "syncing (po_peer s fd)"
    and "pp_local_in_fd (po_peer s fd) > 0" and "missing fd s = int (length r)"
    and "buf @ fut = r @ submit_stream ms" and "\<forall>m\<in>set ms. length (snd m) < 2 ^ 31"
  obtains s' w rem where "sub_recv env fd s buf = (RECV_ADD_EPOLLIN, s', [])"
      "awaits env fd f s' [] fut rem" "r @ bodies ms = w @ rem" "po_file s' = (po_file s)(f := po_file s f @ w)"
  | s' buf' where "sub_recv env fd s buf = (RECV_ADD_EPOLLOUT, s', buf')" "stores_to env fd f s'"
      "\<not> syncing (po_peer s' fd)" "buf' @ fut = submit_stream ms" "length buf' \<le> length buf"
      "po_file s' = (po_file s)(f := po_file s f @ r)"
proof (cases "buf = []")
  case True
  then obtain s' where "sub_recv env fd s buf = (RECV_ADD_EPOLLIN, s', [])" "stores_to env fd f s'"
    "syncing (po_peer s' fd)" "pp_local_in_fd (po_peer s' fd) > 0" "missing fd s' = missing fd s"
    "po_file s' = po_file s"
    using sub_recv_empty [OF assms(2-4)] by auto
  moreover from this have "awaits env fd f s' [] fut (r @ bodies ms)"
    unfolding awaits_def using assms(5-7) True by (intro conjI exI [of _ ms]) auto
  ultimately show ?thesis using that(1) [of s' "r @ bodies ms" "[]"] by simp
next
  case ne: False
  show ?thesis
  proof (cases "length buf < length r")
    case True
    then obtain r' where r: "r = buf @ r'" "fut = r' @ submit_stream ms"
      using assms(6) by (auto simp: append_eq_append_conv2)
    obtain s' where s': "sub_recv env fd s buf = (RECV_ADD_EPOLLIN, s', [])" "stores_to env fd f s'"
      "syncing (po_peer s' fd)" "pp_local_in_fd (po_peer s' fd) > 0"
      "missing fd s' = missing fd s - int (length buf)" "po_file s' = (po_file s)(f := po_file s f @ buf)"
      using sub_recv_partial [OF assms(1-4), of buf] True assms(5) by auto
    have "awaits env fd f s' [] fut (r' @ bodies ms)"
      unfolding awaits_def using assms(5,7) s' r by (intro conjI exI [of _ ms]) auto
    then show ?thesis using that(1) [OF s'(1)] r(1) s'(6) by simp
  next
    case False
    then obtain b where b: "buf = r @ b" "b @ fut = submit_stream ms"
      using assms(6) by (auto simp: append_eq_append_conv2)
    then show ?thesis
      using sub_recv_complete [OF assms(1-5) b(1) ne] that(2) by fastforce
  qed
qed

lemma poss_loop_submits:
  assumes "store_env env f" and "stores_to env fd f s" and "\<not> syncing (po_peer s fd)"
    and "buf @ fut = submit_stream ms" and "\<forall>m\<in>set ms. length (snd m) < 2 ^ 31" and "length buf < n"
  shows "\<exists>s' buf' w rem. poss_loop n env fd s buf = Some (Ret RECV_ADD_EPOLLIN, s', buf')
    \<and> awaits env fd f s' buf' fut rem \<and> bodies ms = w @ rem \<and> po_file s' = (po_file s)(f := po_file s f @ w)"
  using assms
proof (induction ms arbitrary: s buf n)
  case Nil
  then have "poss_loop n env fd s buf = Some (Ret RECV_ADD_EPOLLIN, s, [])" and "buf = []"
    by (cases n; simp add: submit_stream_def poss_check_req_def)+
  moreover have "awaits env fd f s [] fut []"
    unfolding awaits_def using Nil by (intro conjI exI [of _ "[]"]) (auto simp: bodies_def submit_stream_def)
  ultimately show ?case by (intro exI [of _ s] exI [of _ "[]"]) (auto simp: bodies_def)
next
  case (Cons m ms)
  obtain seq b where m: "m = (seq, b)" by fastforce
  obtain n' where n: "n = Suc n'" using Cons.prems(6) by (cases n) auto
  let ?h = "\<lparr>ph_totallen = of_nat (HEADSIZE + length b), ph_cmdid = REQ_SUBMIT, ph_seq = seq\<rparr>"
  let ?head = "be32 (of_nat (HEADSIZE + length b)) @ be32 REQ_SUBMIT @ be32 seq"
  have st: "submit_stream (m # ms) = ?head @ b @ submit_stream ms"
    by (simp add: submit_stream_def m create_msg_eq)
  show ?case
  proof (cases "length buf < HEADSIZE")
    case True
    then have "poss_loop n env fd s buf = Some (Ret RECV_ADD_EPOLLIN, s, buf)"
      by (simp add: n poss_check_req_def parse_msg_def)
    moreover have "awaits env fd f s buf fut (bodies (m # ms))"
      unfolding awaits_def using Cons.prems True by (intro conjI exI [of _ "m # ms"]) auto
    ultimately show ?thesis by (intro exI [of _ s] exI [of _ buf] exI [of _ "[]"] exI [of _ "bodies (m # ms)"]) simp
  next
    case False
    have "length ?head = HEADSIZE" by simp
    then obtain c where c: "buf = ?head @ c" "c @ fut = b @ submit_stream ms"
      using longer_prefix [of buf fut ?head "b @ submit_stream ms"] Cons.prems(4) False unfolding st by auto
    have ps: "parse_msg buf = (0, ?h)"
      unfolding c(1) append_assoc by (rule parse_msg_head)
    obtain s1 where s1: "process_data_req env fd ?h s buf = sub_recv env fd s1 c" "stores_to env fd f s1"
      "syncing (po_peer s1 fd)" "pp_local_in_fd (po_peer s1 fd) > 0" "missing fd s1 = int (length b)"
      "po_file s1 = po_file s"
      using process_data_req_starts [OF Cons.prems(1,2), of ?h "length b" buf] Cons.prems(5) c(1) m by auto
    have chk: "poss_check_req env fd s buf = (case sub_recv env fd s1 c of (r, s1, buf1) \<Rightarrow> (Ret r, s1, buf1))"
      using ps s1(1) False by (auto simp: poss_check_req_def)
    have ms: "\<forall>m\<in>set ms. length (snd m) < 2 ^ 31" using Cons.prems(5) by simp
    show ?thesis
    proof (rule sub_recv_phase [OF Cons.prems(1) s1(2-5) c(2) ms])
      fix s' w rem
      assume "sub_recv env fd s1 c = (RECV_ADD_EPOLLIN, s', [])" "awaits env fd f s' [] fut rem"
        "b @ bodies ms = w @ rem" "po_file s' = (po_file s1)(f := po_file s1 f @ w)"
      then show ?thesis
        using s1(6) m by (intro exI [of _ s'] exI [of _ "[]"] exI [of _ w] exI [of _ rem])
          (simp add: n chk bodies_def)
    next
      fix s' buf'
      assume a: "sub_recv env fd s1 c = (RECV_ADD_EPOLLOUT, s', buf')" "stores_to env fd f s'"
        "\<not> syncing (po_peer s' fd)" "buf' @ fut = submit_stream ms" "length buf' \<le> length c"
        "po_file s' = (po_file s1)(f := po_file s1 f @ b)"
      have "length buf' < n'" using a(5) c(1) Cons.prems(6) n by simp
      from Cons.IH [OF Cons.prems(1) a(2-4) ms this] obtain s2 buf2 w rem where
        i: "poss_loop n' env fd s' buf' = Some (Ret RECV_ADD_EPOLLIN, s2, buf2)" "awaits env fd f s2 buf2 fut rem"
          "bodies ms = w @ rem" "po_file s2 = (po_file s')(f := po_file s' f @ w)"
        by blast
      show ?thesis
        using i a(1,6) s1(6) m
        by (intro exI [of _ s2] exI [of _ buf2] exI [of _ "b @ w"] exI [of _ rem]) (simp add: n chk bodies_def)
    qed
  qed
qed

lemma poss_svc_recv_stores:
  assumes "store_env env f" and "awaits env fd f s buf (d @ fut) rem"
  shows "\<exists>s' buf' w rem'. poss_svc_recv (Suc (length (buf @ d))) env fd s (buf @ d) = Some (Ret RECV_ADD_EPOLLIN, s', buf')
    \<and> awaits env fd f s' buf' fut rem' \<and> rem = w @ rem' \<and> po_file s' = (po_file s)(f := po_file s f @ w)"
proof -
  let ?s = "poss_touch env fd s"
  have t: "stores_to env fd f ?s = stores_to env fd f s" "missing fd ?s = missing fd s" "po_file ?s = po_file s"
    "syncing (po_peer ?s fd) = syncing (po_peer s fd)" "pp_local_in_fd (po_peer ?s fd) = pp_local_in_fd (po_peer s fd)"
    by (simp_all add: stores_to_def missing_def syncing_def poss_touch_def upd_poss_def data_file_def Let_def)
  obtain ms where ms: "\<forall>m\<in>set ms. length (snd m) < 2 ^ 31" "stores_to env fd f s"
    "\<not> syncing (po_peer s fd) \<and> buf @ d @ fut = submit_stream ms \<and> rem = bodies ms \<or>
     (\<exists>r. syncing (po_peer s fd) \<and> pp_local_in_fd (po_peer s fd) > 0 \<and> missing fd s = int (length r)
        \<and> buf @ d @ fut = r @ submit_stream ms \<and> rem = r @ bodies ms)"
    using assms(2) unfolding awaits_def by blast
  from ms(3) show ?thesis
  proof (elim disjE exE conjE)
    assume a: "\<not> syncing (po_peer s fd)" "buf @ d @ fut = submit_stream ms" "rem = bodies ms"
    then show ?thesis
      using poss_loop_submits [of env f fd ?s "buf @ d" fut ms "Suc (length (buf @ d))"] assms(1) ms(1,2) t
      by (auto simp: poss_svc_recv_def)
  next
    fix r
    assume a: "syncing (po_peer s fd)" "pp_local_in_fd (po_peer s fd) > 0" "missing fd s = int (length r)"
      "buf @ d @ fut = r @ submit_stream ms" "rem = r @ bodies ms"
    have b: "stores_to env fd f ?s" "syncing (po_peer ?s fd)" "pp_local_in_fd (po_peer ?s fd) > 0"
      "missing fd ?s = int (length r)" "(buf @ d) @ fut = r @ submit_stream ms"
      using a t ms(2) by simp_all
    show ?thesis
    proof (rule sub_recv_phase [OF assms(1) b ms(1)])
      fix s' w rem'
      assume "sub_recv env fd ?s (buf @ d) = (RECV_ADD_EPOLLIN, s', [])" "awaits env fd f s' [] fut rem'"
        "r @ bodies ms = w @ rem'" "po_file s' = (po_file ?s)(f := po_file ?s f @ w)"
      then show ?thesis
        using a(5) b(2) t(3) by (intro exI [of _ s'] exI [of _ "[]"] exI [of _ w] exI [of _ rem'])
          (simp add: poss_svc_recv_def Let_def)
    next
      fix s' buf'
      assume c: "sub_recv env fd ?s (buf @ d) = (RECV_ADD_EPOLLOUT, s', buf')" "stores_to env fd f s'"
        "\<not> syncing (po_peer s' fd)" "buf' @ fut = submit_stream ms" "length buf' \<le> length (buf @ d)"
        "po_file s' = (po_file ?s)(f := po_file ?s f @ r)"
      have "length buf' < Suc (length (buf @ d))" using c(5) by simp
      from poss_loop_submits [OF assms(1) c(2-4) ms(1) this] obtain s2 buf2 w rem2 where
        i: "poss_loop (Suc (length (buf @ d))) env fd s' buf' = Some (Ret RECV_ADD_EPOLLIN, s2, buf2)"
          "awaits env fd f s2 buf2 fut rem2" "bodies ms = w @ rem2" "po_file s2 = (po_file s')(f := po_file s' f @ w)"
        by blast
      show ?thesis
        using i a(5) b(2) c(1,6) t(3)
        by (intro exI [of _ s2] exI [of _ buf2] exI [of _ "r @ w"] exI [of _ rem2])
          (simp add: poss_svc_recv_def Let_def del: poss_loop.simps)
    qed
  qed
qed

lemma poss_pieces_stores:
  assumes "store_env env f" and "awaits env fd f s buf (concat ds) rem"
  shows "\<exists>s' buf' w rem'. poss_pieces env fd s buf ds = Some (s', buf') \<and> awaits env fd f s' buf' [] rem'
    \<and> rem = w @ rem' \<and> po_file s' = (po_file s)(f := po_file s f @ w)"
  using assms(2)
proof (induction ds arbitrary: s buf rem)
  case Nil
  then show ?case by (intro exI [of _ s] exI [of _ buf] exI [of _ "[]"] exI [of _ rem]) simp
next
  case (Cons d ds)
  have "awaits env fd f s buf (d @ concat ds) rem" using Cons.prems by simp
  then obtain s1 buf1 w1 rem1 where
    a: "poss_svc_recv (Suc (length (buf @ d))) env fd s (buf @ d) = Some (Ret RECV_ADD_EPOLLIN, s1, buf1)"
      "awaits env fd f s1 buf1 (concat ds) rem1" "rem = w1 @ rem1" "po_file s1 = (po_file s)(f := po_file s f @ w1)"
    using poss_svc_recv_stores [OF assms(1)] by blast
  obtain s2 buf2 w2 rem2 where
    b: "poss_pieces env fd s1 buf1 ds = Some (s2, buf2)" "awaits env fd f s2 buf2 [] rem2"
      "rem1 = w2 @ rem2" "po_file s2 = (po_file s1)(f := po_file s1 f @ w2)"
    using Cons.IH [OF a(2)] by blast
  show ?case
    by (intro exI [of _ s2] exI [of _ buf2] exI [of _ "w1 @ w2"] exI [of _ rem2]) (use a b in simp)
qed

text \<open>Nothing is left to store when nothing is left to receive.\<close>

lemma submit_stream_Cons: "length (submit_stream (m # ms)) = HEADSIZE + length (snd m) + length (submit_stream ms)"
  by (cases m) (simp add: submit_stream_def create_msg_eq)

lemma awaits_end: "awaits env fd f s buf [] rem \<Longrightarrow> rem = [] \<and> buf = []"
proof -
  assume "awaits env fd f s buf [] rem"
  then obtain ms where "length buf < HEADSIZE \<and> buf = submit_stream ms \<and> rem = bodies ms \<or>
      buf = [] \<and> (\<exists>r. r @ submit_stream ms = [] \<and> rem = r @ bodies ms)"
    unfolding awaits_def by auto
  moreover have "length (submit_stream ms) < HEADSIZE \<Longrightarrow> ms = []"
    using submit_stream_Cons by (cases ms) auto
  ultimately have "ms = []" by auto
  then show ?thesis
    using \<open>length buf < HEADSIZE \<and> buf = submit_stream ms \<and> rem = bodies ms \<or>
      buf = [] \<and> (\<exists>r. r @ submit_stream ms = [] \<and> rem = r @ bodies ms)\<close>
    by (auto simp: bodies_def submit_stream_def)
qed

subsection \<open>A message of length zero\<close>

lemma zero_heartbeat_consumes_nothing:
  assumes "buf = be32 0 @ be32 REQ_HEARTBEAT @ be32 seq @ t"
  shows "\<exists>s'. poss_check_req env fd s buf = (Ret 0, s', buf)"
proof -
  have "parse_msg buf = (0, \<lparr>ph_totallen = 0, ph_cmdid = REQ_HEARTBEAT, ph_seq = seq\<rparr>)"
    unfolding assms by (rule parse_msg_head)
  moreover have "buf \<noteq> []" using assms by (simp add: be32_def)
  ultimately show ?thesis by (simp add: poss_check_req_def)
qed

subsection \<open>A command for every connection\<close>

definition cmd_msg :: "string \<Rightarrow> uint32 \<Rightarrow> bytes" where
  "cmd_msg cmd seq = be32 (of_nat (HEADSIZE + length cmd)) @ be32 REQ_PFS_CMD @ be32 seq @ bytes_of cmd"

lemma parse_cmd_msg:
  "parse_msg (cmd_msg cmd seq) =
     (0, \<lparr>ph_totallen = of_nat (HEADSIZE + length cmd), ph_cmdid = REQ_PFS_CMD, ph_seq = seq\<rparr>)"
  "drop HEADSIZE (cmd_msg cmd seq) = bytes_of cmd"
  unfolding cmd_msg_def by (rule parse_msg_head) (simp add: be32_def)

lemma do_peer_msg_cmd:
  assumes "\<not> strncasecmp_pre ''pfs_cmd=stoppfs'' cmd" and "cut_newline msg = cmd" and "pp_fd (po_peer s fd) = fd"
  shows "do_peer_msg msg fd s = (cmd, poss_queue fd (cmd_msg cmd (po_seq s)) (s\<lparr>po_seq := po_seq s + 1\<rparr>))"
  using assms by (simp add: do_peer_msg_def create_poss_head_eq cmd_msg_def)

lemma peer_msgs_queued:
  assumes "\<not> strncasecmp_pre ''pfs_cmd=stoppfs'' cmd" and "cut_newline cmd = cmd"
    and "distinct fds" and "\<forall>fd\<in>set fds. pp_fd (po_peer s fd) = fd" and "cut_newline msg = cmd"
  defines "s' \<equiv> snd (fold (\<lambda>fd (m, st). do_peer_msg m fd st) fds (msg, s))"
  shows "(\<forall>i < length fds. po_send s' (fds ! i) = po_send s (fds ! i) @ cmd_msg cmd (po_seq s + of_nat i)) \<and>
    (\<forall>fd. fd \<notin> set fds \<longrightarrow> po_send s' fd = po_send s fd)"
  using assms(3-5) unfolding s'_def
proof (induction fds arbitrary: msg s)
  case (Cons fd fds)
  define s1 where "s1 = poss_queue fd (cmd_msg cmd (po_seq s)) (s\<lparr>po_seq := po_seq s + 1\<rparr>)"
  have s1: "po_send s1 = (po_send s)(fd := po_send s fd @ cmd_msg cmd (po_seq s))" "po_seq s1 = po_seq s + 1"
    "po_peer s1 = po_peer s"
    by (simp_all add: s1_def poss_queue_def)
  have m: "do_peer_msg msg fd s = (cmd, s1)"
    using do_peer_msg_cmd [OF assms(1) Cons.prems(3)] Cons.prems(2) by (simp add: s1_def)
  define s2 where "s2 = snd (fold (\<lambda>fd (m, st). do_peer_msg m fd st) fds (cmd, s1))"
  have ih: "\<forall>i < length fds. po_send s2 (fds ! i) = po_send s1 (fds ! i) @ cmd_msg cmd (po_seq s1 + of_nat i)"
    "\<forall>fd. fd \<notin> set fds \<longrightarrow> po_send s2 fd = po_send s1 fd"
    using Cons.IH [of s1 cmd] Cons.prems assms(2) s1(3) by (simp_all add: s2_def)
  have ne: "fds ! j \<noteq> fd" if "j < length fds" for j using Cons.prems(1) that nth_mem [of j fds] by auto
  have "po_send s2 ((fd # fds) ! i) = po_send s ((fd # fds) ! i) @ cmd_msg cmd (po_seq s + of_nat i)"
    if "i < Suc (length fds)" for i
    using that ih ne s1 Cons.prems(1) by (cases i) (simp_all add: add.assoc)
  then show ?case using ih(2) s1(1) m by (simp flip: s2_def)
qed simp

subsection \<open>Properties\<close>

text \<open>
  C27: data submitted to the operation server in any number of \<^verbatim>\<open>REQ_SUBMIT\<close> messages is stored exactly: however the
  network cuts the stream into pieces (inside heads, inside bodies, several messages at once),
  every call of \<^verbatim>\<open>svc_recv\<close> ends, asks for more input, and after the last piece the connection's file has
  grown by the concatenation of the messages' bodies and no other file has changed.
\<close>

theorem submitted_data_stored:
  assumes "store_env env f" and "stores_to env fd f s" and "\<not> syncing (po_peer s fd)"
    and "concat ds = submit_stream ms" and "\<forall>m\<in>set ms. length (snd m) < 2 ^ 31"
  shows "\<exists>s'. poss_pieces env fd s [] ds = Some (s', []) \<and> po_file s' = (po_file s)(f := po_file s f @ bodies ms)"
proof -
  have "awaits env fd f s [] (concat ds) (bodies ms)"
    unfolding awaits_def using assms(2-5) by (intro conjI exI [of _ ms]) auto
  then obtain s' buf' w rem where r: "poss_pieces env fd s [] ds = Some (s', buf')"
    "awaits env fd f s' buf' [] rem" "bodies ms = w @ rem" "po_file s' = (po_file s)(f := po_file s f @ w)"
    using poss_pieces_stores [OF assms(1)] by blast
  have "rem = []" and "buf' = []"
    using awaits_end [OF r(2)] by simp_all
  then show ?thesis using r by simp
qed

definition example_poss_env :: poss_env where
  "example_poss_env = \<lparr>en_now = 1000, en_day = ''20140101000000'', en_open = (\<lambda>_. 7), en_write = int, en_behind = [],
     en_path = ''/pfs'', en_poss_interval = 300, en_stat_interval = 120, en_timeout = 300, en_rename = True\<rparr>"

definition example_poss :: poss_state where
  "example_poss = \<lparr>po_peer = (\<lambda>fd. zero_poss_peer\<lparr>pp_sock_stat := S_CONNECTED, pp_local_in_fd := -1, pp_fd := fd,
       pp_ip := ''10.0.0.1''\<rparr>), po_user = {5, 6},
     po_activelist = [5, 6], po_online = (\<lambda>_. []), po_cfg = (\<lambda>_. []), po_stat_fd = 8, po_stat_file = ''stat'',
     po_stat_last = 0, po_file = (\<lambda>_. []), po_send = (\<lambda>_. []), po_epollout = {}, po_closed = [], po_seq = 1\<rparr>"

theorem submitted_data_stored_witness:
  "\<exists>s'. poss_pieces example_poss_env 5 example_poss [] [[0, 0, 0], [15, 0, 0, 0, 2, 0, 0, 0, 1, 65], [66, 67]] = Some (s', [])
     \<and> po_file s' = (\<lambda>_. [])(data_file example_poss_env (po_peer example_poss 5) := [65, 66, 67])"
proof -
  let ?f = "data_file example_poss_env (po_peer example_poss 5)"
  have "store_env example_poss_env ?f" by (simp add: store_env_def example_poss_env_def)
  moreover have "stores_to example_poss_env 5 ?f example_poss"
    by (simp add: stores_to_def example_poss_def Let_def)
  moreover have "\<not> syncing (po_peer example_poss 5)" by (simp add: syncing_def example_poss_def)
  moreover have "concat [[0, 0, 0], [15, 0, 0, 0, 2, 0, 0, 0, 1, 65], [66, 67]] = submit_stream [(1, [65, 66, 67])]"
    by (simp add: submit_stream_def create_msg_eq be32_def)
  moreover have "bodies [(1, [65, 66, 67])] = [65, 66, 67]" "po_file example_poss = (\<lambda>_. [])"
    by (simp_all add: bodies_def example_poss_def)
  moreover have "\<forall>m\<in>set [(1 :: uint32, [65, 66, 67 :: byte])]. length (snd m) < 2 ^ 31" by simp
  ultimately show ?thesis
    using submitted_data_stored [of example_poss_env ?f 5 example_poss
      "[[0, 0, 0], [15, 0, 0, 0, 2, 0, 0, 0, 1, 65], [66, 67]]" "[(1, [65, 66, 67])]"]
    by (metis append_Nil)
qed

text \<open>
  C40: a heartbeat whose head says total length zero makes \<^verbatim>\<open>svc_recv\<close> loop for ever: the message is
  consumed by dropping no byte, so the next round finds it again.  Whatever the number of rounds, the loop
  has not ended.
\<close>

theorem zero_length_livelock:
  assumes "\<not> syncing (po_peer s fd)" and "buf = be32 0 @ be32 REQ_HEARTBEAT @ be32 seq @ t"
  shows "poss_svc_recv fuel env fd s buf = None"
proof -
  have "poss_loop n env fd s1 buf = None" for n s1
  proof (induction n arbitrary: s1)
    case (Suc n)
    obtain s' where "poss_check_req env fd s1 buf = (Ret 0, s', buf)"
      using zero_heartbeat_consumes_nothing [OF assms(2)] by blast
    then show ?case using Suc.IH by simp
  qed simp
  moreover have "\<not> syncing (po_peer (poss_touch env fd s) fd)"
    using assms(1) by (simp add: syncing_def poss_touch_def upd_poss_def)
  ultimately show ?thesis by (simp add: poss_svc_recv_def Let_def)
qed

theorem zero_length_livelock_witness:
  "poss_svc_recv 1000 example_poss_env 5 example_poss [0, 0, 0, 0, 0, 0, 0, 5, 0, 0, 0, 1] = None"
  using zero_length_livelock [of example_poss 5 "[0, 0, 0, 0, 0, 0, 0, 5, 0, 0, 0, 1]" 1 "[]"]
  by (simp add: syncing_def example_poss_def be32_def)

text \<open>
  A command line \<^verbatim>\<open>iplist=allip&command\<close> of the operators reaches every connection: each gets exactly one
  message, whose head parses as \<^verbatim>\<open>REQ_PFS_CMD\<close> with the command's length and a sequence number of its own and
  whose body is the command without the newline; nothing else is sent to anyone.
\<close>

theorem command_reaches_all:
  assumes "CHR 0x0A \<notin> set cmd" and "\<not> strncasecmp_pre ''pfs_cmd=stoppfs'' cmd"
    and "distinct (po_activelist s)" and "\<forall>fd\<in>set (po_activelist s). pp_fd (po_peer s fd) = fd"
    and "s' = do_sub_msg resolve (''iplist=allip&'' @ cmd @ [CHR 0x0A]) s"
  shows "(\<forall>i < length (po_activelist s). \<exists>m. po_send s' (po_activelist s ! i) = po_send s (po_activelist s ! i) @ m
      \<and> parse_msg m = (0, \<lparr>ph_totallen = of_nat (HEADSIZE + length cmd), ph_cmdid = REQ_PFS_CMD, ph_seq = po_seq s + of_nat i\<rparr>)
      \<and> drop HEADSIZE m = bytes_of cmd)
    \<and> (\<forall>fd. fd \<notin> set (po_activelist s) \<longrightarrow> po_send s' fd = po_send s fd)"
proof -
  have cut: "cut_newline (cmd @ [CHR 0x0A]) = cmd" "cut_newline cmd = cmd"
    using assms(1) strrchr_append [of "CHR 0x0A" "[]" cmd] strrchr_None_iff [of "CHR 0x0A" cmd]
    by (simp_all add: cut_newline_def)
  have "strchr (CHR ''&'') (''iplist=allip&'' @ cmd @ [CHR 0x0A]) = Some (''iplist=allip'', cmd @ [CHR 0x0A])"
    by simp
  then have s': "s' = snd (fold (\<lambda>fd (m, st). do_peer_msg m fd st) (po_activelist s) (cmd @ [CHR 0x0A], s))"
    using assms(5) by (simp add: do_sub_msg_def strncasecmp_pre_def do_domain_msg_def)
  show ?thesis
    using peer_msgs_queued [OF assms(2) cut(2) assms(3,4) cut(1)] parse_cmd_msg unfolding s' by blast
qed

theorem command_reaches_all_witness:
  "let s' = do_sub_msg (\<lambda>_. None) (''iplist=allip&pfs_cmd=M_STAT'' @ [CHR 0x0A]) example_poss in
   \<exists>m. po_send s' 6 = m \<and> drop HEADSIZE m = bytes_of ''pfs_cmd=M_STAT''"
proof -
  let ?s' = "do_sub_msg (\<lambda>_. None) (''iplist=allip&'' @ ''pfs_cmd=M_STAT'' @ [CHR 0x0A]) example_poss"
  have h: "CHR 0x0A \<notin> set ''pfs_cmd=M_STAT''" "\<not> strncasecmp_pre ''pfs_cmd=stoppfs'' ''pfs_cmd=M_STAT''"
    "distinct (po_activelist example_poss)"
    "\<forall>fd\<in>set (po_activelist example_poss). pp_fd (po_peer example_poss fd) = fd"
    by (simp_all add: strncasecmp_pre_def example_poss_def tolower_def)
  have "length (po_activelist example_poss) = 2" "po_activelist example_poss ! 1 = 6" "po_send example_poss 6 = []"
    by (simp_all add: example_poss_def)
  with command_reaches_all [OF h refl, of "\<lambda>_. None"] have "\<exists>m. po_send ?s' 6 = m \<and> drop HEADSIZE m = bytes_of ''pfs_cmd=M_STAT''"
    by (metis append_Nil one_less_numeral_iff semiring_norm(76))
  then show ?thesis by (simp add: Let_def)
qed

end
