(* ===== verification/Pfs_Filter.thy ===== *)
theory Pfs_Filter
  imports Pfs_Prelude
begin

section \<open>The file name filter (network/pfs_file_filter.c)\<close>

text \<open>
  A storage server keeps a list of allowed file name suffixes.  The list is built from the values
  of \<^verbatim>\<open>file_allow_suffix\<close>, each a text like \<^verbatim>\<open>*.jpg|*.png\<close>.  The linked list \<^verbatim>\<open>allow_list\<close> is the list
  of its entries, first entry first; \<open>malloc n\<close> says whether the allocation of an entry succeeds
  when there are \<open>n\<close>.  The file has no writer of \<^verbatim>\<open>deny_list\<close>.
\<close>

subsection \<open>State and operations\<close>

record t_pfs_filter =
  fl_strings :: string
  fl_len :: uint8
  fl_type :: int

record filter_state =
  disable_filter :: bool
  allow_list :: "t_pfs_filter list"

definition add_filter ::
  "(nat \<Rightarrow> bool) \<Rightarrow> string \<Rightarrow> int \<Rightarrow> t_pfs_filter list \<Rightarrow> int \<times> t_pfs_filter list" where
  "add_filter malloc s type mlist =
     (if \<not> malloc (length mlist) then (-1, mlist)
      else (0, \<lparr>fl_strings = snprintf_s 64 s, fl_len = of_nat (length s), fl_type = type\<rparr> # mlist))"

text \<open>\<^verbatim>\<open>if (*s == '*') s++;\<close>\<close>

definition skip_star :: "string \<Rightarrow> string" where
  "skip_star s = (case s of c # r \<Rightarrow> if c = CHR ''*'' then r else s | [] \<Rightarrow> [])"

text \<open>
  When the element before a bar is empty the loop continues without moving on: \<^verbatim>\<open>s\<close> then points to
  the terminator written over the bar, the empty text.
\<close>

function sub_init_filter ::
  "(nat \<Rightarrow> bool) \<Rightarrow> string \<Rightarrow> int \<Rightarrow> t_pfs_filter list \<Rightarrow> int \<times> t_pfs_filter list" where
  "sub_init_filter malloc s type mlist =
     (case strchr (CHR ''|'') s of
        Some (a, t) \<Rightarrow>
          (if skip_star a = [] then sub_init_filter malloc [] type mlist
           else case add_filter malloc (skip_star a) type mlist of
                  (r, l) \<Rightarrow> if r \<noteq> 0 then (-1, l) else sub_init_filter malloc t type l)
      | None \<Rightarrow>
          (if skip_star s = [] then (0, mlist) else add_filter malloc (skip_star s) type mlist))"
  by pat_completeness auto

termination
  by (relation "measure (\<lambda>(_, s, _, _). length s)") (auto dest!: strchr_SomeD)

declare sub_init_filter.simps [simp del]

text \<open>The loop over the values of \<^verbatim>\<open>file_allow_suffix\<close>.\<close>

fun init_filters :: "(nat \<Rightarrow> bool) \<Rightarrow> string list \<Rightarrow> t_pfs_filter list \<Rightarrow> int \<times> t_pfs_filter list" where
  "init_filters malloc [] l = (0, l)"
| "init_filters malloc (v # vs) l =
     (if v = [] then init_filters malloc vs l
      else case sub_init_filter malloc v 0 l of
             (r, l') \<Rightarrow> if r \<noteq> 0 then (-1, l') else init_filters malloc vs l')"

definition init_file_filter ::
  "(nat \<Rightarrow> bool) \<Rightarrow> int \<Rightarrow> string list \<Rightarrow> filter_state \<Rightarrow> int \<times> filter_state" where
  "init_file_filter malloc disable vals s =
     (if disable \<noteq> 0 then (0, s\<lparr>disable_filter := True\<rparr>)
      else case init_filters malloc vals [] of
             (r, l) \<Rightarrow> (r, s\<lparr>disable_filter := False, allow_list := l\<rparr>))"

definition filter_matches :: "string \<Rightarrow> t_pfs_filter \<Rightarrow> bool" where
  "filter_matches file f \<longleftrightarrow>
     unat (fl_len f) \<le> length file \<and> fl_type f = 0 \<and> drop (length file - unat (fl_len f)) file = fl_strings f"

definition check_file_allow :: "string \<Rightarrow> filter_state \<Rightarrow> int" where
  "check_file_allow file s = (if list_ex (filter_matches file) (allow_list s) then 0 else 1)"

definition check_file_filter :: "string \<Rightarrow> filter_state \<Rightarrow> int" where
  "check_file_filter file s = (if disable_filter s then 0 else check_file_allow file s)"

subsection \<open>The list the configuration denotes\<close>

text \<open>A value is written as its elements separated by bars.\<close>

fun bars :: "string list \<Rightarrow> string" where
  "bars [] = []"
| "bars [e] = e"
| "bars (e # e' # es) = e @ CHR ''|'' # bars (e' # es)"

definition element_ok :: "string \<Rightarrow> bool" where
  "element_ok e \<longleftrightarrow> CHR ''|'' \<notin> set e \<and> skip_star e \<noteq> [] \<and> length (skip_star e) < 64"

definition suffix_filter :: "string \<Rightarrow> t_pfs_filter" where
  "suffix_filter e = \<lparr>fl_strings = skip_star e, fl_len = of_nat (length (skip_star e)), fl_type = 0\<rparr>"

lemma add_filter_element:
  "element_ok e \<Longrightarrow> add_filter (\<lambda>_. True) (skip_star e) 0 l = (0, suffix_filter e # l)"
  by (simp add: add_filter_def element_ok_def suffix_filter_def cstr_simps)

lemma sub_init_filter_bars:
  "\<forall>e \<in> set es. element_ok e \<Longrightarrow> es \<noteq> [] \<Longrightarrow>
   sub_init_filter (\<lambda>_. True) (bars es) 0 l = (0, rev (map suffix_filter es) @ l)"
proof (induction es arbitrary: l rule: bars.induct)
  case (2 e)
  then have "strchr (CHR ''|'') e = None" "skip_star e \<noteq> []"
    by (simp_all add: strchr_None_iff element_ok_def)
  with 2 show ?case by (simp add: sub_init_filter.simps [of _ e] add_filter_element)
next
  case (3 e e' es)
  then have "strchr (CHR ''|'') (bars (e # e' # es)) = Some (e, bars (e' # es))" "skip_star e \<noteq> []"
    by (simp_all add: strchr_append element_ok_def)
  with 3 show ?case
    by (simp add: sub_init_filter.simps [of _ "e @ _"] add_filter_element)
qed simp

lemma bars_nonempty: "element_ok e \<Longrightarrow> bars (e # es) \<noteq> []"
  by (cases es) (auto simp: element_ok_def skip_star_def)

lemma init_filters_bars:
  "\<forall>es \<in> set vss. es \<noteq> [] \<and> (\<forall>e \<in> set es. element_ok e) \<Longrightarrow>
   init_filters (\<lambda>_. True) (map bars vss) l = (0, rev (map suffix_filter (concat vss)) @ l)"
proof (induction vss arbitrary: l)
  case (Cons es vss)
  then obtain e es' where "es = e # es'" by (cases es) auto
  with Cons.prems have "bars es \<noteq> []" using bars_nonempty by simp
  with Cons show ?case by (simp add: sub_init_filter_bars)
qed simp

lemma suffix_filter_matches:
  assumes "element_ok e"
  shows "filter_matches file (suffix_filter e) \<longleftrightarrow> is_suffix (skip_star e) file"
proof -
  have "length (skip_star e) < 2 ^ 8" using assms by (simp add: element_ok_def)
  then have "unat (of_nat (length (skip_star e)) :: uint8) = length (skip_star e)"
    by (simp add: unat_of_nat take_bit_nat_eq_self)
  then show ?thesis by (auto simp: filter_matches_def suffix_filter_def is_suffix_def)
qed

subsection \<open>What the filter lets pass\<close>

text \<open>
  With the filter enabled and memory available, a file name passes exactly when it ends in
  one of the configured suffixes, a leading star of a suffix being ignored; elements must be
  shorter than 64 characters and not empty.
\<close>

theorem filter_allows_suffixes:
  assumes "\<forall>es \<in> set vss. es \<noteq> [] \<and> (\<forall>e \<in> set es. element_ok e)"
    and "init_file_filter (\<lambda>_. True) 0 (map bars vss) s = (r, s')"
  shows "r = 0 \<and>
    check_file_filter file s' = (if \<exists>es \<in> set vss. \<exists>e \<in> set es. is_suffix (skip_star e) file then 0 else 1)"
proof -
  have "r = 0" "disable_filter s' = False" "allow_list s' = rev (map suffix_filter (concat vss))"
    using assms(2) init_filters_bars [OF assms(1), of "[]"] by (auto simp: init_file_filter_def)
  moreover have "list_ex (filter_matches file) (rev (map suffix_filter (concat vss))) \<longleftrightarrow>
      (\<exists>es \<in> set vss. \<exists>e \<in> set es. is_suffix (skip_star e) file)"
    using assms(1) suffix_filter_matches [of _ "file"] by (auto simp: list_ex_iff)
  ultimately show ?thesis by (simp add: check_file_filter_def check_file_allow_def)
qed

theorem filter_allows_suffixes_witness:
  "\<exists>s'. init_file_filter (\<lambda>_. True) 0 [''*.jpg|.png''] \<lparr>disable_filter = True, allow_list = []\<rparr> = (0, s')
     \<and> check_file_filter ''a.png'' s' = 0 \<and> check_file_filter ''a.exe'' s' = 1"
proof -
  obtain r s' where i: "init_file_filter (\<lambda>_. True) 0 (map bars [[''*.jpg'', ''.png'']])
      \<lparr>disable_filter = True, allow_list = []\<rparr> = (r, s')" by fastforce
  have ok: "\<forall>es \<in> set [[''*.jpg'', ''.png'']]. es \<noteq> [] \<and> (\<forall>e \<in> set es. element_ok e)"
    by (simp add: element_ok_def skip_star_def)
  show ?thesis
    using filter_allows_suffixes [OF ok i, of "''a.png''"] filter_allows_suffixes [OF ok i, of "''a.exe''"] i
    by (auto simp: is_suffix_def skip_star_def)
qed

text \<open>
  An empty element ends the list: the elements after it are never added.
\<close>

lemma empty_element_hides_rest:
  assumes "\<forall>e \<in> set es. element_ok e" and "skip_star z = []" and "CHR ''|'' \<notin> set z" and "es \<noteq> []"
  shows "sub_init_filter (\<lambda>_. True) (bars es @ CHR ''|'' # z @ CHR ''|'' # rest) 0 l
    = (0, rev (map suffix_filter es) @ l)"
  using assms(1,4)
proof (induction es arbitrary: l rule: bars.induct)
  case (2 e)
  have "sub_init_filter (\<lambda>_. True) (z @ CHR ''|'' # rest) 0 l' = (0, l')" for l'
    using assms(2,3)
    by (simp add: sub_init_filter.simps [of _ "z @ _"] sub_init_filter.simps [of _ "[]"] strchr_append skip_star_def)
  with 2 show ?case
    by (simp add: sub_init_filter.simps [of _ "e @ _"] strchr_append element_ok_def add_filter_element [unfolded element_ok_def])
next
  case (3 e e' es)
  then show ?case
    by (simp add: sub_init_filter.simps [of _ "e @ _"] strchr_append element_ok_def add_filter_element [unfolded element_ok_def])
qed simp

end
