(* ===== verification/Pfs_Store.thy ===== *)
theory Pfs_Store
  imports Pfs_Task Pfs_Md5 Pfs_Topology Pfs_Filter
begin

section \<open>Files of a storage server (network/pfs_localfile.c, pfs_time_stamp.c, pfs_del_file.c)\<close>

text \<open>
  A storage server keeps its files below \<^verbatim>\<open>datadir\<close>, in directories \<^verbatim>\<open>d1/d2\<close>.  A received file is
  written under a temporary name and renamed when its digest is right; a deleted file is renamed,
  entered in the list of deletions and removed by a timer.  A third file holds, for every
  directory pair, the time of its newest file.

  The file system is part of the state: file contents and modification times by path, and the
  directories that exist.  What system calls decide is the record \<open>os_env\<close>: \<open>os_open\<close> is the
  descriptor given for a path or \<open>-1\<close> (a missing directory makes \<^verbatim>\<open>open\<close> fail in any case),
  \<open>os_before\<close> the characters in memory before a task's file name, the nearest first, which
  \<^verbatim>\<open>storage_convert\<close> may read.  \<open>None\<close> is a write beyond the end of a buffer, where the behaviour of
  the program is undefined.
\<close>

subsection \<open>State\<close>

abbreviation LOCALFILE_OK :: int where "LOCALFILE_OK \<equiv> 0"
abbreviation LOCALFILE_MD5_E :: int where "LOCALFILE_MD5_E \<equiv> 2"
abbreviation LOCALFILE_DIR_E :: int where "LOCALFILE_DIR_E \<equiv> 4"
abbreviation LOCALFILE_FILE_E :: int where "LOCALFILE_FILE_E \<equiv> 5"
abbreviation LOCALFILE_OPEN_E :: int where "LOCALFILE_OPEN_E \<equiv> 6"
abbreviation LOCALFILE_RENAME_E :: int where "LOCALFILE_RENAME_E \<equiv> 7"

abbreviation DISK_OK :: int where "DISK_OK \<equiv> 0"
abbreviation DISK_SPACE_TOO_SMALL :: int where "DISK_SPACE_TOO_SMALL \<equiv> 1"
abbreviation DISK_ERR :: int where "DISK_ERR \<equiv> 2"

datatype file_kind = VIDEOFILE | VIDEOTMP

record t_pfs_del_file =
  dl_dtime :: string
  dl_file :: string

record store =
  fs_files :: "string \<Rightarrow> bytes option"
  fs_mtime :: "string \<Rightarrow> int"
  fs_dirs :: "string list"
  fs_stamp :: "int list"
  fs_dellog :: "t_pfs_del_file list option"
  fs_timer :: timer_state
  g_index :: uint32

record os_env =
  os_time :: int
  os_strtime :: string
  os_mkdir :: "string \<Rightarrow> bool"
  os_open :: "string \<Rightarrow> int"
  os_rename :: bool
  os_unlink :: bool
  os_statfs :: "string \<Rightarrow> (uint64 \<times> uint64) option"
  os_malloc :: "nat option"
  os_dellog_open :: bool
  os_dellog_write :: bool
  os_before :: string

text \<open>The part of \<^verbatim>\<open>g_config\<close> these files read.\<close>

record store_config =
  cf_datadir :: string
  cf_DIR1 :: int
  cf_DIR2 :: int
  cf_mindiskfree :: uint64
  cf_real_rm_time :: int

subsection \<open>Names\<close>

fun trim_rep :: "char \<Rightarrow> bool \<Rightarrow> string \<Rightarrow> string" where
  "trim_rep sep lst [] = []"
| "trim_rep sep lst (c # cs) =
     (if lst \<and> c = sep then trim_rep sep lst cs else c # trim_rep sep (c = sep) cs)"

definition trim_sep :: "string \<Rightarrow> char \<Rightarrow> string" where
  "trim_sep s sep = (if length s \<ge> 1023 then s else trim_rep sep False s)"

text \<open>
  The loop that walks back from the last slash over digits and slashes; the first argument are
  the characters before the current one, the nearest first, the second the text from it on.
\<close>

fun walk_back :: "string \<Rightarrow> string \<Rightarrow> string \<Rightarrow> string" where
  "walk_back [] here lst = lst"
| "walk_back (c # cs) here lst =
     (if isdigit c \<or> c = CHR ''/''
      then walk_back cs (c # here) (if c = CHR ''/'' then c # here else lst)
      else lst)"

definition storage_convert :: "store_config \<Rightarrow> os_env \<Rightarrow> t_task_base \<Rightarrow> (int \<times> t_task_base) option" where
  "storage_convert cf env task =
     (case strrchr (CHR ''/'') (b_filename task) of
        None \<Rightarrow> Some (LOCALFILE_DIR_E, task)
      | Some (a, b) \<Rightarrow>
          let lst = walk_back (rev a @ os_before env) (CHR ''/'' # b) (CHR ''/'' # b);
              realfile = cf_datadir cf @ lst
          in if length realfile \<ge> 256 then None
             else Some (LOCALFILE_OK, task\<lparr>b_retfile := snprintf_s 256 lst,
                          b_filename := trim_sep (snprintf_s 256 realfile) (CHR ''/'')\<rparr>))"

definition get_tmpstr :: "os_env \<Rightarrow> nat \<Rightarrow> store \<Rightarrow> string \<times> store" where
  "get_tmpstr env n st =
     (snprintf_s n (''_'' @ os_strtime env @ ''_'' @ dec_int (sint (g_index st))), st\<lparr>g_index := g_index st + 1\<rparr>)"

subsection \<open>Directories\<close>

definition path_exists :: "string \<Rightarrow> store \<Rightarrow> bool" where
  "path_exists p st \<longleftrightarrow> p \<in> set (fs_dirs st) \<or> fs_files st p \<noteq> None"

text \<open>
  The positions at which \<^verbatim>\<open>createdir\<close> cuts the path.  When \<^verbatim>\<open>mkdir\<close> fails the terminator is left at
  the cut, so the caller's path is shortened.
\<close>

fun createdir_at :: "os_env \<Rightarrow> string \<Rightarrow> nat list \<Rightarrow> store \<Rightarrow> int \<times> string \<times> store" where
  "createdir_at env file [] st = (0, file, st)"
| "createdir_at env file (i # is) st =
     (let d = take i file in
      if path_exists d st then createdir_at env file is st
      else if os_mkdir env d then createdir_at env file is (st\<lparr>fs_dirs := d # fs_dirs st\<rparr>)
      else (-1, d, st))"

definition createdir :: "os_env \<Rightarrow> string \<Rightarrow> store \<Rightarrow> int \<times> string \<times> store" where
  "createdir env file st = createdir_at env file (filter (\<lambda>i. file ! i = CHR ''/'') [1..<length file]) st"

subsection \<open>Time stamps (pfs_time_stamp.c)\<close>

text \<open>The file is a list of cells of eight bytes; all positions are multiples of that size.\<close>

definition init_pfs_time_stamp :: "store_config \<Rightarrow> os_env \<Rightarrow> bool \<Rightarrow> bool \<Rightarrow> store \<Rightarrow> int \<times> store" where
  "init_pfs_time_stamp cf env opened truncated st =
     (if \<not> opened \<or> \<not> truncated then (-1, st)
      else let n = nat (cf_DIR1 cf * cf_DIR2 cf) in
           (0, st\<lparr>fs_stamp := take n (fs_stamp st) @ replicate (n - length (fs_stamp st)) 0,
                  fs_timer := snd (add_to_delay_task (os_malloc env) (os_time env)
                    \<lparr>t_cb = Cb_sync_fd, t_args = [], next_time = 0, span_time = 600, t_loop = 1\<rparr> (fs_timer st))\<rparr>))"

definition set_time_stamp_by_int :: "store_config \<Rightarrow> int \<Rightarrow> int \<Rightarrow> int \<Rightarrow> store \<Rightarrow> int \<times> store" where
  "set_time_stamp_by_int cf dir1 dir2 tval st =
     (let pos = dir1 * cf_DIR2 cf + dir2 in
      if pos < 0 then (-1, st)
      else (0, st\<lparr>fs_stamp := (fs_stamp st @ replicate (nat pos + 1 - length (fs_stamp st)) 0)[nat pos := tval]\<rparr>))"

definition set_time_stamp :: "store_config \<Rightarrow> t_task_base \<Rightarrow> store \<Rightarrow> int \<times> store" where
  "set_time_stamp cf task st =
     (case get_dir1_dir2 (cf_DIR1 cf) (cf_DIR2 cf) (b_filename task) of
        None \<Rightarrow> (-1, st)
      | Some (d1, d2) \<Rightarrow> set_time_stamp_by_int cf d1 d2 (b_mtime task) st)"

definition get_time_stamp_by_int :: "store_config \<Rightarrow> int \<Rightarrow> int \<Rightarrow> store \<Rightarrow> int" where
  "get_time_stamp_by_int cf dir1 dir2 st =
     (let pos = dir1 * cf_DIR2 cf + dir2 in
      if pos < 0 \<or> int (length (fs_stamp st)) \<le> pos then -1 else fs_stamp st ! nat pos)"

subsection \<open>The list of deletions (pfs_del_file.c)\<close>

definition add_2_del_file :: "os_env \<Rightarrow> t_task_base \<Rightarrow> store \<Rightarrow> int \<times> store" where
  "add_2_del_file env base st =
     (if \<not> os_dellog_open env then (-1, st)
      else let log = (case fs_dellog st of None \<Rightarrow> [] | Some l \<Rightarrow> l);
               e = \<lparr>dl_dtime = snprintf_s 10 (dec_int (b_mtime base)), dl_file = snprintf_s 256 (b_filename base)\<rparr>
           in (0, st\<lparr>fs_dellog := Some (if os_dellog_write env then log @ [e] else log)\<rparr>))"

text \<open>The reading loop: index and file name of the first entry with the time looked for.\<close>

fun find_entry :: "t_pfs_del_file list \<Rightarrow> int \<Rightarrow> int \<Rightarrow> (int \<times> string) option" where
  "find_entry [] lst index = None"
| "find_entry (e # es) lst index =
     (if atol (dl_dtime e) = lst then Some (index + 1, dl_file e) else find_entry es lst (index + 1))"

definition find_last_index :: "os_env \<Rightarrow> t_task_base \<Rightarrow> int \<Rightarrow> store \<Rightarrow> int \<times> t_task_base" where
  "find_last_index env base lst st =
     (case fs_dellog st of
        None \<Rightarrow> (-1, base)
      | Some log \<Rightarrow>
          if \<not> os_dellog_open env then (-1, base)
          else case find_entry log lst (-1) of
                 None \<Rightarrow> (-1, base)
               | Some (i, f) \<Rightarrow> (i, base\<lparr>b_filename := snprintf_s 256 f\<rparr>))"

text \<open>
  The index \<open>next\<close> is not negative in the calls of the program.  The function looks at the entry
  only to compare its time: the task keeps its file name.
\<close>

definition get_from_del_file :: "os_env \<Rightarrow> t_task_base \<Rightarrow> nat \<Rightarrow> int \<Rightarrow> store \<Rightarrow> int" where
  "get_from_del_file env base next cur st =
     (case fs_dellog st of
        None \<Rightarrow> -1
      | Some log \<Rightarrow>
          if length log \<le> next then -1
          else if \<not> os_dellog_open env then -1
          else if atol (dl_dtime (log ! next)) > cur then -1
          else int next)"

subsection \<open>Operations on files\<close>

definition real_rm_file :: "os_env \<Rightarrow> string \<Rightarrow> store \<Rightarrow> store" where
  "real_rm_file env file st = (if os_unlink env then st\<lparr>fs_files := (fs_files st)(file := None)\<rparr> else st)"

definition rename_file :: "os_env \<Rightarrow> string \<Rightarrow> string \<Rightarrow> store \<Rightarrow> store option" where
  "rename_file env a b st =
     (if os_rename env \<and> fs_files st a \<noteq> None
      then Some (if a = b then st
                 else st\<lparr>fs_files := (fs_files st)(b := fs_files st a, a := None),
                         fs_mtime := (fs_mtime st)(b := fs_mtime st a)\<rparr>)
      else None)"

definition delete_localfile ::
  "store_config \<Rightarrow> os_env \<Rightarrow> t_task_base \<Rightarrow> store \<Rightarrow> (int \<times> t_task_base \<times> store) option" where
  "delete_localfile cf env task st =
     (case storage_convert cf env task of
        None \<Rightarrow> None
      | Some (r, task1) \<Rightarrow>
          if r \<noteq> LOCALFILE_OK then Some (LOCALFILE_DIR_E, task1, st)
          else let rmfile = snprintf_s 256 (b_filename task1 @ ''.tmp4rm'') in
            case rename_file env (b_filename task1) rmfile st of
              None \<Rightarrow> Some (LOCALFILE_RENAME_E, task1, st)
            | Some st1 \<Rightarrow>
                let st2 = snd (add_2_del_file env task1 st1);
                    t = \<lparr>t_cb = Cb_real_rm_file, t_args = rmfile, next_time = 0, span_time = cf_real_rm_time cf, t_loop = 0\<rparr>
                in Some (LOCALFILE_OK, task1,
                     st2\<lparr>fs_timer := snd (add_to_delay_task (os_malloc env) (os_time env) t (fs_timer st2))\<rparr>))"

text \<open>The results of \<^verbatim>\<open>fread\<close> in \<^verbatim>\<open>getfilemd5\<close> on a file with the given contents.\<close>

function fread_pieces :: "bytes \<Rightarrow> (bytes \<times> bool) list" where
  "fread_pieces c =
     (if length c < 2 ^ 20 then [(c, True)] else (take (2 ^ 20) c, False) # fread_pieces (drop (2 ^ 20) c))"
  by pat_completeness auto

termination
  by (relation "measure length") auto

declare fread_pieces.simps [simp del]

definition file_md5 :: "string \<Rightarrow> store \<Rightarrow> bytes option" where
  "file_md5 name st = getfilemd5 (map_option fread_pieces (fs_files st name))"

text \<open>The 17 bytes of \<^verbatim>\<open>filemd5\<close> are compared; the last one of the computed digest is zero.\<close>

definition check_localfile_md5 ::
  "store_config \<Rightarrow> os_env \<Rightarrow> t_task_base \<Rightarrow> file_kind \<Rightarrow> store \<Rightarrow> (int \<times> t_task_base \<times> store) option" where
  "check_localfile_md5 cf env task type st =
     (case (if type = VIDEOTMP then Some (LOCALFILE_OK, task) else storage_convert cf env task) of
        None \<Rightarrow> None
      | Some (_, task1) \<Rightarrow>
          let outdir = (if type = VIDEOTMP then b_tmpfile task1 else b_filename task1) in
          Some (case file_md5 outdir st of
             None \<Rightarrow> (LOCALFILE_FILE_E, task1, st)
           | Some md5 \<Rightarrow>
               if md5 @ [0] \<noteq> b_filemd5 task1 then (LOCALFILE_MD5_E, task1, st)
               else (LOCALFILE_OK, task1, st\<lparr>fs_mtime := (fs_mtime st)(outdir := b_mtime task1)\<rparr>)))"

definition open_localfile_4_read :: "os_env \<Rightarrow> t_task_base \<Rightarrow> store \<Rightarrow> int \<times> int" where
  "open_localfile_4_read env task st =
     (let fd = (if fs_files st (b_filename task) = None then -1 else os_open env (b_filename task)) in
      if fd < 0 then (LOCALFILE_OPEN_E, fd) else (LOCALFILE_OK, fd))"

text \<open>\<^verbatim>\<open>open\<close> with \<^verbatim>\<open>O_CREAT\<close>: the descriptor, and whether the directory is missing (\<^verbatim>\<open>ENOENT\<close>).\<close>

definition parent_exists :: "string \<Rightarrow> store \<Rightarrow> bool" where
  "parent_exists p st = (case strrchr (CHR ''/'') p of None \<Rightarrow> True | Some (d, _) \<Rightarrow> d = [] \<or> d \<in> set (fs_dirs st))"

definition open_create :: "os_env \<Rightarrow> string \<Rightarrow> store \<Rightarrow> int \<times> bool \<times> store" where
  "open_create env p st =
     (if \<not> parent_exists p st then (-1, True, st)
      else if os_open env p < 0 then (-1, False, st)
      else (os_open env p, False,
            st\<lparr>fs_files := (fs_files st)(p := Some (case fs_files st p of None \<Rightarrow> [] | Some c \<Rightarrow> c))\<rparr>))"

definition tmp_name :: "os_env \<Rightarrow> t_task_base \<Rightarrow> store \<Rightarrow> string" where
  "tmp_name env task st = b_filename task @ ''.'' @ fst (get_tmpstr env 32 st) @ ''.pfs''"

text \<open>\<open>fd\<close> is the descriptor before the call, which some error returns leave as it is.\<close>

definition open_tmp_localfile_4_write ::
  "store_config \<Rightarrow> os_env \<Rightarrow> t_task_base \<Rightarrow> int \<Rightarrow> store \<Rightarrow> (int \<times> t_task_base \<times> int \<times> store) option" where
  "open_tmp_localfile_4_write cf env task fd st =
     (case storage_convert cf env task of
        None \<Rightarrow> None
      | Some (r, task1) \<Rightarrow>
          if r \<noteq> LOCALFILE_OK then Some (LOCALFILE_DIR_E, task1, fd, st)
          else let tmp = tmp_name env task1 st; st1 = snd (get_tmpstr env 32 st); task2 = task1\<lparr>b_tmpfile := tmp\<rparr> in
            if length tmp \<ge> 256 then None
            else case open_create env tmp st1 of (fd1, enoent, st2) \<Rightarrow>
              if fd1 < 0 \<and> enoent then
                (case strrchr (CHR ''/'') (b_filename task2) of
                   None \<Rightarrow> Some (LOCALFILE_DIR_E, task2, fd1, st2)
                 | Some (d, b) \<Rightarrow>
                     (case (if path_exists d st2 then (0, d, st2) else createdir env d st2) of (r2, d', st3) \<Rightarrow>
                        if r2 \<noteq> 0 then
                          Some (LOCALFILE_DIR_E, task2\<lparr>b_filename := d'\<rparr>, fd1, st3)
                        else (case open_create env tmp st3 of (fd2, _, st4) \<Rightarrow>
                          Some (if fd2 < 0 then LOCALFILE_OPEN_E else LOCALFILE_OK, task2, fd2, st4))))
              else Some (LOCALFILE_OK, task2, fd1, st2))"

text \<open>
  \<open>md5\<close> are the 17 bytes at the pointer passed.
\<close>

definition close_tmp_check_mv ::
  "store_config \<Rightarrow> os_env \<Rightarrow> t_task_base \<Rightarrow> int \<Rightarrow> bytes \<Rightarrow> store \<Rightarrow> (int \<times> t_task_base \<times> store) option" where
  "close_tmp_check_mv cf env task fd md5 st =
     (if fd < 0 then Some (LOCALFILE_OPEN_E, task, st)
      else
        case (if md5 = b_filemd5 task
              then Some (LOCALFILE_OK, task, st\<lparr>fs_mtime := (fs_mtime st)(b_tmpfile task := b_mtime task)\<rparr>)
              else check_localfile_md5 cf env task VIDEOTMP st) of
          None \<Rightarrow> None
        | Some (r, task1, st1) \<Rightarrow>
            if r \<noteq> LOCALFILE_OK then Some (r, task1, st1)
            else case rename_file env (b_tmpfile task1) (b_filename task1) st1 of
                   None \<Rightarrow> Some (LOCALFILE_RENAME_E, task1, st1)
                 | Some st2 \<Rightarrow> Some (LOCALFILE_OK, task1, snd (set_time_stamp cf task1 st2)))"

definition check_disk_space :: "store_config \<Rightarrow> os_env \<Rightarrow> t_task_base \<Rightarrow> store \<Rightarrow> int \<times> store" where
  "check_disk_space cf env base st =
     (case strrchr (CHR ''/'') (b_filename base) of
        None \<Rightarrow> (DISK_ERR, st)
      | Some (path, _) \<Rightarrow>
          (case (if path_exists path st then (0, path, st) else createdir env path st) of (r, path1, st1) \<Rightarrow>
             if r \<noteq> 0 then (LOCALFILE_DIR_E, st1)
             else case os_statfs env path1 of
                    None \<Rightarrow> (DISK_ERR, st1)
                  | Some (bfree, bsize) \<Rightarrow>
                      (if cf_mindiskfree cf > bfree * bsize then DISK_SPACE_TOO_SMALL else DISK_OK, st1)))"

definition get_localfile_stat :: "t_task_base \<Rightarrow> store \<Rightarrow> int \<times> t_task_base" where
  "get_localfile_stat task st =
     (case fs_files st (b_filename task) of
        None \<Rightarrow> (LOCALFILE_DIR_E, task)
      | Some c \<Rightarrow>
          let task1 = task\<lparr>b_mtime := fs_mtime st (b_filename task), b_fsize := int (length c)\<rparr> in
          (case file_md5 (b_filename task) st of
             None \<Rightarrow> (LOCALFILE_FILE_E, task1)
           | Some md5 \<Rightarrow> (LOCALFILE_OK, task1\<lparr>b_filemd5 := put_at 0 md5 (b_filemd5 task)\<rparr>)))"

text \<open>The entries of a directory with their \<^verbatim>\<open>st_ctime\<close>, \<open>None\<close> where \<^verbatim>\<open>stat\<close> fails.\<close>

fun dir_lasttime :: "filter_state \<Rightarrow> (string \<times> int option) list \<Rightarrow> int \<Rightarrow> int" where
  "dir_lasttime flt [] maxtime = maxtime"
| "dir_lasttime flt ((name, ctime) # es) maxtime =
     (if take 1 name = ''.'' \<or> check_file_filter name flt \<noteq> 0 then dir_lasttime flt es maxtime
      else case ctime of
             None \<Rightarrow> dir_lasttime flt es maxtime
           | Some t \<Rightarrow> dir_lasttime flt es (if t \<ge> maxtime then t else maxtime))"

definition get_dir_lasttime :: "os_env \<Rightarrow> filter_state \<Rightarrow> (string \<times> int option) list option \<Rightarrow> int" where
  "get_dir_lasttime env flt dir = (case dir of None \<Rightarrow> os_time env | Some es \<Rightarrow> dir_lasttime flt es 0)"

definition get_storage_dir_lasttime ::
  "store_config \<Rightarrow> os_env \<Rightarrow> filter_state \<Rightarrow> (string \<Rightarrow> (string \<times> int option) list option) \<Rightarrow> int \<Rightarrow> int \<Rightarrow> int" where
  "get_storage_dir_lasttime cf env flt opendir d1 d2 =
     get_dir_lasttime env flt (opendir (cf_datadir cf @ ''/'' @ dec_int d1 @ ''/'' @ dec_int d2 @ ''/''))"

subsection \<open>Names of stored files\<close>

definition dir_char :: "char \<Rightarrow> bool" where
  "dir_char c \<longleftrightarrow> isdigit c \<or> c = CHR ''/''"

lemma walk_back_dirs:
  assumes "here = w @ lst" and "\<forall>c \<in> set w. isdigit c"
  shows "\<exists>u. walk_back pre here lst = u @ lst \<and> (\<forall>c \<in> set u. dir_char c) \<and> take 1 u \<in> {[], ''/''}"
  using assms
proof (induction pre arbitrary: here w lst)
  case (Cons c pre)
  consider (slash) "c = CHR ''/''" | (digit) "isdigit c" "c \<noteq> CHR ''/''" | (stop) "\<not> isdigit c" "c \<noteq> CHR ''/''"
    by auto
  then show ?case
  proof cases
    case slash
    obtain u where "walk_back pre (c # here) (c # here) = u @ c # here" "\<forall>c \<in> set u. dir_char c" "take 1 u \<in> {[], ''/''}"
      using Cons.IH [of "c # here" "[]" "c # here"] by auto
    then show ?thesis
      using slash Cons.prems by (intro exI [of _ "u @ c # w"]) (cases u; auto simp: dir_char_def)
  next
    case digit
    then show ?thesis using Cons.IH [of "c # here" "c # w" lst] Cons.prems by auto
  qed auto
qed auto

lemma trim_rep_append:
  "trim_rep sep l (a @ b) = trim_rep sep l a @ trim_rep sep (if a = [] then l else List.last a = sep) b"
proof (induction a arbitrary: l)
  case (Cons c a)
  then show ?case by (cases "a = []") auto
qed simp

lemma trim_rep_id: "sep \<notin> set s \<Longrightarrow> trim_rep sep l s = s"
  by (induction s arbitrary: l) auto

lemma trim_rep_set: "set (trim_rep sep l s) \<subseteq> set s"
  by (induction s arbitrary: l) auto

lemma trim_rep_length: "length (trim_rep sep l s) \<le> length s"
  by (induction s arbitrary: l) (auto simp: le_SucI)

lemma trim_rep_idem: "trim_rep sep l (trim_rep sep l s) = trim_rep sep l s"
  by (induction s arbitrary: l) auto

lemma trim_rep_last: "s \<noteq> [] \<Longrightarrow> (trim_rep sep False s \<noteq> [] \<and> List.last (trim_rep sep False s) = List.last s)"
proof (induction s rule: rev_induct)
  case (snoc c s)
  show ?case
  proof (cases "s = []")
    case False
    then show ?thesis using snoc by (auto simp: trim_rep_append)
  qed simp
qed simp

text \<open>Directories of digits followed by a name stay of this form.\<close>

lemma trim_rep_dirs:
  assumes "CHR ''/'' \<notin> set b" and "\<forall>c \<in> set u. dir_char c"
  shows "\<exists>u'. trim_rep (CHR ''/'') False (u @ CHR ''/'' # b) = u' @ CHR ''/'' # b \<and> (\<forall>c \<in> set u'. dir_char c)"
proof -
  let ?v = "trim_rep (CHR ''/'') False (u @ ''/'')"
  have v: "?v \<noteq> []" "List.last ?v = CHR ''/''" using trim_rep_last [of "u @ ''/''"] by simp_all
  have "trim_rep (CHR ''/'') False (u @ CHR ''/'' # b) = ?v @ b"
    using trim_rep_append [of "CHR ''/''" False "u @ ''/''" b] trim_rep_id [OF assms(1)] by simp
  also have "\<dots> = butlast ?v @ CHR ''/'' # b" using append_butlast_last_id [OF v(1)] v(2) by (metis append.assoc append_Cons append_Nil)
  finally have "trim_rep (CHR ''/'') False (u @ CHR ''/'' # b) = butlast ?v @ CHR ''/'' # b" .
  moreover have "dir_char c" if "c \<in> set (butlast ?v)" for c
    using in_set_butlastD [OF that] trim_rep_set [of "CHR ''/''" False "u @ ''/''"] assms(2) by (auto simp: dir_char_def)
  ultimately show ?thesis by blast
qed

text \<open>A data directory as it is configured: no doubled slash, none at the end.\<close>

definition datadir_ok :: "string \<Rightarrow> bool" where
  "datadir_ok d \<longleftrightarrow> d \<noteq> [] \<and> List.last d \<noteq> CHR ''/'' \<and> trim_rep (CHR ''/'') False d = d"

lemma storage_convert_shape:
  assumes "storage_convert cf env task = Some (LOCALFILE_OK, task')" and "datadir_ok (cf_datadir cf)"
  obtains a b u where "b_filename task = a @ CHR ''/'' # b" "CHR ''/'' \<notin> set b"
    "b_filename task' = cf_datadir cf @ u @ CHR ''/'' # b" "\<forall>c \<in> set u. dir_char c"
    "take 1 (u @ ''/'') = ''/''"
    "length (b_filename task') < 256" "trim_rep (CHR ''/'') False (u @ CHR ''/'' # b) = u @ CHR ''/'' # b"
proof -
  obtain a b where ab: "b_filename task = a @ CHR ''/'' # b" "CHR ''/'' \<notin> set b"
    "strrchr (CHR ''/'') (b_filename task) = Some (a, b)"
    using assms(1) by (auto simp: storage_convert_def strrchr_Some_iff split: option.splits)
  let ?l = "walk_back (rev a @ os_before env) (CHR ''/'' # b) (CHR ''/'' # b)"
  obtain u where u: "?l = u @ CHR ''/'' # b" "\<forall>c \<in> set u. dir_char c" "take 1 u \<in> {[], ''/''}"
    using walk_back_dirs [of "CHR ''/'' # b" "[]" "CHR ''/'' # b"] by auto
  have c: "length (cf_datadir cf @ ?l) < 256" "b_filename task' = trim_sep (cf_datadir cf @ ?l) (CHR ''/'')"
    using assms(1) ab(3) by (auto simp: storage_convert_def Let_def snprintf_s_fits split: if_splits)
  obtain u' where u': "trim_rep (CHR ''/'') False (u @ CHR ''/'' # b) = u' @ CHR ''/'' # b" "\<forall>c \<in> set u'. dir_char c"
    using trim_rep_dirs [OF ab(2) u(2)] by blast
  have "trim_sep (cf_datadir cf @ ?l) (CHR ''/'') = cf_datadir cf @ u' @ CHR ''/'' # b"
    using c(1) u(1) u'(1) assms(2) trim_rep_append [of "CHR ''/''" False "cf_datadir cf" ?l]
    by (simp add: trim_sep_def datadir_ok_def)
  moreover have "take 1 (u' @ ''/'') = ''/''"
  proof -
    have "take 1 (trim_rep (CHR ''/'') False (u @ CHR ''/'' # b)) = ''/''"
      using u(3) by (cases u) auto
    then show ?thesis unfolding u'(1) by (cases u') auto
  qed
  moreover have "trim_rep (CHR ''/'') False (u' @ CHR ''/'' # b) = u' @ CHR ''/'' # b"
    using trim_rep_idem [of "CHR ''/''" False "u @ CHR ''/'' # b"] unfolding u'(1) .
  ultimately show ?thesis
    using that [OF ab(1,2) _ u'(2)] c trim_rep_length [of "CHR ''/''" False "cf_datadir cf @ ?l"]
    by (simp add: trim_sep_def)
qed

lemma walk_back_skip:
  "\<forall>c \<in> set v. dir_char c \<Longrightarrow> \<exists>l. walk_back (rev v @ pre) here lst = walk_back pre (v @ here) l"
proof (induction v arbitrary: here lst rule: rev_induct)
  case (snoc c v)
  then show ?case by (auto simp: dir_char_def)
qed auto

lemma walk_back_over:
  assumes "\<forall>c \<in> set u. dir_char c" and "take 1 (u @ ''/'') = ''/''" and "u = [] \<longrightarrow> here = lst"
  shows "walk_back (rev u @ pre) here lst = walk_back pre (u @ here) (u @ here)"
proof (cases u)
  case (Cons x v)
  then have x: "x = CHR ''/''" using assms(2) by simp
  obtain l where "walk_back (rev v @ x # pre) here lst = walk_back (x # pre) (v @ here) l"
    using walk_back_skip [of v "x # pre" here lst] assms(1) Cons by auto
  then show ?thesis using Cons x by simp
qed (use assms(3) in simp)

lemma walk_back_stop:
  "\<forall>c \<in> set ds. isdigit c \<Longrightarrow> \<not> dir_char c \<Longrightarrow> walk_back (rev ds @ c # pre) here lst = lst"
proof (induction ds arbitrary: here rule: rev_induct)
  case (snoc d ds)
  then have "d \<noteq> CHR ''/''" by (auto simp: isdigit_def)
  then show ?case using snoc by simp
qed (simp add: dir_char_def)


definition example_cf :: store_config where
  "example_cf = \<lparr>cf_datadir = ''/data'', cf_DIR1 = 100, cf_DIR2 = 100, cf_mindiskfree = 0, cf_real_rm_time = 600\<rparr>"

definition example_os :: os_env where
  "example_os = \<lparr>os_time = 1000, os_strtime = ''20140101000000'', os_mkdir = (\<lambda>_. True), os_open = (\<lambda>_. 7),
     os_rename = True, os_unlink = True, os_statfs = (\<lambda>_. Some (1, 4096)), os_malloc = None,
     os_dellog_open = True, os_dellog_write = True, os_before = [NUL]\<rparr>"

definition example_base :: t_task_base where
  "example_base = zero_base\<lparr>b_filename := ''http://x/../7/42/a.jpg'', b_mtime := 1400000000\<rparr>"

lemma example_convert:
  "storage_convert example_cf example_os example_base =
     Some (LOCALFILE_OK, example_base\<lparr>b_retfile := ''/7/42/a.jpg'', b_filename := ''/data/7/42/a.jpg''\<rparr>)"
  by code_simp

lemma example_datadir_ok: "datadir_ok (cf_datadir example_cf)"
  by (simp add: datadir_ok_def example_cf_def)


text \<open>
  The conversion is idempotent: the plugins convert the name of a task again in each step
  (when they check the digest, open the temporary file, delete), and all of them mean the same
  file.  The last component of the data directory must not be a number; otherwise a second
  conversion takes it for one of the file's directories and the path changes.
\<close>

theorem storage_convert_idempotent:
  assumes "storage_convert cf env task = Some (LOCALFILE_OK, task')" and "datadir_ok (cf_datadir cf)"
    and "cf_datadir cf = p @ c # ds" and "\<not> isdigit c" and "c \<noteq> CHR ''/''" and "\<forall>d \<in> set ds. isdigit d"
  shows "\<exists>task''. storage_convert cf env' task' = Some (LOCALFILE_OK, task'')
    \<and> b_filename task'' = b_filename task' \<and> b_retfile task'' = drop (length (cf_datadir cf)) (b_filename task')"
proof -
  obtain b u where b: "CHR ''/'' \<notin> set b" "b_filename task' = cf_datadir cf @ u @ CHR ''/'' # b"
    "\<forall>c \<in> set u. dir_char c" "take 1 (u @ ''/'') = ''/''" "length (b_filename task') < 256"
    "trim_rep (CHR ''/'') False (u @ CHR ''/'' # b) = u @ CHR ''/'' # b"
    using storage_convert_shape [OF assms(1,2)] by metis
  have s: "strrchr (CHR ''/'') (b_filename task') = Some (cf_datadir cf @ u, b)"
    using b(1,2) by (simp add: strrchr_Some_iff)
  have "walk_back (rev (cf_datadir cf @ u) @ os_before env') (CHR ''/'' # b) (CHR ''/'' # b) = u @ CHR ''/'' # b"
    using walk_back_over [OF b(3,4), of "CHR ''/'' # b" "CHR ''/'' # b" "rev (cf_datadir cf) @ os_before env'"]
      walk_back_stop [of ds c "rev p @ os_before env'"] assms(3-6) by (simp add: dir_char_def)
  moreover have "trim_sep (cf_datadir cf @ u @ CHR ''/'' # b) (CHR ''/'') = cf_datadir cf @ u @ CHR ''/'' # b"
    using trim_rep_append [of "CHR ''/''" False "cf_datadir cf" "u @ CHR ''/'' # b"] assms(2) b(6)
    by (simp add: trim_sep_def datadir_ok_def)
  ultimately show ?thesis
    using s b(2,5) by (simp add: storage_convert_def snprintf_s_fits Let_def)
qed

theorem storage_convert_idempotent_witness:
  "\<exists>task''. storage_convert example_cf example_os (example_base\<lparr>b_retfile := ''/7/42/a.jpg'', b_filename := ''/data/7/42/a.jpg''\<rparr>)
      = Some (LOCALFILE_OK, task'') \<and> b_filename task'' = ''/data/7/42/a.jpg''"
  using storage_convert_idempotent [OF example_convert example_datadir_ok, of "''/dat''" "CHR ''a''" "[]" example_os]
  by (auto simp: example_cf_def isdigit_def)

subsection \<open>Publishing a received file\<close>

lemma fread_pieces_shape:
  "\<exists>ds l. fread_pieces c = map (\<lambda>d. (d, False)) ds @ [(l, True)] \<and> concat ds @ l = c
     \<and> (\<forall>d \<in> set ds. length d = 2 ^ 20) \<and> length l < 2 ^ 20"
proof (induction c rule: fread_pieces.induct)
  case (1 c)
  show ?case
  proof (cases "length c < 2 ^ 20")
    case True
    then show ?thesis by (intro exI [of _ "[]"] exI [of _ c]) (simp add: fread_pieces.simps [of c])
  next
    case False
    then obtain ds l where d: "fread_pieces (drop (2 ^ 20) c) = map (\<lambda>d. (d, False)) ds @ [(l, True)]"
      "concat ds @ l = drop (2 ^ 20) c" "\<forall>d \<in> set ds. length d = 2 ^ 20" "length l < 2 ^ 20"
      using "1.IH" by blast
    show ?thesis
      using False d by (intro exI [of _ "take (2 ^ 20) c # ds"] exI [of _ l]) (simp add: fread_pieces.simps [of c])
  qed
qed

lemma file_md5_rfc: "file_md5 name st = map_option rfc_md5 (fs_files st name)"
proof (cases "fs_files st name")
  case (Some c)
  obtain ds l where d: "fread_pieces c = map (\<lambda>d. (d, False)) ds @ [(l, True)]" "concat ds @ l = c"
    "\<And>d. d \<in> set ds \<Longrightarrow> length d = 2 ^ 20" "length l < 2 ^ 20"
    using fread_pieces_shape [of c] by blast
  then show ?thesis using Some getfilemd5_contents [OF d(3,4)] by (simp add: file_md5_def)
qed (simp add: file_md5_def getfilemd5_def)

lemma set_time_stamp_files [simp]: "fs_files (snd (set_time_stamp cf task st)) = fs_files st"
  by (simp add: set_time_stamp_def set_time_stamp_by_int_def Let_def split: option.splits)

lemma rfc_md5_length [simp]: "length (rfc_md5 c) = 16"
  by (simp add: rfc_md5_def split: prod.splits)

lemma close_tmp_total: "\<exists>r task' st'. close_tmp_check_mv cf env task fd md5 st = Some (r, task', st')"
  by (auto simp: close_tmp_check_mv_def check_localfile_md5_def Let_def split: option.split)

lemma close_tmp_match:
  assumes "0 \<le> fd" and "fs_files st (b_tmpfile task) = Some c" and "md5 = b_filemd5 task \<or> rfc_md5 c @ [0] = b_filemd5 task"
    and "os_rename env" and "b_tmpfile task \<noteq> b_filename task"
  obtains st' where "close_tmp_check_mv cf env task fd md5 st = Some (LOCALFILE_OK, task, st')"
    and "fs_files st' = (fs_files st)(b_filename task := Some c, b_tmpfile task := None)"
  using assms
  by (auto simp: close_tmp_check_mv_def check_localfile_md5_def file_md5_rfc rename_file_def Let_def split: if_splits)

lemma close_tmp_mismatch:
  assumes "0 \<le> fd" and "fs_files st (b_tmpfile task) = Some c" and "md5 \<noteq> b_filemd5 task" and "rfc_md5 c @ [0] \<noteq> b_filemd5 task"
  shows "close_tmp_check_mv cf env task fd md5 st = Some (LOCALFILE_MD5_E, task, st)"
  using assms by (simp add: close_tmp_check_mv_def check_localfile_md5_def file_md5_rfc)

lemma open_tmp_ok:
  assumes "storage_convert cf os base = Some (LOCALFILE_OK, conv)" and "tmp = tmp_name os conv st" and "length tmp < 256"
    and "parent_exists tmp st" and "0 < os_open os tmp" and "fs_files st tmp = None"
  obtains st' where "open_tmp_localfile_4_write cf os base fd st = Some (LOCALFILE_OK, conv\<lparr>b_tmpfile := tmp\<rparr>, os_open os tmp, st')"
    and "fs_files st' = (fs_files st)(tmp := Some [])"
proof -
  let ?s1 = "st\<lparr>g_index := g_index st + 1\<rparr>"
  have "parent_exists tmp ?s1 = parent_exists tmp st" by (simp add: parent_exists_def split: option.split)
  then have "open_create os tmp ?s1 = (os_open os tmp, False, ?s1\<lparr>fs_files := (fs_files st)(tmp := Some [])\<rparr>)"
    using assms(4-6) by (simp add: open_create_def)
  moreover have "snd (get_tmpstr os 32 st) = ?s1" by (simp add: get_tmpstr_def)
  ultimately have "open_tmp_localfile_4_write cf os base fd st =
      Some (LOCALFILE_OK, conv\<lparr>b_tmpfile := tmp\<rparr>, os_open os tmp, ?s1\<lparr>fs_files := (fs_files st)(tmp := Some [])\<rparr>)"
    using assms by (simp add: open_tmp_localfile_4_write_def Let_def)
  then show ?thesis by (rule that) simp
qed

lemma storage_convert_fields:
  "storage_convert cf os (base\<lparr>b_starttime := x, b_dstip := y, b_mtime := z\<rparr>) =
     map_option (\<lambda>(r, b). (r, b\<lparr>b_starttime := x, b_dstip := y, b_mtime := z\<rparr>)) (storage_convert cf os base)"
  by (simp add: storage_convert_def Let_def split: option.split)

lemma tmp_name_differs: "tmp_name os b st \<noteq> b_filename b"
  by (simp add: tmp_name_def)


definition example_received :: t_task_base where
  "example_received = zero_base\<lparr>b_filename := ''/data/7/42/a.jpg'', b_tmpfile := ''/data/7/42/a.jpg.t.pfs'',
     b_filemd5 := rfc_md5 [0x61, 0x62] @ [0], b_mtime := 1400000000\<rparr>"

definition example_store :: store where
  "example_store = \<lparr>fs_files = [''/data/7/42/a.jpg.t.pfs'' \<mapsto> [0x61, 0x62], ''/data/7/42/b.jpg'' \<mapsto> [0x63]],
     fs_mtime = (\<lambda>_. 0), fs_dirs = [''/data'', ''/data/7'', ''/data/7/42''], fs_stamp = replicate 10000 0,
     fs_dellog = None, fs_timer = \<lparr>delay_home = [0, 1], delay_active = [], timers = (\<lambda>_. zero_timer)\<rparr>, g_index = 0\<rparr>"


subsection \<open>Directories\<close>

lemma createdir_at_dirs:
  "createdir_at env f is st = (r, f', st') \<Longrightarrow> \<forall>i \<in> set is. i < length f \<Longrightarrow>
   fs_files st' = fs_files st \<and> (f \<in> set (fs_dirs st') \<longleftrightarrow> f \<in> set (fs_dirs st))"
proof (induction "is" arbitrary: st)
  case (Cons i js)
  let ?d = "take i f"
  have i: "i < length f" "\<forall>i \<in> set js. i < length f" using Cons.prems(2) by auto
  have "length ?d \<noteq> length f" using i(1) by simp
  then have d: "f \<noteq> ?d" by metis
  consider "path_exists ?d st" | "\<not> path_exists ?d st" "os_mkdir env ?d" | "\<not> path_exists ?d st" "\<not> os_mkdir env ?d"
    by blast
  then show ?case
  proof cases
    case 1
    then show ?thesis using Cons.IH [OF _ i(2)] Cons.prems(1) by (simp add: Let_def)
  next
    case 2
    then show ?thesis
      using Cons.IH [of "st\<lparr>fs_dirs := ?d # fs_dirs st\<rparr>", OF _ i(2)] Cons.prems(1) d by (simp add: Let_def)
  next
    case 3
    then show ?thesis using Cons.prems(1) by (simp add: Let_def)
  qed
qed simp

lemma createdir_dirs:
  assumes "createdir env f st = (r, f', st')"
  shows "fs_files st' = fs_files st" "f \<in> set (fs_dirs st') \<longleftrightarrow> f \<in> set (fs_dirs st)"
  using createdir_at_dirs [OF assms [unfolded createdir_def]] by auto

lemma dec_int_no_slash: "CHR ''/'' \<notin> set (dec_int i)"
  using dec_digits [of "CHR ''/''"] by (auto simp: dec_int_def isdigit_def)

lemma tmp_name_dir:
  assumes "strrchr (CHR ''/'') (b_filename task) = Some (d, b)" and "CHR ''/'' \<notin> set (os_strtime env)"
  shows "\<exists>b'. strrchr (CHR ''/'') (tmp_name env task st) = Some (d, b')"
proof -
  have "CHR ''/'' \<notin> set (fst (get_tmpstr env 32 st))"
    using assms(2) dec_int_no_slash [of "sint (g_index st)"]
    by (auto simp: get_tmpstr_def snprintf_s_def dest!: in_set_takeD)
  then show ?thesis
    using assms(1) by (auto simp: tmp_name_def strrchr_Some_iff)
qed

text \<open>
  A file whose directory does not exist yet cannot be received: \<^verbatim>\<open>createdir\<close> makes every proper
  prefix of the directory's path that ends before a slash, but not the directory itself, which is
  passed without a slash at its end, so the second attempt to open the temporary file fails as
  the first did.
\<close>

theorem missing_directory_not_created:
  assumes "storage_convert cf env task = Some (LOCALFILE_OK, task1)"
    and "strrchr (CHR ''/'') (b_filename task1) = Some (d, b)" and "d \<noteq> []" and "\<not> path_exists d st"
    and "CHR ''/'' \<notin> set (os_strtime env)"
    and "open_tmp_localfile_4_write cf env task fd st = Some (r, task', fd', st')"
  shows "(r = LOCALFILE_DIR_E \<or> r = LOCALFILE_OPEN_E) \<and> fd' < 0 \<and> d \<notin> set (fs_dirs st') \<and> fs_files st' = fs_files st"
proof -
  let ?st1 = "snd (get_tmpstr env 32 st)" and ?tmp = "tmp_name env task1 st"
  have p: "parent_exists ?tmp s \<longleftrightarrow> d \<in> set (fs_dirs s)" for s
    using tmp_name_dir [OF assms(2,5), of st] assms(3) by (auto simp: parent_exists_def)
  have g: "fs_dirs ?st1 = fs_dirs st" "fs_files ?st1 = fs_files st" by (simp_all add: get_tmpstr_def)
  then have n: "d \<notin> set (fs_dirs ?st1)" "\<not> path_exists d ?st1" using assms(4) by (simp_all add: path_exists_def)
  obtain r2 d' st3 where c: "createdir env d ?st1 = (r2, d', st3)" by (metis prod_cases3)
  have c': "d \<notin> set (fs_dirs st3)" "fs_files st3 = fs_files st"
    using createdir_dirs [OF c] n(1) g(2) by simp_all
  have o: "open_create env ?tmp s = (-1, True, s)" if "d \<notin> set (fs_dirs s)" for s
    using that p by (simp add: open_create_def)
  show ?thesis
    using assms(1,2,6) o [OF n(1)] o [OF c'(1)] c c' n(2)
    by (auto simp: open_tmp_localfile_4_write_def Let_def split: if_splits)
qed

theorem missing_directory_not_created_witness:
  "\<exists>r task' st'. open_tmp_localfile_4_write example_cf example_os (zero_base\<lparr>b_filename := ''/8/1/a.jpg''\<rparr>) (-1) example_store
       = Some (r, task', -1, st') \<and> r = LOCALFILE_OPEN_E \<and> ''/data/8'' \<in> set (fs_dirs st') \<and> ''/data/8/1'' \<notin> set (fs_dirs st')"
proof -
  let ?t = "zero_base\<lparr>b_filename := ''/8/1/a.jpg''\<rparr>"
  let ?t1 = "?t\<lparr>b_retfile := ''/8/1/a.jpg'', b_filename := ''/data/8/1/a.jpg''\<rparr>"
  have 1: "storage_convert example_cf example_os ?t = Some (LOCALFILE_OK, ?t1)" by code_simp
  have 2: "strrchr (CHR ''/'') (b_filename ?t1) = Some (''/data/8/1'', ''a.jpg'')" by (simp add: strrchr_Some_iff)
  have 3: "\<not> path_exists ''/data/8/1'' example_store" "CHR ''/'' \<notin> set (os_strtime example_os)"
    by (simp_all add: path_exists_def example_store_def example_os_def)
  have 4: "map_option (\<lambda>(r, t, f, st). (r, f, fs_dirs st)) (open_tmp_localfile_4_write example_cf example_os ?t (-1) example_store)
      = Some (LOCALFILE_OPEN_E, -1, [''/data/8'', ''/data'', ''/data/7'', ''/data/7/42''])" by code_simp
  then obtain task' st' where 5: "open_tmp_localfile_4_write example_cf example_os ?t (-1) example_store = Some (LOCALFILE_OPEN_E, task', -1, st')"
    "fs_dirs st' = [''/data/8'', ''/data'', ''/data/7'', ''/data/7/42'']" by auto
  then show ?thesis
    using missing_directory_not_created [OF 1 2 _ 3 5(1)] by auto
qed

subsection \<open>Deletion\<close>

lemma add_2_del_file_frame [simp]:
  "fs_files (snd (add_2_del_file env base st)) = fs_files st"
  "fs_timer (snd (add_2_del_file env base st)) = fs_timer st"
  by (simp_all add: add_2_del_file_def Let_def)

lemma rename_file_frame:
  "rename_file env a b st = Some st' \<Longrightarrow> fs_timer st' = fs_timer st \<and> fs_dellog st' = fs_dellog st"
  by (auto simp: rename_file_def split: if_splits)

lemma add_to_delay_task_armed:
  assumes "timers_ok tm" and "delay_home tm \<noteq> [] \<or> (\<exists>i. m = Some i \<and> i \<notin> set (delay_active tm))" and "t_loop t = 0"
    and "cur + span_time t < later"
  shows "(t_cb t, t_args t) \<in> set (fst (scan_delay_task later (snd (add_to_delay_task m cur t tm))))"
proof -
  let ?tm = "snd (add_to_delay_task m cur t tm)"
  have "timers_ok ?tm \<and> (\<exists>i. i \<in> set (delay_active ?tm) \<and> timers ?tm i = t\<lparr>next_time := cur + span_time t\<rparr>)"
  proof (cases "delay_home tm")
    case (Cons i r)
    then show ?thesis using assms(1) by (auto simp: add_to_delay_task_def arm_timer_def timers_ok_def)
  next
    case Nil
    then show ?thesis using assms(1,2) by (auto simp: add_to_delay_task_def arm_timer_def timers_ok_def)
  qed
  then obtain i where i: "timers_ok ?tm" "i \<in> set (delay_active ?tm)" "timers ?tm i = t\<lparr>next_time := cur + span_time t\<rparr>"
    by blast
  then have "due later ?tm i" "call_of ?tm i = (t_cb t, t_args t)" using assms(4) by (simp_all add: due_def call_of_def)
  then show ?thesis using i by (auto simp: scan_delay_task_effect intro!: image_eqI [of _ _ i])
qed

text \<open>
  C30: deleting a file takes it away at once and for good later: it is no longer found under its
  name, its contents stand under the name with \<^verbatim>\<open>.tmp4rm\<close> appended, the deletion is entered in the
  list, the first scan of the timers after the configured time calls \<^verbatim>\<open>real_rm_file\<close> with that
  name, and that call removes it.  Other files are not touched.
\<close>

theorem deletion_completes:
  assumes "delete_localfile cf env task st = Some (LOCALFILE_OK, task', st')"
    and "timers_ok (fs_timer st)" and "delay_home (fs_timer st) \<noteq> []"
    and "os_dellog_open env" and "os_dellog_write env" and "os_unlink env'"
    and "f = b_filename task'" and "length f < 249"
  shows "fs_files st' = (fs_files st)(f @ ''.tmp4rm'' := fs_files st f, f := None) \<and> fs_files st f \<noteq> None
    \<and> (\<exists>log. fs_dellog st' = Some (log @ [\<lparr>dl_dtime = snprintf_s 10 (dec_int (b_mtime task')), dl_file = f\<rparr>]))
    \<and> (\<forall>cur > os_time env + cf_real_rm_time cf.
         (Cb_real_rm_file, f @ ''.tmp4rm'') \<in> set (fst (scan_delay_task cur (fs_timer st'))))
    \<and> fs_files (real_rm_file env' (f @ ''.tmp4rm'') st') = (fs_files st)(f @ ''.tmp4rm'' := None, f := None)"
proof -
  let ?rm = "f @ ''.tmp4rm''"
  let ?t = "\<lparr>t_cb = Cb_real_rm_file, t_args = ?rm, next_time = 0, span_time = cf_real_rm_time cf, t_loop = 0\<rparr>"
  have rm: "snprintf_s 256 ?rm = ?rm" using assms(8) by (simp add: snprintf_s_def)
  have "\<exists>st1. rename_file env f ?rm st = Some st1 \<and> st' = (snd (add_2_del_file env task' st1))
       \<lparr>fs_timer := snd (add_to_delay_task (os_malloc env) (os_time env) ?t (fs_timer (snd (add_2_del_file env task' st1))))\<rparr>"
    using assms(1,7) rm
    by (auto simp: delete_localfile_def Let_def split: option.splits if_splits)
  then obtain st1 where st1: "rename_file env f ?rm st = Some st1" "st' = (snd (add_2_del_file env task' st1))
       \<lparr>fs_timer := snd (add_to_delay_task (os_malloc env) (os_time env) ?t (fs_timer (snd (add_2_del_file env task' st1))))\<rparr>"
    by blast
  have fl: "fs_files st1 = (fs_files st)(?rm := fs_files st f, f := None)" "fs_files st f \<noteq> None"
    using st1(1) by (auto simp: rename_file_def split: if_splits)
  have tm: "fs_timer st' = snd (add_to_delay_task (os_malloc env) (os_time env) ?t (fs_timer st))"
    using st1 rename_file_frame by fastforce
  have "fs_files st' = fs_files st1" using st1(2) by simp
  moreover have "\<exists>log. fs_dellog st' = Some (log @ [\<lparr>dl_dtime = snprintf_s 10 (dec_int (b_mtime task')), dl_file = f\<rparr>])"
    using st1(2) assms(4,5,7,8) by (simp add: add_2_del_file_def snprintf_s_fits Let_def)
  moreover have "(Cb_real_rm_file, ?rm) \<in> set (fst (scan_delay_task cur (fs_timer st')))"
    if "os_time env + cf_real_rm_time cf < cur" for cur
    using add_to_delay_task_armed [OF assms(2), of "os_malloc env" ?t "os_time env" cur] assms(3) that tm by simp
  ultimately show ?thesis using fl assms(6) by (auto simp: real_rm_file_def fun_eq_iff)
qed

theorem deletion_completes_witness:
  "\<exists>task' st'. delete_localfile example_cf example_os (zero_base\<lparr>b_filename := ''/7/42/b.jpg''\<rparr>) example_store
      = Some (LOCALFILE_OK, task', st') \<and> fs_files st' ''/data/7/42/b.jpg'' = None
     \<and> (Cb_real_rm_file, ''/data/7/42/b.jpg.tmp4rm'') \<in> set (fst (scan_delay_task 1601 (fs_timer st')))"
proof -
  let ?t = "zero_base\<lparr>b_filename := ''/7/42/b.jpg''\<rparr>"
  have "map_option (\<lambda>(r, t, st). (r, b_filename t)) (delete_localfile example_cf example_os ?t example_store)
      = Some (LOCALFILE_OK, ''/data/7/42/b.jpg'')" by code_simp
  then obtain task' st' where d: "delete_localfile example_cf example_os ?t example_store = Some (LOCALFILE_OK, task', st')"
    "b_filename task' = ''/data/7/42/b.jpg''" by auto
  have "timers_ok (fs_timer example_store)" "delay_home (fs_timer example_store) \<noteq> []"
    "os_dellog_open example_os" "os_dellog_write example_os" "os_unlink example_os"
    "os_time example_os = 1000" "cf_real_rm_time example_cf = 600"
    by (simp_all add: example_store_def example_os_def example_cf_def timers_ok_def)
  from deletion_completes [OF d(1) this(1-5), of "''/data/7/42/b.jpg''"] this(6,7) d show ?thesis by simp
qed

lemma dec_val_bound: "\<forall>c \<in> set s. isdigit c \<Longrightarrow> dec_val acc s < (acc + 1) * 10 ^ length s"
proof (induction s arbitrary: acc)
  case (Cons c s)
  then have "digit_val c \<le> 9" by (auto simp: digit_val_def isdigit_def)
  have "dec_val acc (c # s) < (acc * 10 + digit_val c + 1) * 10 ^ length s"
    using Cons by simp
  also have "\<dots> \<le> ((acc + 1) * 10) * 10 ^ length s"
    using \<open>digit_val c \<le> 9\<close> by (intro mult_right_mono) simp_all
  finally show ?case by (simp add: algebra_simps)
qed simp

lemma atol_bound: "length s \<le> n \<Longrightarrow> n \<le> 18 \<Longrightarrow> atol s < 10 ^ n"
proof -
  assume n: "length s \<le> n" "n \<le> 18"
  define t where "t = dropWhile isspace s"
  define u where "u = (case t of c # r \<Rightarrow> (if c = CHR ''-'' then r else if c = CHR ''+'' then r else t) | [] \<Rightarrow> t)"
  define v where "v = dec_val 0 (takeWhile isdigit u)"
  have "length u \<le> length s"
    using length_dropWhile_le [of isspace s] by (auto simp: u_def t_def split: list.splits)
  then have l: "length (takeWhile isdigit u) \<le> n" using length_takeWhile_le [of isdigit u] n by linarith
  have "v < 10 ^ length (takeWhile isdigit u)"
    using dec_val_bound [of "takeWhile isdigit u" 0] by (auto simp: v_def dest: set_takeWhileD)
  also have "\<dots> \<le> 10 ^ n" using l by (intro power_increasing) simp_all
  finally have v: "int v < 10 ^ n" by (metis of_nat_less_iff of_nat_numeral of_nat_power)
  have "\<exists>w \<in> {int v, - int v}. atol s = max (- (2 ^ 63)) (min (2 ^ 63 - 1) w)"
    by (cases t) (auto simp: atol_def strtol10_def Let_def u_def v_def t_def [symmetric])
  moreover have "(0::int) < 10 ^ n" by simp
  moreover have "max (- (2 ^ 63)) (min (2 ^ 63 - 1) w) \<le> max 0 w" for w :: int by (auto simp: max_def min_def)
  ultimately show ?thesis using v by (smt (verit, best) insert_iff of_nat_0_le_iff singletonD)
qed

text \<open>The list of deletions after the given files were deleted, starting without one.\<close>

definition deletions :: "t_task_base list \<Rightarrow> t_pfs_del_file list" where
  "deletions bs = map (\<lambda>b. \<lparr>dl_dtime = snprintf_s 10 (dec_int (b_mtime b)), dl_file = snprintf_s 256 (b_filename b)\<rparr>) bs"

lemma add_2_del_file_all:
  "os_dellog_open env \<Longrightarrow> os_dellog_write env \<Longrightarrow> fs_dellog st = Some log \<Longrightarrow>
   fs_dellog (fold (\<lambda>b s. snd (add_2_del_file env b s)) bs st) = Some (log @ deletions bs)"
  by (induction bs arbitrary: st log) (simp_all add: add_2_del_file_def deletions_def Let_def)

lemma find_entry_None: "find_entry es t i = None \<longleftrightarrow> (\<forall>e \<in> set es. atol (dl_dtime e) \<noteq> t)"
  by (induction es arbitrary: i) auto

lemma find_entry_index: "find_entry es t i = Some (j, f) \<Longrightarrow> i < j"
  by (induction es arbitrary: i) (fastforce split: if_splits)+

lemma find_last_index_found:
  assumes "fs_dellog st = Some log" and "os_dellog_open env"
  shows "fst (find_last_index env base t st) = -1 \<longleftrightarrow> (\<forall>e \<in> set log. atol (dl_dtime e) \<noteq> t)"
  using assms find_entry_None [of log t "-1"]
  by (auto simp: find_last_index_def dest: find_entry_index split: option.splits)

lemma dec_length_le:
  assumes "n < 10 ^ k" and "0 < k"
  shows "length (dec n) \<le> k"
proof (cases "0 < n")
  case True
  then have "(10::nat) ^ (length (dec n) - 1) < 10 ^ k" using dec_length_bounds [OF True] assms(1) by linarith
  then have "length (dec n) - 1 < k" by simp
  then show ?thesis by linarith
next
  case False
  then show ?thesis using assms(2) by (simp add: dec.simps)
qed

lemma logged_time:
  assumes "0 \<le> m" and "m < 10 ^ 9"
  shows "atol (snprintf_s 10 (dec_int m)) = m"
proof -
  have n: "nat m < 10 ^ 9" using assms by (simp add: nat_less_iff)
  then have "length (dec (nat m)) < 10" using dec_length_le [OF n] by simp
  then show ?thesis using assms atol_dec [of "nat m"] by (simp add: dec_int_def snprintf_s_fits)
qed

text \<open>
  The list of deletions is useless for times after September 2001.  Its time field keeps
  nine digits, so a search for a time of ten digits never succeeds, whatever was deleted; as
  long as all times have at most nine digits the search succeeds exactly for the times of
  deleted files.
\<close>

theorem deletion_list_blind:
  assumes "os_dellog_open env" and "os_dellog_write env" and "fs_dellog st = Some []"
    and "st' = fold (\<lambda>b s. snd (add_2_del_file env b s)) bs st"
  shows "(10 ^ 9 \<le> t \<longrightarrow> fst (find_last_index env base t st') = -1)
    \<and> ((\<forall>b \<in> set bs. 0 \<le> b_mtime b \<and> b_mtime b < 10 ^ 9) \<longrightarrow>
        (fst (find_last_index env base t st') = -1 \<longleftrightarrow> t \<notin> b_mtime ` set bs))"
proof -
  have log: "fs_dellog st' = Some (deletions bs)"
    using add_2_del_file_all [OF assms(1-3), of bs] assms(4) by simp
  have b: "atol (snprintf_s 10 s) < 10 ^ 9" for s by (rule atol_bound) (simp_all add: snprintf_s_def)
  have "fst (find_last_index env base t st') = -1" if "10 ^ 9 \<le> t"
    using that b less_le_not_le unfolding find_last_index_found [OF log assms(1)] by (fastforce simp: deletions_def)
  moreover have "fst (find_last_index env base t st') = -1 \<longleftrightarrow> t \<notin> b_mtime ` set bs"
    if "\<forall>b \<in> set bs. 0 \<le> b_mtime b \<and> b_mtime b < 10 ^ 9"
    unfolding find_last_index_found [OF log assms(1)] using that logged_time by (auto simp: deletions_def image_iff)
  ultimately show ?thesis by blast
qed

theorem deletion_list_blind_witness:
  "fst (find_last_index example_os zero_base 1400000000
     (fold (\<lambda>b s. snd (add_2_del_file example_os b s)) [zero_base\<lparr>b_mtime := 1400000000\<rparr>]
        (example_store\<lparr>fs_dellog := Some []\<rparr>))) = -1"
  using deletion_list_blind [of example_os "example_store\<lparr>fs_dellog := Some []\<rparr>" _ "[zero_base\<lparr>b_mtime := 1400000000\<rparr>]" 1400000000 zero_base]
  by (simp add: example_os_def)

subsection \<open>Time stamps\<close>

lemma stamp_pos:
  assumes "d1 < DIR1" and "d2 < DIR2"
  shows "d1 * DIR2 + d2 < DIR1 * (DIR2::nat)"
proof -
  have "d1 * DIR2 + d2 < (d1 + 1) * DIR2" using assms(2) by simp
  also have "\<dots> \<le> DIR1 * DIR2" using assms(1) by (intro mult_right_mono) simp_all
  finally show ?thesis .
qed

lemma stamp_pos_inj:
  assumes "d1 * D + d2 = e1 * D + e2" and "d2 < D" and "e2 < (D::nat)"
  shows "d1 = e1 \<and> d2 = e2"
proof -
  have "(d1 * D + d2) div D = d1" "(e1 * D + e2) div D = e1" using assms(2,3) by simp_all
  then show ?thesis using assms(1) by simp
qed

lemma stamp_ops:
  assumes "cf_DIR2 cf = int DIR2" and "length (fs_stamp st) = DIR1 * DIR2" and "d1 < DIR1" and "d2 < DIR2"
  shows "get_time_stamp_by_int cf (int d1) (int d2) st = fs_stamp st ! (d1 * DIR2 + d2)"
    and "set_time_stamp_by_int cf (int d1) (int d2) v st = (0, st\<lparr>fs_stamp := (fs_stamp st)[d1 * DIR2 + d2 := v]\<rparr>)"
proof -
  have p: "int d1 * int DIR2 + int d2 = int (d1 * DIR2 + d2)" by simp
  have "d1 * DIR2 + d2 < length (fs_stamp st)" using stamp_pos [OF assms(3,4)] assms(2) by simp
  then show "get_time_stamp_by_int cf (int d1) (int d2) st = fs_stamp st ! (d1 * DIR2 + d2)"
    "set_time_stamp_by_int cf (int d1) (int d2) v st = (0, st\<lparr>fs_stamp := (fs_stamp st)[d1 * DIR2 + d2 := v]\<rparr>)"
    unfolding get_time_stamp_by_int_def set_time_stamp_by_int_def assms(1) p Let_def
    by (simp_all del: of_nat_add of_nat_mult)
qed

text \<open>
  Storing a file in a directory pair makes its time the time stamp of that pair and of no
  other; time stamps are read back as they were set.
\<close>

theorem time_stamp_of_file:
  assumes "cf_DIR1 cf = int DIR1" and "cf_DIR2 cf = int DIR2" and "DIR1 < 2 ^ 31" and "DIR2 < 2 ^ 31"
    and "length (fs_stamp st) = DIR1 * DIR2" and "d1 < DIR1" and "d2 < DIR2" and "e1 < DIR1" and "e2 < DIR2"
    and "b_filename task = p @ ''/'' @ dec d1 @ ''/'' @ dec d2 @ ''/'' @ name" and "CHR ''/'' \<notin> set name"
    and "length (b_filename task) < 256"
  shows "fst (set_time_stamp cf task st) = 0
    \<and> get_time_stamp_by_int cf (int e1) (int e2) (snd (set_time_stamp cf task st))
      = (if e1 = d1 \<and> e2 = d2 then b_mtime task else get_time_stamp_by_int cf (int e1) (int e2) st)"
proof -
  have dirs: "get_dir1_dir2 (int DIR1) (int DIR2) (b_filename task) = Some (int d1, int d2)"
    by (rule dirs_of_path [OF assms(11,6,7,3,4,10,12)])
  have e: "d1 * DIR2 + d2 = e1 * DIR2 + e2 \<longleftrightarrow> e1 = d1 \<and> e2 = d2"
    using stamp_pos_inj [OF _ assms(7,9)] by auto
  have "(fs_stamp st)[d1 * DIR2 + d2 := b_mtime task] ! (e1 * DIR2 + e2)
      = (if e1 = d1 \<and> e2 = d2 then b_mtime task else fs_stamp st ! (e1 * DIR2 + e2))"
    using stamp_pos [OF assms(8,9)] assms(5) e by (auto simp: nth_list_update)
  then show ?thesis
    using dirs assms(1,2) stamp_ops(2) [OF assms(2,5-7), of "b_mtime task"] stamp_ops(1) [OF assms(2,5,8,9)]
      stamp_ops(1) [OF assms(2) _ assms(8,9), of "st\<lparr>fs_stamp := (fs_stamp st)[d1 * DIR2 + d2 := b_mtime task]\<rparr>"] assms(5)
    by (simp add: set_time_stamp_def)
qed

theorem time_stamp_of_file_witness:
  "get_time_stamp_by_int example_cf 7 42
     (snd (set_time_stamp example_cf (zero_base\<lparr>b_filename := ''/data/7/42/a.jpg'', b_mtime := 99\<rparr>) example_store)) = 99"
proof -
  have "''/data/7/42/a.jpg'' = ''/data'' @ ''/'' @ dec 7 @ ''/'' @ dec 42 @ ''/'' @ ''a.jpg''" by code_simp
  then show ?thesis
    using time_stamp_of_file [of example_cf 100 100 example_store 7 42 7 42
        "zero_base\<lparr>b_filename := ''/data/7/42/a.jpg'', b_mtime := 99\<rparr>" "''/data''" "''a.jpg''"]
    by (simp add: example_cf_def example_store_def)
qed

lemma Max_insert_two: "finite S \<Longrightarrow> Max (insert m (insert t S)) = Max (insert (max m t) (S :: int set))"
  by (cases "S = {}") (simp_all add: max.assoc)

text \<open>The newest time of a directory is the largest among the files that pass the filter.\<close>

lemma dir_lasttime_Max:
  "dir_lasttime flt es m = Max (insert m {t. \<exists>name. (name, Some t) \<in> set es \<and> take 1 name \<noteq> ''.'' \<and> check_file_filter name flt = 0})"
proof (induction flt es m rule: dir_lasttime.induct)
  case (2 flt name ctime es m)
  let ?S = "\<lambda>es. {t. \<exists>name. (name, Some t) \<in> set es \<and> take 1 name \<noteq> ''.'' \<and> check_file_filter name flt = 0}"
  have fin: "finite (?S es)" for es
    by (rule finite_subset [of _ "(\<lambda>(n, t). the t) ` set es"]) force+
  consider (skip) "take 1 name = ''.'' \<or> check_file_filter name flt \<noteq> 0 \<or> ctime = None"
    | (take) t where "take 1 name \<noteq> ''.''" "check_file_filter name flt = 0" "ctime = Some t" by auto
  then show ?case
  proof cases
    case skip
    then have "?S ((name, ctime) # es) = ?S es" by auto
    then show ?thesis using skip 2 by auto
  next
    case take
    then have s: "?S ((name, ctime) # es) = insert t (?S es)" by auto
    have "Max (insert m (insert t (?S es))) = Max (insert (max m t) (?S es))" by (rule Max_insert_two [OF fin])
    moreover have "(if t \<ge> m then t else m) = max m t" by simp
    ultimately show ?thesis using take 2(3) s by simp
  qed
qed simp

end
