(* ===== verification/Pfs_Wire.thy ===== *)
theory Pfs_Wire
  imports Pfs_Task
begin

section \<open>Structures in messages\<close>

text \<open>
  The storage servers send the C structures \<^verbatim>\<open>t_task_base\<close> (824 bytes) and \<^verbatim>\<open>t_pfs_sync_task\<close> (32
  bytes) of \<^verbatim>\<open>lib/pfs_task.h\<close> as message bodies, in the layout the compiler gives them on a 64-bit
  machine: members in order, integers at multiples of their size, in the machine's byte order.
  A text in a character array is written with zeros behind it, and read up to the first zero.
\<close>

subsection \<open>Layout\<close>

definition le64 :: "uint64 \<Rightarrow> bytes" where
  "le64 w = map (\<lambda>i. ucast (drop_bit (8 * i) w)) [0..<8]"

definition of_le64 :: "bytes \<Rightarrow> uint64" where
  "of_le64 b = foldr (\<lambda>x acc. ucast x OR push_bit 8 acc) b 0"

definition text_field :: "nat \<Rightarrow> string \<Rightarrow> bytes" where
  "text_field n s = take n (bytes_of s @ replicate n 0)"

definition of_text_field :: "bytes \<Rightarrow> string" where
  "of_text_field b = cstr (str_of b)"

definition enc_base :: "t_task_base \<Rightarrow> bytes" where
  "enc_base b = text_field 256 (b_filename b) @ text_field 256 (b_tmpfile b) @ text_field 256 (b_retfile b)
     @ b_filemd5 b @ replicate 3 0 @ le32 (b_dstip b) @ le64 (word_of_int (b_starttime b))
     @ le64 (word_of_int (b_mtime b)) @ le64 (word_of_int (b_fsize b))
     @ [b_type b, b_retry b, b_overstatus b, 0] @ replicate 4 0"

definition slice :: "nat \<Rightarrow> nat \<Rightarrow> 'a list \<Rightarrow> 'a list" where
  "slice at n xs = take n (drop at xs)"

definition dec_base :: "bytes \<Rightarrow> t_task_base" where
  "dec_base m = \<lparr>b_filename = of_text_field (slice 0 256 m), b_tmpfile = of_text_field (slice 256 256 m),
     b_retfile = of_text_field (slice 512 256 m), b_filemd5 = slice 768 17 m,
     b_dstip = (let d = slice 788 4 m in of_le32 (d ! 0) (d ! 1) (d ! 2) (d ! 3)),
     b_starttime = sint (of_le64 (slice 792 8 m)), b_mtime = sint (of_le64 (slice 800 8 m)),
     b_fsize = sint (of_le64 (slice 808 8 m)),
     b_type = m ! 816, b_retry = m ! 817, b_overstatus = m ! 818\<rparr>"

abbreviation SIZEOF_BASE :: nat where "SIZEOF_BASE \<equiv> 824"
abbreviation SIZEOF_SYNC :: nat where "SIZEOF_SYNC \<equiv> 32"

record t_pfs_sync_task =
  st_d1 :: int
  st_d2 :: int
  st_starttime :: int
  st_endtime :: int
  st_type :: uint8

definition enc_sync :: "t_pfs_sync_task \<Rightarrow> bytes" where
  "enc_sync t = le32 (word_of_int (st_d1 t)) @ le32 (word_of_int (st_d2 t)) @ le64 (word_of_int (st_starttime t))
     @ le64 (word_of_int (st_endtime t)) @ [st_type t] @ replicate 7 0"

definition dec_sync :: "bytes \<Rightarrow> t_pfs_sync_task" where
  "dec_sync m = \<lparr>st_d1 = sint (of_le32 (m ! 0) (m ! 1) (m ! 2) (m ! 3)),
     st_d2 = sint (of_le32 (m ! 4) (m ! 5) (m ! 6) (m ! 7)),
     st_starttime = sint (of_le64 (slice 8 8 m)), st_endtime = sint (of_le64 (slice 16 8 m)), st_type = m ! 24\<rparr>"

subsection \<open>Reading back what was written\<close>

lemma le64_length [simp]: "length (le64 w) = 8"
  by (simp add: le64_def)

lemma text_field_length [simp]: "length (text_field n s) = n"
  by (simp add: text_field_def)

lemma of_le64_le64 [simp]: "of_le64 (le64 w) = w"
proof (rule bit_word_eqI)
  fix n
  assume n: "n < LENGTH(64)"
  have "[0..<8] = [0, 1, 2, 3, 4, 5, 6, 7::nat]" by (simp add: upt_conv_Cons)
  then have e: "of_le64 (le64 w) = ucast (ucast w :: byte) OR push_bit 8 (ucast (ucast (drop_bit 8 w) :: byte) OR
     push_bit 8 (ucast (ucast (drop_bit 16 w) :: byte) OR push_bit 8 (ucast (ucast (drop_bit 24 w) :: byte) OR
     push_bit 8 (ucast (ucast (drop_bit 32 w) :: byte) OR push_bit 8 (ucast (ucast (drop_bit 40 w) :: byte) OR
     push_bit 8 (ucast (ucast (drop_bit 48 w) :: byte) OR push_bit 8 (ucast (ucast (drop_bit 56 w) :: byte))))))))"
    by (simp add: of_le64_def le64_def)
  consider "n < 8" | "8 \<le> n \<and> n < 16" | "16 \<le> n \<and> n < 24" | "24 \<le> n \<and> n < 32" | "32 \<le> n \<and> n < 40"
    | "40 \<le> n \<and> n < 48" | "48 \<le> n \<and> n < 56" | "56 \<le> n \<and> n < 64"
    using n by fastforce
  then show "bit (of_le64 (le64 w)) n = bit w n"
    unfolding e by cases (auto simp: bit_simps)
qed

lemma of_text_field_text [simp]:
  assumes "length s < n" and "NUL \<notin> set s"
  shows "of_text_field (text_field n s) = s"
proof -
  obtain k where k: "n - length s = Suc k" using assms(1) by (metis Suc_diff_Suc)
  have "str_of (text_field n s) = s @ replicate (Suc k) NUL"
  proof -
    have "take n (bytes_of s @ replicate n 0) = bytes_of s @ replicate (Suc k) 0"
      using assms(1) k by (simp add: take_append)
    then show ?thesis by (simp add: text_field_def str_of_append str_of_zeros del: replicate_Suc)
  qed
  then show ?thesis using cstr_stop [OF assms(2)] by (simp add: of_text_field_def)
qed

definition int64 :: "int \<Rightarrow> bool" where
  "int64 i \<longleftrightarrow> - (2 ^ 63) \<le> i \<and> i < 2 ^ 63"

lemma sint_word64 [simp]: "int64 i \<Longrightarrow> sint (word_of_int i :: uint64) = i"
  by (simp add: int64_def int_word_sint)

lemma sint_word32 [simp]: "- (2 ^ 31) \<le> i \<Longrightarrow> i < 2 ^ 31 \<Longrightarrow> sint (word_of_int i :: uint32) = i"
  by (simp add: int_word_sint)

definition path_ok :: "string \<Rightarrow> bool" where
  "path_ok s \<longleftrightarrow> length s < 256 \<and> NUL \<notin> set s"

definition base_ok :: "t_task_base \<Rightarrow> bool" where
  "base_ok b \<longleftrightarrow> path_ok (b_filename b) \<and> path_ok (b_tmpfile b) \<and> path_ok (b_retfile b)
     \<and> length (b_filemd5 b) = 17 \<and> int64 (b_starttime b) \<and> int64 (b_mtime b) \<and> int64 (b_fsize b)"

lemma slice_skip: "length xs = k \<Longrightarrow> k \<le> at \<Longrightarrow> slice at n (xs @ ys) = slice (at - k) n ys"
  by (simp add: slice_def)

lemma slice_here: "length xs = n \<Longrightarrow> slice 0 n (xs @ ys) = xs"
  by (simp add: slice_def)

lemma enc_base_length: "length (b_filemd5 b) = 17 \<Longrightarrow> length (enc_base b) = SIZEOF_BASE"
  by (simp add: enc_base_def)

lemma enc_sync_length [simp]: "length (enc_sync t) = SIZEOF_SYNC"
  by (simp add: enc_sync_def)

lemma nth_skip: "length xs = k \<Longrightarrow> k \<le> i \<Longrightarrow> (xs @ ys) ! i = ys ! (i - k)"
  by (simp add: nth_append)

lemma dec_enc_base:
  assumes "base_ok b"
  shows "dec_base (enc_base b) = b"
proof -
  have l: "length (b_filemd5 b) = 17" using assms by (simp add: base_ok_def)
  note skips = slice_skip [OF text_field_length] slice_skip [OF l] slice_skip [OF length_replicate]
    slice_skip [OF le32_length] slice_skip [OF le64_length]
  note nths = nth_skip [OF text_field_length] nth_skip [OF l] nth_skip [OF length_replicate]
    nth_skip [OF le32_length] nth_skip [OF le64_length]
  have "slice 0 256 (enc_base b) = text_field 256 (b_filename b)"
    "slice 256 256 (enc_base b) = text_field 256 (b_tmpfile b)"
    "slice 512 256 (enc_base b) = text_field 256 (b_retfile b)"
    "slice 768 17 (enc_base b) = b_filemd5 b" "slice 788 4 (enc_base b) = le32 (b_dstip b)"
    "slice 792 8 (enc_base b) = le64 (word_of_int (b_starttime b))"
    "slice 800 8 (enc_base b) = le64 (word_of_int (b_mtime b))"
    "slice 808 8 (enc_base b) = le64 (word_of_int (b_fsize b))"
    "enc_base b ! 816 = b_type b" "enc_base b ! 817 = b_retry b" "enc_base b ! 818 = b_overstatus b"
    using l by (simp_all add: enc_base_def skips slice_here nths)
  then show ?thesis
    using assms by (simp add: dec_base_def base_ok_def path_ok_def le32_def wire_simps)
qed

text \<open>The body of a \<^verbatim>\<open>SYNC_DIR_REQ\<close> is also kept as the first bytes of a task.\<close>

definition sync_ok :: "t_pfs_sync_task \<Rightarrow> bool" where
  "sync_ok t \<longleftrightarrow> - (2 ^ 31) \<le> st_d1 t \<and> st_d1 t < 2 ^ 31 \<and> - (2 ^ 31) \<le> st_d2 t \<and> st_d2 t < 2 ^ 31
     \<and> int64 (st_starttime t) \<and> int64 (st_endtime t)"

lemma dec_enc_sync: "sync_ok t \<Longrightarrow> dec_sync (enc_sync t @ x) = t"
  by (simp add: dec_sync_def enc_sync_def sync_ok_def le32_def wire_simps slice_def nth_append)

lemma bytes_of_str_of [simp]: "bytes_of (str_of b) = b"
proof (induction b)
  case (Cons w b)
  have "unat w < 256" using unsigned_less [of w] by simp
  then have "of_char (char_of (unat w) :: char) = (w :: byte)"
    using of_nat_of_char [where 'a = byte, of "char_of (unat w)", symmetric] by (simp add: take_bit_nat_eq_self)
  then show ?case using Cons by (simp add: str_of_def bytes_of_def)
qed (simp add: str_of_def bytes_of_def)

end
