(* ===== verification/Pfs_Storage.thy ===== *)
theory Pfs_Storage
  imports Pfs_Protocol Pfs_Peers Pfs_Wire Pfs_Store
begin

section \<open>The signalling plugin of a storage server (network/S)\<close>

text \<open>
  The storage servers of a domain mirror each other.  This plugin keeps connections with the name
  servers and with the other servers of its domain, tells the others about files that were added
  or deleted, takes such announcements from them, and after a start asks the others for what it
  missed, one directory pair at a time.  Transfers are done by the data plugin, which works on
  the same task queues.

  Connections are known by their descriptors, as in the name server's plugin; the entries of the
  list of directories to ask for are numbered, because connections point to them.  \<open>sg_env\<close> holds
  the clock, the results of system calls and allocations, and the configuration.
  \<open>sg_undefined\<close> is set where the program writes beyond a buffer or links an entry into a list a
  second time.
\<close>

subsection \<open>State\<close>

abbreviation UNKOWN_STAT :: uint8 where "UNKOWN_STAT \<equiv> 0"
abbreviation WAIT_SYNC :: uint8 where "WAIT_SYNC \<equiv> 1"
abbreviation ONLINE_STAT :: uint8 where "ONLINE_STAT \<equiv> 3"
abbreviation OFF_LINE :: uint8 where "OFF_LINE \<equiv> 4"
abbreviation SYNC_DIR_STATUS :: uint8 where "SYNC_DIR_STATUS \<equiv> 7"

datatype sock_stat = LOGOUT | CONNECTED | LOGIN | HB_SEND | HB_RSP | IDLE | RECV_LAST | SEND_LAST

record pfs_cs_peer =
  cp_fd :: int
  cp_hbtime :: uint32
  cp_ip :: uint32
  cp_sync :: "nat option"
  cp_sock_stat :: sock_stat
  cp_server_stat :: uint8

record sg_state =
  sg_peer :: "int \<Rightarrow> pfs_cs_peer"
  sg_user :: "int set"
  sg_activelist :: "int list"
  sg_online :: "nat \<Rightarrow> int list"
  sg_entry :: "nat \<Rightarrow> t_pfs_sync_task"
  sg_next :: nat
  sg_sync_list :: "nat list"
  sg_flag :: int
  sg_last :: int
  sg_total :: int
  sg_synced :: int
  sg_init_sync :: bool
  sg_self_stat :: uint8
  sg_count_last :: int
  sg_count :: int
  sg_last_sync :: int
  sg_report_info :: int
  sg_last_scan :: int
  sg_dom :: t_pfs_domain
  sg_task :: task_state
  sg_store :: store
  sg_send :: "int \<Rightarrow> bytes"
  sg_epollout :: "int set"
  sg_closed :: "int list"
  sg_undefined :: bool

record dir_entry =
  de_name :: string
  de_stat :: "(int \<times> bool \<times> int \<times> int) option"
  de_readable :: bool

record sg_env =
  sv_now :: int
  sv_strtime :: string
  sv_lock :: "int \<Rightarrow> int"
  sv_malloc :: "task_state \<Rightarrow> nat option"
  sv_conn_malloc :: bool
  sv_entry_malloc :: "nat \<Rightarrow> bool"
  sv_peerip :: "int \<Rightarrow> uint32"
  sv_connect :: "int set \<Rightarrow> string \<Rightarrow> int"
  sv_load :: uint32
  sv_maxfree :: uint32
  sv_cf :: store_config
  sv_os :: os_env
  sv_filter :: filter_state
  sv_readdir :: "string \<Rightarrow> dir_entry list option"
  sv_opendir :: "string \<Rightarrow> (string \<times> int option) list option"
  sv_self_ip :: uint32
  sv_nameservers :: "(uint32 \<times> string) list"
  sv_timeout :: uint16
  sv_retry :: int
  sv_max_run :: nat
  sv_sync_dir_count :: int
  sv_sync_dir_span :: int
  sv_sync_stime :: string
  sv_sync_etime :: string
  sv_task_timeout :: int
  sv_check_timeout :: int

definition zero_cs_peer :: pfs_cs_peer where
  "zero_cs_peer = \<lparr>cp_fd = 0, cp_hbtime = 0, cp_ip = 0, cp_sync = None, cp_sock_stat = LOGOUT, cp_server_stat = 0\<rparr>"

definition upd_cs :: "int \<Rightarrow> (pfs_cs_peer \<Rightarrow> pfs_cs_peer) \<Rightarrow> sg_state \<Rightarrow> sg_state" where
  "upd_cs fd f s = s\<lparr>sg_peer := (sg_peer s)(fd := f (sg_peer s fd))\<rparr>"

text \<open>\<^verbatim>\<open>set_client_data\<close>, and \<^verbatim>\<open>set_client_data\<close> followed by \<^verbatim>\<open>modify_fd_event(fd, EPOLLOUT)\<close>.\<close>

definition sg_queue :: "int \<Rightarrow> bytes \<Rightarrow> sg_state \<Rightarrow> sg_state" where
  "sg_queue fd m s = s\<lparr>sg_send := (sg_send s)(fd := sg_send s fd @ m)\<rparr>"

definition sg_out :: "int \<Rightarrow> bytes \<Rightarrow> sg_state \<Rightarrow> sg_state" where
  "sg_out fd m s = (sg_queue fd m s)\<lparr>sg_epollout := insert fd (sg_epollout s)\<rparr>"

text \<open>The task queues as the plugin uses them.\<close>

definition sg_get_task :: "sg_env \<Rightarrow> int \<Rightarrow> sg_state \<Rightarrow> int \<times> nat option \<times> sg_state" where
  "sg_get_task env q s =
     (case pfs_get_task (sv_lock env) (sv_malloc env (sg_task s)) (sv_now env) q (sg_task s) of
        (ret, r, ts) \<Rightarrow> (ret, r, s\<lparr>sg_task := ts\<rparr>))"

definition sg_set_task :: "sg_env \<Rightarrow> nat \<Rightarrow> int \<Rightarrow> sg_state \<Rightarrow> sg_state" where
  "sg_set_task env t q s = s\<lparr>sg_task := snd (pfs_set_task (sv_lock env) (sv_now env) t q (sg_task s))\<rparr>"

definition sg_fill_task :: "nat \<Rightarrow> (t_pfs_taskinfo \<Rightarrow> t_pfs_taskinfo) \<Rightarrow> sg_state \<Rightarrow> sg_state" where
  "sg_fill_task t f s = s\<lparr>sg_task := upd_task t (\<lambda>k. k\<lparr>tk_task := f (tk_task k)\<rparr>) (sg_task s)\<rparr>"

definition sg_info :: "nat \<Rightarrow> sg_state \<Rightarrow> t_pfs_taskinfo" where
  "sg_info t s = tk_task (tasks (sg_task s) t)"

subsection \<open>Connections (pfs_sig.c, pfs_sig_base.c)\<close>

definition sg_find_ip_stat :: "uint32 \<Rightarrow> sg_state \<Rightarrow> int option" where
  "sg_find_ip_stat ip s = List.find (\<lambda>fd. cp_ip (sg_peer s fd) = ip) (sg_online s (hash256 ip))"

definition sg_svc_initconn :: "sg_env \<Rightarrow> int \<Rightarrow> sg_state \<Rightarrow> int \<times> sg_state" where
  "sg_svc_initconn env fd s =
     (let ip = sv_peerip env fd in
      if fd \<notin> sg_user s \<and> \<not> sv_conn_malloc env then (303, s)
      else
        (0, s\<lparr>sg_peer := (sg_peer s)(fd := zero_cs_peer\<lparr>cp_hbtime := word_of_int (sv_now env),
                 cp_sock_stat := CONNECTED, cp_fd := fd, cp_ip := ip\<rparr>),
              sg_user := insert fd (sg_user s),
              sg_activelist := remove1 fd (sg_activelist s) @ [fd],
              sg_online := (sg_online s)(hash256 ip := fd # sg_online s (hash256 ip))\<rparr>))"

definition sg_touch :: "sg_env \<Rightarrow> int \<Rightarrow> sg_state \<Rightarrow> sg_state" where
  "sg_touch env fd s = (upd_cs fd (\<lambda>p. p\<lparr>cp_hbtime := word_of_int (sv_now env)\<rparr>) s)
     \<lparr>sg_activelist := remove1 fd (sg_activelist s) @ [fd]\<rparr>"

definition sg_svc_send :: "sg_env \<Rightarrow> int \<Rightarrow> sg_state \<Rightarrow> int \<times> sg_state" where
  "sg_svc_send env fd s = (SEND_ADD_EPOLLIN, sg_touch env fd s)"

definition sg_svc_finiconn :: "int \<Rightarrow> sg_state \<Rightarrow> sg_state" where
  "sg_svc_finiconn fd s =
     (if fd \<notin> sg_user s then s
      else
        let s1 = s\<lparr>sg_activelist := remove1 fd (sg_activelist s),
                   sg_online := (\<lambda>i. remove1 fd (sg_online s i)),
                   sg_user := sg_user s - {fd}, sg_peer := (sg_peer s)(fd := zero_cs_peer)\<rparr>
        in case cp_sync (sg_peer s fd) of
             None \<Rightarrow> s1
           | Some e \<Rightarrow> s1\<lparr>sg_sync_list := sg_sync_list s @ [e], sg_flag := 0,
                           sg_undefined := (sg_undefined s \<or> e \<in> set (sg_sync_list s))\<rparr>)"

definition sg_do_close :: "int \<Rightarrow> sg_state \<Rightarrow> sg_state" where
  "sg_do_close fd s = (let s1 = sg_svc_finiconn fd s in s1\<lparr>sg_closed := sg_closed s1 @ [fd]\<rparr>)"

definition sg_active_send :: "sg_env \<Rightarrow> int \<Rightarrow> t_pfs_sig_head \<Rightarrow> bytes \<Rightarrow> sg_state \<Rightarrow> sg_state" where
  "sg_active_send env fd h b s =
     sg_out fd (create_sig_msg (h_cmdid h) (h_status h) b (h_bodylen h))
       (upd_cs fd (\<lambda>p. p\<lparr>cp_hbtime := word_of_int (sv_now env)\<rparr>) s)"

text \<open>
  \<open>sv_connect\<close> is the descriptor \<^verbatim>\<open>createsocket\<close> gives for an address when the given descriptors are in
  use, or a negative number.
\<close>

definition active_connect :: "sg_env \<Rightarrow> string \<Rightarrow> sg_state \<Rightarrow> sg_state" where
  "active_connect env ip s =
     (let fd = sv_connect env (sg_user s) ip in
      if fd < 0 then s
      else case sg_svc_initconn env fd s of (r, s1) \<Rightarrow> if r \<noteq> 0 then s else s1)"

definition scan_cfg_iplist_and_connect :: "sg_env \<Rightarrow> sg_state \<Rightarrow> sg_state" where
  "scan_cfg_iplist_and_connect env s =
     (let connect = (\<lambda>(uip, ip) st. if sg_find_ip_stat uip st = None then active_connect env ip st else st);
          s1 = fold connect (takeWhile (\<lambda>(uip, _). uip \<noteq> 0) (sv_nameservers env)) s;
          d = sg_dom s
      in fold (\<lambda>i. connect (dm_ips d i, dm_sips d i))
           (filter (\<lambda>i. \<not> dm_self d i \<and> dm_offline d i = 0) [0..<dm_ipcount d]) s1)"

subsection \<open>Announcing tasks (pfs_sig_task.c)\<close>

definition do_dispatch_task :: "nat \<Rightarrow> int \<Rightarrow> uint8 \<Rightarrow> sg_state \<Rightarrow> sg_state" where
  "do_dispatch_task t fd status s =
     sg_out fd (create_sig_msg NEWTASK_REQ status (enc_base (ti_base (sg_info t s))) (of_nat SIZEOF_BASE)) s"

text \<open>\<open>src\<close> is the task whose \<^verbatim>\<open>base\<close> is passed by reference; its start time is set as well.\<close>

definition create_delay_task :: "sg_env \<Rightarrow> uint32 \<Rightarrow> nat \<Rightarrow> sg_state \<Rightarrow> sg_state" where
  "create_delay_task env ip src s =
     (case sg_get_task env TASK_Q_HOME s of
        (ret, Some t, s1) \<Rightarrow>
          let s2 = sg_fill_task src (\<lambda>k. k\<lparr>ti_base := (ti_base k)\<lparr>b_starttime := sv_now env\<rparr>\<rparr>) s1;
              base = ti_base (sg_info src s2);
              s3 = sg_fill_task t (\<lambda>_. zero_taskinfo\<lparr>ti_base := base,
                     ti_sub := zero_sub\<lparr>u_peerip := ip2str ip, u_oper_type := OPER_SYNC_2_DOMAIN\<rparr>\<rparr>) s2
          in sg_set_task env t TASK_Q_WAIT_SYNC s3
      | (ret, None, s1) \<Rightarrow> s1)"

definition sync_task_2_domain :: "sg_env \<Rightarrow> nat \<Rightarrow> sg_state \<Rightarrow> sg_state" where
  "sync_task_2_domain env t s =
     (let d = sg_dom s in
      fold (\<lambda>i st. case sg_find_ip_stat (dm_ips d i) st of
                     None \<Rightarrow> create_delay_task env (dm_ips d i) t st
                   | Some fd \<Rightarrow> do_dispatch_task t fd TASK_SYNC st)
        (filter (\<lambda>i. dm_ips d i \<noteq> sv_self_ip env \<and> dm_offline d i = 0) [0..<dm_ipcount d]) s)"

text \<open>
  \<^verbatim>\<open>do_newtask\<close> changes the message it is given, which is sent back when it fails: the result is
  the return value, the message's status and body, and the new state.
\<close>

definition do_newtask ::
  "sg_env \<Rightarrow> int \<Rightarrow> uint8 \<Rightarrow> t_task_base \<Rightarrow> sg_state \<Rightarrow> int \<times> uint8 \<times> t_task_base \<times> sg_state" where
  "do_newtask env fd status base0 s =
     (if sg_self_stat s = OFF_LINE then (0, status, base0, s)
      else
        let base = base0\<lparr>b_starttime := sv_now env, b_dstip := sv_self_ip env\<rparr> in
        case sg_get_task env TASK_Q_HOME s of
          (ret, None, s1) \<Rightarrow> (-1, TASK_FAILED, base, s1)
        | (ret, Some t, s1) \<Rightarrow>
            let sub = zero_sub\<lparr>u_processlen := b_fsize base, u_starttime := sv_now env, u_lasttime := sv_now env,
                        u_oper_type := OPER_GET_REQ, u_peerip := ip2str (cp_ip (sg_peer s fd))\<rparr>;
                fill = (\<lambda>over. sg_fill_task t (\<lambda>_. zero_taskinfo\<lparr>ti_base := base\<lparr>b_overstatus := over\<rparr>, ti_sub := sub\<rparr>))
            in if b_type base = TASK_DELFILE then
                 (case delete_localfile (sv_cf env) (sv_os env) base (sg_store s1) of
                    None \<Rightarrow> (0, status, base, s1\<lparr>sg_undefined := True\<rparr>)
                  | Some (_, base1, store) \<Rightarrow>
                      (0, status, base1, sg_set_task env t TASK_Q_FIN (fill OVER_OK (s1\<lparr>sg_store := store\<rparr>))))
               else
                 (case check_localfile_md5 (sv_cf env) (sv_os env) base VIDEOFILE (sg_store s1) of
                    None \<Rightarrow> (0, status, base, s1\<lparr>sg_undefined := True\<rparr>)
                  | Some (r, base1, store) \<Rightarrow>
                      let s2 = s1\<lparr>sg_store := store\<rparr> in
                      if r = LOCALFILE_OK then
                        (0, status, base1, sg_set_task env t TASK_Q_FIN (fill OVER_OK s2))
                      else
                        (0, status, base1,
                         sg_set_task env t (if status \<noteq> SYNC_DIR_STATUS then TASK_Q_WAIT else TASK_Q_SYNC_DIR)
                           (fill OVER_UNKNOWN s2))))"

text \<open>The first bytes of the task are overlaid by the request.\<close>

definition do_sync_dir_req :: "sg_env \<Rightarrow> int \<Rightarrow> bytes \<Rightarrow> sg_state \<Rightarrow> sg_state" where
  "do_sync_dir_req env fd b s =
     (case sg_get_task env TASK_Q_HOME s of
        (ret, None, s1) \<Rightarrow> sg_out fd (create_sig_msg SYNC_DIR_RSP TASK_SYNC_DIR b (of_nat SIZEOF_SYNC)) s1
      | (ret, Some t, s1) \<Rightarrow>
          sg_set_task env t TASK_Q_SYNC_DIR_REQ
            (sg_fill_task t (\<lambda>k. k\<lparr>ti_base := zero_base\<lparr>b_filename := str_of (take SIZEOF_SYNC b),
                                                   b_dstip := sv_peerip env fd\<rparr>\<rparr>) s1))"

text \<open>
  The loop of \<^verbatim>\<open>do_sync_del_req\<close>; the list of deletions does not change in it, so there are at most as
  many rounds as entries.
\<close>

fun sync_del_loop :: "sg_env \<Rightarrow> nat \<Rightarrow> int \<Rightarrow> t_task_base \<Rightarrow> nat \<Rightarrow> sg_state \<Rightarrow> sg_state" where
  "sync_del_loop env 0 fd base next s = s"
| "sync_del_loop env (Suc n) fd base next s =
     (let s1 = sg_queue fd (create_sig_msg NEWTASK_REQ TASK_SYNC_DIR (enc_base base) (of_nat SIZEOF_BASE)) s;
          base1 = base\<lparr>b_filename := []\<rparr>;
          r = get_from_del_file (sv_os env) base1 (next + 1) (sv_now env) (sg_store s)
      in if r = -1 then s1 else sync_del_loop env n fd base1 (nat r) s1)"

definition do_sync_del_req :: "sg_env \<Rightarrow> int \<Rightarrow> bytes \<Rightarrow> sg_state \<Rightarrow> sg_state" where
  "do_sync_del_req env fd b s =
     (case find_last_index (sv_os env) (zero_base\<lparr>b_type := TASK_DELFILE\<rparr>) (st_starttime (dec_sync b)) (sg_store s) of
        (next, base) \<Rightarrow>
          let s1 = (if next = -1 then s
                    else sync_del_loop env (length (the (fs_dellog (sg_store s)))) fd base (nat next) s)
          in sg_out fd (create_sig_msg SYNC_DEL_RSP TASK_SYNC_DIR b (of_nat SIZEOF_SYNC)) s1)"

subsection \<open>Requests (pfs_sig_sub.c)\<close>

definition sg_do_req :: "sg_env \<Rightarrow> int \<Rightarrow> sg_state handler" where
  "sg_do_req env fd s0 h b =
     (let s = upd_cs fd (\<lambda>p. p\<lparr>cp_hbtime := word_of_int (sv_now env)\<rparr>) s0;
          set_stat = (\<lambda>st. if h_bodylen h \<noteq> 1 then st else upd_cs fd (\<lambda>p. p\<lparr>cp_server_stat := b ! 0\<rparr>) st);
          sync_done = (\<lambda>st. (upd_cs fd (\<lambda>p. p\<lparr>cp_sync := None\<rparr>) st)\<lparr>sg_flag := 0\<rparr>)
      in if h_cmdid h = HEARTBEAT_REQ then
           (RECV_ADD_EPOLLOUT,
            set_stat (upd_cs fd (\<lambda>p. p\<lparr>cp_sock_stat := SEND_LAST\<rparr>)
              (sg_queue fd (create_sig_msg HEARTBEAT_RSP (h_status h) [sg_self_stat s] 1) s)))
         else if h_cmdid h = HEARTBEAT_RSP then
           (RECV_ADD_EPOLLIN, set_stat (upd_cs fd (\<lambda>p. p\<lparr>cp_sock_stat := IDLE\<rparr>) s))
         else if h_cmdid h = NEWTASK_REQ then
           if unat (h_bodylen h) \<noteq> SIZEOF_BASE then (RECV_CLOSE, s)
           else (case do_newtask env fd (h_status h) (dec_base b) s of
                   (r, status, base, s1) \<Rightarrow>
                     if r \<noteq> 0 then
                       (RECV_ADD_EPOLLOUT, upd_cs fd (\<lambda>p. p\<lparr>cp_sock_stat := SEND_LAST\<rparr>)
                          (sg_queue fd (create_sig_msg NEWTASK_RSP status (enc_base base) (of_nat SIZEOF_BASE)) s1))
                     else (RECV_ADD_EPOLLIN, s1))
         else if h_cmdid h = NEWTASK_RSP then (RECV_ADD_EPOLLIN, s)
         else if h_cmdid h = SYNC_DIR_REQ then
           if unat (h_bodylen h) \<noteq> SIZEOF_SYNC then (RECV_ADD_EPOLLIN, s)
           else (RECV_ADD_EPOLLOUT, do_sync_dir_req env fd b s)
         else if h_cmdid h = SYNC_DIR_RSP then (RECV_ADD_EPOLLIN, sync_done s)
         else if h_cmdid h = SYNC_DEL_REQ then
           if unat (h_bodylen h) \<noteq> SIZEOF_SYNC then (RECV_ADD_EPOLLIN, s)
           else (RECV_ADD_EPOLLOUT, do_sync_del_req env fd b s)
         else if h_cmdid h = SYNC_DEL_RSP then (RECV_ADD_EPOLLIN, sync_done s)
         else if h_cmdid h = DISKINFO_RSP then
           (RECV_ADD_EPOLLIN,
            if unat (h_bodylen h) \<noteq> MAXDISKS then s
            else s\<lparr>sg_dom := set_domain_diskerr b (sv_peerip env fd) (sg_dom s)\<rparr>)
         else (RECV_CLOSE, s))"

definition sg_check_req :: "sg_env \<Rightarrow> int \<Rightarrow> sg_state \<Rightarrow> bytes \<Rightarrow> int \<times> sg_state \<times> bytes" where
  "sg_check_req env fd s buf = check_req_with (sg_do_req env fd) s buf"

definition sg_svc_recv :: "sg_env \<Rightarrow> int \<Rightarrow> sg_state \<Rightarrow> bytes \<Rightarrow> int \<times> sg_state \<times> bytes" where
  "sg_svc_recv env fd s buf = recv_loop (sg_do_req env fd) RECV_ADD_EPOLLIN (sg_touch env fd s) buf"

subsection \<open>Finished and waiting tasks (pfs_sig_sub.c)\<close>

definition sg_finish :: "sg_env \<Rightarrow> nat \<Rightarrow> sg_state \<Rightarrow> sg_state" where
  "sg_finish env t s =
     (let base = ti_base (sg_info t s) in
      if b_overstatus base = OVER_E_MD5 \<and> sv_retry env \<noteq> 0 \<and> int (unat (b_retry base)) < sv_retry env then
        sg_set_task env t TASK_Q_WAIT
          (sg_fill_task t (\<lambda>k. k\<lparr>ti_base := base\<lparr>b_retry := b_retry base + 1, b_overstatus := OVER_UNKNOWN\<rparr>\<rparr>) s)
      else
        let need = u_need_sync (ti_sub (sg_info t s));
            s1 = (if need = TASK_SOURCE then
                    if b_overstatus base = OVER_OK \<or> b_overstatus base = OVER_UNLINK
                    then sync_task_2_domain env t s else s
                  else if need = TASK_SYNC_ISDIR then
                    let s' = s\<lparr>sg_synced := sg_synced s + 1\<rparr> in
                    if sg_flag s' = 2 \<and> sg_synced s' \<ge> sg_total s' \<and> sg_self_stat s' \<noteq> OFF_LINE
                    then s'\<lparr>sg_self_stat := ONLINE_STAT\<rparr> else s'
                  else s);
            base1 = ti_base (sg_info t s1);
            s2 = (if b_type base1 = TASK_ADDFILE \<and> b_overstatus base1 = OVER_OK
                  then s1\<lparr>sg_store := snd (set_time_stamp (sv_cf env) base1 (sg_store s1))\<rparr> else s1)
        in sg_set_task env t TASK_Q_CLEAN (sg_fill_task t (\<lambda>k. k\<lparr>ti_user := None\<rparr>) s2))"

text \<open>
  Loops that take tasks from a queue until it is empty; each round removes a task and none puts
  one back, so the length of the queue bounds the number of rounds.
\<close>

fun sg_drain :: "sg_env \<Rightarrow> int \<Rightarrow> (nat \<Rightarrow> sg_state \<Rightarrow> sg_state) \<Rightarrow> nat \<Rightarrow> sg_state \<Rightarrow> sg_state" where
  "sg_drain env q work 0 s = s"
| "sg_drain env q work (Suc n) s =
     (case sg_get_task env q s of
        (ret, None, s1) \<Rightarrow> s1
      | (ret, Some t, s1) \<Rightarrow> sg_drain env q work n (work t s1))"

definition queue_len :: "int \<Rightarrow> sg_state \<Rightarrow> nat" where
  "queue_len q s = length (pfstask (sg_task s) q)"

definition do_fin_task :: "sg_env \<Rightarrow> sg_state \<Rightarrow> sg_state" where
  "do_fin_task env s = sg_drain env TASK_Q_FIN (sg_finish env) (Suc (queue_len TASK_Q_FIN s)) s"

definition sync_answer :: "sg_env \<Rightarrow> nat \<Rightarrow> sg_state \<Rightarrow> sg_state" where
  "sync_answer env t s =
     (let base = ti_base (sg_info t s) in
      case sg_find_ip_stat (b_dstip base) s of
        None \<Rightarrow> sg_set_task env t TASK_Q_HOME s
      | Some fd \<Rightarrow> sg_set_task env t TASK_Q_HOME
          (sg_out fd (create_sig_msg SYNC_DIR_RSP TASK_SYNC_DIR (enc_base base) (of_nat SIZEOF_SYNC)) s))"

definition do_check_sync_task :: "sg_env \<Rightarrow> sg_state \<Rightarrow> sg_state" where
  "do_check_sync_task env s =
     sg_drain env TASK_Q_SYNC_DIR_RSP (sync_answer env) (Suc (queue_len TASK_Q_SYNC_DIR_RSP s)) s"

text \<open>One round of the third loop of \<^verbatim>\<open>check_task\<close>, on a task from one of two queues.\<close>

definition dispatch_waiting :: "sg_env \<Rightarrow> nat \<Rightarrow> uint8 \<Rightarrow> sg_state \<Rightarrow> sg_state" where
  "dispatch_waiting env t status s =
     (let ip = str2ip (u_peerip (ti_sub (sg_info t s))) in
      case sg_find_ip_stat ip s of
        None \<Rightarrow> sg_set_task env t
                 (if status = SYNC_DIR_STATUS then TASK_Q_WAIT_SYNC_DIR_TMP else TASK_Q_WAIT_SYNC_IP) s
      | Some fd \<Rightarrow> sg_set_task env t TASK_Q_HOME
                     (sg_fill_task t (\<lambda>k. k\<lparr>ti_user := None\<rparr>) (do_dispatch_task t fd status s)))"

fun dispatch_loop :: "sg_env \<Rightarrow> nat \<Rightarrow> sg_state \<Rightarrow> sg_state" where
  "dispatch_loop env 0 s = s"
| "dispatch_loop env (Suc n) s =
     (case sg_get_task env TASK_Q_WAIT_SYNC s of
        (_, Some t, s1) \<Rightarrow> dispatch_loop env n (dispatch_waiting env t TASK_SYNC s1)
      | (_, None, s1) \<Rightarrow>
          (case sg_get_task env TASK_Q_WAIT_SYNC_DIR s1 of
             (_, Some t, s2) \<Rightarrow> dispatch_loop env n (dispatch_waiting env t SYNC_DIR_STATUS s2)
           | (_, None, s2) \<Rightarrow> s2))"

definition sg_check_task :: "sg_env \<Rightarrow> sg_state \<Rightarrow> sg_state" where
  "sg_check_task env s =
     (let s1 = sg_drain env TASK_Q_WAIT_SYNC_IP (\<lambda>t. sg_set_task env t TASK_Q_WAIT_SYNC) (sv_max_run env) s;
          s2 = sg_drain env TASK_Q_WAIT_SYNC_DIR_TMP (\<lambda>t. sg_set_task env t TASK_Q_WAIT_SYNC_DIR) (sv_max_run env) s1;
          s3 = dispatch_loop env (sv_max_run env) s2
      in do_check_sync_task env (do_fin_task env s3))"

subsection \<open>Reports (pfs_sig_sub.c)\<close>

definition sync_diskerr_2_domain :: "sg_env \<Rightarrow> sg_state \<Rightarrow> sg_state" where
  "sync_diskerr_2_domain env s =
     (let d = sg_dom s in
      case get_self_err_disk d of
        None \<Rightarrow> s
      | Some errdisk \<Rightarrow>
          fold (\<lambda>i st. case sg_find_ip_stat (dm_ips d i) st of
                         None \<Rightarrow> st
                       | Some fd \<Rightarrow> sg_active_send env fd
                           \<lparr>h_bodylen = of_nat MAXDISKS, h_cmdid = DISKINFO_RSP, h_status = HB_C_2_C\<rparr> errdisk st)
            (filter (\<lambda>i. dm_ips d i \<noteq> sv_self_ip env \<and> dm_offline d i = 0) [0..<dm_ipcount d]) s)"

definition load_body :: "sg_env \<Rightarrow> sg_state \<Rightarrow> bytes" where
  "load_body env s = le32 (sv_load env) @ le32 (word_of_int (get_task_count TASK_Q_WAIT (sg_task s))) @ le32 (sv_maxfree env)"

definition report_local_diskerr :: "sg_env \<Rightarrow> sg_state \<Rightarrow> sg_state" where
  "report_local_diskerr env s =
     (let s1 = sync_diskerr_2_domain env s; b = load_body env s1 in
      fold (\<lambda>(uip, _) st. case sg_find_ip_stat uip st of
                            None \<Rightarrow> st
                          | Some fd \<Rightarrow> sg_active_send env fd
                              \<lparr>h_bodylen = 12, h_cmdid = LOADINFO_REQ, h_status = HB_C_2_C\<rparr> b st)
        (takeWhile (\<lambda>(uip, _). uip \<noteq> 0) (sv_nameservers env)) s1)"

subsection \<open>Asking for missed files (pfs_sig_base.c)\<close>

text \<open>\<^verbatim>\<open>for d1 < DIR1, d2 < DIR1\<close>: the pairs in the order of the loops.\<close>

definition sync_pairs :: "store_config \<Rightarrow> (int \<times> int) list" where
  "sync_pairs cf = concat (map (\<lambda>d1. map (\<lambda>d2. (d1, d2)) [0..cf_DIR1 cf - 1]) [0..cf_DIR1 cf - 1])"

definition sync_since :: "sg_env \<Rightarrow> int \<Rightarrow> int \<Rightarrow> sg_state \<Rightarrow> int" where
  "sync_since env d1 d2 s =
     (let t = get_time_stamp_by_int (sv_cf env) d1 d2 (sg_store s) - sv_task_timeout env in
      if t \<le> 0 then get_storage_dir_lasttime (sv_cf env) (sv_os env) (sv_filter env) (sv_opendir env) d1 d2 else t)"

fun init_sync_pairs :: "sg_env \<Rightarrow> (int \<times> int) list \<Rightarrow> sg_state \<Rightarrow> int \<times> sg_state" where
  "init_sync_pairs env [] s = (0, s)"
| "init_sync_pairs env ((d1, d2) # ps) s =
     (let e = sg_next s in
      if \<not> sv_entry_malloc env e then (-1, s)
      else init_sync_pairs env ps
             (s\<lparr>sg_entry := (sg_entry s)(e := \<lparr>st_d1 = d1, st_d2 = d2, st_starttime = sync_since env d1 d2 s,
                  st_endtime = sv_now env, st_type = TASK_ADDFILE\<rparr>),
                sg_next := e + 1, sg_sync_list := sg_sync_list s @ [e]\<rparr>))"

definition init_sync_list :: "sg_env \<Rightarrow> sg_state \<Rightarrow> int \<times> sg_state" where
  "init_sync_list env s = init_sync_pairs env (sync_pairs (sv_cf env)) s"

definition check_count_one_day :: "sg_env \<Rightarrow> sg_state \<Rightarrow> int \<times> sg_state" where
  "check_count_one_day env s =
     (let s1 = (if sg_count_last s = 0 then s\<lparr>sg_count_last := sv_now env\<rparr> else s) in
      if sg_count s1 < sv_sync_dir_count env then (0, s1\<lparr>sg_count := sg_count s1 + 1\<rparr>)
      else if sv_now env - sg_count_last s1 \<ge> 86400 then (0, s1\<lparr>sg_count_last := sv_now env, sg_count := 1\<rparr>)
      else (-1, s1))"

definition do_sub_sync :: "sg_env \<Rightarrow> nat \<Rightarrow> int \<Rightarrow> sg_state \<Rightarrow> sg_state" where
  "do_sub_sync env e fd s =
     (let task = sg_entry s e;
          cmd = (if st_type task = TASK_ADDFILE then SYNC_DIR_REQ else SYNC_DEL_REQ);
          s1 = sg_out fd (create_sig_msg cmd TASK_SYNC (enc_sync task) (of_nat SIZEOF_SYNC)) s
      in (upd_cs fd (\<lambda>p. p\<lparr>cp_sync := Some e\<rparr>) s1)\<lparr>sg_flag := 1, sg_last := sv_now env\<rparr>)"

text \<open>\<^verbatim>\<open>strcmp\<close> compares as unsigned characters.\<close>

fun str_less :: "string \<Rightarrow> string \<Rightarrow> bool" where
  "str_less a [] = False"
| "str_less [] (c # cs) = True"
| "str_less (a # as) (c # cs) = (if a = c then str_less as cs else of_char a < (of_char c :: nat))"

definition hour_of :: "string \<Rightarrow> string" where
  "hour_of t = take 2 (drop 8 t) @ '':'' @ take 2 (drop 10 t) @ '':'' @ take 2 (drop 12 t)"

text \<open>A round of the loop over the domain's servers.\<close>

definition ask_peer :: "sg_env \<Rightarrow> nat \<Rightarrow> uint32 \<Rightarrow> sg_state \<Rightarrow> sg_state" where
  "ask_peer env e ip s =
     (case sg_find_ip_stat ip s of
        None \<Rightarrow> s
      | Some fd \<Rightarrow> let s1 = do_sub_sync env e fd s in s1\<lparr>sg_sync_list := remove1 e (sg_sync_list s1)\<rparr>)"

definition do_active_sync :: "sg_env \<Rightarrow> sg_state \<Rightarrow> sg_state" where
  "do_active_sync env s0 =
     (if \<not> sg_init_sync s0 then s0
      else
        case check_count_one_day env s0 of (r, s) \<Rightarrow>
        if r \<noteq> 0 then s
        else if sv_now env - sg_last_sync s < sv_sync_dir_span env then s
        else if get_task_count TASK_Q_SYNC_DIR (sg_task s) + get_task_count TASK_Q_SYNC_DIR_TMP (sg_task s) \<ge> 1024 then s
        else if str_less (hour_of (sv_strtime env)) (sv_sync_stime env) \<or> str_less (sv_sync_etime env) (hour_of (sv_strtime env))
        then s
        else
          let s1 = s\<lparr>sg_last_sync := sv_now env\<rparr>; d = sg_dom s in
          case sg_sync_list s1 of
            [] \<Rightarrow> s1\<lparr>sg_flag := 2\<rparr>
          | e # _ \<Rightarrow>
              fold (\<lambda>i. ask_peer env e (dm_ips d i))
                (filter (\<lambda>i. \<not> dm_self d i \<and> dm_offline d i = 0) [0..<dm_ipcount d]) s1)"

text \<open>Whether an entry of the directory is to be announced, with its file name and size.\<close>

definition sync_wanted :: "sg_env \<Rightarrow> t_pfs_sync_task \<Rightarrow> dir_entry \<Rightarrow> bool" where
  "sync_wanted env task e \<longleftrightarrow>
     take 1 (de_name e) \<noteq> ''.'' \<and> check_file_filter (de_name e) (sv_filter env) = 0 \<and>
     (case de_stat e of
        None \<Rightarrow> False
      | Some (sz, isreg, ctime, mtime) \<Rightarrow>
          sz \<noteq> 0 \<and> isreg \<and> \<not> (st_starttime task \<noteq> 0 \<and> ctime < st_starttime task)
          \<and> \<not> (st_endtime task \<noteq> 0 \<and> ctime > st_endtime task) \<and> de_readable e)"

definition announce_entry :: "sg_env \<Rightarrow> string \<Rightarrow> uint32 \<Rightarrow> dir_entry \<Rightarrow> sg_state \<Rightarrow> sg_state" where
  "announce_entry env realpath dstip e s =
     (let file = snprintf_s 256 (realpath @ ''/'' @ de_name e) in
      case (de_stat e, file_md5 file (sg_store s)) of
        (Some (sz, _, _, mtime), Some md5) \<Rightarrow>
          (case sg_get_task env TASK_Q_HOME s of
             (_, None, s1) \<Rightarrow> s1
           | (_, Some t, s1) \<Rightarrow>
               let base = zero_base\<lparr>b_filename := file, b_fsize := sz, b_mtime := mtime,
                            b_filemd5 := md5 @ [0], b_type := TASK_ADDFILE\<rparr>
               in sg_set_task env t TASK_Q_WAIT_SYNC_DIR
                    (sg_fill_task t (\<lambda>_. zero_taskinfo\<lparr>ti_base := base,
                       ti_sub := zero_sub\<lparr>u_peerip := ip2str dstip\<rparr>\<rparr>) s1))
      | _ \<Rightarrow> s)"

definition do_sync_dir_req_sub :: "sg_env \<Rightarrow> nat \<Rightarrow> sg_state \<Rightarrow> sg_state" where
  "do_sync_dir_req_sub env t s =
     (let sbase = ti_base (sg_info t s);
          task = dec_sync (bytes_of (b_filename sbase));
          realpath = snprintf_s 256 (cf_datadir (sv_cf env) @ ''/'' @ dec_int (st_d1 task) @ ''/'' @ dec_int (st_d2 task));
          finish = (\<lambda>over. sg_fill_task t (\<lambda>k. k\<lparr>ti_base := (ti_base k)\<lparr>b_overstatus := over\<rparr>\<rparr>))
      in case sv_readdir env realpath of
           None \<Rightarrow> finish OVER_E_OPEN_SRCFILE s
         | Some es \<Rightarrow> finish OVER_OK
             (fold (announce_entry env realpath (b_dstip sbase)) (filter (sync_wanted env task) es) s))"

text \<open>The thread's start, and one round of its loop that finds a request.\<close>

definition sync_dir_thread_start :: "sg_env \<Rightarrow> sg_state \<Rightarrow> sg_state" where
  "sync_dir_thread_start env s = (snd (init_sync_list env s))\<lparr>sg_init_sync := True\<rparr>"

definition sync_dir_thread :: "sg_env \<Rightarrow> sg_state \<Rightarrow> sg_state" where
  "sync_dir_thread env s =
     (case sg_get_task env TASK_Q_SYNC_DIR_REQ s of
        (_, None, s1) \<Rightarrow> s1
      | (_, Some t, s1) \<Rightarrow> sg_set_task env t TASK_Q_SYNC_DIR_RSP (do_sync_dir_req_sub env t s1))"

subsection \<open>The plugin's own clock (pfs_sig.c)\<close>

text \<open>The loop over the list of connections, which stops at the first one that was used lately.\<close>

fun sg_scan_active :: "sg_env \<Rightarrow> int list \<Rightarrow> sg_state \<Rightarrow> sg_state" where
  "sg_scan_active env [] s = s"
| "sg_scan_active env (fd # fds) s =
     (let idle = sv_now env - uint (cp_hbtime (sg_peer s fd)); to = uint (sv_timeout env) in
      if idle < to then s
      else if idle > to \<and> idle < to * 10 then
        sg_scan_active env fds (sg_active_send env fd
          \<lparr>h_bodylen = 1, h_cmdid = HEARTBEAT_REQ, h_status = HB_C_2_C\<rparr> [sg_self_stat s] s)
      else if idle > to * 10 then sg_scan_active env fds (sg_do_close fd s)
      else sg_scan_active env fds s)"

definition sg_sync_state :: "sg_env \<Rightarrow> sg_state \<Rightarrow> sg_state" where
  "sg_sync_state env s =
     (let s1 = (if sg_self_stat s = UNKOWN_STAT then s\<lparr>sg_self_stat := WAIT_SYNC, sg_flag := 0\<rparr> else s) in
      if sg_self_stat s1 \<noteq> WAIT_SYNC then s1
      else
        let s2 = (if sg_flag s1 = 1 \<and> sv_now env - sg_last s1 > 3600 then s1\<lparr>sg_flag := 0\<rparr> else s1);
            s3 = (if sg_flag s2 = 0 then do_active_sync env s2 else s2)
        in if sg_flag s3 = 2 \<and> sg_synced s3 \<ge> sg_total s3 then s3\<lparr>sg_self_stat := ONLINE_STAT\<rparr> else s3)"

definition sg_svc_timeout :: "sg_env \<Rightarrow> sg_state \<Rightarrow> sg_state" where
  "sg_svc_timeout env s =
     (let now = sv_now env;
          s1 = (if now - sg_report_info s > 300 then report_local_diskerr env (s\<lparr>sg_report_info := now\<rparr>) else s);
          s2 = sg_scan_active env (sg_activelist s1) s1;
          s3 = sg_sync_state env (scan_cfg_iplist_and_connect env s2);
          s4 = sg_check_task env s3
      in if now - sg_last_scan s4 > 1800
         then s4\<lparr>sg_last_scan := now,
                sg_task := do_timeout_task (sv_lock env) (sv_check_timeout env) (sv_task_timeout env) now (sg_task s4)\<rparr>
         else s4)"

text \<open>Start-up, after the logs are open; \<open>self\<close> is the configured state.\<close>

definition sg_svc_init :: "uint8 \<Rightarrow> sg_state \<Rightarrow> sg_state" where
  "sg_svc_init self s =
     s\<lparr>sg_activelist := [], sg_online := (\<lambda>_. []), sg_sync_list := [], sg_last := 0, sg_total := 0,
       sg_synced := 0, sg_flag := 2, sg_self_stat := self\<rparr>"

subsection \<open>The tables of connections\<close>

definition sg_conns :: "sg_state \<Rightarrow> conns" where
  "sg_conns s = \<lparr>cn_active = sg_activelist s, cn_user = sg_user s, cn_online = sg_online s,
     cn_ip = (\<lambda>fd. cp_ip (sg_peer s fd))\<rparr>"

lemma sg_find_conns: "sg_find_ip_stat ip s = conns_find ip (sg_conns s)"
  by (simp add: sg_find_ip_stat_def conns_find_def sg_conns_def)

text \<open>What an operation leaves alone: the connections, and the state of the synchronisation.\<close>

definition sync_view :: "sg_state \<Rightarrow> int \<times> uint8 \<times> nat list \<times> bool" where
  "sync_view s = (sg_flag s, sg_self_stat s, sg_sync_list s, sg_init_sync s)"

definition sg_frame :: "sg_state \<Rightarrow> conns \<times> (int \<times> uint8 \<times> nat list \<times> bool) \<times> t_pfs_domain" where
  "sg_frame s = (sg_conns s, sync_view s, sg_dom s)"

lemmas sg_frame_defs = sg_frame_def sg_conns_def sync_view_def

lemma frame_upd_cs [simp]: "(\<And>p. cp_ip (f p) = cp_ip p) \<Longrightarrow> sg_frame (upd_cs fd f s) = sg_frame s"
  by (auto simp: sg_frame_defs upd_cs_def fun_eq_iff)

lemma frame_queue [simp]: "sg_frame (sg_queue fd m s) = sg_frame s"
  by (simp add: sg_frame_defs sg_queue_def)

lemma frame_out [simp]: "sg_frame (sg_out fd m s) = sg_frame s"
  by (simp add: sg_frame_defs sg_out_def sg_queue_def)

lemma frame_task [simp]: "sg_frame (s\<lparr>sg_task := ts\<rparr>) = sg_frame s"
  by (simp add: sg_frame_defs)

lemma frame_store [simp]: "sg_frame (s\<lparr>sg_store := x\<rparr>) = sg_frame s"
  by (simp add: sg_frame_defs)

lemma frame_undefined [simp]: "sg_frame (s\<lparr>sg_undefined := x\<rparr>) = sg_frame s"
  by (simp add: sg_frame_defs)

lemma frame_get [simp]: "sg_get_task env q s = (ret, r, s1) \<Longrightarrow> sg_frame s1 = sg_frame s"
  by (auto simp: sg_get_task_def split: prod.splits)

lemma frame_set [simp]: "sg_frame (sg_set_task env t q s) = sg_frame s"
  by (simp add: sg_set_task_def)

lemma frame_fill [simp]: "sg_frame (sg_fill_task t f s) = sg_frame s"
  by (simp add: sg_fill_task_def)

lemma frame_dispatch [simp]: "sg_frame (do_dispatch_task t fd status s) = sg_frame s"
  by (simp add: do_dispatch_task_def)

lemma frame_delay [simp]: "sg_frame (create_delay_task env ip src s) = sg_frame s"
  by (auto simp: create_delay_task_def Let_def split: prod.split option.split)

lemma frame_sync_2_domain [simp]: "sg_frame (sync_task_2_domain env t s) = sg_frame s"
  unfolding sync_task_2_domain_def Let_def by (rule fold_keeps) (simp split: option.split)

lemma frame_newtask: "do_newtask env fd status base s = (r, st, b, s') \<Longrightarrow> sg_frame s' = sg_frame s"
  by (auto simp: do_newtask_def Let_def split: prod.splits option.splits if_splits)

lemma frame_sync_dir_req [simp]: "sg_frame (do_sync_dir_req env fd b s) = sg_frame s"
  by (auto simp: do_sync_dir_req_def split: prod.split option.split)

lemma frame_sync_del_loop [simp]: "sg_frame (sync_del_loop env n fd base nx s) = sg_frame s"
  by (induction env n fd base nx s rule: sync_del_loop.induct) (simp_all add: Let_def)

lemma frame_sync_del_req [simp]: "sg_frame (do_sync_del_req env fd b s) = sg_frame s"
  by (simp add: do_sync_del_req_def Let_def split: prod.split)

lemma frame_active_send [simp]: "sg_frame (sg_active_send env fd h b s) = sg_frame s"
  by (simp add: sg_active_send_def)

lemma frame_diskerr [simp]: "sg_frame (sync_diskerr_2_domain env s) = sg_frame s"
  unfolding sync_diskerr_2_domain_def Let_def
  by (auto split: option.split intro!: fold_keeps)

lemma frame_report [simp]: "sg_frame (report_local_diskerr env s) = sg_frame s"
  unfolding report_local_diskerr_def Let_def
  by (subst fold_keeps [of _ sg_frame]) (auto split: option.split prod.split)

lemma frame_drain:
  assumes "\<And>t s. sg_frame (work t s) = sg_frame s"
  shows "sg_frame (sg_drain env q work n s) = sg_frame s"
proof (induction n arbitrary: s)
  case (Suc n)
  obtain ret r s1 where g: "sg_get_task env q s = (ret, r, s1)" by (metis prod_cases3)
  then have "sg_frame s1 = sg_frame s" by simp
  then show ?case using Suc g assms by (cases r) simp_all
qed simp

lemma frame_sync_answer [simp]: "sg_frame (sync_answer env t s) = sg_frame s"
  by (simp add: sync_answer_def Let_def split: option.split)

lemma frame_check_sync [simp]: "sg_frame (do_check_sync_task env s) = sg_frame s"
  unfolding do_check_sync_task_def by (rule frame_drain) simp

lemma frame_dispatch_waiting [simp]: "sg_frame (dispatch_waiting env t status s) = sg_frame s"
  by (simp add: dispatch_waiting_def Let_def split: option.split)

lemma frame_dispatch_loop [simp]: "sg_frame (dispatch_loop env n s) = sg_frame s"
proof (induction n arbitrary: s)
  case (Suc n)
  obtain r1 t1 s1 where g1: "sg_get_task env TASK_Q_WAIT_SYNC s = (r1, t1, s1)" by (metis prod_cases3)
  obtain r2 t2 s2 where g2: "sg_get_task env TASK_Q_WAIT_SYNC_DIR s1 = (r2, t2, s2)" by (metis prod_cases3)
  have "sg_frame s1 = sg_frame s" "sg_frame s2 = sg_frame s1" using g1 g2 by simp_all
  then show ?case using Suc g1 g2 by (cases t1; cases t2) simp_all
qed simp

lemma frame_announce [simp]: "sg_frame (announce_entry env p ip e s) = sg_frame s"
  by (auto simp: announce_entry_def Let_def split: option.split prod.split)

lemma frame_sync_dir_sub [simp]: "sg_frame (do_sync_dir_req_sub env t s) = sg_frame s"
  unfolding do_sync_dir_req_sub_def Let_def
  by (auto split: option.split intro!: fold_keeps [of _ sg_frame])

lemma frame_thread [simp]: "sg_frame (sync_dir_thread env s) = sg_frame s"
  by (auto simp: sync_dir_thread_def split: prod.split option.split)

lemma conns_frame: "sg_frame s = sg_frame s' \<Longrightarrow> sg_conns s = sg_conns s'"
  by (simp add: sg_frame_def)

lemma view_frame: "sg_frame s = sg_frame s' \<Longrightarrow> sync_view s = sync_view s'"
  by (simp add: sg_frame_def)

lemma conns_touch: "sg_conns (sg_touch env fd s) = conns_move fd (sg_conns s)"
  "sync_view (sg_touch env fd s) = sync_view s"
  by (auto simp: sg_conns_def sg_touch_def upd_cs_def conns_move_def sync_view_def)

lemma conns_initconn:
  "sg_conns (snd (sg_svc_initconn env fd s)) =
     (if fd \<notin> sg_user s \<and> \<not> sv_conn_malloc env then sg_conns s else conns_add fd (sv_peerip env fd) (sg_conns s))"
  "sync_view (snd (sg_svc_initconn env fd s)) = sync_view s"
  by (auto simp: sg_conns_def sg_svc_initconn_def conns_add_def sync_view_def Let_def)

lemma conns_close: "sg_conns (sg_do_close fd s) = (if fd \<notin> sg_user s then sg_conns s else conns_del fd (sg_conns s))"
  by (auto simp: sg_conns_def sg_do_close_def sg_svc_finiconn_def conns_del_def zero_cs_peer_def Let_def split: option.split)

lemma conns_do_req: "sg_conns (snd (sg_do_req env fd s h b)) = sg_conns s"
proof -
  let ?s = "upd_cs fd (\<lambda>p. p\<lparr>cp_hbtime := word_of_int (sv_now env)\<rparr>) s"
  have c: "sg_conns ?s = sg_conns s" "\<And>f s. (\<And>p. cp_ip (f p) = cp_ip p) \<Longrightarrow> sg_conns (upd_cs fd f s) = sg_conns s"
    "\<And>m s. sg_conns (sg_queue fd m s) = sg_conns s" "\<And>b s. sg_conns (do_sync_dir_req env fd b s) = sg_conns s"
    "\<And>b s. sg_conns (do_sync_del_req env fd b s) = sg_conns s"
    by (auto intro!: conns_frame)
  have d: "\<And>x s. sg_conns (s\<lparr>sg_flag := x\<rparr>) = sg_conns s" "\<And>x s. sg_conns (s\<lparr>sg_dom := x\<rparr>) = sg_conns s"
    by (simp_all add: sg_conns_def)
  show ?thesis
    using conns_frame [OF frame_newtask, of env fd "h_status h" "dec_base b" ?s]
    by (auto simp: sg_do_req_def Let_def c d split: prod.split)
qed

lemma conns_recv: "sg_conns (fst (snd (sg_svc_recv env fd s buf))) = conns_move fd (sg_conns s)"
  unfolding sg_svc_recv_def
  by (rule recv_loop_inv [where P = "\<lambda>x. sg_conns x = conns_move fd (sg_conns s)"]) (simp_all add: conns_do_req conns_touch)

text \<open>Descriptors are new: the operating system does not give one that is in use.\<close>

definition fresh_connect :: "sg_env \<Rightarrow> bool" where
  "fresh_connect env \<longleftrightarrow> (\<forall>U ip. sv_connect env U ip \<notin> U \<or> sv_connect env U ip < 0)"

lemma conns_connect:
  assumes "fresh_connect env"
  shows "conns_step\<^sup>*\<^sup>* (sg_conns s) (sg_conns (active_connect env ip s))"
proof -
  let ?fd = "sv_connect env (sg_user s) ip"
  have "?fd \<notin> sg_user s \<or> ?fd < 0" using assms by (simp add: fresh_connect_def)
  then have "conns_step (sg_conns s) (conns_add ?fd (sv_peerip env ?fd) (sg_conns s))" if "\<not> ?fd < 0"
    using that by (intro conns_step.Add) (simp add: sg_conns_def)
  then show ?thesis
    using conns_initconn(1) [of env ?fd s] by (auto simp: active_connect_def Let_def split: prod.split)
qed

lemma fold_steps:
  "(\<And>x s. x \<in> set xs \<Longrightarrow> R\<^sup>*\<^sup>* (f s) (f (g x s))) \<Longrightarrow> R\<^sup>*\<^sup>* (f s) (f (fold g xs s))"
proof (induction xs arbitrary: s)
  case (Cons x xs)
  then have "R\<^sup>*\<^sup>* (f s) (f (g x s))" "R\<^sup>*\<^sup>* (f (g x s)) (f (fold g xs (g x s)))" by simp_all
  then show ?case by simp
qed simp

lemma conns_scan_cfg:
  assumes "fresh_connect env"
  shows "conns_step\<^sup>*\<^sup>* (sg_conns s) (sg_conns (scan_cfg_iplist_and_connect env s))"
proof -
  let ?c = "\<lambda>(uip, ip) st. if sg_find_ip_stat uip st = None then active_connect env ip st else st"
  have one: "conns_step\<^sup>*\<^sup>* (sg_conns s) (sg_conns (?c x s))" for x s
    using conns_connect [OF assms] by (simp split: prod.split)
  let ?s1 = "fold ?c (takeWhile (\<lambda>(uip, _). uip \<noteq> 0) (sv_nameservers env)) s"
  have "conns_step\<^sup>*\<^sup>* (sg_conns s) (sg_conns ?s1)" by (rule fold_steps [where f = sg_conns]) (rule one)
  moreover have "conns_step\<^sup>*\<^sup>* (sg_conns ?s1) (sg_conns (scan_cfg_iplist_and_connect env s))"
    unfolding scan_cfg_iplist_and_connect_def Let_def by (rule fold_steps [where f = sg_conns]) (rule one)
  ultimately show ?thesis by simp
qed

lemma conns_scan_active: "conns_step\<^sup>*\<^sup>* (sg_conns s) (sg_conns (sg_scan_active env fds s))"
proof (induction env fds s rule: sg_scan_active.induct)
  case (2 env fd fds s)
  have close: "conns_step\<^sup>*\<^sup>* (sg_conns s) (sg_conns (sg_do_close fd s))"
    by (auto simp: conns_close intro: conns_step.Del)
  have send: "sg_conns (sg_active_send env fd h b s) = sg_conns s" for h b
    by (rule conns_frame) simp
  show ?case
    using 2 close send by (auto simp: Let_def elim: rtranclp_trans)
qed simp

subsection \<open>The steps of the plugin\<close>

lemma drain_inv:
  assumes "\<And>s s'. sg_frame s = sg_frame s' \<Longrightarrow> P s = P s'" and "\<And>t s. P s \<Longrightarrow> P (work t s)" and "P s"
  shows "P (sg_drain env q work n s)"
  using assms(3)
proof (induction n arbitrary: s)
  case (Suc n)
  obtain ret r s1 where g: "sg_get_task env q s = (ret, r, s1)" by (metis prod_cases3)
  then have "P s1" using assms(1) [OF frame_get [OF g]] Suc.prems by simp
  then show ?case using Suc g assms(2) by (cases r) simp_all
qed simp

text \<open>
  What finishing a task does to the connections and to the state of the synchronisation: only a
  server whose list is finished (flag 2) may turn on line.
\<close>

definition fin_view :: "sg_state \<Rightarrow> sg_state \<Rightarrow> bool" where
  "fin_view s s' \<longleftrightarrow> sg_conns s' = sg_conns s \<and> sg_flag s' = sg_flag s \<and> sg_sync_list s' = sg_sync_list s
     \<and> sg_init_sync s' = sg_init_sync s
     \<and> (sg_self_stat s' = sg_self_stat s \<or> sg_flag s = 2 \<and> sg_self_stat s' = ONLINE_STAT)"

lemma fin_view_frame: "sg_frame s' = sg_frame s'' \<Longrightarrow> fin_view s s' = fin_view s s''"
  by (simp add: fin_view_def sg_frame_def sync_view_def)

lemma fin_view_refl: "sg_frame s' = sg_frame s \<Longrightarrow> fin_view s s'"
  by (simp add: fin_view_def sg_frame_def sync_view_def)

lemma fin_view_trans: "fin_view a b \<Longrightarrow> fin_view b c \<Longrightarrow> fin_view a c"
  by (auto simp: fin_view_def)

lemma fin_view_finish: "fin_view s (sg_finish env t s)"
proof -
  define base where "base = ti_base (sg_info t s)"
  define need where "need = u_need_sync (ti_sub (sg_info t s))"
  define s1 where "s1 = (if need = TASK_SOURCE then
                    if b_overstatus base = OVER_OK \<or> b_overstatus base = OVER_UNLINK
                    then sync_task_2_domain env t s else s
                  else if need = TASK_SYNC_ISDIR then
                    let s' = s\<lparr>sg_synced := sg_synced s + 1\<rparr> in
                    if sg_flag s' = 2 \<and> sg_synced s' \<ge> sg_total s' \<and> sg_self_stat s' \<noteq> OFF_LINE
                    then s'\<lparr>sg_self_stat := ONLINE_STAT\<rparr> else s'
                  else s)"
  have src: "fin_view s (sync_task_2_domain env t s)" by (rule fin_view_refl) simp
  have isdir: "fin_view s (if b then s\<lparr>sg_synced := n\<rparr>\<lparr>sg_self_stat := ONLINE_STAT\<rparr> else s\<lparr>sg_synced := n\<rparr>)"
    if "b \<Longrightarrow> sg_flag s = 2" for b n using that by (simp add: fin_view_def sg_conns_def)
  have "fin_view s s1"
  proof (cases "need = TASK_SYNC_ISDIR")
    case True
    then show ?thesis unfolding s1_def Let_def using isdir by simp
  next
    case False
    then show ?thesis unfolding s1_def using src fin_view_refl [of s s] by simp
  qed
  moreover have "sg_frame (sg_finish env t s) = sg_frame s \<or> sg_frame (sg_finish env t s) = sg_frame s1"
    by (simp add: sg_finish_def base_def [symmetric] need_def [symmetric] s1_def [symmetric] Let_def)
  ultimately show ?thesis using fin_view_frame fin_view_refl by blast
qed

lemma fin_view_fin_task: "fin_view s (do_fin_task env s)"
  unfolding do_fin_task_def
proof (rule drain_inv [of "fin_view s"])
  show "fin_view s s'' = fin_view s s'" if "sg_frame s'' = sg_frame s'" for s'' s' using fin_view_frame [OF that] .
  show "fin_view s (sg_finish env t s')" if "fin_view s s'" for t s' using fin_view_trans [OF that fin_view_finish] .
qed (simp add: fin_view_refl)

lemma fin_view_check_task: "fin_view s (sg_check_task env s)"
proof -
  let ?s1 = "sg_drain env TASK_Q_WAIT_SYNC_IP (\<lambda>t. sg_set_task env t TASK_Q_WAIT_SYNC) (sv_max_run env) s"
  let ?s2 = "sg_drain env TASK_Q_WAIT_SYNC_DIR_TMP (\<lambda>t. sg_set_task env t TASK_Q_WAIT_SYNC_DIR) (sv_max_run env) ?s1"
  let ?s3 = "dispatch_loop env (sv_max_run env) ?s2"
  have "sg_frame ?s3 = sg_frame s" by (simp add: frame_drain)
  then have "fin_view s ?s3" by (rule fin_view_refl)
  then have "fin_view s (do_fin_task env ?s3)" using fin_view_fin_task fin_view_trans by blast
  then show ?thesis using fin_view_frame [OF frame_check_sync] by (simp add: sg_check_task_def Let_def)
qed

lemma active_sync_conns: "sg_conns (do_active_sync env s) = sg_conns s"
proof -
  have count: "sg_conns s1 = sg_conns s" if "check_count_one_day env s = (r, s1)" for r s1
    using that by (auto simp: check_count_one_day_def Let_def sg_conns_def split: if_splits)
  have sub: "sg_conns (do_sub_sync env e fd st) = sg_conns st" for e fd st
    using conns_frame [OF frame_out] by (simp add: do_sub_sync_def Let_def upd_cs_def sg_conns_def sg_out_def sg_queue_def fun_eq_iff)
  have upd: "sg_conns (st\<lparr>sg_sync_list := x\<rparr>) = sg_conns st" "sg_conns (st\<lparr>sg_flag := y\<rparr>) = sg_conns st"
    "sg_conns (st\<lparr>sg_last_sync := z\<rparr>) = sg_conns st" for st x y z by (simp_all add: sg_conns_def)
  obtain r s1 where c: "check_count_one_day env s = (r, s1)" by fastforce
  have "sg_conns (fold (\<lambda>i. ask_peer env e (dm_ips d i)) xs st) = sg_conns st"
    for d :: t_pfs_domain and e xs st by (rule fold_keeps) (simp add: ask_peer_def Let_def sub upd split: option.split)
  then show ?thesis using count [OF c] by (simp add: do_active_sync_def c Let_def upd split: list.split)
qed

lemma sync_state_conns: "sg_conns (sg_sync_state env s) = sg_conns s"
proof -
  have upd: "sg_conns (st\<lparr>sg_self_stat := x\<rparr>) = sg_conns st" "sg_conns (st\<lparr>sg_flag := y\<rparr>) = sg_conns st" for st x y
    by (simp_all add: sg_conns_def)
  show ?thesis by (simp add: sg_sync_state_def Let_def upd active_sync_conns)
qed

lemma init_pairs_conns: "sg_conns (snd (init_sync_pairs env ps s)) = sg_conns s"
  by (induction env ps s rule: init_sync_pairs.induct) (auto simp: Let_def sg_conns_def)

lemma thread_start_conns: "sg_conns (sync_dir_thread_start env s) = sg_conns s"
  using init_pairs_conns [of env "sync_pairs (sv_cf env)" s]
  by (simp add: sync_dir_thread_start_def init_sync_list_def) (simp add: sg_conns_def)

inductive sg_step :: "sg_state \<Rightarrow> sg_state \<Rightarrow> bool" where
  Accept: "fd \<notin> sg_user s \<Longrightarrow> sg_step s (snd (sg_svc_initconn env fd s))"
| Recv: "fd \<in> sg_user s \<Longrightarrow> sg_step s (fst (snd (sg_svc_recv env fd s buf)))"
| Send: "fd \<in> sg_user s \<Longrightarrow> sg_step s (snd (sg_svc_send env fd s))"
| Close: "sg_step s (sg_do_close fd s)"
| Timeout: "fresh_connect env \<Longrightarrow> sg_step s (sg_svc_timeout env s)"
| Start: "\<not> sg_init_sync s \<Longrightarrow> sg_step s (sync_dir_thread_start env s)"
| Thread: "sg_step s (sync_dir_thread env s)"

inductive_cases sg_stepE: "sg_step s s'"

lemma timeout_conns:
  assumes "fresh_connect env"
  shows "conns_step\<^sup>*\<^sup>* (sg_conns s) (sg_conns (sg_svc_timeout env s))"
proof -
  define s1 where "s1 = (if sv_now env - sg_report_info s > 300 then report_local_diskerr env (s\<lparr>sg_report_info := sv_now env\<rparr>) else s)"
  define s2 where "s2 = sg_scan_active env (sg_activelist s1) s1"
  define s3 where "s3 = sg_check_task env (sg_sync_state env (scan_cfg_iplist_and_connect env s2))"
  have 1: "sg_conns s1 = sg_conns s"
    using conns_frame [OF frame_report, of env "s\<lparr>sg_report_info := sv_now env\<rparr>"] by (auto simp: s1_def sg_conns_def)
  have 2: "conns_step\<^sup>*\<^sup>* (sg_conns s1) (sg_conns s2)" unfolding s2_def by (rule conns_scan_active)
  have 3: "sg_conns s3 = sg_conns (scan_cfg_iplist_and_connect env s2)"
    using fin_view_check_task [of "sg_sync_state env (scan_cfg_iplist_and_connect env s2)" env] sync_state_conns
    by (simp add: fin_view_def s3_def)
  have 4: "sg_conns (sg_svc_timeout env s) = sg_conns s3"
    by (auto simp: sg_svc_timeout_def Let_def s1_def s2_def s3_def sg_conns_def)
  show ?thesis
    unfolding 4 3 1 [symmetric] using 2 conns_scan_cfg [OF assms, of s2] by simp
qed

lemma sg_step_conns: "sg_step s s' \<Longrightarrow> conns_step\<^sup>*\<^sup>* (sg_conns s) (sg_conns s')"
proof (induction rule: sg_step.induct)
  case (Accept fd s env)
  then show ?case
    by (auto simp: conns_initconn intro!: r_into_rtranclp conns_step.Add) (simp add: sg_conns_def)
next
  case (Recv fd s env buf)
  then show ?case
    by (auto simp: conns_recv intro!: r_into_rtranclp conns_step.Move) (simp add: sg_conns_def)
next
  case (Send fd s env)
  then show ?case
    by (auto simp: sg_svc_send_def conns_touch intro!: r_into_rtranclp conns_step.Move) (simp add: sg_conns_def)
next
  case (Close s fd)
  show ?case by (auto simp: conns_close intro: conns_step.Del)
next
  case (Timeout env s)
  then show ?case by (rule timeout_conns)
next
  case (Start s env)
  show ?case by (simp add: thread_start_conns)
next
  case (Thread s env)
  show ?case by (simp add: conns_frame [OF frame_thread])
qed

interpretation sg_peers: peer_registry sg_conns sg_step
  by unfold_locales (rule sg_step_conns)

definition sg_start :: "sg_state \<Rightarrow> bool" where
  "sg_start s \<longleftrightarrow> (\<exists>s0. s = sg_svc_init UNKOWN_STAT s0) \<and> sg_user s = {} \<and> \<not> sg_init_sync s"

text \<open>
  C28: through any sequence of accepts, own connects, received data, sends, closes and rounds of
  the clock the storage server finds the connection of a peer exactly when one from its address
  is open, and the list that the time-out works on holds every open connection once.
\<close>

theorem storage_peers_found:
  assumes "sg_start s0" and "sg_step\<^sup>*\<^sup>* s0 s"
  shows "(sg_find_ip_stat ip s \<noteq> None \<longleftrightarrow> (\<exists>fd \<in> sg_user s. cp_ip (sg_peer s fd) = ip))
    \<and> distinct (sg_activelist s) \<and> set (sg_activelist s) = sg_user s"
proof -
  have "conns_empty (sg_conns s0)"
    using assms(1) by (auto simp: sg_start_def sg_svc_init_def conns_empty_def sg_conns_def)
  from sg_peers.found_iff_connected(1) [OF assms(2) this, of ip] sg_peers.found_iff_connected(2) [OF assms(2) this]
  show ?thesis by (simp add: sg_find_conns) (simp add: sg_conns_def)
qed

subsection \<open>Going on line\<close>

definition sync_inv :: "sg_state \<Rightarrow> bool" where
  "sync_inv s \<longleftrightarrow> (sg_self_stat s \<noteq> UNKOWN_STAT \<and> sg_flag s = 2 \<longrightarrow> sg_sync_list s = [] \<and> sg_init_sync s)"

lemma sync_inv_view: "sync_view s = sync_view s' \<Longrightarrow> sync_inv s = sync_inv s'"
  by (simp add: sync_inv_def sync_view_def)

lemma sync_inv_frame: "sg_frame s = sg_frame s' \<Longrightarrow> sync_inv s = sync_inv s'"
  by (rule sync_inv_view) (rule view_frame)

lemma sync_inv_close: "sync_inv s \<Longrightarrow> sync_inv (sg_do_close fd s)"
  by (auto simp: sync_inv_def sg_do_close_def sg_svc_finiconn_def Let_def split: option.split)

lemma view_do_req:
  "sync_view (snd (sg_do_req env fd s h b)) = sync_view s
   \<or> sync_view (snd (sg_do_req env fd s h b)) = (0, snd (sync_view s))"
proof -
  let ?s = "upd_cs fd (\<lambda>p. p\<lparr>cp_hbtime := word_of_int (sv_now env)\<rparr>) s"
  have c: "sync_view ?s = sync_view s" "\<And>f s. (\<And>p. cp_ip (f p) = cp_ip p) \<Longrightarrow> sync_view (upd_cs fd f s) = sync_view s"
    "\<And>m s. sync_view (sg_queue fd m s) = sync_view s" "\<And>b s. sync_view (do_sync_dir_req env fd b s) = sync_view s"
    "\<And>b s. sync_view (do_sync_del_req env fd b s) = sync_view s"
    by (auto intro!: view_frame)
  have d: "\<And>s. sync_view (s\<lparr>sg_flag := 0\<rparr>) = (0, snd (sync_view s))" "\<And>x s. sync_view (s\<lparr>sg_dom := x\<rparr>) = sync_view s"
    by (simp_all add: sync_view_def)
  show ?thesis
    using view_frame [OF frame_newtask, of env fd "h_status h" "dec_base b" ?s]
    by (auto simp: sg_do_req_def Let_def c d split: prod.split)
qed

lemma sync_inv_do_req: "sync_inv s \<Longrightarrow> sync_inv (snd (sg_do_req env fd s h b))"
  using view_do_req [of env fd s h b] by (auto simp: sync_inv_def sync_view_def)

lemma sync_inv_scan_active: "sync_inv s \<Longrightarrow> sync_inv (sg_scan_active env fds s)"
proof (induction fds arbitrary: s)
  case (Cons fd fds)
  have "sync_inv (sg_active_send env fd h b s) = sync_inv s" for h b by (rule sync_inv_frame) simp
  then show ?case using Cons sync_inv_close [OF Cons.prems] by (simp add: Let_def)
qed simp

lemma view_connect: "sync_view (active_connect env ip s) = sync_view s"
  using conns_initconn(2) [of env "sv_connect env (sg_user s) ip" s]
  by (auto simp: active_connect_def Let_def split: prod.split)

lemma view_scan_cfg: "sync_view (scan_cfg_iplist_and_connect env s) = sync_view s"
  unfolding scan_cfg_iplist_and_connect_def Let_def
  by (subst fold_keeps [of _ sync_view], simp add: view_connect)
    (subst fold_keeps [of _ sync_view], auto simp: view_connect)

lemma init_pairs_view:
  "sg_flag (snd (init_sync_pairs env ps s)) = sg_flag s \<and> sg_self_stat (snd (init_sync_pairs env ps s)) = sg_self_stat s"
  by (induction env ps s rule: init_sync_pairs.induct) (auto simp: Let_def)

lemma active_sync_keeps:
  "sg_self_stat (do_active_sync env s) = sg_self_stat s \<and> sg_init_sync (do_active_sync env s) = sg_init_sync s"
proof -
  let ?v = "\<lambda>s. (sg_self_stat s, sg_init_sync s)"
  obtain r s1 where c: "check_count_one_day env s = (r, s1)" by fastforce
  then have s1: "?v s1 = ?v s" by (auto simp: check_count_one_day_def Let_def split: if_splits)
  have "?v (fold (\<lambda>i. ask_peer env e (dm_ips d i)) xs st) = ?v st" for d :: t_pfs_domain and e xs st
    by (rule fold_keeps)
      (auto simp: ask_peer_def do_sub_sync_def upd_cs_def sg_out_def sg_queue_def Let_def split: option.split)
  then show ?thesis using s1 by (auto simp: do_active_sync_def c Let_def split: list.split)
qed

text \<open>The flag becomes 2 only when the list is found empty.\<close>

lemma ask_peers_flag:
  "sg_flag s \<noteq> 2 \<Longrightarrow> sg_flag (fold (\<lambda>i. ask_peer env e (dm_ips d i)) xs s) \<noteq> 2"
  by (rule fold_inv [of "\<lambda>s. sg_flag s \<noteq> 2"])
    (auto simp: ask_peer_def do_sub_sync_def upd_cs_def Let_def split: option.split)

lemma active_sync_inv:
  assumes "sg_flag s = 0"
  shows "sg_flag (do_active_sync env s) = 2 \<longrightarrow> sg_sync_list (do_active_sync env s) = [] \<and> sg_init_sync (do_active_sync env s)"
proof -
  obtain r s1 where c: "check_count_one_day env s = (r, s1)" by fastforce
  then have s1: "sg_flag s1 = 0" "sg_init_sync s1 = sg_init_sync s"
    using assms by (auto simp: check_count_one_day_def Let_def split: if_splits)
  then show ?thesis
    using assms ask_peers_flag [of "s1\<lparr>sg_last_sync := sv_now env\<rparr>"]
    by (auto simp: do_active_sync_def c Let_def split: list.split)
qed

lemma sync_state_inv:
  assumes "sync_inv s"
  shows "sync_inv (sg_sync_state env s) \<and> sg_self_stat (sg_sync_state env s) \<noteq> UNKOWN_STAT"
proof -
  define s1 where "s1 = (if sg_self_stat s = UNKOWN_STAT then s\<lparr>sg_self_stat := WAIT_SYNC, sg_flag := 0\<rparr> else s)"
  define s2 where "s2 = (if sg_flag s1 = 1 \<and> sv_now env - sg_last s1 > 3600 then s1\<lparr>sg_flag := 0\<rparr> else s1)"
  define s3 where "s3 = (if sg_flag s2 = 0 then do_active_sync env s2 else s2)"
  have 1: "sync_inv s1" "sg_self_stat s1 \<noteq> UNKOWN_STAT" using assms by (auto simp: sync_inv_def s1_def)
  then have 2: "sync_inv s2" "sg_self_stat s2 = sg_self_stat s1" by (auto simp: sync_inv_def s2_def)
  have 3: "sync_inv s3" "sg_self_stat s3 = sg_self_stat s1"
    using 2 active_sync_inv [of s2 env] active_sync_keeps [of env s2] by (auto simp: s3_def sync_inv_def)
  have e: "sg_sync_state env s = (if sg_self_stat s1 \<noteq> WAIT_SYNC then s1
      else if sg_flag s3 = 2 \<and> sg_synced s3 \<ge> sg_total s3 then s3\<lparr>sg_self_stat := ONLINE_STAT\<rparr> else s3)"
    by (simp add: sg_sync_state_def Let_def s1_def [symmetric] s2_def [symmetric] s3_def [symmetric])
  show ?thesis using 1 3 unfolding e by (auto simp: sync_inv_def)
qed

lemma sync_inv_timeout: "sync_inv s \<Longrightarrow> sync_inv (sg_svc_timeout env s)"
proof -
  assume s: "sync_inv s"
  define s1 where "s1 = (if sv_now env - sg_report_info s > 300 then report_local_diskerr env (s\<lparr>sg_report_info := sv_now env\<rparr>) else s)"
  define s2 where "s2 = sg_scan_active env (sg_activelist s1) s1"
  define s3 where "s3 = sg_sync_state env (scan_cfg_iplist_and_connect env s2)"
  have "sync_inv (s\<lparr>sg_report_info := sv_now env\<rparr>)" using s by (simp add: sync_inv_def)
  then have "sync_inv s1" using s sync_inv_frame [OF frame_report] by (auto simp: s1_def)
  then have "sync_inv s2" unfolding s2_def by (rule sync_inv_scan_active)
  then have "sync_inv (scan_cfg_iplist_and_connect env s2)" using sync_inv_view [OF view_scan_cfg] by blast
  then have s3: "sync_inv s3" "sg_self_stat s3 \<noteq> UNKOWN_STAT" unfolding s3_def using sync_state_inv by blast+
  then have "sync_inv (sg_check_task env s3)"
    using fin_view_check_task [of s3 env] by (auto simp: fin_view_def sync_inv_def)
  then show ?thesis
    by (auto simp: sg_svc_timeout_def Let_def s1_def [symmetric] s2_def [symmetric] s3_def [symmetric] sync_inv_def)
qed

lemma sync_inv_step: "sg_step s s' \<Longrightarrow> sync_inv s \<Longrightarrow> sync_inv s'"
proof (induction rule: sg_step.induct)
  case (Accept fd s env)
  then show ?case using sync_inv_view [OF conns_initconn(2)] by blast
next
  case (Recv fd s env buf)
  have "sync_inv (sg_touch env fd s)" using Recv sync_inv_view [OF conns_touch(2)] by blast
  then show ?case unfolding sg_svc_recv_def by (rule recv_loop_inv [of sync_inv, rotated]) (rule sync_inv_do_req)
next
  case (Send fd s env)
  then show ?case using sync_inv_view [OF conns_touch(2)] by (auto simp: sg_svc_send_def)
next
  case (Start s env)
  then show ?case
    using init_pairs_view [of env "sync_pairs (sv_cf env)" s]
    by (auto simp: sync_inv_def sync_dir_thread_start_def init_sync_list_def)
next
  case (Thread s env)
  then show ?case using sync_inv_frame [OF frame_thread] by blast
qed (rule sync_inv_close sync_inv_timeout; assumption)+

text \<open>Only the plugin's clock changes the server's state, and to on line only with flag 2.\<close>

lemma sync_state_online:
  "sg_self_stat (sg_sync_state env s) = ONLINE_STAT \<Longrightarrow>
   sg_self_stat s = ONLINE_STAT \<or> sg_flag (sg_sync_state env s) = 2"
  using active_sync_keeps by (auto simp: sg_sync_state_def Let_def split: if_splits)

lemma scan_active_self: "sg_self_stat (sg_scan_active env fds s) = sg_self_stat s"
proof (induction fds arbitrary: s)
  case (Cons fd fds)
  have "sg_self_stat (sg_active_send env fd h b s) = sg_self_stat s" for h b
    by (simp add: sg_active_send_def sg_out_def sg_queue_def upd_cs_def)
  moreover have "sg_self_stat (sg_do_close fd s) = sg_self_stat s"
    by (auto simp: sg_do_close_def sg_svc_finiconn_def Let_def split: option.split)
  ultimately show ?case using Cons by (simp add: Let_def)
qed simp

lemma timeout_online:
  assumes "sg_self_stat (sg_svc_timeout env s) = ONLINE_STAT" and "sg_self_stat s \<noteq> ONLINE_STAT"
  shows "sg_flag (sg_svc_timeout env s) = 2"
proof -
  define s1 where "s1 = (if sv_now env - sg_report_info s > 300 then report_local_diskerr env (s\<lparr>sg_report_info := sv_now env\<rparr>) else s)"
  define s2 where "s2 = scan_cfg_iplist_and_connect env (sg_scan_active env (sg_activelist s1) s1)"
  define s3 where "s3 = sg_sync_state env s2"
  have "sg_self_stat s1 = sg_self_stat s"
    using view_frame [OF frame_report, of env "s\<lparr>sg_report_info := sv_now env\<rparr>"] by (auto simp: s1_def sync_view_def)
  then have 2: "sg_self_stat s2 \<noteq> ONLINE_STAT"
    using assms(2) scan_active_self [of env "sg_activelist s1" s1] view_scan_cfg [of env "sg_scan_active env (sg_activelist s1) s1"]
    by (simp add: s2_def sync_view_def)
  have e: "sg_self_stat (sg_svc_timeout env s) = sg_self_stat (sg_check_task env s3)"
    "sg_flag (sg_svc_timeout env s) = sg_flag (sg_check_task env s3)"
    by (auto simp: sg_svc_timeout_def Let_def s1_def [symmetric] s2_def [symmetric] s3_def [symmetric])
  show ?thesis
    using fin_view_check_task [of s3 env] sync_state_online [of env s2] 2 assms(1) unfolding e s3_def [symmetric]
    by (auto simp: fin_view_def)
qed

lemma step_online:
  assumes "sg_step s s'" and "sg_self_stat s \<noteq> ONLINE_STAT" and "sg_self_stat s' = ONLINE_STAT"
  shows "sg_flag s' = 2"
  using assms
proof (induction rule: sg_step.induct)
  case (Accept fd s env)
  then show ?case using conns_initconn(2) [of env fd s] by (simp add: sync_view_def)
next
  case (Recv fd s env buf)
  have "sg_self_stat (fst (snd (sg_svc_recv env fd s buf))) = sg_self_stat s"
    unfolding sg_svc_recv_def
  proof (rule recv_loop_inv [of "\<lambda>x. sg_self_stat x = sg_self_stat s"])
    show "sg_self_stat (snd (sg_do_req env fd st h b)) = sg_self_stat s" if "sg_self_stat st = sg_self_stat s" for st h b
      using view_do_req [of env fd st h b] that by (auto simp: sync_view_def)
  qed (use conns_touch(2) [of env fd s] in \<open>simp add: sync_view_def\<close>)
  then show ?case using Recv by simp
next
  case (Send fd s env)
  then show ?case using conns_touch(2) [of env fd s] by (simp add: sg_svc_send_def sync_view_def)
next
  case (Close s fd)
  then show ?case by (auto simp: sg_do_close_def sg_svc_finiconn_def Let_def split: option.splits if_splits)
next
  case (Timeout env s)
  then show ?case using timeout_online by blast
next
  case (Start s env)
  then show ?case
    using init_pairs_view [of env "sync_pairs (sv_cf env)" s] by (simp add: sync_dir_thread_start_def init_sync_list_def)
next
  case (Thread s env)
  then show ?case using view_frame [OF frame_thread, of env s] by (simp add: sync_view_def)
qed


definition example_sv :: "int \<Rightarrow> sg_env" where
  "example_sv now = \<lparr>sv_now = now, sv_strtime = ''20140101120000'', sv_lock = (\<lambda>_. 0), sv_malloc = (\<lambda>_. None),
     sv_conn_malloc = True, sv_entry_malloc = (\<lambda>_. True), sv_peerip = (\<lambda>_. 0x0200007F),
     sv_connect = (\<lambda>_ _. -1), sv_load = 150, sv_maxfree = 77, sv_cf = example_cf\<lparr>cf_DIR1 := 1, cf_DIR2 := 1\<rparr>,
     sv_os = example_os, sv_filter = \<lparr>disable_filter = True, allow_list = []\<rparr>, sv_readdir = (\<lambda>_. None),
     sv_opendir = (\<lambda>_. None), sv_self_ip = 0x0100007F, sv_nameservers = [], sv_timeout = 30, sv_retry = 3,
     sv_max_run = 1, sv_sync_dir_count = 20, sv_sync_dir_span = 0, sv_sync_stime = ''00:00:00'',
     sv_sync_etime = ''23:59:59'', sv_task_timeout = 86400, sv_check_timeout = 1\<rparr>"

definition example_dom :: t_pfs_domain where
  "example_dom = zero_domain\<lparr>dm_ipcount := 2, dm_ips := (\<lambda>i. if i = 0 then 0x0100007F else 0x0200007F),
     dm_sips := (\<lambda>i. if i = 0 then ''127.0.0.1'' else ''127.0.0.2''), dm_self := (\<lambda>i. i = 0)\<rparr>"

definition example_sg :: sg_state where
  "example_sg = \<lparr>sg_peer = (\<lambda>_. zero_cs_peer), sg_user = {}, sg_activelist = [], sg_online = (\<lambda>_. []),
     sg_entry = (\<lambda>_. \<lparr>st_d1 = 0, st_d2 = 0, st_starttime = 0, st_endtime = 0, st_type = 0\<rparr>), sg_next = 0,
     sg_sync_list = [], sg_flag = 2, sg_last = 0, sg_total = 0, sg_synced = 0, sg_init_sync = False,
     sg_self_stat = UNKOWN_STAT, sg_count_last = 0, sg_count = 0, sg_last_sync = 0, sg_report_info = 1900,
     sg_last_scan = 1900, sg_dom = example_dom, sg_task = blank_tasks, sg_store = example_store\<lparr>fs_stamp := [0]\<rparr>,
     sg_send = (\<lambda>_. []), sg_epollout = {}, sg_closed = [], sg_undefined = False\<rparr>"

theorem storage_peers_found_witness:
  "sg_find_ip_stat 0x0200007F (snd (sg_svc_initconn (example_sv 1999) 5 example_sg)) \<noteq> None
   \<and> sg_find_ip_stat 0x0300007F (snd (sg_svc_initconn (example_sv 1999) 5 example_sg)) = None"
proof -
  let ?s = "snd (sg_svc_initconn (example_sv 1999) 5 example_sg)"
  have "sg_start example_sg"
    by (auto simp: sg_start_def sg_svc_init_def example_sg_def intro!: exI [of _ example_sg])
  moreover have "sg_step\<^sup>*\<^sup>* example_sg ?s"
    by (rule r_into_rtranclp, rule sg_step.Accept) (simp add: example_sg_def)
  ultimately show ?thesis
    using storage_peers_found [of example_sg ?s "0x0200007F"] storage_peers_found [of example_sg ?s "0x0300007F"]
    by (simp add: sg_svc_initconn_def example_sg_def example_sv_def)
qed


end
