(* ===== verification/Pfs_Transfer.thy ===== *)
theory Pfs_Transfer
  imports Pfs_Protocol Pfs_Codec Pfs_Peers Pfs_Wire Pfs_Store Pfs_Disk
begin

section \<open>Receiving files (network/D and network/U)\<close>

text \<open>
  The data plugin \<^verbatim>\<open>D\<close> and the upload plugin \<^verbatim>\<open>U\<close> of a storage server share most of their code:
  the connection's state, the part of \<^verbatim>\<open>svc_recv\<close> that takes a file from a connection, and the
  functions \<^verbatim>\<open>create_push_rsp\<close>, \<^verbatim>\<open>create_push_rsp_err\<close>, \<^verbatim>\<open>do_recv_task\<close> and \<^verbatim>\<open>get_local_filename\<close> stand in both
  directories with the same text up to logging.  This theory holds that part; the value of
  \<^verbatim>\<open>oper_type\<close> by which the two recognise a client's upload and the handler \<^verbatim>\<open>do_req\<close> are parameters.

  A connection's receive buffer is an argument and a result, as in the signalling plugins.
  \<open>dt_ofile\<close> are the local files open for writing, with the position of the next write;
  \<open>dt_sendfile\<close> is the local descriptor and the number of bytes attached to a connection's send
  buffer, \<open>dt_send_len\<close> what the event loop has sent since it was cleared.  \<open>dt_undefined\<close> is set where
  the program writes beyond a buffer or through a null pointer.
\<close>

subsection \<open>State\<close>


datatype data_stat = LOGOUT | CONNECTED | LOGIN | IDLE | PREPARE_RECVFILE | RECVFILEING | SENDFILEING | LAST_STAT

datatype con_mode = CON_PASSIVE | CON_ACTIVE

record pfs_data_peer =
  dp_fd :: int
  dp_local_in_fd :: int
  dp_hbtime :: uint32
  dp_ip :: uint32
  dp_headlen :: uint32
  dp_sock_stat :: data_stat
  dp_mode :: con_mode
  dp_close :: bool
  dp_ctx :: MD5Context
  dp_recvtask :: "nat option"
  dp_sendtask :: "nat option"

record dt_state =
  dt_peer :: "int \<Rightarrow> pfs_data_peer"
  dt_user :: "int set"
  dt_activelist :: "int list"
  dt_online :: "nat \<Rightarrow> int list"
  dt_task :: task_state
  dt_store :: store
  dt_disk :: disk_state
  dt_dom :: t_pfs_domain
  dt_pic_index :: uint32
  dt_ofile :: "int \<Rightarrow> (string \<times> nat) option"
  dt_send :: "int \<Rightarrow> bytes"
  dt_sendfile :: "int \<Rightarrow> (int \<times> int) option"
  dt_send_len :: "int \<Rightarrow> int"
  dt_epollout :: "int set"
  dt_closed :: "int list"
  dt_undefined :: bool

text \<open>
  \<open>dv_write\<close> is the result of \<^verbatim>\<open>write\<close> on an open descriptor for a number of bytes, \<open>dv_errmsg\<close> the text
  of \<^verbatim>\<open>%m\<close>, \<open>dv_stack\<close> the byte in memory behind the 16 bytes of \<^verbatim>\<open>omd5\<close>.
\<close>

record dt_env =
  dv_now :: int
  dv_lock :: "int \<Rightarrow> int"
  dv_malloc :: "task_state \<Rightarrow> nat option"
  dv_conn_malloc :: bool
  dv_peerip :: "int \<Rightarrow> uint32"
  dv_connect :: "int set \<Rightarrow> string \<Rightarrow> int"
  dv_write :: "nat \<Rightarrow> int"
  dv_errmsg :: string
  dv_stack :: uint8
  dv_cf :: store_config
  dv_os :: os_env
  dv_self_ip :: uint32
  dv_timeout :: uint16
  dv_retry :: uint8
  dv_max_run :: uint16
  dv_max_connects :: uint16
  dv_pfs_test :: bool

definition zero_data_peer :: pfs_data_peer where
  "zero_data_peer = \<lparr>dp_fd = 0, dp_local_in_fd = 0, dp_hbtime = 0, dp_ip = 0, dp_headlen = 0,
     dp_sock_stat = LOGOUT, dp_mode = CON_PASSIVE, dp_close = False, dp_ctx = blank_ctx,
     dp_recvtask = None, dp_sendtask = None\<rparr>"

definition upd_dp :: "int \<Rightarrow> (pfs_data_peer \<Rightarrow> pfs_data_peer) \<Rightarrow> dt_state \<Rightarrow> dt_state" where
  "upd_dp fd f s = s\<lparr>dt_peer := (dt_peer s)(fd := f (dt_peer s fd))\<rparr>"

definition dt_queue :: "int \<Rightarrow> bytes \<Rightarrow> dt_state \<Rightarrow> dt_state" where
  "dt_queue fd m s = s\<lparr>dt_send := (dt_send s)(fd := dt_send s fd @ m)\<rparr>"

definition dt_out :: "int \<Rightarrow> bytes \<Rightarrow> dt_state \<Rightarrow> dt_state" where
  "dt_out fd m s = (dt_queue fd m s)\<lparr>dt_epollout := insert fd (dt_epollout s)\<rparr>"

definition dt_get_task :: "dt_env \<Rightarrow> int \<Rightarrow> dt_state \<Rightarrow> int \<times> nat option \<times> dt_state" where
  "dt_get_task env q s =
     (case pfs_get_task (dv_lock env) (dv_malloc env (dt_task s)) (dv_now env) q (dt_task s) of
        (ret, r, ts) \<Rightarrow> (ret, r, s\<lparr>dt_task := ts\<rparr>))"

definition dt_set_task :: "dt_env \<Rightarrow> nat \<Rightarrow> int \<Rightarrow> dt_state \<Rightarrow> dt_state" where
  "dt_set_task env t q s = s\<lparr>dt_task := snd (pfs_set_task (dv_lock env) (dv_now env) t q (dt_task s))\<rparr>"

definition dt_fill :: "nat \<Rightarrow> (t_pfs_taskinfo \<Rightarrow> t_pfs_taskinfo) \<Rightarrow> dt_state \<Rightarrow> dt_state" where
  "dt_fill t f s = s\<lparr>dt_task := upd_task t (\<lambda>k. k\<lparr>tk_task := f (tk_task k)\<rparr>) (dt_task s)\<rparr>"

definition dt_base :: "nat \<Rightarrow> (t_task_base \<Rightarrow> t_task_base) \<Rightarrow> dt_state \<Rightarrow> dt_state" where
  "dt_base t f = dt_fill t (\<lambda>k. k\<lparr>ti_base := f (ti_base k)\<rparr>)"

definition dt_info :: "nat \<Rightarrow> dt_state \<Rightarrow> t_pfs_taskinfo" where
  "dt_info t s = tk_task (tasks (dt_task s) t)"

subsection \<open>Connections\<close>

text \<open>\<^verbatim>\<open>hbtime\<close> is set and the connection moved to the end of the list.\<close>

definition dt_touch :: "dt_env \<Rightarrow> int \<Rightarrow> dt_state \<Rightarrow> dt_state" where
  "dt_touch env fd s = (upd_dp fd (\<lambda>p. p\<lparr>dp_hbtime := word_of_int (dv_now env)\<rparr>) s)
     \<lparr>dt_activelist := remove1 fd (dt_activelist s) @ [fd]\<rparr>"

text \<open>A connection's descriptor is registered with an empty send buffer (\<^verbatim>\<open>add_fd_2_efd\<close>).\<close>

definition new_peer :: "dt_env \<Rightarrow> int \<Rightarrow> uint32 \<Rightarrow> pfs_data_peer" where
  "new_peer env fd ip = zero_data_peer\<lparr>dp_hbtime := word_of_int (dv_now env), dp_sock_stat := CONNECTED,
     dp_fd := fd, dp_ip := ip, dp_mode := CON_PASSIVE, dp_ctx := MD5Init blank_ctx\<rparr>"

definition close_local :: "int \<Rightarrow> dt_state \<Rightarrow> dt_state" where
  "close_local lfd s = (if lfd > 0 then s\<lparr>dt_ofile := (dt_ofile s)(lfd := None)\<rparr> else s)"

subsection \<open>Answers to a client (create_push_rsp, create_push_rsp_err)\<close>

definition create_push_rsp :: "t_task_base \<Rightarrow> int \<Rightarrow> dt_state \<Rightarrow> dt_state" where
  "create_push_rsp base fd s =
     (let retbuf = snprintf_s 256 (''OK|'' @ b_retfile base @ ''|'' @ dm_domain (dt_dom s)) in
      dt_out fd (create_sig_msg CMD_PUT_FILE_RSP 0 (text_field 256 retbuf) 256)
        (upd_dp fd (\<lambda>p. p\<lparr>dp_close := True\<rparr>) s))"

definition create_push_rsp_err :: "string \<Rightarrow> int \<Rightarrow> dt_state \<Rightarrow> dt_state" where
  "create_push_rsp_err errmsg fd s =
     dt_out fd (create_sig_msg CMD_PUT_FILE_RSP 0 (bytes_of errmsg) (of_nat (length errmsg)))
       (upd_dp fd (\<lambda>p. p\<lparr>dp_close := True\<rparr>) s)"

subsection \<open>Opening the local file\<close>

text \<open>
  The part that \<^verbatim>\<open>do_recv_task\<close> and \<^verbatim>\<open>do_push_task\<close> have in common: the old descriptor is closed and
  the temporary file of the task's base is opened.  The result says whether it was opened; the
  failure of the opening is stored in the task, which goes to the queue of tasks to be cleaned.
\<close>

definition open_recv :: "dt_env \<Rightarrow> int \<Rightarrow> nat \<Rightarrow> dt_state \<Rightarrow> bool \<times> dt_state" where
  "open_recv env fd t s =
     (let lfd = dp_local_in_fd (dt_peer s fd); s1 = close_local lfd s in
      case open_tmp_localfile_4_write (dv_cf env) (dv_os env) (ti_base (dt_info t s1)) lfd (dt_store s1) of
        None \<Rightarrow> (False, s1\<lparr>dt_undefined := True\<rparr>)
      | Some (r, base, lfd1, st) \<Rightarrow>
          let s2 = upd_dp fd (\<lambda>p. p\<lparr>dp_local_in_fd := lfd1\<rparr>) (dt_base t (\<lambda>_. base) (s1\<lparr>dt_store := st\<rparr>)) in
          if r \<noteq> LOCALFILE_OK then
            (False, upd_dp fd (\<lambda>p. p\<lparr>dp_recvtask := None\<rparr>)
               (dt_set_task env t TASK_Q_CLEAN (dt_base t (\<lambda>b. b\<lparr>b_overstatus := OVER_E_OPEN_DSTFILE\<rparr>) s2)))
          else
            (True, upd_dp fd (\<lambda>p. p\<lparr>dp_sock_stat := RECVFILEING\<rparr>)
               (if lfd1 < 0 then s2 else s2\<lparr>dt_ofile := (dt_ofile s2)(lfd1 := Some (b_tmpfile base, 0))\<rparr>)))"

definition do_recv_task :: "dt_env \<Rightarrow> int \<Rightarrow> t_pfs_sig_head \<Rightarrow> t_task_base \<Rightarrow> dt_state \<Rightarrow> int \<times> dt_state" where
  "do_recv_task env fd h base s =
     (if dp_sock_stat (dt_peer s fd) \<noteq> PREPARE_RECVFILE then (RECV_CLOSE, s)
      else case dp_recvtask (dt_peer s fd) of
        None \<Rightarrow> (RECV_CLOSE, s\<lparr>dt_undefined := True\<rparr>)
      | Some t \<Rightarrow>
          if h_status h \<noteq> FILE_SYNC_DST_2_SRC then
            (RECV_CLOSE, upd_dp fd (\<lambda>p. p\<lparr>dp_sock_stat := IDLE, dp_recvtask := None\<rparr>)
               (dt_set_task env t TASK_Q_FIN (dt_base t (\<lambda>b. b\<lparr>b_overstatus := OVER_E_OPEN_SRCFILE\<rparr>) s)))
          else
            let s1 = (if b_filemd5 (ti_base (dt_info t s)) \<noteq> b_filemd5 base
                      then dt_fill t (\<lambda>k. k\<lparr>ti_base := base, ti_sub := (ti_sub k)\<lparr>u_processlen := b_fsize base\<rparr>\<rparr>) s
                      else s)
            in case open_recv env fd t s1 of (ok, s2) \<Rightarrow> (if ok then RECV_ADD_EPOLLIN else RECV_CLOSE, s2))"

subsection \<open>Taking a file from a connection (svc_recv)\<close>

text \<open>\<^verbatim>\<open>remainlen\<close> is an \<^verbatim>\<open>int\<close>, which is compared with the unsigned length of the data.\<close>

definition recv_len :: "t_task_sub \<Rightarrow> nat \<Rightarrow> nat" where
  "recv_len sub datalen =
     (let remainlen = sint (word_of_int (u_processlen sub - u_lastlen sub) :: 32 word) in
      if remainlen < 0 then datalen else min datalen (nat remainlen))"

text \<open>\<^verbatim>\<open>write\<close> fails on a descriptor that is not open.\<close>

definition write_local :: "dt_env \<Rightarrow> int \<Rightarrow> bytes \<Rightarrow> dt_state \<Rightarrow> int \<times> dt_state" where
  "write_local env lfd d s =
     (case dt_ofile s lfd of
        None \<Rightarrow> (-1, s)
      | Some (path, pos) \<Rightarrow>
          let n = dv_write env (length d); w = take (nat n) d;
              c = (case fs_files (dt_store s) path of None \<Rightarrow> [] | Some c \<Rightarrow> c);
              c' = take pos c @ w @ drop (pos + length w) c
          in if n < 0 then (n, s)
             else (n, s\<lparr>dt_ofile := (dt_ofile s)(lfd := Some (path, pos + length w)),
                        dt_store := (dt_store s)\<lparr>fs_files := (fs_files (dt_store s))(path := Some c')\<rparr>\<rparr>))"

text \<open>The file is complete.\<close>

definition finish_recv :: "uint8 \<Rightarrow> dt_env \<Rightarrow> int \<Rightarrow> nat \<Rightarrow> dt_state \<Rightarrow> dt_state" where
  "finish_recv oper env fd t s =
     (let p = dt_peer s fd; lfd = dp_local_in_fd p; base = ti_base (dt_info t s);
          put = (u_oper_type (ti_sub (dt_info t s)) = oper);
          s1 = upd_dp fd (\<lambda>p. p\<lparr>dp_ctx := MD5Final_ctx (dp_ctx p)\<rparr>) s
      in case close_tmp_check_mv (dv_cf env) (dv_os env) base lfd (MD5Final (dp_ctx p) @ [dv_stack env]) (dt_store s) of
           None \<Rightarrow> s1\<lparr>dt_undefined := True\<rparr>
         | Some (r, base1, st) \<Rightarrow>
             let s2 = (if lfd < 0 then s1 else s1\<lparr>dt_ofile := (dt_ofile s1)(lfd := None)\<rparr>)\<lparr>dt_store := st\<rparr>;
                 done = (\<lambda>over. dt_base t (\<lambda>_. base1\<lparr>b_overstatus := over\<rparr>) s2)
             in if r \<noteq> LOCALFILE_OK then
                  let s3 = dt_set_task env t TASK_Q_FIN (upd_dp fd (\<lambda>p. p\<lparr>dp_recvtask := None\<rparr>) (done OVER_E_MD5)) in
                  if put then create_push_rsp_err (snprintf_s 256 (''md5 error '' @ dv_errmsg env)) fd s3 else s3
                else
                  let s3 = (if put then create_push_rsp base1 fd (done OVER_OK) else done OVER_OK) in
                  upd_dp fd (\<lambda>p. p\<lparr>dp_local_in_fd := -1, dp_recvtask := None, dp_sock_stat := IDLE\<rparr>)
                    (dt_set_task env t TASK_Q_FIN s3))"

definition recv_file :: "uint8 \<Rightarrow> dt_env \<Rightarrow> int \<Rightarrow> dt_state \<Rightarrow> bytes \<Rightarrow> int \<times> dt_state \<times> bytes" where
  "recv_file oper env fd s buf =
     (case dp_recvtask (dt_peer s fd) of
        None \<Rightarrow> (RECV_CLOSE, s, buf)
      | Some t \<Rightarrow>
          if buf = [] then (RECV_ADD_EPOLLIN, s, buf)
          else
            let sub = ti_sub (dt_info t s); d = take (recv_len sub (length buf)) buf in
            case write_local env (dp_local_in_fd (dt_peer s fd)) d s of (n, s1) \<Rightarrow>
              if n < 0 then
                (RECV_ADD_EPOLLOUT,
                 if u_oper_type sub = oper
                 then create_push_rsp_err (snprintf_s 256 (''write err '' @ dv_errmsg env)) fd s1 else s1, buf)
              else
                let s2 = upd_dp fd (\<lambda>p. p\<lparr>dp_ctx := MD5Update (dp_ctx p) (take (nat n) d)\<rparr>)
                           (dt_fill t (\<lambda>k. k\<lparr>ti_sub := (ti_sub k)\<lparr>u_lastlen := u_lastlen (ti_sub k) + n\<rparr>\<rparr>) s1)
                in if u_lastlen sub + n \<ge> u_processlen sub
                   then (RECV_SEND, finish_recv oper env fd t s2, drop (nat n) buf)
                   else (RECV_ADD_EPOLLIN, s2, drop (nat n) buf))"

text \<open>
  The loop over the requests in the buffer; when a request has opened a file, the rest of the
  buffer is taken as its contents (\<^verbatim>\<open>goto recvfileing\<close>), and \<^verbatim>\<open>svc_recv\<close> returns after that.
\<close>

function transfer_loop ::
  "uint8 \<Rightarrow> dt_state handler \<Rightarrow> dt_env \<Rightarrow> int \<Rightarrow> dt_state \<Rightarrow> bytes \<Rightarrow> int \<times> dt_state \<times> bytes" where
  "transfer_loop oper do_req env fd s buf =
     (case check_req_with do_req s buf of (subret, s1, buf1) \<Rightarrow>
        if subret = -1 then (RECV_ADD_EPOLLIN, s1, buf1)
        else if subret = RECV_ADD_EPOLLOUT \<or> subret = RECV_SEND \<or> subret = RECV_CLOSE then (subret, s1, buf1)
        else if dp_sock_stat (dt_peer s1 fd) = RECVFILEING then recv_file oper env fd (dt_touch env fd s1) buf1
        else if dp_sock_stat (dt_peer s1 fd) = SENDFILEING then (RECV_ADD_EPOLLOUT, s1, buf1)
        else transfer_loop oper do_req env fd s1 buf1)"
  by pat_completeness auto

termination
  by (relation "measure (\<lambda>(_, _, _, _, _, buf). length buf)")
    (auto simp: check_req_with_def Let_def split: if_splits prod.splits)

declare transfer_loop.simps [simp del]

definition transfer_recv ::
  "uint8 \<Rightarrow> dt_state handler \<Rightarrow> dt_env \<Rightarrow> int \<Rightarrow> dt_state \<Rightarrow> bytes \<Rightarrow> int \<times> dt_state \<times> bytes" where
  "transfer_recv oper do_req env fd s buf =
     (let s1 = dt_touch env fd s in
      if dp_sock_stat (dt_peer s1 fd) = RECVFILEING then recv_file oper env fd s1 buf
      else transfer_loop oper do_req env fd s1 buf)"

subsection \<open>The name of an uploaded file (get_local_filename)\<close>

text \<open>\<^verbatim>\<open>%04d\<close>\<close>

definition dec4 :: "int \<Rightarrow> string" where
  "dec4 i = (let t = dec_int i in
     if i < 0 then CHR ''-'' # replicate (4 - length t) (CHR ''0'') @ tl t
     else replicate (4 - length t) (CHR ''0'') @ t)"

text \<open>The name without directories, for the \<open>n\<close>-th upload: \<open>ext\<close> is the client's name from its first dot on.\<close>

definition upload_name :: "int \<Rightarrow> uint32 \<Rightarrow> uint32 \<Rightarrow> string \<Rightarrow> string" where
  "upload_name now ip n ext =
     base64_encode (map of_char (snprintf_s 256 (dec_int now @ ''_'' @ dec (unat ip) @ ''_'' @ dec4 (sint n)))) False @ ext"

definition get_local_filename :: "dt_env \<Rightarrow> t_task_base \<Rightarrow> dt_state \<Rightarrow> t_task_base \<times> dt_state" where
  "get_local_filename env base s =
     (if b_type base \<noteq> TASK_ADDFILE then (base, s)
      else
        let ext = (case strchr (CHR ''.'') (b_filename base) of None \<Rightarrow> [] | Some (_, r) \<Rightarrow> CHR ''.'' # r);
            localfile = upload_name (dv_now env) (dv_self_ip env) (dt_pic_index s) ext;
            n = dt_pic_index s + 1
        in case get_max_free_storage (nat (cf_DIR1 (dv_cf env))) (0, 0) (dt_disk s) of ((d1, d2), disk) \<Rightarrow>
          (base\<lparr>b_filename := snprintf_s 256 (''/'' @ dec d1 @ ''/'' @ dec d2 @ ''/'' @ localfile)\<rparr>,
           s\<lparr>dt_pic_index := if n \<ge> 99999 then 0 else n, dt_disk := disk,
             dt_undefined := (dt_undefined s \<or> length localfile \<ge> 256)\<rparr>))"

subsection \<open>A file arriving in pieces\<close>

text \<open>
  The connection \<open>fd\<close> is receiving the file of task \<open>t\<close>, of which the bytes \<open>m\<close> have arrived: they are
  in the temporary file and in the digest.
\<close>

definition receiving :: "int \<Rightarrow> nat \<Rightarrow> bytes \<Rightarrow> dt_state \<Rightarrow> bool" where
  "receiving fd t m s \<longleftrightarrow>
     dp_sock_stat (dt_peer s fd) = RECVFILEING \<and> dp_recvtask (dt_peer s fd) = Some t \<and>
     dp_local_in_fd (dt_peer s fd) > 0 \<and>
     dt_ofile s (dp_local_in_fd (dt_peer s fd)) = Some (b_tmpfile (ti_base (dt_info t s)), length m) \<and>
     fs_files (dt_store s) (b_tmpfile (ti_base (dt_info t s))) = Some m \<and>
     ctx_ok (dp_ctx (dt_peer s fd)) m \<and> u_lastlen (ti_sub (dt_info t s)) = int (length m)"

text \<open>What the arrival of a piece leaves alone.\<close>

definition rx_view where
  "rx_view t s = (ti_base (dt_info t s), (ti_sub (dt_info t s))\<lparr>u_lastlen := 0\<rparr>, pfstask (dt_task s),
     dt_send s, dt_dom s, dt_undefined s,
     (fs_files (dt_store s))(b_tmpfile (ti_base (dt_info t s)) := None))"

lemmas dt_access = upd_dp_def dt_fill_def dt_base_def dt_info_def upd_task_def dt_touch_def

lemma receiving_touch [simp]: "receiving fd t m (dt_touch env fd s) = receiving fd t m s"
  by (simp add: receiving_def dt_access)

lemma dt_info_touch [simp]: "dt_info t (dt_touch env fd s) = dt_info t s"
  by (simp add: dt_access)

lemma rx_view_touch [simp]: "rx_view t (dt_touch env fd s) = rx_view t s"
  by (simp add: rx_view_def dt_access)

lemma recv_len_fits:
  assumes "u_lastlen sub = int k" and "u_processlen sub = int n" and "k \<le> n" and "n < 2 ^ 31"
  shows "recv_len sub d = min d (n - k)"
proof -
  have "sint (word_of_int (int n - int k) :: 32 word) = int n - int k" using assms(3,4) by (intro sint_word32) simp_all
  then show ?thesis using assms by (simp add: recv_len_def nat_diff_distrib')
qed

definition took :: "int \<Rightarrow> nat \<Rightarrow> bytes \<Rightarrow> dt_state \<Rightarrow> dt_state" where
  "took fd t d s = upd_dp fd (\<lambda>p. p\<lparr>dp_ctx := MD5Update (dp_ctx p) d\<rparr>)
     (dt_fill t (\<lambda>k. k\<lparr>ti_sub := (ti_sub k)\<lparr>u_lastlen := u_lastlen (ti_sub k) + int (length d)\<rparr>\<rparr>) s)"

lemma receive_write:
  assumes r: "receiving fd t m s" and w: "dv_write env (length d) = int (length d)" and d: "length d < 2 ^ 32"
  obtains s1 where "write_local env (dp_local_in_fd (dt_peer s fd)) d s = (int (length d), s1)"
    and "receiving fd t (m @ d) (took fd t d s1)" and "rx_view t (took fd t d s1) = rx_view t s"
proof -
  let ?tmp = "b_tmpfile (ti_base (dt_info t s))" and ?lfd = "dp_local_in_fd (dt_peer s fd)"
  define s1 where "s1 = s\<lparr>dt_ofile := (dt_ofile s)(?lfd := Some (?tmp, length m + length d)),
     dt_store := (dt_store s)\<lparr>fs_files := (fs_files (dt_store s))(?tmp := Some (m @ d))\<rparr>\<rparr>"
  have "write_local env ?lfd d s = (int (length d), s1)"
    using r w by (simp add: write_local_def receiving_def s1_def Let_def)
  moreover have "ctx_ok (MD5Update (dp_ctx (dt_peer s fd)) d) (m @ d)"
    using r ctx_ok_update d by (auto simp: receiving_def)
  ultimately show ?thesis using r
    by (intro that [of s1]) (auto simp: s1_def receiving_def rx_view_def took_def dt_access fun_eq_iff)
qed

text \<open>A piece that does not complete the file, and one that does; bytes after the file stay in the buffer.\<close>

lemma receive_piece:
  assumes r: "receiving fd t m s" and p: "u_processlen (ti_sub (dt_info t s)) = int n" and n: "n < 2 ^ 31" "length m < n"
    and d: "d \<noteq> []" and w: "\<And>k. dv_write env k = int k"
  obtains s' where "receiving fd t (m @ take (n - length m) d) s'" and "rx_view t s' = rx_view t s"
    and "recv_file oper env fd s d =
      (if length m + length d < n then (RECV_ADD_EPOLLIN, s', [])
       else (RECV_SEND, finish_recv oper env fd t s', drop (n - length m) d))"
proof -
  let ?d = "take (n - length m) d"
  have l: "u_lastlen (ti_sub (dt_info t s)) = int (length m)" "dp_recvtask (dt_peer s fd) = Some t"
    using r by (simp_all add: receiving_def)
  have rl: "take (recv_len (ti_sub (dt_info t s)) (length d)) d = ?d"
    using recv_len_fits [OF l(1) p] n by (simp add: min_def)
  obtain s1 where s1: "write_local env (dp_local_in_fd (dt_peer s fd)) ?d s = (int (length ?d), s1)"
    "receiving fd t (m @ ?d) (took fd t ?d s1)" "rx_view t (took fd t ?d s1) = rx_view t s"
  proof (rule receive_write [OF r w])
    show "length ?d < 2 ^ 32" using n by simp
  qed
  have e: "drop (length ?d) d = (if length m + length d < n then [] else drop (n - length m) d)"
    using n by (auto simp: min_def)
  have tk: "take (length ?d) d = ?d" by (metis append_take_drop_id append_eq_conv_conj)
  have "recv_file oper env fd s d =
    (if int (length m) + int (length ?d) \<ge> int n
     then (RECV_SEND, finish_recv oper env fd t (took fd t ?d s1), drop (length ?d) d)
     else (RECV_ADD_EPOLLIN, took fd t ?d s1, drop (length ?d) d))"
    using d l rl p s1(1) tk by (simp add: recv_file_def Let_def took_def del: length_take)
  moreover have "int (length m) + int (length ?d) \<ge> int n \<longleftrightarrow> \<not> length m + length d < n" using n by auto
  ultimately show ?thesis using s1 e by (intro that [of "took fd t ?d s1"]) (simp_all del: length_take)
qed


text \<open>
  Successive calls of a plugin's \<^verbatim>\<open>svc_recv\<close>, each with the bytes that have arrived since the last
  one; what a call leaves in the buffer is seen again by the next.
\<close>

fun feed :: "(dt_env \<Rightarrow> int \<Rightarrow> dt_state \<Rightarrow> bytes \<Rightarrow> int \<times> dt_state \<times> bytes) \<Rightarrow> int \<Rightarrow> (dt_env \<times> bytes) list
    \<Rightarrow> dt_state \<Rightarrow> bytes \<Rightarrow> dt_state \<times> bytes" where
  "feed recv fd [] s buf = (s, buf)"
| "feed recv fd ((env, d) # ps) s buf = (case recv env fd s (buf @ d) of (_, s', buf') \<Rightarrow> feed recv fd ps s' buf')"

definition writes_all :: "dt_env \<Rightarrow> bool" where
  "writes_all env \<longleftrightarrow> (\<forall>k. dv_write env k = int k)"

lemma rx_view_sub:
  "rx_view t s' = rx_view t s \<Longrightarrow> u_processlen (ti_sub (dt_info t s')) = u_processlen (ti_sub (dt_info t s))
     \<and> u_oper_type (ti_sub (dt_info t s')) = u_oper_type (ti_sub (dt_info t s))
     \<and> u_need_sync (ti_sub (dt_info t s')) = u_need_sync (ti_sub (dt_info t s))"
  by (cases "ti_sub (dt_info t s)"; cases "ti_sub (dt_info t s')") (simp add: rx_view_def)

lemma receive_all:
  assumes "receiving fd t m s" and "u_processlen (ti_sub (dt_info t s)) = int n" and "n < 2 ^ 31" and "length m < n"
    and "length (m @ concat (map snd ps)) = n" and "\<And>env d. (env, d) \<in> set ps \<Longrightarrow> d \<noteq> [] \<and> writes_all env"
  shows "\<exists>s' env. env \<in> fst ` set ps \<and> receiving fd t (m @ concat (map snd ps)) s' \<and> rx_view t s' = rx_view t s \<and>
    feed (\<lambda>env fd. transfer_recv oper (do_req env fd) env fd) fd ps s [] = (finish_recv oper env fd t s', [])"
  using assms
proof (induction ps arbitrary: m s)
  case (Cons p ps)
  obtain env d where p: "p = (env, d)" by fastforce
  have d: "d \<noteq> []" "\<And>k. dv_write env k = int k" using Cons.prems(6) p by (auto simp: writes_all_def)
  have t: "transfer_recv oper (do_req env fd) env fd s d = recv_file oper env fd (dt_touch env fd s) d"
    using Cons.prems(1) by (simp add: transfer_recv_def receiving_def dt_access)
  have "receiving fd t m (dt_touch env fd s)" "u_processlen (ti_sub (dt_info t (dt_touch env fd s))) = int n"
    using Cons.prems(1,2) by simp_all
  then obtain s' where s': "receiving fd t (m @ take (n - length m) d) s'" "rx_view t s' = rx_view t s"
    "recv_file oper env fd (dt_touch env fd s) d =
      (if length m + length d < n then (RECV_ADD_EPOLLIN, s', [])
       else (RECV_SEND, finish_recv oper env fd t s', drop (n - length m) d))"
    using receive_piece [of fd t m "dt_touch env fd s" n d env] Cons.prems(3,4) d by (metis rx_view_touch)
  show ?case
  proof (cases "ps = []")
    case True
    then have "length m + length d = n" using Cons.prems(5) p by simp
    then show ?thesis using True s' t p by auto
  next
    case False
    then obtain e x qs where "ps = (e, x) # qs" by (cases ps) auto
    then have "concat (map snd ps) \<noteq> []" using Cons.prems(6) [of e x] by auto
    then have l: "length m + length d < n" using Cons.prems(5) p by (cases "concat (map snd ps)") auto
    have "\<exists>s'' env. env \<in> fst ` set ps \<and> receiving fd t ((m @ d) @ concat (map snd ps)) s'' \<and> rx_view t s'' = rx_view t s' \<and>
      feed (\<lambda>env fd. transfer_recv oper (do_req env fd) env fd) fd ps s' [] = (finish_recv oper env fd t s'', [])"
    proof (rule Cons.IH)
      show "receiving fd t (m @ d) s'" using s'(1) l by simp
      show "u_processlen (ti_sub (dt_info t s')) = int n" using rx_view_sub [OF s'(2)] Cons.prems(2) by simp
    qed (use Cons.prems l p in auto)
    then show ?thesis using s' t p l by auto
  qed
qed simp


lemma set_task_at:
  assumes "t \<notin> set (pfstask (dt_task s) q)" and "dv_lock env q = 0" and "status_ok q"
  shows "pfstask (dt_task (dt_set_task env t q s)) q = pfstask (dt_task s) q @ [t]"
    and "dt_info u (dt_set_task env t q s) = dt_info u s"
  using assms by (simp_all add: dt_set_task_def dt_info_def pfs_set_task_def task_defs remove1_idem)

text \<open>The body of the answer to a client whose file was stored.\<close>

definition push_ok :: "t_task_base \<Rightarrow> t_pfs_domain \<Rightarrow> bytes" where
  "push_ok base d = create_sig_msg CMD_PUT_FILE_RSP 0
     (text_field 256 (snprintf_s 256 (''OK|'' @ b_retfile base @ ''|'' @ dm_domain d))) 256"

lemma finish_ok:
  assumes r: "receiving fd t c s" and b: "base = ti_base (dt_info t s)" and m: "b_filemd5 base = rfc_md5 c @ [0]"
    and os: "os_rename (dv_os env)" and n: "b_tmpfile base \<noteq> b_filename base"
    and q: "t \<notin> set (pfstask (dt_task s) TASK_Q_FIN)" "dv_lock env TASK_Q_FIN = 0"
    and s': "s' = finish_recv oper env fd t s"
  shows "fs_files (dt_store s') = (fs_files (dt_store s))(b_filename base := Some c, b_tmpfile base := None)"
    and "pfstask (dt_task s') TASK_Q_FIN = pfstask (dt_task s) TASK_Q_FIN @ [t]"
    and "dt_info t s' = (dt_info t s)\<lparr>ti_base := base\<lparr>b_overstatus := OVER_OK\<rparr>\<rparr>"
    and "dt_send s' = (if u_oper_type (ti_sub (dt_info t s)) = oper then (dt_send s)(fd := dt_send s fd @ push_ok base (dt_dom s)) else dt_send s)"
    and "dt_undefined s' = dt_undefined s"
proof -
  let ?p = "dt_peer s fd"
  obtain st' where st': "close_tmp_check_mv (dv_cf env) (dv_os env) base (dp_local_in_fd ?p)
      (MD5Final (dp_ctx ?p) @ [dv_stack env]) (dt_store s) = Some (LOCALFILE_OK, base, st')"
    "fs_files st' = (fs_files (dt_store s))(b_filename base := Some c, b_tmpfile base := None)"
    using close_tmp_match [of "dp_local_in_fd ?p" "dt_store s" base c "MD5Final (dp_ctx ?p) @ [dv_stack env]" "dv_os env" "dv_cf env"]
      r b m os n by (auto simp: receiving_def)
  let ?u = "\<lambda>s. upd_dp fd (\<lambda>p. p\<lparr>dp_local_in_fd := -1, dp_recvtask := None, dp_sock_stat := IDLE\<rparr>) s"
  let ?put = "u_oper_type (ti_sub (dt_info t s)) = oper"
  define s2 where "s2 = dt_base t (\<lambda>_. base\<lparr>b_overstatus := OVER_OK\<rparr>)
     ((upd_dp fd (\<lambda>p. p\<lparr>dp_ctx := MD5Final_ctx (dp_ctx p)\<rparr>) s)\<lparr>dt_ofile := (dt_ofile s)(dp_local_in_fd ?p := None), dt_store := st'\<rparr>)"
  define s3 where "s3 = (if ?put then create_push_rsp base fd s2 else s2)"
  have "finish_recv oper env fd t s = ?u (dt_set_task env t TASK_Q_FIN s3)"
    using r b st'(1) by (simp add: finish_recv_def Let_def receiving_def s3_def s2_def) (simp add: upd_dp_def)
  then have e: "s' = ?u (dt_set_task env t TASK_Q_FIN s3)" using s' by simp
  have 3: "pfstask (dt_task s3) = pfstask (dt_task s)" "dt_info t s3 = (dt_info t s)\<lparr>ti_base := base\<lparr>b_overstatus := OVER_OK\<rparr>\<rparr>"
    by (simp_all add: s3_def s2_def create_push_rsp_def dt_out_def dt_queue_def dt_access Let_def)
  have "t \<notin> set (pfstask (dt_task s3) TASK_Q_FIN)" using 3 q by simp
  from set_task_at [OF this q(2)]
  have Q: "pfstask (dt_task (dt_set_task env t TASK_Q_FIN s3)) TASK_Q_FIN = pfstask (dt_task s3) TASK_Q_FIN @ [t]"
    "dt_info t (dt_set_task env t TASK_Q_FIN s3) = dt_info t s3" by (simp_all add: status_ok_def)
  have u: "dt_task (?u x) = dt_task x" "dt_info t (?u x) = dt_info t x" for x by (simp_all add: dt_access)
  show "pfstask (dt_task s') TASK_Q_FIN = pfstask (dt_task s) TASK_Q_FIN @ [t]"
    "dt_info t s' = (dt_info t s)\<lparr>ti_base := base\<lparr>b_overstatus := OVER_OK\<rparr>\<rparr>"
    by (simp_all only: e u Q 3)
  show "fs_files (dt_store s') = (fs_files (dt_store s))(b_filename base := Some c, b_tmpfile base := None)"
    "dt_send s' = (if ?put then (dt_send s)(fd := dt_send s fd @ push_ok base (dt_dom s)) else dt_send s)" "dt_undefined s' = dt_undefined s"
    using st'(2) by (simp_all add: e s3_def s2_def dt_set_task_def create_push_rsp_def push_ok_def dt_out_def dt_queue_def dt_access Let_def)
qed


text \<open>A file whose digest is wrong.\<close>

lemma finish_bad:
  assumes r: "receiving fd t c s" and b: "base = ti_base (dt_info t s)"
    and m: "b_filemd5 base \<noteq> rfc_md5 c @ [0]" "b_filemd5 base \<noteq> rfc_md5 c @ [dv_stack env]"
    and o: "u_oper_type (ti_sub (dt_info t s)) = oper" and q: "t \<notin> set (pfstask (dt_task s) TASK_Q_FIN)" "dv_lock env TASK_Q_FIN = 0"
    and s': "s' = finish_recv oper env fd t s"
  shows "fs_files (dt_store s') = fs_files (dt_store s)"
    and "pfstask (dt_task s') TASK_Q_FIN = pfstask (dt_task s) TASK_Q_FIN @ [t]"
    and "b_overstatus (ti_base (dt_info t s')) = OVER_E_MD5"
    and "dt_send s' fd = dt_send s fd @ create_sig_msg CMD_PUT_FILE_RSP 0
      (bytes_of (snprintf_s 256 (''md5 error '' @ dv_errmsg env))) (of_nat (length (snprintf_s 256 (''md5 error '' @ dv_errmsg env))))"
proof -
  let ?p = "dt_peer s fd" and ?e = "snprintf_s 256 (''md5 error '' @ dv_errmsg env)"
  have md: "MD5Final (dp_ctx ?p) = rfc_md5 c" using r MD5Final_rfc by (auto simp: receiving_def)
  have cl: "close_tmp_check_mv (dv_cf env) (dv_os env) base (dp_local_in_fd ?p)
      (rfc_md5 c @ [dv_stack env]) (dt_store s) = Some (LOCALFILE_MD5_E, base, dt_store s)"
    using r b m by (intro close_tmp_mismatch) (auto simp: receiving_def)
  define s2 where "s2 = upd_dp fd (\<lambda>p. p\<lparr>dp_recvtask := None\<rparr>) (dt_base t (\<lambda>_. base\<lparr>b_overstatus := OVER_E_MD5\<rparr>)
     ((upd_dp fd (\<lambda>p. p\<lparr>dp_ctx := MD5Final_ctx (dp_ctx p)\<rparr>) s)\<lparr>dt_ofile := (dt_ofile s)(dp_local_in_fd ?p := None), dt_store := dt_store s\<rparr>))"
  have e: "s' = create_push_rsp_err ?e fd (dt_set_task env t TASK_Q_FIN s2)"
    using r b o cl md s' by (simp add: finish_recv_def Let_def receiving_def s2_def) (simp add: upd_dp_def)
  have 2: "pfstask (dt_task s2) = pfstask (dt_task s)" "b_overstatus (ti_base (dt_info t s2)) = OVER_E_MD5"
    by (simp_all add: s2_def dt_access)
  have "t \<notin> set (pfstask (dt_task s2) TASK_Q_FIN)" using 2 q by simp
  note Q = set_task_at [OF this q(2)]
  have u: "dt_task (create_push_rsp_err ?e fd x) = dt_task x" "dt_info t (create_push_rsp_err ?e fd x) = dt_info t x" for x
    by (simp_all add: create_push_rsp_err_def dt_out_def dt_queue_def dt_access)
  show "pfstask (dt_task s') TASK_Q_FIN = pfstask (dt_task s) TASK_Q_FIN @ [t]"
    "b_overstatus (ti_base (dt_info t s')) = OVER_E_MD5"
    unfolding e u using Q 2 by (simp_all add: status_ok_def)
  show "fs_files (dt_store s') = fs_files (dt_store s)" "dt_send s' fd = dt_send s fd @
      create_sig_msg CMD_PUT_FILE_RSP 0 (bytes_of ?e) (of_nat (length ?e))"
    by (simp_all add: e s2_def dt_set_task_def create_push_rsp_err_def dt_out_def dt_queue_def dt_access)
qed

text \<open>The states a connection is in while the first message is incomplete.\<close>

definition touched :: "int \<Rightarrow> dt_state \<Rightarrow> dt_state \<Rightarrow> bool" where
  "touched fd s s' \<longleftrightarrow> (\<exists>x y. s' = (upd_dp fd (\<lambda>p. p\<lparr>dp_hbtime := x\<rparr>) s)\<lparr>dt_activelist := y\<rparr>)"

lemma dt_touched_touch [intro]: "touched fd s s' \<Longrightarrow> touched fd s (dt_touch env fd s')"
  by (auto simp: touched_def dt_touch_def upd_dp_def intro!: exI [of _ "word_of_int (dv_now env)"])

lemma touched_refl: "touched fd s s"
  unfolding touched_def
  by (rule exI [of _ "dp_hbtime (dt_peer s fd)"], rule exI [of _ "dt_activelist s"]) (simp add: upd_dp_def)

lemma transfer_incomplete:
  assumes "dp_sock_stat (dt_peer s fd) \<noteq> RECVFILEING" and "frames buf = []"
  shows "transfer_recv oper do_req env fd s buf = (RECV_ADD_EPOLLIN, dt_touch env fd s, buf)"
  using assms by (simp add: transfer_recv_def transfer_loop.simps check_req_with_frames dt_access)

lemma transfer_opens:
  assumes "dp_sock_stat (dt_peer s fd) \<noteq> RECVFILEING" and "unat n \<le> length b"
    and "do_req (dt_touch env fd s) \<lparr>h_bodylen = n, h_cmdid = cmd, h_status = st\<rparr> (take (unat n) b) = (RECV_ADD_EPOLLIN, s1)"
    and "dp_sock_stat (dt_peer s1 fd) = RECVFILEING"
  shows "transfer_recv oper do_req env fd s (create_sig_msg cmd st b n @ c) = transfer_recv oper do_req env fd s1 c"
proof -
  have "frames (create_sig_msg cmd st b n @ c) = (\<lparr>h_bodylen = n, h_cmdid = cmd, h_status = st\<rparr>, take (unat n) b) # frames c"
    using frames_create [OF assms(2)] .
  moreover have "length (create_sig_msg cmd st b n) = SIG_HEADSIZE + unat n"
    using length_create_sig_msg [OF assms(2)] .
  ultimately show ?thesis
    using assms by (simp add: transfer_recv_def transfer_loop.simps check_req_with_frames dt_access)
qed


lemma frames_incomplete:
  assumes "buf @ r = create_sig_msg cmd st b n @ c" and "unat n \<le> length b" and "length buf < SIG_HEADSIZE + unat n"
  shows "frames buf = []"
proof (rule ccontr)
  assume a: "frames buf \<noteq> []"
  then have l: "SIG_HEADSIZE + unat (h_bodylen (head_of buf)) \<le> length buf" by (auto simp: frames.simps [of buf] split: if_splits)
  then have "head_of buf = head_of (buf @ r)" by (simp add: head_of_append)
  then show False using l assms(1,3) head_of_create [of cmd st b n c] by simp
qed

lemma transfer_whole:
  assumes "buf @ concat (map snd ps) = create_sig_msg cmd st b n @ c" and "length buf < SIG_HEADSIZE + unat n"
    and n: "unat n \<le> length b" and c: "c \<noteq> []" "length c < 2 ^ 31"
    and "\<And>env d. (env, d) \<in> set ps \<Longrightarrow> d \<noteq> [] \<and> writes_all env" and i: "dp_sock_stat (dt_peer s fd) \<noteq> RECVFILEING"
    and "touched fd s s1"
    and opens: "\<And>s1 env. touched fd s s1 \<Longrightarrow> env \<in> fst ` set ps \<Longrightarrow>
      \<exists>s2. do_req env fd s1 \<lparr>h_bodylen = n, h_cmdid = cmd, h_status = st\<rparr> (take (unat n) b) = (RECV_ADD_EPOLLIN, s2)
        \<and> receiving fd t [] s2 \<and> u_processlen (ti_sub (dt_info t s2)) = int (length c) \<and> rx_view t s2 \<in> V env"
  shows "\<exists>s' env env'. env \<in> fst ` set ps \<and> env' \<in> fst ` set ps \<and> receiving fd t c s' \<and> rx_view t s' \<in> V env' \<and>
    feed (\<lambda>env fd. transfer_recv oper (do_req env fd) env fd) fd ps s1 buf = (finish_recv oper env fd t s', [])"
  using assms(1,2,6,8) opens
proof (induction ps arbitrary: s1 buf)
  case Nil
  then have "length buf = length (create_sig_msg cmd st b n) + length c" by (metis append_Nil2 concat.simps(1) length_append list.simps(8))
  then show ?case using Nil.prems(2) length_create_sig_msg [OF n, of cmd st] by simp
next
  case (Cons p ps)
  obtain env d where p: "p = (env, d)" by fastforce
  let ?recv = "\<lambda>env fd. transfer_recv oper (do_req env fd) env fd"
  have l: "length (create_sig_msg cmd st b n) = SIG_HEADSIZE + unat n" using length_create_sig_msg [OF n] .
  have stat: "dp_sock_stat (dt_peer s1 fd) \<noteq> RECVFILEING" using Cons.prems(4) i by (auto simp: touched_def upd_dp_def)
  have a: "(buf @ d) @ concat (map snd ps) = create_sig_msg cmd st b n @ c" using Cons.prems(1) p by simp
  show ?case
  proof (cases "length (buf @ d) < SIG_HEADSIZE + unat n")
    case True
    have "?recv env fd s1 (buf @ d) = (RECV_ADD_EPOLLIN, dt_touch env fd s1, buf @ d)"
      by (rule transfer_incomplete [OF stat frames_incomplete [OF a n True]])
    moreover have "\<exists>s' e e'. e \<in> fst ` set ps \<and> e' \<in> fst ` set ps \<and> receiving fd t c s' \<and> rx_view t s' \<in> V e' \<and>
      feed ?recv fd ps (dt_touch env fd s1) (buf @ d) = (finish_recv oper e fd t s', [])"
    proof (rule Cons.IH [OF a True])
      show "touched fd s (dt_touch env fd s1)" using Cons.prems(4) by blast
    qed (use Cons.prems(3,5) p in auto)
    ultimately show ?thesis using p by auto
  next
    case False
    define c1 where "c1 = drop (SIG_HEADSIZE + unat n) (buf @ d)"
    have "take (SIG_HEADSIZE + unat n) (buf @ d) = create_sig_msg cmd st b n"
      using arg_cong [OF a, of "take (SIG_HEADSIZE + unat n)"] False l by (simp del: append_assoc)
    then have c1: "buf @ d = create_sig_msg cmd st b n @ c1" unfolding c1_def by (metis append_take_drop_id)
    then have c1': "c1 @ concat (map snd ps) = c" using a by simp
    have "touched fd s (dt_touch env fd s1)" using Cons.prems(4) by blast
    then obtain s2 where s2: "do_req env fd (dt_touch env fd s1) \<lparr>h_bodylen = n, h_cmdid = cmd, h_status = st\<rparr> (take (unat n) b) = (RECV_ADD_EPOLLIN, s2)"
      "receiving fd t [] s2" "u_processlen (ti_sub (dt_info t s2)) = int (length c)" "rx_view t s2 \<in> V env"
      using Cons.prems(5) [of "dt_touch env fd s1" env] p by auto
    have r: "dp_sock_stat (dt_peer s2 fd) = RECVFILEING" "dp_recvtask (dt_peer s2 fd) = Some t" using s2(2) by (simp_all add: receiving_def)
    have f: "feed ?recv fd (p # ps) s1 buf = feed ?recv fd ((env, c1) # ps) s2 []"
      using transfer_opens [where do_req = "do_req env fd", OF stat n s2(1) r(1)] c1 p by simp
    obtain qs s3 where q: "feed ?recv fd (p # ps) s1 buf = feed ?recv fd qs s3 []" "concat (map snd qs) = c"
      "receiving fd t [] s3" "rx_view t s3 = rx_view t s2" "u_processlen (ti_sub (dt_info t s3)) = int (length c)"
      "\<And>e x. (e, x) \<in> set qs \<Longrightarrow> x \<noteq> [] \<and> writes_all e" "fst ` set qs \<subseteq> fst ` set (p # ps)"
    proof (cases "c1 = []")
      case True
      have "feed ?recv fd ((env, c1) # ps) s2 [] = feed ?recv fd ps (dt_touch env fd s2) []"
        using True r by (simp add: transfer_recv_def recv_file_def dt_access)
      then show ?thesis
        using that [of ps "dt_touch env fd s2"] s2 c1' True f Cons.prems(3) by auto
    next
      case False
      then show ?thesis using that [of "(env, c1) # ps" s2] s2 c1' f Cons.prems(3) p by auto
    qed
    obtain s' e where "e \<in> fst ` set qs" "receiving fd t c s'" "rx_view t s' = rx_view t s2"
      "feed ?recv fd qs s3 [] = (finish_recv oper e fd t s', [])"
      using receive_all [OF q(3,5) c(2), of qs oper do_req] q(2,4,6) c(1) by auto
    moreover have "env \<in> fst ` set (p # ps)" using p by simp
    ultimately show ?thesis using q(1,7) s2(4) by (intro exI [of _ s'] exI [of _ e] exI [of _ env]) auto
  qed
qed


text \<open>When the temporary file can be opened, the connection receives the task's file.\<close>

lemma open_recv_ok:
  assumes "dp_local_in_fd (dt_peer s fd) \<le> 0" and "ctx_ok (dp_ctx (dt_peer s fd)) []" and "dp_recvtask (dt_peer s fd) = Some t"
    and "u_lastlen (ti_sub (dt_info t s)) = 0"
    and c: "storage_convert (dv_cf env) (dv_os env) (ti_base (dt_info t s)) = Some (LOCALFILE_OK, conv)"
    and o: "tmp = tmp_name (dv_os env) conv (dt_store s)" "length tmp < 256" "parent_exists tmp (dt_store s)"
      "0 < os_open (dv_os env) tmp" "fs_files (dt_store s) tmp = None"
  obtains s' where "open_recv env fd t s = (True, s')" and "receiving fd t [] s'"
    and "rx_view t s' = (conv\<lparr>b_tmpfile := tmp\<rparr>, ti_sub (dt_info t s), pfstask (dt_task s), dt_send s, dt_dom s,
           dt_undefined s, fs_files (dt_store s))"
    and "ti_sub (dt_info t s') = ti_sub (dt_info t s)"
proof -
  let ?lfd = "dp_local_in_fd (dt_peer s fd)"
  obtain st' where st': "open_tmp_localfile_4_write (dv_cf env) (dv_os env) (ti_base (dt_info t s)) ?lfd (dt_store s)
      = Some (LOCALFILE_OK, conv\<lparr>b_tmpfile := tmp\<rparr>, os_open (dv_os env) tmp, st')"
    "fs_files st' = (fs_files (dt_store s))(tmp := Some [])"
    using open_tmp_ok [OF c o] by blast
  define s2 where "s2 = upd_dp fd (\<lambda>p. p\<lparr>dp_local_in_fd := os_open (dv_os env) tmp\<rparr>) (dt_base t (\<lambda>_. conv\<lparr>b_tmpfile := tmp\<rparr>) (s\<lparr>dt_store := st'\<rparr>))"
  define s' where "s' = upd_dp fd (\<lambda>p. p\<lparr>dp_sock_stat := RECVFILEING\<rparr>)
    (s2\<lparr>dt_ofile := (dt_ofile s2)(os_open (dv_os env) tmp := Some (tmp, 0))\<rparr>)"
  have "open_recv env fd t s = (True, s')"
    using assms(1) st'(1) o(4) by (simp add: open_recv_def close_local_def Let_def s'_def s2_def)
  moreover have "receiving fd t [] s'"
    using assms(2,3,4) o(4) st'(2) by (simp add: receiving_def s'_def s2_def dt_access)
  moreover have "(ti_sub (dt_info t s))\<lparr>u_lastlen := 0\<rparr> = ti_sub (dt_info t s)" using assms(4) by simp
  then have "rx_view t s' = (conv\<lparr>b_tmpfile := tmp\<rparr>, ti_sub (dt_info t s), pfstask (dt_task s), dt_send s, dt_dom s,
           dt_undefined s, fs_files (dt_store s))"
    using o(5) st'(2) by (simp add: rx_view_def s'_def s2_def dt_access fun_upd_idem)
  ultimately show ?thesis by (rule that) (simp add: s'_def s2_def dt_access)
qed

lemma get_home:
  assumes "pfstask (dt_task s) TASK_Q_HOME = t # ts" and "dv_lock env TASK_Q_HOME = 0" and "tasks_ok H (dt_task s)"
  obtains s1 where "dt_get_task env TASK_Q_HOME s = (GET_TASK_Q_OK, Some t, s1)" and "s1 = s\<lparr>dt_task := dt_task s1\<rparr>"
    and "t \<notin> set (pfstask (dt_task s1) TASK_Q_FIN)" and "pfstask (dt_task s1) TASK_Q_FIN = pfstask (dt_task s) TASK_Q_FIN"
proof -
  let ?k = "unlink_task t (upd_task t (\<lambda>k. k\<lparr>tk_status := TASK_Q_UNKNOWN\<rparr>) (atomic_dec TASK_Q_HOME (dt_task s)))"
  have "t \<notin> set (pfstask (dt_task s) TASK_Q_FIN)"
    using tasks_ok_elsewhere [OF assms(3), of TASK_Q_HOME TASK_Q_FIN t] assms(1) by (simp add: status_ok_def)
  then show ?thesis
    using assms(1,2) that [of "s\<lparr>dt_task := ?k\<rparr>"] by (simp add: dt_get_task_def pfs_get_task_def task_defs remove1_idem)
qed

text \<open>The environments of the calls differ in the time only.\<close>

definition at_times :: "dt_env \<Rightarrow> (int \<times> bytes) list \<Rightarrow> (dt_env \<times> bytes) list" where
  "at_times env ps = map (\<lambda>(now, d). (env\<lparr>dv_now := now\<rparr>, d)) ps"

lemma at_times_simps [simp]:
  "map snd (at_times env ps) = map snd ps" "set (at_times env ps) = (\<lambda>(now, d). (env\<lparr>dv_now := now\<rparr>, d)) ` set ps"
  by (auto simp: at_times_def)

lemma transfer_one:
  assumes "dp_sock_stat (dt_peer s fd) \<noteq> RECVFILEING" and "unat n \<le> length b"
    and "do_req (dt_touch env fd s) \<lparr>h_bodylen = n, h_cmdid = cmd, h_status = st\<rparr> (take (unat n) b) = (r, s1)"
    and "r = RECV_ADD_EPOLLOUT \<or> r = RECV_SEND \<or> r = RECV_CLOSE"
  shows "transfer_recv oper do_req env fd s (create_sig_msg cmd st b n @ c) = (r, s1, c)"
proof -
  have "frames (create_sig_msg cmd st b n @ c) = (\<lparr>h_bodylen = n, h_cmdid = cmd, h_status = st\<rparr>, take (unat n) b) # frames c"
    using frames_create [OF assms(2)] .
  moreover have "length (create_sig_msg cmd st b n) = SIG_HEADSIZE + unat n"
    using length_create_sig_msg [OF assms(2)] .
  ultimately show ?thesis
    using assms by (auto simp: transfer_recv_def transfer_loop.simps check_req_with_frames dt_access)
qed

text \<open>A file name without a slash is refused, and the connection is left waiting for a file without a task.\<close>

lemma open_recv_refused:
  assumes "CHR ''/'' \<notin> set (b_filename (ti_base (dt_info t s)))"
  obtains s' where "open_recv env fd t s = (False, s')" and "dp_recvtask (dt_peer s' fd) = None"
    and "dp_sock_stat (dt_peer s' fd) = dp_sock_stat (dt_peer s fd)"
proof -
  let ?b = "ti_base (dt_info t s)" and ?lfd = "dp_local_in_fd (dt_peer s fd)" and ?s = "close_local (dp_local_in_fd (dt_peer s fd)) s"
  have "storage_convert (dv_cf env) (dv_os env) ?b = Some (LOCALFILE_DIR_E, ?b)"
    using assms strrchr_None_iff [of "CHR ''/''" "b_filename ?b"] by (simp add: storage_convert_def)
  then have o: "open_tmp_localfile_4_write (dv_cf env) (dv_os env) ?b ?lfd st = Some (LOCALFILE_DIR_E, ?b, ?lfd, st)" for st
    by (simp add: open_tmp_localfile_4_write_def)
  have b: "dt_info t ?s = dt_info t s" by (simp add: close_local_def dt_info_def)
  have p: "dt_peer ?s = dt_peer s" by (simp add: close_local_def)
  show ?thesis
    by (rule that, simp add: open_recv_def Let_def b o) (simp_all add: dt_set_task_def dt_access p)
qed

text \<open>A file whose missing part is a multiple of 4 GiB: the length in an \<^verbatim>\<open>int\<close> is zero.\<close>

lemma recv_len_zero: "u_processlen sub - u_lastlen sub = 2 ^ 32 * k \<Longrightarrow> recv_len sub n = 0"
proof -
  assume a: "u_processlen sub - u_lastlen sub = 2 ^ 32 * k"
  have "(word_of_int (2 ^ 32 * k) :: 32 word) = 0" by (subst word_of_int_eq_0_iff) simp
  then show ?thesis using a by (simp add: recv_len_def Let_def)
qed

lemma stalled_call:
  assumes r: "receiving fd t m s" and p: "u_processlen (ti_sub (dt_info t s)) - int (length m) = 2 ^ 32 * k" "0 < k"
    and w: "writes_all env"
  obtains s' where "transfer_recv oper do_req env fd s buf = (RECV_ADD_EPOLLIN, s', buf)" and "receiving fd t m s'"
    and "rx_view t s' = rx_view t s"
proof (cases "buf = []")
  case True
  then show ?thesis using r that [of "dt_touch env fd s"]
    by (simp add: transfer_recv_def recv_file_def receiving_def dt_access rx_view_def)
next
  case False
  let ?s = "dt_touch env fd s"
  have r': "receiving fd t m ?s" "dt_info t ?s = dt_info t s" using r by simp_all
  then obtain s1 where s1: "write_local env (dp_local_in_fd (dt_peer ?s fd)) [] ?s = (0, s1)"
    "receiving fd t m (took fd t [] s1)" "rx_view t (took fd t [] s1) = rx_view t ?s"
    using receive_write [OF r'(1), of env "[]"] w by (auto simp: writes_all_def)
  have l: "recv_len (ti_sub (dt_info t ?s)) (length buf) = 0" "u_lastlen (ti_sub (dt_info t ?s)) = int (length m)"
    using recv_len_zero [of "ti_sub (dt_info t s)" k] r p(1) by (simp_all add: receiving_def)
  have "\<not> u_processlen (ti_sub (dt_info t s)) \<le> int (length m)" using p by (smt (verit) zero_less_mult_iff zero_less_power)
  then have "transfer_recv oper do_req env fd s buf = (RECV_ADD_EPOLLIN, took fd t [] s1, buf)"
    using r r' l s1(1) False by (simp add: transfer_recv_def recv_file_def receiving_def took_def Let_def)
  then show ?thesis using s1 by (intro that [of "took fd t [] s1"]) simp_all
qed

lemma receive_stalls:
  assumes "receiving fd t m s" and "u_processlen (ti_sub (dt_info t s)) - int (length m) = 2 ^ 32 * k" and "0 < k"
    and "\<And>env d. (env, d) \<in> set ps \<Longrightarrow> writes_all env"
    and "feed (\<lambda>env fd. transfer_recv oper (do_req env fd) env fd) fd ps s buf = (s', buf')"
  shows "buf' = buf @ concat (map snd ps) \<and> receiving fd t m s' \<and> rx_view t s' = rx_view t s"
  using assms
proof (induction ps arbitrary: s buf)
  case (Cons p ps)
  obtain env d where p: "p = (env, d)" by fastforce
  obtain s1 where s1: "transfer_recv oper (do_req env fd) env fd s (buf @ d) = (RECV_ADD_EPOLLIN, s1, buf @ d)" "receiving fd t m s1"
    "rx_view t s1 = rx_view t s"
    using stalled_call [OF Cons.prems(1-3), of env oper "do_req env fd" "buf @ d"] Cons.prems(4) p by auto
  have "buf' = (buf @ d) @ concat (map snd ps) \<and> receiving fd t m s' \<and> rx_view t s' = rx_view t s1"
    by (rule Cons.IH [OF s1(2)]) (use Cons.prems rx_view_sub [OF s1(3)] s1(1) p in auto)
  then show ?case using s1(3) p by simp
qed simp

subsection \<open>The tables of connections\<close>

definition dt_conns :: "dt_state \<Rightarrow> conns" where
  "dt_conns s = \<lparr>cn_active = dt_activelist s, cn_user = dt_user s, cn_online = dt_online s, cn_ip = (\<lambda>fd. dp_ip (dt_peer s fd))\<rparr>"

lemma conns_fields [simp]:
  "dt_conns (s\<lparr>dt_task := ts\<rparr>) = dt_conns s" "dt_conns (s\<lparr>dt_store := st\<rparr>) = dt_conns s" "dt_conns (s\<lparr>dt_disk := di\<rparr>) = dt_conns s"
  "dt_conns (s\<lparr>dt_pic_index := n\<rparr>) = dt_conns s" "dt_conns (s\<lparr>dt_ofile := o'\<rparr>) = dt_conns s" "dt_conns (s\<lparr>dt_send := m\<rparr>) = dt_conns s"
  "dt_conns (s\<lparr>dt_sendfile := sf\<rparr>) = dt_conns s" "dt_conns (s\<lparr>dt_send_len := l\<rparr>) = dt_conns s" "dt_conns (s\<lparr>dt_epollout := e\<rparr>) = dt_conns s"
  "dt_conns (s\<lparr>dt_closed := c\<rparr>) = dt_conns s" "dt_conns (s\<lparr>dt_undefined := u\<rparr>) = dt_conns s"
  by (simp_all add: dt_conns_def)

lemma conns_upd_dp [simp]: "(\<And>p. dp_ip (f p) = dp_ip p) \<Longrightarrow> dt_conns (upd_dp fd f s) = dt_conns s"
  by (auto simp: dt_conns_def upd_dp_def fun_eq_iff)

lemma conns_ops [simp]:
  "dt_conns (dt_fill t f s) = dt_conns s" "dt_conns (dt_base t g s) = dt_conns s" "dt_conns (dt_set_task env t q s) = dt_conns s"
  "dt_conns (dt_queue fd m s) = dt_conns s" "dt_conns (dt_out fd m s) = dt_conns s" "dt_conns (close_local lfd s) = dt_conns s"
  "dt_conns (create_push_rsp base fd s) = dt_conns s" "dt_conns (create_push_rsp_err e fd s) = dt_conns s"
  by (simp_all add: dt_fill_def dt_base_def dt_set_task_def dt_queue_def dt_out_def close_local_def create_push_rsp_def
      create_push_rsp_err_def Let_def)

lemma conns_get [simp]: "dt_conns (snd (snd (dt_get_task env q s))) = dt_conns s"
  by (simp add: dt_get_task_def case_prod_beta)

lemma conns_dt_touch: "dt_conns (dt_touch env fd s) = conns_move fd (dt_conns s)"
  by (auto simp: dt_conns_def dt_touch_def upd_dp_def conns_move_def fun_eq_iff)

lemma conns_open_recv [simp]: "dt_conns (snd (open_recv env fd t s)) = dt_conns s"
  by (auto simp: open_recv_def Let_def split: option.splits if_splits prod.splits)

lemma conns_recv_task [simp]: "dt_conns (snd (do_recv_task env fd h base s)) = dt_conns s"
  by (simp add: do_recv_task_def Let_def case_prod_beta split: option.split)

lemma conns_write [simp]: "write_local env lfd d s = (n, s') \<Longrightarrow> dt_conns s' = dt_conns s"
  by (auto simp: write_local_def Let_def split: option.splits if_splits)

lemma conns_finish [simp]: "dt_conns (finish_recv oper env fd t s) = dt_conns s"
  by (auto simp: finish_recv_def Let_def split: option.split prod.split)

lemma conns_recv_file [simp]: "dt_conns (fst (snd (recv_file oper env fd s buf))) = dt_conns s"
  by (auto simp: recv_file_def Let_def split: option.split prod.split)

lemma conns_filename [simp]: "dt_conns (snd (get_local_filename env base s)) = dt_conns s"
  by (simp add: get_local_filename_def Let_def case_prod_beta)

text \<open>
  A service that takes files from its connections: its handler of requests leaves the tables of
  connections alone, and so all that \<^verbatim>\<open>svc_recv\<close> does to them is to move the connection to the end of the list.
\<close>

locale file_service =
  fixes oper :: uint8 and do_req :: "dt_env \<Rightarrow> int \<Rightarrow> dt_state handler"
  assumes do_req_conns: "dt_conns (snd (do_req env fd s h b)) = dt_conns s"
begin

lemma check_conns: "check_req_with (do_req env fd) s buf = (r, s1, b1) \<Longrightarrow> dt_conns s1 = dt_conns s"
  using do_req_conns by (auto simp: check_req_with_frames split: list.splits prod.splits) (metis snd_conv)+

lemma loop_conns: "fd \<in> dt_user s \<Longrightarrow>
  conns_step\<^sup>*\<^sup>* (dt_conns s) (dt_conns (fst (snd (transfer_loop oper (do_req env fd) env fd s buf))))"
proof (induction "length buf" arbitrary: s buf rule: less_induct)
  case less
  obtain r s1 b1 where c: "check_req_with (do_req env fd) s buf = (r, s1, b1)" by (metis prod_cases3)
  have s1: "dt_conns s1 = dt_conns s" using check_conns [OF c] .
  then have u: "fd \<in> dt_user s1" "fd \<in> cn_user (dt_conns s1)" using less.prems by (auto simp: dt_conns_def)
  have short: "r \<noteq> -1 \<Longrightarrow> r \<noteq> RECV_CLOSE \<Longrightarrow> length b1 < length buf"
    using c by (auto simp: check_req_with_def Let_def split: if_splits prod.splits)
  have "conns_step\<^sup>*\<^sup>* (dt_conns s) (dt_conns (fst (snd (transfer_loop oper (do_req env fd) env fd s1 b1))))"
    if "r \<noteq> -1" "r \<noteq> RECV_CLOSE" using less.hyps [OF short [OF that] u(1)] s1 by simp
  moreover have "conns_step (dt_conns s) (dt_conns (dt_touch env fd s1))"
    using conns_step.Move [OF u(2)] s1 by (simp add: conns_dt_touch)
  moreover have "transfer_loop oper (do_req env fd) env fd s buf =
     (if r = -1 then (RECV_ADD_EPOLLIN, s1, b1)
      else if r = RECV_ADD_EPOLLOUT \<or> r = RECV_SEND \<or> r = RECV_CLOSE then (r, s1, b1)
      else if dp_sock_stat (dt_peer s1 fd) = RECVFILEING then recv_file oper env fd (dt_touch env fd s1) b1
      else if dp_sock_stat (dt_peer s1 fd) = SENDFILEING then (RECV_ADD_EPOLLOUT, s1, b1)
      else transfer_loop oper (do_req env fd) env fd s1 b1)"
    by (subst transfer_loop.simps) (simp add: c)
  ultimately show ?case using s1 r_into_rtranclp [of conns_step] by simp
qed

lemma recv_conns:
  assumes "fd \<in> dt_user s"
  shows "conns_step\<^sup>*\<^sup>* (dt_conns s) (dt_conns (fst (snd (transfer_recv oper (do_req env fd) env fd s buf))))"
proof -
  let ?s = "dt_touch env fd s"
  have "conns_step (dt_conns s) (dt_conns ?s)"
    using conns_step.Move [of fd "dt_conns s"] assms by (simp add: conns_dt_touch) (simp add: dt_conns_def)
  moreover have "conns_step\<^sup>*\<^sup>* (dt_conns ?s) (dt_conns (fst (snd (transfer_loop oper (do_req env fd) env fd ?s buf))))"
    by (rule loop_conns) (use assms in \<open>simp add: dt_touch_def upd_dp_def\<close>)
  ultimately show ?thesis by (auto simp: transfer_recv_def Let_def intro: converse_rtranclp_into_rtranclp)
qed

end

subsection \<open>An example\<close>

definition example_dv :: dt_env where
  "example_dv = \<lparr>dv_now = 1000, dv_lock = (\<lambda>_. 0), dv_malloc = (\<lambda>_. None), dv_conn_malloc = True,
     dv_peerip = (\<lambda>_. 0x0200007F), dv_connect = (\<lambda>_ _. -1), dv_write = int, dv_errmsg = ''Success'', dv_stack = 5,
     dv_cf = example_cf, dv_os = example_os, dv_self_ip = 0x0100007F, dv_timeout = 30, dv_retry = 3,
     dv_max_run = 10, dv_max_connects = 4, dv_pfs_test = False\<rparr>"

definition example_dt :: dt_state where
  "example_dt = \<lparr>dt_peer = (\<lambda>_. zero_data_peer), dt_user = {}, dt_activelist = [], dt_online = (\<lambda>_. []),
     dt_task = blank_tasks\<lparr>pfstask := (\<lambda>q. if q = TASK_Q_HOME then [3] else []), taskcount := (\<lambda>q. if q = TASK_Q_HOME then 1 - of_nat TASK_BLOCK else 0)\<rparr>,
     dt_store = example_store, dt_disk = zero_disks, dt_dom = zero_domain, dt_pic_index = 0, dt_ofile = (\<lambda>_. None),
     dt_send = (\<lambda>_. []), dt_sendfile = (\<lambda>_. None), dt_send_len = (\<lambda>_. 0), dt_epollout = {}, dt_closed = [], dt_undefined = False\<rparr>"

lemma example_dt_tasks_ok: "tasks_ok {} (dt_task example_dt)"
  by (simp add: tasks_ok_def queue_ok_def example_dt_def blank_tasks_def home_task_def home_offset_def)

end
