(* ===== verification/Pfs_Data.thy ===== *)
theory Pfs_Data
  imports Pfs_Transfer
begin

section \<open>The data plugin of a storage server (network/D)\<close>

text \<open>
  The data plugin moves files between the servers of a domain and takes files from clients.  It
  takes tasks from the queues the signalling plugin fills, asks the server that has the file for
  it, and answers such requests with the file; \<open>Pfs_Transfer\<close> holds what it shares with the upload
  plugin.
\<close>

subsection \<open>Connections (pfs_data.c, pfs_data_base.c)\<close>

definition dt_svc_initconn :: "dt_env \<Rightarrow> int \<Rightarrow> dt_state \<Rightarrow> int \<times> dt_state" where
  "dt_svc_initconn env fd s =
     (let ip = dv_peerip env fd in
      if fd \<notin> dt_user s \<and> \<not> dv_conn_malloc env then (303, s)
      else
        (0, s\<lparr>dt_peer := (dt_peer s)(fd := new_peer env fd ip), dt_user := insert fd (dt_user s),
              dt_activelist := remove1 fd (dt_activelist s) @ [fd],
              dt_online := (dt_online s)(hash256 ip := fd # dt_online s (hash256 ip))\<rparr>))"

definition get_ip_connect_count :: "uint32 \<Rightarrow> dt_state \<Rightarrow> nat" where
  "get_ip_connect_count ip s =
     length (filter (\<lambda>fd. dp_ip (dt_peer s fd) = ip \<and> dp_mode (dt_peer s fd) = CON_ACTIVE) (dt_online s (hash256 ip)))"

definition dt_find_ip_stat :: "uint32 \<Rightarrow> con_mode \<Rightarrow> data_stat \<Rightarrow> dt_state \<Rightarrow> int option" where
  "dt_find_ip_stat ip mode status s =
     List.find (\<lambda>fd. dp_ip (dt_peer s fd) = ip \<and> mode = dp_mode (dt_peer s fd) \<and> status = dp_sock_stat (dt_peer s fd))
       (dt_online s (hash256 ip))"

definition dt_active_connect :: "dt_env \<Rightarrow> string \<Rightarrow> dt_state \<Rightarrow> dt_state" where
  "dt_active_connect env ip s =
     (let fd = dv_connect env (dt_user s) ip in
      if fd < 0 then s
      else case dt_svc_initconn env fd s of (r, s1) \<Rightarrow>
        if r \<noteq> 0 then s
        else upd_dp fd (\<lambda>p. p\<lparr>dp_sock_stat := IDLE, dp_mode := CON_ACTIVE\<rparr>)
               (s1\<lparr>dt_send_len := (dt_send_len s1)(fd := 0), dt_send := (dt_send s1)(fd := []),
                   dt_sendfile := (dt_sendfile s1)(fd := None)\<rparr>))"

definition dt_svc_finiconn :: "dt_env \<Rightarrow> int \<Rightarrow> dt_state \<Rightarrow> dt_state" where
  "dt_svc_finiconn env fd s =
     (if fd \<notin> dt_user s then s
      else
        let p = dt_peer s fd;
            s1 = (close_local (dp_local_in_fd p) s)
                   \<lparr>dt_activelist := remove1 fd (dt_activelist s), dt_online := (\<lambda>i. remove1 fd (dt_online s i))\<rparr>;
            s2 = (case dp_sendtask p of None \<Rightarrow> s1
                  | Some t \<Rightarrow> dt_set_task env t TASK_Q_FIN (dt_base t (\<lambda>b. b\<lparr>b_overstatus := OVER_SEND_LEN\<rparr>) s1));
            s3 = (case dp_recvtask p of None \<Rightarrow> s2
                  | Some t \<Rightarrow> dt_set_task env t TASK_Q_WAIT (dt_base t (\<lambda>b. b\<lparr>b_retry := b_retry b + 1\<rparr>)
                      (s2\<lparr>dt_store := real_rm_file (dv_os env) (b_tmpfile (ti_base (dt_info t s2))) (dt_store s2)\<rparr>)))
        in s3\<lparr>dt_peer := (dt_peer s3)(fd := zero_data_peer), dt_user := dt_user s3 - {fd}\<rparr>)"

text \<open>\<^verbatim>\<open>do_close\<close> of the event loop, as far as the plugin sees it.\<close>

definition dt_do_close :: "dt_env \<Rightarrow> int \<Rightarrow> dt_state \<Rightarrow> dt_state" where
  "dt_do_close env fd s = (let s1 = dt_svc_finiconn env fd s in s1\<lparr>dt_closed := dt_closed s1 @ [fd]\<rparr>)"

definition dt_active_send :: "dt_env \<Rightarrow> int \<Rightarrow> t_pfs_sig_head \<Rightarrow> bytes \<Rightarrow> dt_state \<Rightarrow> dt_state" where
  "dt_active_send env fd h b s =
     dt_out fd (create_sig_msg (h_cmdid h) (h_status h) b (h_bodylen h))
       (upd_dp fd (\<lambda>p. p\<lparr>dp_hbtime := word_of_int (dv_now env)\<rparr>) s)"

subsection \<open>Requests (pfs_data_task.c, pfs_data_sub.c)\<close>

text \<open>
  The answer carries the status and the base, whose size, time and digest are refreshed from the
  file when the request has no size or is a repetition.  \<^verbatim>\<open>headlen\<close> is the length of the answer.
\<close>

definition do_send_task :: "dt_env \<Rightarrow> int \<Rightarrow> t_task_base \<Rightarrow> dt_state \<Rightarrow> dt_state" where
  "do_send_task env fd base0 s0 =
     (let s = upd_dp fd (\<lambda>p. p\<lparr>dp_hbtime := word_of_int (dv_now env)\<rparr>) (s0\<lparr>dt_send_len := (dt_send_len s0)(fd := 0)\<rparr>);
          (st0, base) = (if b_fsize base0 = 0 \<or> b_retry base0 \<noteq> 0 then get_localfile_stat base0 (dt_store s)
                         else (LOCALFILE_OK, base0));
          (status, s4) =
            (if st0 \<noteq> LOCALFILE_OK then (FILE_SYNC_DST_2_SRC_E_OPENFILE, s)
             else case dt_get_task env TASK_Q_HOME s of
               (_, None, s1) \<Rightarrow> (FILE_SYNC_DST_2_SRC_E_MALLOC, s1)
             | (_, Some t, s1) \<Rightarrow>
                 let sub = zero_sub\<lparr>u_peerip := ip2str (dp_ip (dt_peer s fd)), u_processlen := b_fsize base,
                             u_starttime := dv_now env, u_oper_type := OPER_GET_RSP, u_need_sync := TASK_SRC_NOSYNC\<rparr>;
                     fill = (\<lambda>over. dt_fill t (\<lambda>_. zero_taskinfo\<lparr>ti_base := base\<lparr>b_overstatus := over\<rparr>, ti_sub := sub\<rparr>) s1)
                 in case open_localfile_4_read (dv_os env) base (dt_store s1) of (r, lfd) \<Rightarrow>
                      if r \<noteq> LOCALFILE_OK then
                        (FILE_SYNC_DST_2_SRC_E_OPENFILE, dt_set_task env t TASK_Q_FIN (fill OVER_E_OPEN_SRCFILE))
                      else
                        (FILE_SYNC_DST_2_SRC,
                         upd_dp fd (\<lambda>p. p\<lparr>dp_sendtask := Some t, dp_sock_stat := SENDFILEING\<rparr>)
                           ((dt_set_task env t TASK_Q_SEND (fill OVER_UNKNOWN))
                              \<lparr>dt_sendfile := (dt_sendfile s1)(fd := Some (lfd, b_fsize base))\<rparr>)));
          m = create_sig_msg CMD_GET_FILE_RSP status (enc_base base) (of_nat SIZEOF_BASE)
      in upd_dp fd (\<lambda>p. p\<lparr>dp_headlen := of_nat (length m)\<rparr>) (dt_queue fd m s4))"

text \<open>A client's request to store or delete a file.\<close>

definition do_push_task :: "dt_env \<Rightarrow> int \<Rightarrow> t_pfs_sig_head \<Rightarrow> t_task_base \<Rightarrow> dt_state \<Rightarrow> int \<times> dt_state" where
  "do_push_task env fd h base0 s0 =
     (let s = upd_dp fd (\<lambda>p. p\<lparr>dp_sock_stat := PREPARE_RECVFILE\<rparr>) s0 in
      case dt_get_task env TASK_Q_HOME s of
        (_, None, s1) \<Rightarrow> (RECV_ADD_EPOLLOUT, create_push_rsp_err ''get task home error!'' fd s1)
      | (_, Some t, s1) \<Rightarrow>
          let (base, s2) = (if b_type base0 \<noteq> TASK_DELFILE \<and> h_status h = 0 then get_local_filename env base0 s1 else (base0, s1));
              sub = zero_sub\<lparr>u_peerip := ip2str (dp_ip (dt_peer s fd)), u_processlen := b_fsize base,
                      u_starttime := dv_now env, u_oper_type := OPER_PUT_REQ, u_need_sync := TASK_SOURCE\<rparr>;
              s3 = dt_fill t (\<lambda>_. zero_taskinfo\<lparr>ti_base := base\<lparr>b_starttime := dv_now env\<rparr>, ti_sub := sub\<rparr>) s2
          in if b_type base = TASK_DELFILE then
               (case delete_localfile (dv_cf env) (dv_os env) base (dt_store s3) of
                  None \<Rightarrow> (RECV_SEND, s3\<lparr>dt_undefined := True\<rparr>)
                | Some (_, _, st) \<Rightarrow>
                    let s4 = dt_base t (\<lambda>b. b\<lparr>b_overstatus := OVER_OK\<rparr>) (s3\<lparr>dt_store := st\<rparr>) in
                    (RECV_SEND, create_push_rsp (ti_base (dt_info t s4)) fd
                       (upd_dp fd (\<lambda>p. p\<lparr>dp_recvtask := None\<rparr>) (dt_set_task env t TASK_Q_FIN s4))))
             else case open_recv env fd t (upd_dp fd (\<lambda>p. p\<lparr>dp_recvtask := Some t\<rparr>) s3) of (ok, s4) \<Rightarrow>
               if ok then (RECV_ADD_EPOLLIN, s4)
               else (RECV_ADD_EPOLLOUT, create_push_rsp_err ''open remote file err'' fd s4))"

definition dt_do_req :: "dt_env \<Rightarrow> int \<Rightarrow> dt_state handler" where
  "dt_do_req env fd s h b =
     (if h_cmdid h = CMD_GET_FILE_RSP then
        if unat (h_bodylen h) \<noteq> SIZEOF_BASE then (RECV_CLOSE, s) else do_recv_task env fd h (dec_base b) s
      else if h_cmdid h = CMD_GET_FILE_REQ then
        if unat (h_bodylen h) \<noteq> SIZEOF_BASE then (RECV_CLOSE, s)
        else (RECV_ADD_EPOLLOUT, do_send_task env fd (dec_base b) s)
      else if h_cmdid h = CMD_PUT_FILE_REQ then
        if unat (h_bodylen h) \<noteq> SIZEOF_BASE then (RECV_CLOSE, s) else do_push_task env fd h (dec_base b) s
      else (RECV_CLOSE, s))"

definition dt_check_req :: "dt_env \<Rightarrow> int \<Rightarrow> dt_state \<Rightarrow> bytes \<Rightarrow> int \<times> dt_state \<times> bytes" where
  "dt_check_req env fd s buf = check_req_with (dt_do_req env fd) s buf"

definition dt_svc_recv :: "dt_env \<Rightarrow> int \<Rightarrow> dt_state \<Rightarrow> bytes \<Rightarrow> int \<times> dt_state \<times> bytes" where
  "dt_svc_recv env = (\<lambda>fd. transfer_recv OPER_PUT_REQ (dt_do_req env fd) env fd)"

subsection \<open>Sending (pfs_data.c)\<close>

definition dt_svc_send_once :: "dt_env \<Rightarrow> int \<Rightarrow> dt_state \<Rightarrow> int \<times> dt_state" where
  "dt_svc_send_once env fd s = (SEND_ADD_EPOLLIN, upd_dp fd (\<lambda>p. p\<lparr>dp_hbtime := word_of_int (dv_now env)\<rparr>) s)"

text \<open>The event loop asks when \<^verbatim>\<open>sendfile\<close> gives nothing: is the file still the one that was announced?\<close>

definition dt_svc_check_send :: "int \<Rightarrow> dt_state \<Rightarrow> int" where
  "dt_svc_check_send fd s =
     (case dp_sendtask (dt_peer s fd) of
        None \<Rightarrow> -1
      | Some t \<Rightarrow>
          let base = ti_base (dt_info t s) in
          (case fs_files (dt_store s) (b_filename base) of
             None \<Rightarrow> -1
           | Some c \<Rightarrow> if int (length c) \<noteq> b_fsize base then -1 else 0))"

definition dt_svc_send :: "dt_env \<Rightarrow> int \<Rightarrow> dt_state \<Rightarrow> int \<times> dt_state" where
  "dt_svc_send env fd s0 =
     (let s = dt_touch env fd s0; p = dt_peer s fd in
      if dp_sock_stat p = SENDFILEING then
        case dp_sendtask p of
          None \<Rightarrow> (SEND_CLOSE, s\<lparr>dt_undefined := True\<rparr>)
        | Some t \<Rightarrow>
            let ok = (dt_send_len s fd \<ge> int (unat (dp_headlen p)) + u_processlen (ti_sub (dt_info t s)));
                s1 = upd_dp fd (\<lambda>p. p\<lparr>dp_sock_stat := IDLE, dp_sendtask := None\<rparr>)
                       (dt_set_task env t TASK_Q_FIN
                         (dt_base t (\<lambda>b. b\<lparr>b_overstatus := if ok then OVER_OK else OVER_SEND_LEN\<rparr>) s))
            in (if ok then if dp_close p then SEND_CLOSE else SEND_ADD_EPOLLIN else SEND_CLOSE, s1)
      else (if dp_close p then SEND_CLOSE else SEND_ADD_EPOLLIN, s))"

subsection \<open>Tasks (check_task of pfs_data_base.c)\<close>

text \<open>Where a task waits until it is tried again.\<close>

definition put_back :: "dt_env \<Rightarrow> nat \<Rightarrow> dt_state \<Rightarrow> dt_state" where
  "put_back env t s =
     dt_set_task env t (if u_need_sync (ti_sub (dt_info t s)) = TASK_SYNC_ISDIR then TASK_Q_SYNC_DIR_TMP else TASK_Q_WAIT_TMP) s"

definition end_task :: "dt_env \<Rightarrow> nat \<Rightarrow> uint8 \<Rightarrow> dt_state \<Rightarrow> dt_state" where
  "end_task env t over s = dt_set_task env t TASK_Q_FIN (dt_base t (\<lambda>b. b\<lparr>b_overstatus := over\<rparr>) s)"

text \<open>The request for the task's file is sent to the peer.\<close>

definition request_file :: "dt_env \<Rightarrow> nat \<Rightarrow> int \<Rightarrow> dt_state \<Rightarrow> dt_state" where
  "request_file env t fd s =
     (if dv_pfs_test env then end_task env t OVER_OK s
      else
        let s1 = dt_fill t (\<lambda>k. k\<lparr>ti_sub := (ti_sub k)\<lparr>u_lastlen := 0\<rparr>\<rparr>) s;
            s2 = dt_active_send env fd \<lparr>h_bodylen = of_nat SIZEOF_BASE, h_cmdid = CMD_GET_FILE_REQ,
                   h_status = FILE_SYNC_DST_2_SRC\<rparr> (enc_base (ti_base (dt_info t s1))) s1
        in upd_dp fd (\<lambda>p. p\<lparr>dp_recvtask := Some t\<rparr>)
             (dt_set_task env t TASK_Q_RECV (upd_dp fd (\<lambda>p. p\<lparr>dp_sock_stat := PREPARE_RECVFILE\<rparr>) s2)))"

text \<open>A connection for the task: one that is idle, or a new one unless there are too many.\<close>

definition connect_task :: "dt_env \<Rightarrow> nat \<Rightarrow> int option \<Rightarrow> dt_state \<Rightarrow> dt_state" where
  "connect_task env t peer s =
     (case peer of
        Some fd \<Rightarrow> request_file env t fd s
      | None \<Rightarrow>
          let peerip = u_peerip (ti_sub (dt_info t s)); ip = str2ip peerip in
          if get_ip_connect_count ip s > unat (dv_max_connects env) then put_back env t s
          else
            let s1 = dt_active_connect env peerip s in
            (case dt_find_ip_stat ip CON_ACTIVE IDLE s1 of
               None \<Rightarrow> put_back env t s1
             | Some fd \<Rightarrow> request_file env t fd s1))"

definition run_task :: "dt_env \<Rightarrow> nat \<Rightarrow> dt_state \<Rightarrow> dt_state" where
  "run_task env t s =
     (let base = ti_base (dt_info t s) in
      if b_retry base > dv_retry env then end_task env t OVER_TOO_MANY_TRY s
      else
        case (if b_fsize base > 0 then check_localfile_md5 (dv_cf env) (dv_os env) base VIDEOFILE (dt_store s)
              else Some (LOCALFILE_FILE_E, base, dt_store s)) of
          None \<Rightarrow> s\<lparr>dt_undefined := True\<rparr>
        | Some (r, base1, st) \<Rightarrow>
            let s1 = dt_base t (\<lambda>_. base1) (s\<lparr>dt_store := st\<rparr>) in
            if r = LOCALFILE_OK then end_task env t OVER_OK s1
            else
              let sub = ti_sub (dt_info t s1);
                  peer = dt_find_ip_stat (str2ip (u_peerip sub)) CON_ACTIVE IDLE s1
              in if u_oper_type sub \<noteq> OPER_GET_REQ \<and> u_oper_type sub \<noteq> OPER_FROM_POSS then end_task env t OVER_E_TYPE s1
                 else case check_disk_space (dv_cf env) (dv_os env) base1 (dt_store s1) of (k, st1) \<Rightarrow>
                   let s2 = s1\<lparr>dt_store := st1\<rparr> in
                   if k \<noteq> DISK_OK then
                     (case check_disk_space (dv_cf env) (dv_os env) base1 (dt_store s2) of (k2, st2) \<Rightarrow>
                        let s3 = s2\<lparr>dt_store := st2\<rparr> in
                        if k2 = DISK_SPACE_TOO_SMALL then put_back env t s3 else end_task env t OVER_DISK_ERR s3)
                   else connect_task env t peer s2)"

text \<open>
  The first two loops empty a queue into another, in at most as many rounds as the queue has
  tasks; the third runs at most \<^verbatim>\<open>max_task_run_once - 1\<close> tasks, its counter being of that type.
\<close>

fun dt_drain :: "dt_env \<Rightarrow> int \<Rightarrow> int \<Rightarrow> nat \<Rightarrow> dt_state \<Rightarrow> dt_state" where
  "dt_drain env from to 0 s = s"
| "dt_drain env from to (Suc n) s =
     (case dt_get_task env from s of
        (_, None, s1) \<Rightarrow> s1
      | (_, Some t, s1) \<Rightarrow> dt_drain env from to n (dt_set_task env t to s1))"

fun run_tasks :: "dt_env \<Rightarrow> nat \<Rightarrow> dt_state \<Rightarrow> dt_state" where
  "run_tasks env 0 s = s"
| "run_tasks env (Suc n) s =
     (case dt_get_task env TASK_Q_WAIT s of
        (_, Some t, s1) \<Rightarrow> run_tasks env n (run_task env t s1)
      | (_, None, s1) \<Rightarrow>
          (case dt_get_task env TASK_Q_SYNC_DIR s1 of
             (_, Some t, s2) \<Rightarrow> run_tasks env n (run_task env t s2)
           | (_, None, s2) \<Rightarrow> s2))"

definition dt_check_task :: "dt_env \<Rightarrow> dt_state \<Rightarrow> dt_state" where
  "dt_check_task env s =
     (let s1 = dt_drain env TASK_Q_WAIT_TMP TASK_Q_WAIT (Suc (length (pfstask (dt_task s) TASK_Q_WAIT_TMP))) s;
          s2 = dt_drain env TASK_Q_SYNC_DIR_TMP TASK_Q_SYNC_DIR (Suc (length (pfstask (dt_task s1) TASK_Q_SYNC_DIR_TMP))) s1
      in run_tasks env (unat (dv_max_run env) - 1) s2)"

subsection \<open>The clock, and start-up (pfs_data.c)\<close>

text \<open>Connections are closed from the one unused for the longest time on.\<close>

fun dt_scan_active :: "dt_env \<Rightarrow> int list \<Rightarrow> dt_state \<Rightarrow> dt_state" where
  "dt_scan_active env [] s = s"
| "dt_scan_active env (fd # fds) s =
     (if dv_now env - uint (dp_hbtime (dt_peer s fd)) < uint (dv_timeout env) * 10 then s
      else dt_scan_active env fds (dt_do_close env fd s))"

definition dt_svc_timeout :: "dt_env \<Rightarrow> dt_state \<Rightarrow> dt_state" where
  "dt_svc_timeout env s = dt_check_task env (dt_scan_active env (dt_activelist s) s)"

definition dt_svc_init :: "dt_state \<Rightarrow> dt_state" where
  "dt_svc_init s = s\<lparr>dt_activelist := [], dt_online := (\<lambda>_. [])\<rparr>"

subsection \<open>A file copied from one server to another\<close>

text \<open>What the sender's answer says of the file.\<close>

definition answered_base :: "t_task_base \<Rightarrow> store \<Rightarrow> t_task_base" where
  "answered_base base st = (if b_fsize base = 0 \<or> b_retry base \<noteq> 0 then snd (get_localfile_stat base st) else base)"

text \<open>
  The sender has the file with the contents \<open>c\<close>, and the request names its size and digest, or asks for
  them by a size of zero or a repetition.
\<close>

definition can_serve :: "dt_env \<Rightarrow> t_task_base \<Rightarrow> bytes \<Rightarrow> dt_state \<Rightarrow> bool" where
  "can_serve env base c s \<longleftrightarrow>
     base_ok base \<and> int64 (fs_mtime (dt_store s) (b_filename base)) \<and>
     fs_files (dt_store s) (b_filename base) = Some c \<and> 0 \<le> os_open (dv_os env) (b_filename base) \<and>
     pfstask (dt_task s) TASK_Q_HOME \<noteq> [] \<and> dv_lock env TASK_Q_HOME = 0 \<and> b_filemd5 base ! 16 = 0 \<and>
     (b_filemd5 base = rfc_md5 c @ [0] \<longrightarrow> b_fsize base = int (length c)) \<and>
     (b_fsize base = 0 \<or> b_retry base \<noteq> 0 \<or> b_filemd5 base = rfc_md5 c @ [0])"

lemma answered_base:
  assumes "can_serve env base c s" and "length c < 2 ^ 31" and "base' = answered_base base (dt_store s)"
  shows "b_filename base' = b_filename base" and "b_fsize base' = int (length c)" and "b_filemd5 base' = rfc_md5 c @ [0]"
    and "base_ok base'" and "b_type base' = b_type base"
    and "b_fsize base = 0 \<or> b_retry base \<noteq> 0 \<Longrightarrow> get_localfile_stat base (dt_store s) = (LOCALFILE_OK, base')"
proof -
  have md: "put_at 0 (rfc_md5 c) (b_filemd5 base) = rfc_md5 c @ [0]"
  proof -
    have "length (b_filemd5 base) = 17" "b_filemd5 base ! 16 = 0" using assms(1) by (auto simp: can_serve_def base_ok_def)
    then have "drop 16 (b_filemd5 base) = [0]" using Cons_nth_drop_Suc [of 16 "b_filemd5 base"] by simp
    then show ?thesis by (simp add: put_at_def)
  qed
  have g: "get_localfile_stat base (dt_store s) = (LOCALFILE_OK, base\<lparr>b_mtime := fs_mtime (dt_store s) (b_filename base),
      b_fsize := int (length c), b_filemd5 := rfc_md5 c @ [0]\<rparr>)"
    using assms(1) md by (simp add: can_serve_def get_localfile_stat_def file_md5_rfc Let_def)
  show "b_filename base' = b_filename base" "b_fsize base' = int (length c)" "b_filemd5 base' = rfc_md5 c @ [0]" "b_type base' = b_type base"
    using assms(1) g unfolding assms(3) answered_base_def by (auto simp: can_serve_def)
  have "int64 (int (length c))" using assms(2) by (simp add: int64_def)
  then show "base_ok base'"
    using assms(1) g unfolding assms(3) answered_base_def by (auto simp: can_serve_def base_ok_def)
  show "get_localfile_stat base (dt_store s) = (LOCALFILE_OK, base')" if "b_fsize base = 0 \<or> b_retry base \<noteq> 0"
    using g that unfolding assms(3) answered_base_def by simp
qed

lemma serve_answer:
  assumes "can_serve env base c s" and "length c < 2 ^ 31" and "s' = do_send_task env fd base s"
  shows "dt_send s' fd = dt_send s fd @ create_sig_msg CMD_GET_FILE_RSP FILE_SYNC_DST_2_SRC
      (enc_base (answered_base base (dt_store s))) (of_nat SIZEOF_BASE)"
    and "dt_sendfile s' fd = Some (os_open (dv_os env) (b_filename base), int (length c))"
    and "dp_sock_stat (dt_peer s' fd) = SENDFILEING"
proof -
  define base' where "base' = answered_base base (dt_store s)"
  define s1 where "s1 = upd_dp fd (\<lambda>p. p\<lparr>dp_hbtime := word_of_int (dv_now env)\<rparr>) (s\<lparr>dt_send_len := (dt_send_len s)(fd := 0)\<rparr>)"
  note b = answered_base [OF assms(1,2) base'_def]
  obtain t ts where "pfstask (dt_task s) TASK_Q_HOME = t # ts"
    using assms(1) by (cases "pfstask (dt_task s) TASK_Q_HOME") (auto simp: can_serve_def)
  then obtain k where k: "dt_get_task env TASK_Q_HOME s1 = (GET_TASK_Q_OK, Some t, s1\<lparr>dt_task := k\<rparr>)"
    using assms(1) by (auto simp: can_serve_def s1_def dt_get_task_def pfs_get_task_def upd_dp_def)
  have st: "(if b_fsize base = 0 \<or> b_retry base \<noteq> 0 then get_localfile_stat base (dt_store s1) else (LOCALFILE_OK, base)) = (LOCALFILE_OK, base')"
    using b(6) by (auto simp: base'_def answered_base_def s1_def upd_dp_def)
  have op: "open_localfile_4_read (dv_os env) base' (dt_store s1) = (LOCALFILE_OK, os_open (dv_os env) (b_filename base))"
    using assms(1) b(1) by (simp add: open_localfile_4_read_def can_serve_def s1_def upd_dp_def)
  show "dt_send s' fd = dt_send s fd @ create_sig_msg CMD_GET_FILE_RSP FILE_SYNC_DST_2_SRC
      (enc_base (answered_base base (dt_store s))) (of_nat SIZEOF_BASE)"
    "dt_sendfile s' fd = Some (os_open (dv_os env) (b_filename base), int (length c))"
    "dp_sock_stat (dt_peer s' fd) = SENDFILEING"
    using b(2) unfolding assms(3) do_send_task_def Let_def s1_def [symmetric] st
    by (simp_all add: k op dt_queue_def dt_set_task_def dt_access) (simp_all add: s1_def upd_dp_def base'_def)
qed

lemma storage_convert_name:
  assumes "storage_convert cf os b = Some (r, conv)" and "b_filename b' = b_filename b"
  obtains conv' where "storage_convert cf os b' = Some (r, conv')" and "b_filename conv' = b_filename conv"
    and "b_filemd5 conv' = b_filemd5 b'" and "b_retfile b' = b_retfile b \<Longrightarrow> b_retfile conv' = b_retfile conv"
  using assms by (auto simp: storage_convert_def Let_def split: option.splits if_splits)

text \<open>
  The receiver waits for the file of task \<open>t\<close> on a connection that has carried no file yet, and can
  open the file's temporary name.
\<close>

definition awaits :: "dt_env \<Rightarrow> int \<Rightarrow> nat \<Rightarrow> t_task_base \<Rightarrow> t_task_base \<Rightarrow> dt_state \<Rightarrow> bool" where
  "awaits env fd t base conv s \<longleftrightarrow>
     dp_sock_stat (dt_peer s fd) = PREPARE_RECVFILE \<and> dp_recvtask (dt_peer s fd) = Some t \<and>
     dp_local_in_fd (dt_peer s fd) \<le> 0 \<and> ctx_ok (dp_ctx (dt_peer s fd)) [] \<and>
     ti_base (dt_info t s) = base \<and> u_lastlen (ti_sub (dt_info t s)) = 0 \<and>
     u_processlen (ti_sub (dt_info t s)) = b_fsize base \<and> u_oper_type (ti_sub (dt_info t s)) = OPER_GET_REQ \<and>
     t \<notin> set (pfstask (dt_task s) TASK_Q_FIN) \<and> writes_all env \<and> dv_lock env TASK_Q_FIN = 0 \<and> os_rename (dv_os env) \<and>
     storage_convert (dv_cf env) (dv_os env) base = Some (LOCALFILE_OK, conv) \<and>
     (let tmp = tmp_name (dv_os env) conv (dt_store s) in
      length tmp < 256 \<and> parent_exists tmp (dt_store s) \<and> 0 < os_open (dv_os env) tmp \<and> fs_files (dt_store s) tmp = None)"

lemma awaits_touched: "touched fd s s1 \<Longrightarrow> awaits env fd t base conv s1 = awaits env fd t base conv s"
  by (auto simp: touched_def awaits_def dt_access)

lemma awaits_now [simp]: "awaits (env\<lparr>dv_now := now\<rparr>) fd t base conv s = awaits env fd t base conv s"
  by (simp add: awaits_def writes_all_def)

lemma recv_task_opens:
  assumes a: "awaits env fd t base conv s" and h: "h_status h = FILE_SYNC_DST_2_SRC"
    and b': "b_filename base' = b_filename base" "b_filemd5 base' = b_filemd5 base \<Longrightarrow> b_fsize base' = b_fsize base"
    and tmp: "tmp = tmp_name (dv_os env) conv (dt_store s)"
  shows "\<exists>s2 b sub. do_recv_task env fd h base' s = (RECV_ADD_EPOLLIN, s2) \<and> receiving fd t [] s2
    \<and> u_processlen (ti_sub (dt_info t s2)) = b_fsize base'
    \<and> rx_view t s2 = (b, sub, pfstask (dt_task s), dt_send s, dt_dom s, dt_undefined s, fs_files (dt_store s))
    \<and> b_filename b = b_filename conv \<and> b_tmpfile b = tmp \<and> b_filemd5 b = b_filemd5 base' \<and> u_oper_type sub = OPER_GET_REQ"
proof -
  define s1 where "s1 = (if b_filemd5 base \<noteq> b_filemd5 base'
     then dt_fill t (\<lambda>k. k\<lparr>ti_base := base', ti_sub := (ti_sub k)\<lparr>u_processlen := b_fsize base'\<rparr>\<rparr>) s else s)"
  have b1: "b_filename (ti_base (dt_info t s1)) = b_filename base" "b_filemd5 (ti_base (dt_info t s1)) = b_filemd5 base'"
    "u_processlen (ti_sub (dt_info t s1)) = b_fsize base'" "u_lastlen (ti_sub (dt_info t s1)) = 0" "u_oper_type (ti_sub (dt_info t s1)) = OPER_GET_REQ"
    using a b' by (auto simp: awaits_def s1_def dt_access)
  have same: "dt_peer s1 = dt_peer s" "dt_store s1 = dt_store s" "dt_send s1 = dt_send s" "dt_dom s1 = dt_dom s"
    "dt_undefined s1 = dt_undefined s" "pfstask (dt_task s1) = pfstask (dt_task s)"
    by (simp_all add: s1_def dt_access)
  have a': "dp_sock_stat (dt_peer s fd) = PREPARE_RECVFILE" "dp_recvtask (dt_peer s fd) = Some t"
     "dp_local_in_fd (dt_peer s fd) \<le> 0" "ctx_ok (dp_ctx (dt_peer s fd)) []" "ti_base (dt_info t s) = base"
     "storage_convert (dv_cf env) (dv_os env) base = Some (LOCALFILE_OK, conv)"
     "length tmp < 256" "parent_exists tmp (dt_store s)" "0 < os_open (dv_os env) tmp" "fs_files (dt_store s) tmp = None"
    using a tmp by (simp_all add: awaits_def Let_def)
  obtain conv1 where c1: "storage_convert (dv_cf env) (dv_os env) (ti_base (dt_info t s1)) = Some (LOCALFILE_OK, conv1)"
    "b_filename conv1 = b_filename conv" "b_filemd5 conv1 = b_filemd5 base'"
    using storage_convert_name [OF a'(6), of "ti_base (dt_info t s1)"] b1 by metis
  have tmp1: "tmp = tmp_name (dv_os env) conv1 (dt_store s1)" using tmp c1(2) same(2) by (simp add: tmp_name_def)
  obtain s2 where s2: "open_recv env fd t s1 = (True, s2)" "receiving fd t [] s2"
    "rx_view t s2 = (conv1\<lparr>b_tmpfile := tmp\<rparr>, ti_sub (dt_info t s1), pfstask (dt_task s1), dt_send s1, dt_dom s1,
       dt_undefined s1, fs_files (dt_store s1))" "ti_sub (dt_info t s2) = ti_sub (dt_info t s1)"
    by (rule open_recv_ok [OF _ _ _ b1(4) c1(1) tmp1]) (use a' same in auto)
  have "do_recv_task env fd h base' s = (RECV_ADD_EPOLLIN, s2)"
    using a' h s2(1) by (simp add: do_recv_task_def s1_def)
  then show ?thesis
    using s2 b1 same c1
    by (intro exI [of _ s2] exI [of _ "conv1\<lparr>b_tmpfile := tmp\<rparr>"] exI [of _ "ti_sub (dt_info t s1)"]) simp
qed

lemma dt_svc_recv_eq: "dt_svc_recv = (\<lambda>env fd. transfer_recv OPER_PUT_REQ (dt_do_req env fd) env fd)"
  by (simp add: dt_svc_recv_def fun_eq_iff)



definition example_wanted :: t_task_base where
  "example_wanted = zero_base\<lparr>b_filename := ''/data/7/42/b.jpg'', b_fsize := 1, b_filemd5 := rfc_md5 [0x63] @ [0], b_type := TASK_ADDFILE\<rparr>"

definition example_awaiting :: dt_state where
  "example_awaiting = (dt_fill 3 (\<lambda>_. zero_taskinfo\<lparr>ti_base := example_wanted, ti_sub := zero_sub\<lparr>u_processlen := 1, u_oper_type := OPER_GET_REQ\<rparr>\<rparr>) example_dt)
     \<lparr>dt_peer := (\<lambda>_. (new_peer example_dv 5 0)\<lparr>dp_sock_stat := PREPARE_RECVFILE, dp_recvtask := Some 3\<rparr>),
      dt_store := example_store\<lparr>fs_files := \<lambda>_. None\<rparr>\<rparr>"


subsection \<open>The tables of connections\<close>

lemma conns_push [simp]: "dt_conns (snd (do_push_task env fd h base s)) = dt_conns s"
  by (simp add: do_push_task_def Let_def case_prod_beta split: option.split)

lemma conns_send_task [simp]: "dt_conns (do_send_task env fd base s) = dt_conns s"
  by (simp add: do_send_task_def Let_def case_prod_beta split: option.split)

interpretation dt_service: file_service OPER_PUT_REQ dt_do_req
  by unfold_locales (simp add: dt_do_req_def)


lemma conns_dt_initconn:
  "dt_conns (snd (dt_svc_initconn env fd s)) =
     (if fd \<notin> dt_user s \<and> \<not> dv_conn_malloc env then dt_conns s else conns_add fd (dv_peerip env fd) (dt_conns s))"
  by (auto simp: dt_svc_initconn_def dt_conns_def conns_add_def new_peer_def Let_def fun_eq_iff)

lemma conns_dt_close:
  "dt_conns (dt_do_close env fd s) = (if fd \<in> dt_user s then conns_del fd (dt_conns s) else dt_conns s)"
proof -
  define s1 where "s1 = (close_local (dp_local_in_fd (dt_peer s fd)) s)
     \<lparr>dt_activelist := remove1 fd (dt_activelist s), dt_online := (\<lambda>i. remove1 fd (dt_online s i))\<rparr>"
  have 1: "dt_conns s1 = (dt_conns s)\<lparr>cn_active := remove1 fd (dt_activelist s), cn_online := (\<lambda>i. remove1 fd (dt_online s i))\<rparr>"
    by (simp add: s1_def dt_conns_def close_local_def)
  have "dt_conns (dt_svc_finiconn env fd s) = conns_del fd (dt_conns s)" if "dt_conns s3 = dt_conns s1"
    "dt_svc_finiconn env fd s = s3\<lparr>dt_peer := (dt_peer s3)(fd := zero_data_peer), dt_user := dt_user s3 - {fd}\<rparr>" for s3
    using that 1 by (auto simp: dt_conns_def conns_del_def zero_data_peer_def fun_eq_iff)
  moreover have "\<exists>s3. dt_conns s3 = dt_conns s1 \<and>
    dt_svc_finiconn env fd s = s3\<lparr>dt_peer := (dt_peer s3)(fd := zero_data_peer), dt_user := dt_user s3 - {fd}\<rparr>" if "fd \<in> dt_user s"
    unfolding dt_svc_finiconn_def Let_def s1_def [symmetric]
    by (rule exI, rule conjI [rotated], use that in simp) (simp split: option.split)
  ultimately show ?thesis by (auto simp: dt_do_close_def Let_def dt_svc_finiconn_def)
qed

lemma conns_scan: "conns_step\<^sup>*\<^sup>* (dt_conns s) (dt_conns (dt_scan_active env fds s))"
proof (induction fds arbitrary: s)
  case (Cons fd fds)
  have "conns_step\<^sup>*\<^sup>* (dt_conns s) (dt_conns (dt_do_close env fd s))" by (auto simp: conns_dt_close intro: conns_step.Del)
  then show ?case using Cons [of "dt_do_close env fd s"] by (auto intro: rtranclp_trans)
qed simp

text \<open>A descriptor given by \<^verbatim>\<open>createsocket\<close> is not in use.\<close>

definition dt_fresh_connect :: "dt_env \<Rightarrow> bool" where
  "dt_fresh_connect env \<longleftrightarrow> (\<forall>U ip. dv_connect env U ip < 0 \<or> dv_connect env U ip \<notin> U)"

lemma conns_dt_connect:
  assumes "dt_fresh_connect env"
  shows "conns_step\<^sup>*\<^sup>* (dt_conns s) (dt_conns (dt_active_connect env ip s))"
proof -
  let ?fd = "dv_connect env (dt_user s) ip"
  have "?fd < 0 \<or> ?fd \<notin> cn_user (dt_conns s)" using assms by (auto simp: dt_fresh_connect_def dt_conns_def)
  then show ?thesis
    using conns_dt_initconn [of env ?fd s]
    by (auto simp: dt_active_connect_def Let_def case_prod_beta intro: conns_step.Add)
qed

lemma conns_end_task [simp]: "dt_conns (end_task env t over s) = dt_conns s" "dt_conns (put_back env t s) = dt_conns s"
  by (simp_all add: end_task_def put_back_def)

lemma conns_request [simp]: "dt_conns (request_file env t fd s) = dt_conns s"
  by (simp add: request_file_def dt_active_send_def Let_def)

lemma conns_connect_task:
  assumes "dt_fresh_connect env"
  shows "conns_step\<^sup>*\<^sup>* (dt_conns s) (dt_conns (connect_task env t peer s))"
  using conns_dt_connect [OF assms] by (simp add: connect_task_def Let_def split: option.split)

lemma conns_run_task:
  assumes "dt_fresh_connect env"
  shows "conns_step\<^sup>*\<^sup>* (dt_conns s) (dt_conns (run_task env t s))"
proof -
  have "conns_step\<^sup>*\<^sup>* (dt_conns s) (dt_conns (connect_task env t peer s'))" if "dt_conns s' = dt_conns s" for peer s'
    using conns_connect_task [OF assms, of s'] that by simp
  then show ?thesis by (simp add: run_task_def Let_def case_prod_beta split: option.split)
qed

lemma conns_drain [simp]: "dt_conns (dt_drain env from to n s) = dt_conns s"
proof (induction n arbitrary: s)
  case (Suc n)
  have "dt_conns s1 = dt_conns s" if "dt_get_task env from s = (r, t, s1)" for r t s1
    using conns_get [of env "from" s] that by simp
  then show ?case using Suc by (auto split: prod.split option.split)
qed simp

lemma conns_run_tasks:
  assumes "dt_fresh_connect env"
  shows "conns_step\<^sup>*\<^sup>* (dt_conns s) (dt_conns (run_tasks env n s))"
proof (induction n arbitrary: s)
  case (Suc n)
  have g: "dt_conns s1 = dt_conns s" if "dt_get_task env q s = (r, t, s1)" for q r t s s1
    using conns_get [of env q s] that by simp
  have "conns_step\<^sup>*\<^sup>* (dt_conns s) (dt_conns (run_tasks env n (run_task env t s)))" for t s
    using conns_run_task [OF assms, of s t] Suc [of "run_task env t s"] by auto
  then show ?case by (auto split: prod.split option.split dest!: g) metis+
qed simp

inductive dt_step :: "dt_state \<Rightarrow> dt_state \<Rightarrow> bool" where
  Accept: "fd \<notin> dt_user s \<Longrightarrow> dt_step s (snd (dt_svc_initconn env fd s))"
| Recv: "fd \<in> dt_user s \<Longrightarrow> dt_step s (fst (snd (dt_svc_recv env fd s buf)))"
| Sent: "fd \<in> dt_user s \<Longrightarrow> dt_step s (s\<lparr>dt_send_len := (dt_send_len s)(fd := n)\<rparr>)"
| Send: "fd \<in> dt_user s \<Longrightarrow> dt_step s (snd (dt_svc_send env fd s))"
| Close: "dt_step s (dt_do_close env fd s)"
| Timeout: "dt_fresh_connect env \<Longrightarrow> dt_step s (dt_svc_timeout env s)"

inductive_cases dt_stepE: "dt_step s s'"

lemma conns_dt_svc_send: "dt_conns (snd (dt_svc_send env fd s)) = dt_conns (dt_touch env fd s)"
proof -
  define s1 where "s1 = dt_touch env fd s"
  have "dt_conns (snd (dt_svc_send env fd s)) = dt_conns s1"
    by (cases "dp_sock_stat (dt_peer s1 fd) = SENDFILEING"; cases "dp_sendtask (dt_peer s1 fd)")
      (simp_all add: dt_svc_send_def s1_def [symmetric] Let_def)
  then show ?thesis by (simp add: s1_def)
qed

lemma dt_step_conns: "dt_step s s' \<Longrightarrow> conns_step\<^sup>*\<^sup>* (dt_conns s) (dt_conns s')"
proof (induction rule: dt_step.induct)
  case (Accept fd s env)
  then have "fd \<notin> cn_user (dt_conns s)" by (simp add: dt_conns_def)
  then show ?case by (auto simp: conns_dt_initconn intro: conns_step.Add)
next
  case (Recv fd s env buf)
  then show ?case unfolding dt_svc_recv_def by (rule dt_service.recv_conns)
next
  case (Send fd s env)
  then have "fd \<in> cn_user (dt_conns s)" by (simp add: dt_conns_def)
  moreover have "dt_conns (snd (dt_svc_send env fd s)) = conns_move fd (dt_conns s)"
    by (simp add: conns_dt_svc_send conns_dt_touch)
  ultimately show ?case by (auto intro: conns_step.Move)
next
  case (Close s env fd)
  show ?case by (auto simp: conns_dt_close intro: conns_step.Del)
next
  case (Timeout env s)
  have "conns_step\<^sup>*\<^sup>* (dt_conns s) (dt_conns (dt_check_task env s))" for s
    unfolding dt_check_task_def Let_def using conns_run_tasks [OF Timeout] by (metis conns_drain)
  then show ?case unfolding dt_svc_timeout_def by (rule rtranclp_trans [OF conns_scan])
qed simp

interpretation dt_peers: peer_registry dt_conns dt_step
  by unfold_locales (rule dt_step_conns)

definition dt_start :: "dt_state \<Rightarrow> bool" where
  "dt_start s \<longleftrightarrow> (\<exists>s0. s = dt_svc_init s0) \<and> dt_user s = {}"

text \<open>
  C29: through any sequence of accepts, own connects, received data, sends, closes and rounds of the
  clock the data plugin finds a connection to a peer of the asked kind and state exactly when one is
  open, and the list that the time-out works on holds every open connection once.
\<close>

theorem data_peers_found:
  assumes "dt_start s0" and "dt_step\<^sup>*\<^sup>* s0 s"
  shows "(dt_find_ip_stat ip mode status s \<noteq> None \<longleftrightarrow>
           (\<exists>fd \<in> dt_user s. let p = dt_peer s fd in dp_ip p = ip \<and> dp_mode p = mode \<and> dp_sock_stat p = status))
    \<and> distinct (dt_activelist s) \<and> set (dt_activelist s) = dt_user s"
proof -
  have "conns_empty (dt_conns s0)"
    using assms(1) by (auto simp: dt_start_def dt_svc_init_def conns_empty_def dt_conns_def)
  from dt_peers.reachable_ok [OF assms(2) this] show ?thesis
    by (auto simp: conns_ok_def dt_conns_def dt_find_ip_stat_def find_None_iff Let_def)
qed

theorem data_peers_found_witness:
  "let s = snd (dt_svc_initconn example_dv 5 example_dt); ip = dv_peerip example_dv 5
   in dt_find_ip_stat ip CON_PASSIVE CONNECTED s \<noteq> None \<and> dt_find_ip_stat ip CON_PASSIVE RECVFILEING s = None"
proof -
  let ?s = "snd (dt_svc_initconn example_dv 5 example_dt)"
  have "dt_start example_dt"
    by (auto simp: dt_start_def dt_svc_init_def example_dt_def intro!: exI [of _ example_dt])
  moreover have "dt_step\<^sup>*\<^sup>* example_dt ?s"
    by (rule r_into_rtranclp, rule dt_step.Accept) (simp add: example_dt_def)
  ultimately have "(dt_find_ip_stat ip mode status ?s \<noteq> None \<longleftrightarrow>
           (\<exists>fd \<in> dt_user ?s. let p = dt_peer ?s fd in dp_ip p = ip \<and> dp_mode p = mode \<and> dp_sock_stat p = status))" for ip mode status
    using data_peers_found [of example_dt ?s] by blast
  note this [of _ CON_PASSIVE CONNECTED] this [of _ CON_PASSIVE RECVFILEING]
  then show ?thesis
    by (simp add: dt_svc_initconn_def new_peer_def example_dt_def example_dv_def zero_data_peer_def Let_def)
qed

end
