(* ===== verification/Pfs_Upload.thy ===== *)
theory Pfs_Upload
  imports Pfs_Transfer
begin

section \<open>The upload plugin of a storage server (network/U)\<close>

text \<open>
  Clients send their files to this plugin: a message with the file's description, then its
  contents.  The stored file is announced to the other servers of the domain by the signalling
  plugin, which finds the finished task in a queue.  Connections are not looked up by address
  here, so there are no hash lists; otherwise the state is that of \<open>Pfs_Transfer\<close>.
\<close>

abbreviation ADD_PATH_BY_UPLOAD :: uint8 where "ADD_PATH_BY_UPLOAD \<equiv> 1"
abbreviation ADD_PATH_BY_BNAME :: uint8 where "ADD_PATH_BY_BNAME \<equiv> 2"
abbreviation ADD_QUERY_DIR :: uint8 where "ADD_QUERY_DIR \<equiv> 5"

subsection \<open>Connections (pfs_up.c)\<close>

definition up_svc_initconn :: "dt_env \<Rightarrow> int \<Rightarrow> dt_state \<Rightarrow> int \<times> dt_state" where
  "up_svc_initconn env fd s =
     (if fd \<notin> dt_user s \<and> \<not> dv_conn_malloc env then (303, s)
      else
        (0, s\<lparr>dt_peer := (dt_peer s)(fd := new_peer env fd (dv_peerip env fd)), dt_user := insert fd (dt_user s),
              dt_activelist := remove1 fd (dt_activelist s) @ [fd]\<rparr>))"

definition up_svc_finiconn :: "dt_env \<Rightarrow> int \<Rightarrow> dt_state \<Rightarrow> dt_state" where
  "up_svc_finiconn env fd s =
     (if fd \<notin> dt_user s then s
      else
        let p = dt_peer s fd;
            s1 = (close_local (dp_local_in_fd p) s)\<lparr>dt_activelist := remove1 fd (dt_activelist s)\<rparr>;
            s2 = (case dp_sendtask p of None \<Rightarrow> s1
                  | Some t \<Rightarrow> dt_set_task env t TASK_Q_FIN (dt_base t (\<lambda>b. b\<lparr>b_overstatus := OVER_SEND_LEN\<rparr>) s1));
            s3 = (case dp_recvtask p of None \<Rightarrow> s2
                  | Some t \<Rightarrow> dt_set_task env t TASK_Q_FIN
                      ((dt_base t (\<lambda>b. b\<lparr>b_overstatus := OVER_UP_ERR\<rparr>) s2)
                        \<lparr>dt_store := real_rm_file (dv_os env) (b_tmpfile (ti_base (dt_info t s2))) (dt_store s2)\<rparr>))
        in s3\<lparr>dt_peer := (dt_peer s3)(fd := zero_data_peer), dt_user := dt_user s3 - {fd}\<rparr>)"

definition up_do_close :: "dt_env \<Rightarrow> int \<Rightarrow> dt_state \<Rightarrow> dt_state" where
  "up_do_close env fd s = (let s1 = up_svc_finiconn env fd s in s1\<lparr>dt_closed := dt_closed s1 @ [fd]\<rparr>)"

subsection \<open>Requests (pfs_up_task.c, pfs_up_sub.c)\<close>

text \<open>The functions whose text is that of the data plugin.\<close>

definition up_create_push_rsp :: "t_task_base \<Rightarrow> int \<Rightarrow> dt_state \<Rightarrow> dt_state" where
  "up_create_push_rsp = create_push_rsp"

definition up_create_push_rsp_err :: "string \<Rightarrow> int \<Rightarrow> dt_state \<Rightarrow> dt_state" where
  "up_create_push_rsp_err = create_push_rsp_err"

definition up_do_recv_task :: "dt_env \<Rightarrow> int \<Rightarrow> t_pfs_sig_head \<Rightarrow> t_task_base \<Rightarrow> dt_state \<Rightarrow> int \<times> dt_state" where
  "up_do_recv_task = do_recv_task"

definition up_get_local_filename :: "dt_env \<Rightarrow> t_task_base \<Rightarrow> dt_state \<Rightarrow> t_task_base \<times> dt_state" where
  "up_get_local_filename = get_local_filename"

text \<open>
  \<^verbatim>\<open>basename\<close> as \<^verbatim>\<open>libgen.h\<close> declares it: slashes at the end are dropped; an empty name gives a dot.
\<close>

definition libgen_basename :: "string \<Rightarrow> string" where
  "libgen_basename p =
     (if p = [] then ''.''
      else
        let q = rev (dropWhile (\<lambda>c. c = CHR ''/'') (rev p)) in
        if q = [] then ''/''
        else case strrchr (CHR ''/'') q of None \<Rightarrow> q | Some (_, b) \<Rightarrow> b)"

definition get_local_bname :: "dt_env \<Rightarrow> t_task_base \<Rightarrow> dt_state \<Rightarrow> t_task_base \<times> dt_state" where
  "get_local_bname env base s =
     (case get_max_free_storage (nat (cf_DIR1 (dv_cf env))) (0, 0) (dt_disk s) of ((d1, d2), disk) \<Rightarrow>
        let tmpname = snprintf_s 128 (libgen_basename (b_filename base)) in
        (base\<lparr>b_filename := snprintf_s 256 (''/'' @ dec d1 @ ''/'' @ dec d2 @ ''/'' @ tmpname)\<rparr>, s\<lparr>dt_disk := disk\<rparr>))"

text \<open>The answer to a client that asks which directories to use.\<close>

definition do_query_other :: "dt_env \<Rightarrow> int \<Rightarrow> dt_state \<Rightarrow> dt_state" where
  "do_query_other env fd s =
     (case get_max_free_storage (nat (cf_DIR1 (dv_cf env))) (0, 0) (dt_disk s) of ((d1, d2), disk) \<Rightarrow>
        up_create_push_rsp (zero_base\<lparr>b_retfile := snprintf_s 256 (''/'' @ dec d1 @ ''/'' @ dec d2 @ ''/'')\<rparr>) fd
          (s\<lparr>dt_disk := disk\<rparr>))"

definition up_do_push_task :: "dt_env \<Rightarrow> int \<Rightarrow> t_pfs_sig_head \<Rightarrow> t_task_base \<Rightarrow> dt_state \<Rightarrow> int \<times> dt_state" where
  "up_do_push_task env fd h base0 s0 =
     (if b_type base0 = TASK_DELFILE \<and> h_status h = ADD_QUERY_DIR then (RECV_ADD_EPOLLOUT, do_query_other env fd s0)
      else
        let s = upd_dp fd (\<lambda>p. p\<lparr>dp_sock_stat := PREPARE_RECVFILE\<rparr>) s0 in
        case dt_get_task env TASK_Q_HOME s of
          (_, None, s1) \<Rightarrow> (RECV_ADD_EPOLLOUT, up_create_push_rsp_err ''malloc error!'' fd s1)
        | (_, Some t, s1) \<Rightarrow>
            let (base, s2) = (if b_type base0 = TASK_DELFILE then (base0, s1)
                              else if h_status h = 0 then up_get_local_filename env base0 s1
                              else if h_status h = ADD_PATH_BY_BNAME then get_local_bname env base0 s1
                              else (base0, s1));
                sub = zero_sub\<lparr>u_peerip := ip2str (dp_ip (dt_peer s fd)), u_processlen := b_fsize base,
                        u_starttime := dv_now env, u_oper_type := OPER_UP_REQ, u_need_sync := TASK_SOURCE\<rparr>;
                del = (b_type base = TASK_DELFILE);
                base1 = base\<lparr>b_starttime := dv_now env, b_dstip := dp_ip (dt_peer s fd),
                             b_mtime := if del then dv_now env else b_mtime base\<rparr>;
                s3 = dt_fill t (\<lambda>_. zero_taskinfo\<lparr>ti_base := base1, ti_sub := sub\<rparr>) s2
            in if del then
                 (case delete_localfile (dv_cf env) (dv_os env) (base\<lparr>b_mtime := dv_now env\<rparr>) (dt_store s3) of
                    None \<Rightarrow> (RECV_SEND, s3\<lparr>dt_undefined := True\<rparr>)
                  | Some (_, _, st) \<Rightarrow>
                      let s4 = dt_base t (\<lambda>b. b\<lparr>b_overstatus := OVER_OK\<rparr>) (s3\<lparr>dt_store := st\<rparr>) in
                      (RECV_SEND, up_create_push_rsp (ti_base (dt_info t s4)) fd
                         (upd_dp fd (\<lambda>p. p\<lparr>dp_recvtask := None\<rparr>) (dt_set_task env t TASK_Q_FIN s4))))
               else case open_recv env fd t (upd_dp fd (\<lambda>p. p\<lparr>dp_recvtask := Some t\<rparr>) s3) of (ok, s4) \<Rightarrow>
                 if ok then (RECV_ADD_EPOLLIN, s4)
                 else (RECV_ADD_EPOLLOUT, up_create_push_rsp_err ''open remote file err'' fd s4))"

definition up_do_req :: "dt_env \<Rightarrow> int \<Rightarrow> dt_state handler" where
  "up_do_req env fd s h b =
     (if h_cmdid h = CMD_GET_FILE_RSP then
        if unat (h_bodylen h) \<noteq> SIZEOF_BASE then (RECV_CLOSE, s) else up_do_recv_task env fd h (dec_base b) s
      else if h_cmdid h = CMD_PUT_FILE_REQ then
        if unat (h_bodylen h) \<noteq> SIZEOF_BASE then (RECV_CLOSE, s) else up_do_push_task env fd h (dec_base b) s
      else (RECV_CLOSE, s))"

definition up_check_req :: "dt_env \<Rightarrow> int \<Rightarrow> dt_state \<Rightarrow> bytes \<Rightarrow> int \<times> dt_state \<times> bytes" where
  "up_check_req env fd s buf = check_req_with (up_do_req env fd) s buf"

definition up_svc_recv :: "dt_env \<Rightarrow> int \<Rightarrow> dt_state \<Rightarrow> bytes \<Rightarrow> int \<times> dt_state \<times> bytes" where
  "up_svc_recv env = (\<lambda>fd. transfer_recv OPER_UP_REQ (up_do_req env fd) env fd)"

subsection \<open>Sending and the clock (pfs_up.c)\<close>

definition up_svc_send_once :: "dt_env \<Rightarrow> int \<Rightarrow> dt_state \<Rightarrow> int \<times> dt_state" where
  "up_svc_send_once env fd s = (SEND_ADD_EPOLLIN, upd_dp fd (\<lambda>p. p\<lparr>dp_hbtime := word_of_int (dv_now env)\<rparr>) s)"

definition up_svc_send :: "int \<Rightarrow> dt_state \<Rightarrow> int \<times> dt_state" where
  "up_svc_send fd s = (SEND_ADD_EPOLLIN, s)"

fun up_scan_active :: "dt_env \<Rightarrow> int list \<Rightarrow> dt_state \<Rightarrow> dt_state" where
  "up_scan_active env [] s = s"
| "up_scan_active env (fd # fds) s =
     (if dv_now env - uint (dp_hbtime (dt_peer s fd)) < uint (dv_timeout env) * 10 then s
      else up_scan_active env fds (up_do_close env fd s))"

definition up_svc_timeout :: "dt_env \<Rightarrow> dt_state \<Rightarrow> dt_state" where
  "up_svc_timeout env s = up_scan_active env (dt_activelist s) s"

definition up_svc_init :: "dt_state \<Rightarrow> dt_state" where
  "up_svc_init s = s\<lparr>dt_activelist := []\<rparr>"

subsection \<open>Uploading a file\<close>

text \<open>
  The request of a client that gives the file's name is answered by opening the file.  \<open>s\<close> is a state in
  which the connection is fresh, \<open>s1\<close> one in which data may have arrived that was no whole message.
\<close>

lemma up_push_opens:
  assumes s1: "touched fd s s1" and p: "dt_peer s fd = new_peer e fd ip"
    and base: "b_type base = TASK_ADDFILE" and st: "h_status h \<noteq> 0" "h_status h \<noteq> ADD_PATH_BY_BNAME"
    and q: "pfstask (dt_task s) TASK_Q_HOME = t # ts" "dv_lock env TASK_Q_HOME = 0" "tasks_ok H (dt_task s)"
    and c: "storage_convert (dv_cf env) (dv_os env) base = Some (LOCALFILE_OK, conv)"
    and o: "tmp = tmp_name (dv_os env) conv (dt_store s)" "length tmp < 256" "parent_exists tmp (dt_store s)"
      "0 < os_open (dv_os env) tmp" "fs_files (dt_store s) tmp = None"
  shows "\<exists>s2 sub ks. up_do_push_task env fd h base s1 = (RECV_ADD_EPOLLIN, s2) \<and> receiving fd t [] s2
    \<and> u_processlen (ti_sub (dt_info t s2)) = b_fsize base
    \<and> rx_view t s2 = (conv\<lparr>b_starttime := dv_now env, b_dstip := ip, b_tmpfile := tmp\<rparr>, sub, ks, dt_send s, dt_dom s,
         dt_undefined s, fs_files (dt_store s))
    \<and> u_oper_type sub = OPER_UP_REQ \<and> u_need_sync sub = TASK_SOURCE
    \<and> ks TASK_Q_FIN = pfstask (dt_task s) TASK_Q_FIN \<and> t \<notin> set (ks TASK_Q_FIN)"
proof -
  let ?s = "upd_dp fd (\<lambda>p. p\<lparr>dp_sock_stat := PREPARE_RECVFILE\<rparr>) s1"
  have same: "dt_task ?s = dt_task s" "dt_store ?s = dt_store s" "dt_send ?s = dt_send s" "dt_dom ?s = dt_dom s"
    "dt_undefined ?s = dt_undefined s" "dp_local_in_fd (dt_peer ?s fd) = 0" "dp_ip (dt_peer ?s fd) = ip"
    "dp_ctx (dt_peer ?s fd) = MD5Init blank_ctx"
    using s1 p by (auto simp: touched_def upd_dp_def new_peer_def zero_data_peer_def)
  obtain s2 where s2: "dt_get_task env TASK_Q_HOME ?s = (GET_TASK_Q_OK, Some t, s2)" "s2 = ?s\<lparr>dt_task := dt_task s2\<rparr>"
    "t \<notin> set (pfstask (dt_task s2) TASK_Q_FIN)" "pfstask (dt_task s2) TASK_Q_FIN = pfstask (dt_task ?s) TASK_Q_FIN"
    using get_home [of ?s t ts env H] q same(1) by metis
  define sub where "sub = zero_sub\<lparr>u_peerip := ip2str ip, u_processlen := b_fsize base,
     u_starttime := dv_now env, u_oper_type := OPER_UP_REQ, u_need_sync := TASK_SOURCE\<rparr>"
  let ?b = "base\<lparr>b_starttime := dv_now env, b_dstip := ip, b_mtime := b_mtime base\<rparr>"
  define s3 where "s3 = upd_dp fd (\<lambda>p. p\<lparr>dp_recvtask := Some t\<rparr>) (dt_fill t (\<lambda>_. zero_taskinfo\<lparr>ti_base := ?b, ti_sub := sub\<rparr>) s2)"
  have e: "up_do_push_task env fd h base s1 = (case open_recv env fd t s3 of (ok, s4) \<Rightarrow>
      if ok then (RECV_ADD_EPOLLIN, s4) else (RECV_ADD_EPOLLOUT, up_create_push_rsp_err ''open remote file err'' fd s4))"
    using base st s2(1) same(7) by (simp add: up_do_push_task_def Let_def s3_def sub_def)
  have s3: "dt_store s3 = dt_store s" "dt_send s3 = dt_send s" "dt_dom s3 = dt_dom s" "dt_undefined s3 = dt_undefined s"
    "pfstask (dt_task s3) = pfstask (dt_task s2)"
    by (simp_all add: s3_def dt_fill_def upd_dp_def upd_task_def) (subst s2(2), use same in \<open>simp add: upd_dp_def\<close>)+
  have p3: "dp_local_in_fd (dt_peer s3 fd) = 0" "dp_ctx (dt_peer s3 fd) = MD5Init blank_ctx" "dp_recvtask (dt_peer s3 fd) = Some t"
    using same(6,8) by (simp_all add: s3_def dt_fill_def upd_dp_def) (subst s2(2), simp add: upd_dp_def)+
  have i3: "dt_info t s3 = zero_taskinfo\<lparr>ti_base := ?b, ti_sub := sub\<rparr>" by (simp add: s3_def dt_access)
  let ?conv = "conv\<lparr>b_starttime := dv_now env, b_dstip := ip, b_mtime := b_mtime conv\<rparr>"
  have "b_mtime conv = b_mtime base" using c by (auto simp: storage_convert_def Let_def split: option.splits if_splits)
  then have c3: "storage_convert (dv_cf env) (dv_os env) (ti_base (dt_info t s3)) = Some (LOCALFILE_OK, ?conv)"
    using storage_convert_fields [where base = base and x = "dv_now env" and y = ip and z = "b_mtime base"] c i3 by simp
  have o3: "tmp = tmp_name (dv_os env) ?conv (dt_store s3)" by (simp add: o(1) s3(1) tmp_name_def)
  obtain s4 where "open_recv env fd t s3 = (True, s4)" "receiving fd t [] s4"
    "rx_view t s4 = (?conv\<lparr>b_tmpfile := tmp\<rparr>, ti_sub (dt_info t s3), pfstask (dt_task s3), dt_send s3, dt_dom s3,
       dt_undefined s3, fs_files (dt_store s3))" "ti_sub (dt_info t s4) = ti_sub (dt_info t s3)"
  proof (rule open_recv_ok [OF _ _ p3(3) _ c3 o3])
    show "ctx_ok (dp_ctx (dt_peer s3 fd)) []" unfolding p3 by (rule ctx_ok_init) (simp add: blank_ctx_def)
    show "u_lastlen (ti_sub (dt_info t s3)) = 0" by (simp add: i3 sub_def zero_sub_def)
  qed (use o s3(1) p3(1) in auto)
  then show ?thesis using e s2(3,4) same(1) s3 i3
    by (intro exI [of _ s4] exI [of _ sub] exI [of _ "pfstask (dt_task s2)"]) (simp add: sub_def zero_sub_def)
qed


lemma up_svc_recv_eq: "up_svc_recv = (\<lambda>env fd. transfer_recv OPER_UP_REQ (up_do_req env fd) env fd)"
  by (simp add: up_svc_recv_def fun_eq_iff)

text \<open>What the opening of the file and the arrival of its contents come to.\<close>

lemma upload_arrives:
  assumes s: "s = snd (up_svc_initconn env0 fd s0)" "fd \<notin> dt_user s0" "dv_conn_malloc env0"
    and base: "base_ok base" "b_type base = TASK_ADDFILE" "b_fsize base = int (length c)"
    and c: "c \<noteq> []" "length c < 2 ^ 31"
    and ps: "concat (map snd ps) = create_sig_msg CMD_PUT_FILE_REQ ADD_PATH_BY_UPLOAD (enc_base base) (of_nat SIZEOF_BASE) @ c"
      "[] \<notin> snd ` set ps"
    and env: "writes_all env" "dv_lock env = (\<lambda>_. 0)"
    and q: "pfstask (dt_task s0) TASK_Q_HOME = t # ts" "tasks_ok H (dt_task s0)"
    and cv: "storage_convert (dv_cf env) (dv_os env) base = Some (LOCALFILE_OK, conv)"
    and o: "tmp = tmp_name (dv_os env) conv (dt_store s0)" "length tmp < 256" "parent_exists tmp (dt_store s0)"
      "0 < os_open (dv_os env) tmp" "fs_files (dt_store s0) tmp = None"
  obtains s' e sub ks now where "e \<in> fst ` set (at_times env ps)" and "receiving fd t c s'"
    and "rx_view t s' = (conv\<lparr>b_starttime := now, b_dstip := dv_peerip env0 fd, b_tmpfile := tmp\<rparr>, sub, ks, dt_send s0, dt_dom s0,
         dt_undefined s0, fs_files (dt_store s0))"
    and "u_oper_type sub = OPER_UP_REQ" "u_need_sync sub = TASK_SOURCE"
    and "ks TASK_Q_FIN = pfstask (dt_task s0) TASK_Q_FIN" "t \<notin> set (ks TASK_Q_FIN)"
    and "feed up_svc_recv fd (at_times env ps) s [] = (finish_recv OPER_UP_REQ e fd t s', [])"
proof -
  let ?ip = "dv_peerip env0 fd" and ?n = "of_nat SIZEOF_BASE :: uint16"
  have se: "s = s0\<lparr>dt_peer := (dt_peer s0)(fd := new_peer env0 fd ?ip), dt_user := insert fd (dt_user s0),
      dt_activelist := remove1 fd (dt_activelist s0) @ [fd]\<rparr>"
    using s by (simp add: up_svc_initconn_def)
  have len: "length (enc_base base) = SIZEOF_BASE" using base(1) enc_base_length by (auto simp: base_ok_def)
  define V where "V = (\<lambda>e :: dt_env. {(conv\<lparr>b_starttime := now, b_dstip := ?ip, b_tmpfile := tmp\<rparr>, sub, ks, dt_send s0, dt_dom s0,
         dt_undefined s0, fs_files (dt_store s0)) | now (sub :: t_task_sub) ks. u_oper_type sub = OPER_UP_REQ \<and> u_need_sync sub = TASK_SOURCE
         \<and> ks TASK_Q_FIN = pfstask (dt_task s0) TASK_Q_FIN \<and> t \<notin> set (ks TASK_Q_FIN)})"
  have "\<exists>s' e e'. e \<in> fst ` set (at_times env ps) \<and> e' \<in> fst ` set (at_times env ps) \<and> receiving fd t c s' \<and> rx_view t s' \<in> V e' \<and>
    feed (\<lambda>env fd. transfer_recv OPER_UP_REQ (up_do_req env fd) env fd) fd (at_times env ps) s [] = (finish_recv OPER_UP_REQ e fd t s', [])"
  proof (rule transfer_whole [where s = s])
    show "[] @ concat (map snd (at_times env ps)) = create_sig_msg CMD_PUT_FILE_REQ ADD_PATH_BY_UPLOAD (enc_base base) ?n @ c"
      using ps(1) by simp
    show "unat ?n \<le> length (enc_base base)" using len by simp
    show "touched fd s s" by (rule touched_refl)
    show "dp_sock_stat (dt_peer s fd) \<noteq> RECVFILEING" by (simp add: se new_peer_def)
    show "d \<noteq> [] \<and> writes_all e" if "(e, d) \<in> set (at_times env ps)" for e d
      using that ps(2) env(1) by (force simp: writes_all_def)
    show "\<exists>s2. up_do_req e fd s1 \<lparr>h_bodylen = ?n, h_cmdid = CMD_PUT_FILE_REQ, h_status = ADD_PATH_BY_UPLOAD\<rparr> (take (unat ?n) (enc_base base))
        = (RECV_ADD_EPOLLIN, s2) \<and> receiving fd t [] s2 \<and> u_processlen (ti_sub (dt_info t s2)) = int (length c) \<and> rx_view t s2 \<in> V e"
      if a: "touched fd s s1" "e \<in> fst ` set (at_times env ps)" for s1 e
    proof -
      let ?h = "\<lparr>h_bodylen = ?n, h_cmdid = CMD_PUT_FILE_REQ, h_status = ADD_PATH_BY_UPLOAD\<rparr>"
      obtain now where e: "e = env\<lparr>dv_now := now\<rparr>" using a(2) by auto
      have "up_do_req e fd s1 ?h (take (unat ?n) (enc_base base)) = up_do_push_task e fd ?h base s1"
        using len dec_enc_base [OF base(1)] by (simp add: up_do_req_def)
      moreover have "\<exists>s2 sub ks. up_do_push_task e fd ?h base s1 = (RECV_ADD_EPOLLIN, s2) \<and> receiving fd t [] s2
        \<and> u_processlen (ti_sub (dt_info t s2)) = b_fsize base
        \<and> rx_view t s2 = (conv\<lparr>b_starttime := dv_now e, b_dstip := ?ip, b_tmpfile := tmp\<rparr>, sub, ks, dt_send s, dt_dom s,
             dt_undefined s, fs_files (dt_store s))
        \<and> u_oper_type sub = OPER_UP_REQ \<and> u_need_sync sub = TASK_SOURCE
        \<and> ks TASK_Q_FIN = pfstask (dt_task s) TASK_Q_FIN \<and> t \<notin> set (ks TASK_Q_FIN)"
        by (rule up_push_opens [OF a(1), of env0 ?ip]) (use base(2) q env(2) cv o e in \<open>simp_all add: se\<close>)
      ultimately show ?thesis using base(3) by (force simp: V_def se)
    qed
  qed (use c len in simp_all)
  then obtain s' e e' where "e \<in> fst ` set (at_times env ps)" "receiving fd t c s'" "rx_view t s' \<in> V e'"
    "feed up_svc_recv fd (at_times env ps) s [] = (finish_recv OPER_UP_REQ e fd t s', [])"
    unfolding up_svc_recv_eq by blast
  then show ?thesis using that unfolding V_def by blast
qed


text \<open>
  A client may upload the contents \<open>c\<close> described by \<open>base\<close> on a new connection \<open>fd\<close>: memory and a task
  are available, the file's directory exists, its temporary name is not in use and can be opened,
  and \<^verbatim>\<open>write\<close> takes what it is given.
\<close>

definition can_upload :: "dt_env \<Rightarrow> dt_env \<Rightarrow> int \<Rightarrow> dt_state \<Rightarrow> t_task_base \<Rightarrow> bytes \<Rightarrow> t_task_base \<Rightarrow> nat \<Rightarrow> bool" where
  "can_upload env0 env fd s0 base c conv t \<longleftrightarrow>
     fd \<notin> dt_user s0 \<and> dv_conn_malloc env0 \<and>
     base_ok base \<and> b_type base = TASK_ADDFILE \<and> b_fsize base = int (length c) \<and> c \<noteq> [] \<and> length c < 2 ^ 31 \<and>
     writes_all env \<and> dv_lock env = (\<lambda>_. 0) \<and>
     (\<exists>ts. pfstask (dt_task s0) TASK_Q_HOME = t # ts) \<and> (\<exists>H. tasks_ok H (dt_task s0)) \<and>
     storage_convert (dv_cf env) (dv_os env) base = Some (LOCALFILE_OK, conv) \<and>
     (let tmp = tmp_name (dv_os env) conv (dt_store s0) in
      length tmp < 256 \<and> parent_exists tmp (dt_store s0) \<and> 0 < os_open (dv_os env) tmp \<and> fs_files (dt_store s0) tmp = None)"

definition upload_stream :: "t_task_base \<Rightarrow> bytes \<Rightarrow> bytes" where
  "upload_stream base c = create_sig_msg CMD_PUT_FILE_REQ ADD_PATH_BY_UPLOAD (enc_base base) (of_nat SIZEOF_BASE) @ c"

lemma upload_finishes:
  assumes u: "can_upload env0 env fd s0 base c conv t"
    and ps: "concat (map snd ps) = upload_stream base c" "[] \<notin> snd ` set ps"
    and f: "feed up_svc_recv fd (at_times env ps) (snd (up_svc_initconn env0 fd s0)) [] = (s', buf)"
    and tmp: "tmp = tmp_name (dv_os env) conv (dt_store s0)"
  obtains r e b where "receiving fd t c r" "s' = finish_recv OPER_UP_REQ e fd t r" "buf = []"
    and "dv_os e = dv_os env" "dv_lock e = dv_lock env" "dv_stack e = dv_stack env" "dv_errmsg e = dv_errmsg env"
    and "b = ti_base (dt_info t r)" "b_filename b = b_filename conv" "b_tmpfile b = tmp" "b_filemd5 b = b_filemd5 base" "b_retfile b = b_retfile conv"
    and "u_oper_type (ti_sub (dt_info t r)) = OPER_UP_REQ" "u_need_sync (ti_sub (dt_info t r)) = TASK_SOURCE"
    and "pfstask (dt_task r) TASK_Q_FIN = pfstask (dt_task s0) TASK_Q_FIN" "t \<notin> set (pfstask (dt_task r) TASK_Q_FIN)"
    and "dt_send r = dt_send s0" "dt_dom r = dt_dom s0" "dt_undefined r = dt_undefined s0"
    and "fs_files (dt_store r) = (fs_files (dt_store s0))(tmp := Some c)" "tmp \<noteq> b_filename conv"
proof -
  have 1: "fd \<notin> dt_user s0" "dv_conn_malloc env0" "base_ok base" "b_type base = TASK_ADDFILE" "b_fsize base = int (length c)"
    "c \<noteq> []" "length c < 2 ^ 31" "writes_all env" "dv_lock env = (\<lambda>_. 0)"
    "storage_convert (dv_cf env) (dv_os env) base = Some (LOCALFILE_OK, conv)"
    "length tmp < 256" "parent_exists tmp (dt_store s0)" "0 < os_open (dv_os env) tmp" "fs_files (dt_store s0) tmp = None"
    using u tmp by (simp_all add: can_upload_def Let_def)
  obtain ts H where 2: "pfstask (dt_task s0) TASK_Q_HOME = t # ts" "tasks_ok H (dt_task s0)"
    using u by (auto simp: can_upload_def)
  obtain r e sub ks now where r: "e \<in> fst ` set (at_times env ps)" "receiving fd t c r"
    "rx_view t r = (conv\<lparr>b_starttime := now, b_dstip := dv_peerip env0 fd, b_tmpfile := tmp\<rparr>, sub, ks, dt_send s0, dt_dom s0,
         dt_undefined s0, fs_files (dt_store s0))"
    "u_oper_type sub = OPER_UP_REQ" "u_need_sync sub = TASK_SOURCE"
    "ks TASK_Q_FIN = pfstask (dt_task s0) TASK_Q_FIN" "t \<notin> set (ks TASK_Q_FIN)"
    "feed up_svc_recv fd (at_times env ps) (snd (up_svc_initconn env0 fd s0)) [] = (finish_recv OPER_UP_REQ e fd t r, [])"
    using upload_arrives [OF refl 1(1-7) ps(1) [unfolded upload_stream_def] ps(2) 1(8,9) 2 1(10) tmp 1(11-14)] by metis
  have v: "ti_base (dt_info t r) = conv\<lparr>b_starttime := now, b_dstip := dv_peerip env0 fd, b_tmpfile := tmp\<rparr>"
    "u_oper_type (ti_sub (dt_info t r)) = OPER_UP_REQ" "u_need_sync (ti_sub (dt_info t r)) = TASK_SOURCE"
    "pfstask (dt_task r) = ks" "dt_send r = dt_send s0" "dt_dom r = dt_dom s0" "dt_undefined r = dt_undefined s0"
    "(fs_files (dt_store r))(tmp := None) = fs_files (dt_store s0)"
    using r(3,4,5) by (auto simp: rx_view_def)
  have "fs_files (dt_store r) tmp = Some c" using r(2) v(1) by (simp add: receiving_def)
  then have "fs_files (dt_store r) = (fs_files (dt_store s0))(tmp := Some c)" unfolding v(8) [symmetric] by (simp add: fun_upd_idem)
  moreover have "b_filemd5 conv = b_filemd5 base" using 1(10) by (auto simp: storage_convert_def Let_def split: option.splits if_splits)
  moreover have "tmp \<noteq> b_filename conv" using tmp tmp_name_differs by simp
  moreover have "dv_os e = dv_os env" "dv_lock e = dv_lock env" "dv_stack e = dv_stack env" "dv_errmsg e = dv_errmsg env" using r(1) by auto
  ultimately show ?thesis using that [of r e "ti_base (dt_info t r)"] r v f by simp
qed

lemma upload_completes:
  assumes u: "can_upload env0 env fd s0 base c conv t"
    and "concat (map snd ps) = upload_stream base c" and "[] \<notin> snd ` set ps"
    and "feed up_svc_recv fd (at_times env ps) (snd (up_svc_initconn env0 fd s0)) [] = (s', buf)"
    and "b_filemd5 base = rfc_md5 c @ [0]" and "os_rename (dv_os env)"
  shows "buf = [] \<and> fs_files (dt_store s') = (fs_files (dt_store s0))(b_filename conv := Some c, tmp_name (dv_os env) conv (dt_store s0) := None)
    \<and> pfstask (dt_task s') TASK_Q_FIN = pfstask (dt_task s0) TASK_Q_FIN @ [t]
    \<and> b_filename (ti_base (dt_info t s')) = b_filename conv \<and> b_overstatus (ti_base (dt_info t s')) = OVER_OK
    \<and> u_need_sync (ti_sub (dt_info t s')) = TASK_SOURCE
    \<and> dt_send s' fd = dt_send s0 fd @ push_ok conv (dt_dom s0) \<and> dt_undefined s' = dt_undefined s0"
  using upload_finishes [OF assms(1-4) refl]
proof cases
  case (1 r e b)
  have "b_filemd5 b = rfc_md5 c @ [0]" "os_rename (dv_os e)" "b_tmpfile b \<noteq> b_filename b" "dv_lock e TASK_Q_FIN = 0"
    using 1 assms(5,6) u by (simp_all add: can_upload_def)
  from finish_ok [OF 1(1,8) this(1-3) 1(16) this(4) 1(2)] show ?thesis
    using 1 by (simp add: push_ok_def fun_upd_twist)
qed

text \<open>
  C2: a client's file is stored exactly as sent.  However the network cuts the request and the
  contents into pieces, when the last piece has arrived the file stands under its name with the
  contents the client sent, the temporary file is gone and no other file has changed; the client
  is answered with \<^verbatim>\<open>OK\<close>, the file's name and the domain; and the task is in the queue of finished
  tasks, marked as one whose file the other servers of the domain are to be told about.
\<close>

theorem upload_stored:
  assumes u: "can_upload env0 env fd s0 base c conv t"
    and "concat (map snd ps) = upload_stream base c" and "[] \<notin> snd ` set ps"
    and "feed up_svc_recv fd (at_times env ps) (snd (up_svc_initconn env0 fd s0)) [] = (s', buf)"
    and "b_filemd5 base = rfc_md5 c @ [0]" and "os_rename (dv_os env)"
  shows "buf = [] \<and> fs_files (dt_store s') = (fs_files (dt_store s0))(b_filename conv := Some c, tmp_name (dv_os env) conv (dt_store s0) := None)
    \<and> pfstask (dt_task s') TASK_Q_FIN = pfstask (dt_task s0) TASK_Q_FIN @ [t]
    \<and> b_filename (ti_base (dt_info t s')) = b_filename conv \<and> b_overstatus (ti_base (dt_info t s')) = OVER_OK
    \<and> u_need_sync (ti_sub (dt_info t s')) = TASK_SOURCE
    \<and> dt_send s' fd = dt_send s0 fd @ push_ok conv (dt_dom s0) \<and> dt_undefined s' = dt_undefined s0"
  using upload_completes [OF assms] .

definition example_upload :: "bytes \<Rightarrow> t_task_base" where
  "example_upload digest = zero_base\<lparr>b_filename := ''/7/42/c.jpg'', b_fsize := 3, b_filemd5 := digest @ [0], b_type := TASK_ADDFILE\<rparr>"

definition example_conv :: "bytes \<Rightarrow> t_task_base" where
  "example_conv digest = (example_upload digest)\<lparr>b_retfile := ''/7/42/c.jpg'', b_filename := ''/data/7/42/c.jpg''\<rparr>"

lemma example_tmp: "tmp_name example_os (example_conv digest) example_store = ''/data/7/42/c.jpg._20140101000000_0.pfs''"
proof -
  have "dec 0 = ''0''" by code_simp
  then show ?thesis
    by (simp add: tmp_name_def get_tmpstr_def example_conv_def example_os_def example_store_def snprintf_s_def dec_int_def)
qed

lemma example_can_upload:
  assumes "length digest = 16"
  shows "can_upload example_dv example_dv 5 example_dt (example_upload digest) [1, 2, 3] (example_conv digest) 3"
proof -
  have "storage_convert example_cf example_os (zero_base\<lparr>b_filename := ''/7/42/c.jpg''\<rparr>) =
     Some (LOCALFILE_OK, zero_base\<lparr>b_retfile := ''/7/42/c.jpg'', b_filename := ''/data/7/42/c.jpg''\<rparr>)" by code_simp
  then have "storage_convert example_cf example_os (example_upload digest) = Some (LOCALFILE_OK, example_conv digest)"
    by (auto simp: example_upload_def example_conv_def storage_convert_def zero_base_def Let_def split: option.splits if_splits)
  moreover have "parent_exists ''/data/7/42/c.jpg._20140101000000_0.pfs'' example_store" by code_simp
  moreover have "fs_files example_store ''/data/7/42/c.jpg._20140101000000_0.pfs'' = None" by (simp add: example_store_def)
  moreover have "base_ok (example_upload digest)"
    using assms by (simp add: base_ok_def example_upload_def zero_base_def path_ok_def int64_def NUL_def)
  moreover have "b_type (example_upload digest) = TASK_ADDFILE" "b_fsize (example_upload digest) = 3"
    by (simp_all add: example_upload_def)
  ultimately show ?thesis
    using example_tmp [of digest] example_dt_tasks_ok
    by (auto simp: can_upload_def Let_def writes_all_def example_dv_def example_dt_def example_os_def)
qed

lemma example_pieces:
  assumes "length digest = 16"
  defines "m \<equiv> upload_stream (example_upload digest) [1, 2, 3]"
  shows "concat (map snd [(1000, take 500 m), (1001, drop 500 m)]) = m" "[] \<notin> snd ` set [(1000, take 500 m), (1001, drop 500 m)]"
proof -
  have "length (enc_base (example_upload digest)) = SIZEOF_BASE"
    using assms(1) by (intro enc_base_length) (simp add: example_upload_def)
  then have "length m > 500" unfolding m_def upload_stream_def
    using length_create_sig_msg [of "of_nat SIZEOF_BASE" "enc_base (example_upload digest)"] by simp
  then show "concat (map snd [(1000, take 500 m), (1001, drop 500 m)]) = m" "[] \<notin> snd ` set [(1000, take 500 m), (1001, drop 500 m)]"
    by auto
qed

theorem upload_stored_witness:
  "\<exists>s' buf. (let b = example_upload (rfc_md5 [1, 2, 3]); m = upload_stream b [1, 2, 3] in
      feed up_svc_recv 5 (at_times example_dv [(1000, take 500 m), (1001, drop 500 m)]) (snd (up_svc_initconn example_dv 5 example_dt)) [] = (s', buf))
    \<and> fs_files (dt_store s') ''/data/7/42/c.jpg'' = Some [1, 2, 3] \<and> pfstask (dt_task s') TASK_Q_FIN = [3]"
proof -
  let ?b = "example_upload (rfc_md5 [1, 2, 3])"
  let ?m = "upload_stream ?b [1, 2, 3]"
  obtain s' buf where f: "feed up_svc_recv 5 (at_times example_dv [(1000, take 500 ?m), (1001, drop 500 ?m)])
      (snd (up_svc_initconn example_dv 5 example_dt)) [] = (s', buf)" by fastforce
  have l: "length (rfc_md5 [1, 2, 3]) = 16" by simp
  have "b_filemd5 ?b = rfc_md5 [1, 2, 3] @ [0]" "os_rename (dv_os example_dv)"
    by (simp_all add: example_upload_def example_dv_def example_os_def)
  from upload_stored [OF example_can_upload [OF l] example_pieces [OF l] f this]
  show ?thesis using f example_tmp [of "rfc_md5 [1, 2, 3]"]
    by (intro exI [of _ s'] exI [of _ buf]) (simp add: Let_def example_conv_def example_dt_def blank_tasks_def example_dv_def)
qed


definition wrong_digest :: bytes where
  "wrong_digest = map (\<lambda>b. b + 1) (rfc_md5 [1, 2, 3])"


lemma up_push_no_slash:
  assumes "CHR ''/'' \<notin> set (b_filename base)" and "b_type base = TASK_ADDFILE" and "h_status h = ADD_PATH_BY_UPLOAD"
    and "dt_get_task env TASK_Q_HOME (upd_dp fd (\<lambda>p. p\<lparr>dp_sock_stat := PREPARE_RECVFILE\<rparr>) s) = (q, Some t, s1)"
  obtains s2 where "up_do_push_task env fd h base s = (RECV_ADD_EPOLLOUT, s2)"
    and "dp_sock_stat (dt_peer s2 fd) = PREPARE_RECVFILE" and "dp_recvtask (dt_peer s2 fd) = None"
proof -
  let ?s = "upd_dp fd (\<lambda>p. p\<lparr>dp_sock_stat := PREPARE_RECVFILE\<rparr>) s"
  have p1: "dt_peer s1 = dt_peer ?s" using assms(4) by (auto simp: dt_get_task_def split: prod.splits)
  define sub where "sub = zero_sub\<lparr>u_peerip := ip2str (dp_ip (dt_peer s fd)), u_processlen := b_fsize base,
     u_starttime := dv_now env, u_oper_type := OPER_UP_REQ, u_need_sync := TASK_SOURCE\<rparr>"
  define s3 where "s3 = upd_dp fd (\<lambda>p. p\<lparr>dp_recvtask := Some t\<rparr>) (dt_fill t (\<lambda>_. zero_taskinfo\<lparr>ti_base := base\<lparr>b_starttime := dv_now env,
     b_dstip := dp_ip (dt_peer s fd), b_mtime := b_mtime base\<rparr>, ti_sub := sub\<rparr>) s1)"
  have e: "up_do_push_task env fd h base s = (case open_recv env fd t s3 of (ok, s4) \<Rightarrow>
      if ok then (RECV_ADD_EPOLLIN, s4) else (RECV_ADD_EPOLLOUT, up_create_push_rsp_err ''open remote file err'' fd s4))"
    using assms(2-4) by (simp add: up_do_push_task_def Let_def s3_def sub_def upd_dp_def)
  have "CHR ''/'' \<notin> set (b_filename (ti_base (dt_info t s3)))" using assms(1) by (simp add: s3_def dt_access)
  then obtain s4 where "open_recv env fd t s3 = (False, s4)" "dp_recvtask (dt_peer s4 fd) = None"
    "dp_sock_stat (dt_peer s4 fd) = dp_sock_stat (dt_peer s3 fd)" by (rule open_recv_refused)
  moreover have "dp_sock_stat (dt_peer s3 fd) = PREPARE_RECVFILE" using p1 by (simp add: s3_def dt_access)
  ultimately show ?thesis using e
    by (intro that [of "up_create_push_rsp_err ''open remote file err'' fd s4"])
      (simp_all add: up_create_push_rsp_err_def create_push_rsp_err_def dt_out_def dt_queue_def upd_dp_def)
qed

text \<open>
  Two messages of a client stop the upload server.  A request whose file cannot be opened, such
  as one whose name has no slash, is answered with an error, but the connection stays open (\<^verbatim>\<open>svc_send\<close>
  never closes it) and in the state in which a file's head is expected, without a task; a
  \<^verbatim>\<open>CMD_GET_FILE_RSP\<close> then writes through the null pointer.
\<close>

theorem unopened_upload_crashes:
  assumes "dp_sock_stat (dt_peer s fd) = CONNECTED" and "base_ok base" and "CHR ''/'' \<notin> set (b_filename base)"
    and "b_type base = TASK_ADDFILE" and "pfstask (dt_task s) TASK_Q_HOME \<noteq> []" and "dv_lock env TASK_Q_HOME = 0"
    and "up_svc_recv env fd s (create_sig_msg CMD_PUT_FILE_REQ ADD_PATH_BY_UPLOAD (enc_base base) (of_nat SIZEOF_BASE)) = (r1, s1, b1)"
    and "up_svc_recv env' fd s1 (b1 @ create_sig_msg CMD_GET_FILE_RSP st (enc_base base) (of_nat SIZEOF_BASE)) = (r2, s2, b2)"
  shows "r1 = RECV_ADD_EPOLLOUT \<and> fst (up_svc_send fd s1) = SEND_ADD_EPOLLIN \<and> dt_undefined s2"
proof -
  let ?n = "of_nat SIZEOF_BASE :: uint16"
  have len: "length (enc_base base) = SIZEOF_BASE" using assms(2) enc_base_length by (auto simp: base_ok_def)
  have dec: "dec_base (take SIZEOF_BASE (enc_base base)) = base" using len dec_enc_base [OF assms(2)] by simp
  obtain t ts where h: "pfstask (dt_task s) TASK_Q_HOME = t # ts" using assms(5) by (cases "pfstask (dt_task s) TASK_Q_HOME") auto
  let ?t = "dt_touch env fd s"
  have "\<exists>q k. dt_get_task env TASK_Q_HOME (upd_dp fd (\<lambda>p. p\<lparr>dp_sock_stat := PREPARE_RECVFILE\<rparr>) ?t) = (q, Some t, k)"
    using h assms(6) by (simp add: dt_get_task_def pfs_get_task_def dt_touch_def upd_dp_def)
  then obtain s' where s': "up_do_push_task env fd \<lparr>h_bodylen = ?n, h_cmdid = CMD_PUT_FILE_REQ, h_status = ADD_PATH_BY_UPLOAD\<rparr> base ?t
      = (RECV_ADD_EPOLLOUT, s')" "dp_sock_stat (dt_peer s' fd) = PREPARE_RECVFILE" "dp_recvtask (dt_peer s' fd) = None"
    using up_push_no_slash [OF assms(3,4)] by (metis t_pfs_sig_head.select_convs(3))
  have "transfer_recv OPER_UP_REQ (up_do_req env fd) env fd s (create_sig_msg CMD_PUT_FILE_REQ ADD_PATH_BY_UPLOAD (enc_base base) ?n @ [])
      = (RECV_ADD_EPOLLOUT, s', [])"
    by (rule transfer_one) (use assms(1) len dec s' in \<open>simp_all add: up_do_req_def\<close>)
  then have 1: "r1 = RECV_ADD_EPOLLOUT" "s1 = s'" "b1 = []" using assms(7) by (simp_all add: up_svc_recv_def)
  have "up_do_req env' fd (dt_touch env' fd s1) \<lparr>h_bodylen = ?n, h_cmdid = CMD_GET_FILE_RSP, h_status = st\<rparr> (take (unat ?n) (enc_base base))
      = (RECV_CLOSE, (dt_touch env' fd s1)\<lparr>dt_undefined := True\<rparr>)"
    using s' 1 len by (simp add: up_do_req_def up_do_recv_task_def do_recv_task_def dt_access)
  from transfer_one [where do_req = "up_do_req env' fd", OF _ _ this, of OPER_UP_REQ "[]"]
  have "s2 = (dt_touch env' fd s1)\<lparr>dt_undefined := True\<rparr>"
    using assms(8) s' 1 len by (simp add: up_svc_recv_def)
  then show ?thesis using 1 by (simp add: up_svc_send_def)
qed

definition example_bad_name :: t_task_base where
  "example_bad_name = zero_base\<lparr>b_filename := ''c.jpg'', b_type := TASK_ADDFILE\<rparr>"

theorem unopened_upload_crashes_witness:
  "let m = (\<lambda>cmd. create_sig_msg cmd ADD_PATH_BY_UPLOAD (enc_base example_bad_name) (of_nat SIZEOF_BASE));
       s = snd (up_svc_initconn example_dv 5 example_dt);
       (r1, s1, b1) = up_svc_recv example_dv 5 s (m CMD_PUT_FILE_REQ);
       (r2, s2, b2) = up_svc_recv example_dv 5 s1 (b1 @ m CMD_GET_FILE_RSP)
   in \<not> dt_undefined s \<and> dt_undefined s2"
proof -
  let ?m = "\<lambda>cmd. create_sig_msg cmd ADD_PATH_BY_UPLOAD (enc_base example_bad_name) (of_nat SIZEOF_BASE)"
  let ?s = "snd (up_svc_initconn example_dv 5 example_dt)"
  obtain r1 s1 b1 where 1: "up_svc_recv example_dv 5 ?s (?m CMD_PUT_FILE_REQ) = (r1, s1, b1)" by (metis prod_cases3)
  obtain r2 s2 b2 where 2: "up_svc_recv example_dv 5 s1 (b1 @ ?m CMD_GET_FILE_RSP) = (r2, s2, b2)" by (metis prod_cases3)
  have h: "dp_sock_stat (dt_peer ?s 5) = CONNECTED" "CHR ''/'' \<notin> set (b_filename example_bad_name)" "b_type example_bad_name = TASK_ADDFILE"
    "pfstask (dt_task ?s) TASK_Q_HOME \<noteq> []" "dv_lock example_dv TASK_Q_HOME = 0" "\<not> dt_undefined ?s"
    by (simp_all add: example_bad_name_def up_svc_initconn_def example_dv_def example_dt_def new_peer_def)
  have "base_ok example_bad_name"
    by (simp add: base_ok_def example_bad_name_def zero_base_def path_ok_def int64_def NUL_def)
  from unopened_upload_crashes [OF h(1) this h(2-5) 1 2] show ?thesis using h(6) 1 2 by (simp add: Let_def)
qed

text \<open>
  An upload stalls when the part of the file that is missing is a multiple of 4 GiB, in
  particular from the start when the file's size is: nothing that arrives is taken from the buffer
  any more, nothing is written and nobody is told, although every \<^verbatim>\<open>write\<close> would succeed.
\<close>

theorem large_upload_stalls:
  assumes "receiving fd t m s" and "u_processlen (ti_sub (dt_info t s)) - int (length m) = 2 ^ 32 * k" and "0 < k"
    and "\<forall>(env, d) \<in> set ps. writes_all env" and "feed up_svc_recv fd ps s [] = (s', buf)"
  shows "buf = concat (map snd ps) \<and> fs_files (dt_store s') (b_tmpfile (ti_base (dt_info t s'))) = Some m
    \<and> pfstask (dt_task s') = pfstask (dt_task s) \<and> dt_send s' = dt_send s"
proof -
  have "[] @ concat (map snd ps) = buf \<and> receiving fd t m s' \<and> rx_view t s' = rx_view t s"
    using receive_stalls [OF assms(1-3), of ps OPER_UP_REQ up_do_req "[]" s' buf] assms(4,5) by (auto simp: up_svc_recv_eq)
  then show ?thesis by (auto simp: receiving_def rx_view_def)
qed

definition example_stall :: dt_state where
  "example_stall = (dt_fill 3 (\<lambda>_. zero_taskinfo\<lparr>ti_base := zero_base\<lparr>b_tmpfile := ''/data/t''\<rparr>, ti_sub := zero_sub\<lparr>u_processlen := 2 ^ 32\<rparr>\<rparr>) example_dt)
     \<lparr>dt_peer := (\<lambda>_. (new_peer example_dv 5 0)\<lparr>dp_sock_stat := RECVFILEING, dp_recvtask := Some 3, dp_local_in_fd := 7\<rparr>),
      dt_ofile := [7 \<mapsto> (''/data/t'', 0)], dt_store := example_store\<lparr>fs_files := [''/data/t'' \<mapsto> []]\<rparr>\<rparr>"

theorem large_upload_stalls_witness:
  "snd (feed up_svc_recv 5 [(example_dv, [1, 2]), (example_dv, [3])] example_stall []) = [1, 2, 3]"
proof -
  obtain s' buf where f: "feed up_svc_recv 5 [(example_dv, [1, 2]), (example_dv, [3])] example_stall [] = (s', buf)" by fastforce
  have i: "dt_info 3 example_stall = zero_taskinfo\<lparr>ti_base := zero_base\<lparr>b_tmpfile := ''/data/t''\<rparr>, ti_sub := zero_sub\<lparr>u_processlen := 2 ^ 32\<rparr>\<rparr>"
    by (simp add: example_stall_def dt_access)
  have "ctx_ok (MD5Init blank_ctx) []" by (rule ctx_ok_init) (simp add: blank_ctx_def)
  then have "receiving 5 3 [] example_stall"
    by (simp add: receiving_def i) (simp add: example_stall_def dt_access new_peer_def zero_sub_def)
  from large_upload_stalls [OF this, of 1 "[(example_dv, [1, 2]), (example_dv, [3])]" s' buf] f i
  show ?thesis by (simp add: writes_all_def example_dv_def)
qed

subsection \<open>The list of connections\<close>

lemma conns_up_push [simp]: "dt_conns (snd (up_do_push_task env fd h base s)) = dt_conns s"
  by (simp add: up_do_push_task_def up_create_push_rsp_def up_create_push_rsp_err_def up_get_local_filename_def get_local_bname_def
      do_query_other_def Let_def case_prod_beta split: option.split)

interpretation up_service: file_service OPER_UP_REQ up_do_req
  by unfold_locales (simp add: up_do_req_def up_do_recv_task_def)

text \<open>Whatever a client sends, the list that the time-out works on keeps every open connection once.\<close>

lemma up_recv_list:
  assumes "fd \<in> dt_user s" and "distinct (dt_activelist s)" and "set (dt_activelist s) = dt_user s"
  shows "let s' = fst (snd (up_svc_recv env fd s buf))
         in distinct (dt_activelist s') \<and> set (dt_activelist s') = dt_user s'"
  using conns_steps_list [OF up_service.recv_conns [OF assms(1)]] assms(2,3)
  by (auto simp: up_svc_recv_def dt_conns_def Let_def)

end
