(* ===== verification/Pfs_Client.thy ===== *)
theory Pfs_Client
  imports Pfs_Event Pfs_Store Pfs_Wire
begin

section \<open>The client library (lib/pfs_api.c)\<close>

text \<open>
  A client stores, replaces or deletes a file by \<^verbatim>\<open>operate_pfs\<close>: it asks the name server for a storage
  server, connects to that one, sends the request and the file, and reads the answer, all in one
  loop around \<^verbatim>\<open>select\<close>.  The loop is a function over the list of its rounds, each of which says what
  \<^verbatim>\<open>select\<close>, \<^verbatim>\<open>send\<close>, \<^verbatim>\<open>sendfile64\<close> and \<^verbatim>\<open>recv\<close> return in it; \<open>None\<close> is a client that still waits when the
  rounds are used up.  The variables that are local to a thread are part of the state; \<open>as_out\<close> is what
  went out, with the address of the server, \<open>as_closed\<close> the descriptors given to \<^verbatim>\<open>close\<close>, and
  \<open>as_undefined\<close> is set by a copy past the end of an array.  Memory is available.
\<close>

subsection \<open>State\<close>

abbreviation SOCK_SWITCH :: int where "SOCK_SWITCH \<equiv> 0x01"
abbreviation SOCK_DATA_OVER :: int where "SOCK_DATA_OVER \<equiv> 0x02"
abbreviation SOCK_CLOSE :: int where "SOCK_CLOSE \<equiv> 0x10"
abbreviation SOCK_SEND :: int where "SOCK_SEND \<equiv> 0x20"
abbreviation SOCK_SELECT_ERR :: int where "SOCK_SELECT_ERR \<equiv> 0x30"
abbreviation SOCK_COMP :: int where "SOCK_COMP \<equiv> 0x40"
abbreviation SOCK_SELECT_TO :: int where "SOCK_SELECT_TO \<equiv> 0x60"
abbreviation SOCK_RECV :: int where "SOCK_RECV \<equiv> 0x80"

abbreviation PFS_OK :: int where "PFS_OK \<equiv> 0"
abbreviation PFS_CON_NAMESERVER :: int where "PFS_CON_NAMESERVER \<equiv> 3"
abbreviation PFS_CON_STORAGE :: int where "PFS_CON_STORAGE \<equiv> 4"
abbreviation PFS_LOCAL_FILE :: int where "PFS_LOCAL_FILE \<equiv> 5"
abbreviation PFS_ERR_TYPE :: int where "PFS_ERR_TYPE \<equiv> 7"
abbreviation PFS_ERR_INFO_UNCOM :: int where "PFS_ERR_INFO_UNCOM \<equiv> 8"
abbreviation PFS_STORAGE_FILE :: int where "PFS_STORAGE_FILE \<equiv> 10"

abbreviation TASK_MODYFILE :: uint8 where "TASK_MODYFILE \<equiv> 0x32"
abbreviation API_PATH_BY_UPLOAD :: uint8 where "API_PATH_BY_UPLOAD \<equiv> 1"
abbreviation API_DIR_BY_UPLOAD :: uint8 where "API_DIR_BY_UPLOAD \<equiv> 4"

datatype client_stat = GET_STORAGE | PUT_DATA

record t_api_info =
  a_errmsg :: string
  a_localfile :: string
  a_remotefile :: string
  a_group :: string
  a_type :: uint8
  a_addtype :: uint8
  a_nametype :: uint8

record t_api_cache =
  nc_uptime :: int
  nc_ip :: string
  nc_port :: int
  nc_fd :: int

definition zero_cache :: t_api_cache where
  "zero_cache = \<lparr>nc_uptime = 0, nc_ip = [], nc_port = 0, nc_fd = 0\<rparr>"

record api_state =
  as_stat :: client_stat
  as_cache_flag :: bool
  as_cache :: t_api_cache
  as_api :: t_api_info
  as_fd :: int
  as_addr :: "string \<times> int"
  as_send :: mybuff
  as_recv :: mybuff
  as_result :: bytes
  as_out :: "((string \<times> int) \<times> sent) list"
  as_closed :: "int list"
  as_undefined :: bool

text \<open>
  The files of the client's machine, the descriptors that \<^verbatim>\<open>open\<close> gives for a name and \<^verbatim>\<open>createsocket\<close> for
  an address and port (negative where they fail), and the time.
\<close>

record api_env =
  ae_store :: store
  ae_open :: "string \<Rightarrow> int"
  ae_connect :: "string \<Rightarrow> int \<Rightarrow> int"
  ae_now :: int

record api_round =
  rd_select :: int
  rd_write :: bool
  rd_read :: bool
  rd_send :: "sys_ret list"
  rd_sendfile :: "sys_ret list"
  rd_recv :: "(bytes \<times> sys_ret) list"

definition put_out :: "sent list \<Rightarrow> api_state \<Rightarrow> api_state" where
  "put_out out s = s\<lparr>as_out := as_out s @ map (\<lambda>x. (as_addr s, x)) out\<rparr>"

definition upd_api :: "(t_api_info \<Rightarrow> t_api_info) \<Rightarrow> api_state \<Rightarrow> api_state" where
  "upd_api f s = s\<lparr>as_api := f (as_api s)\<rparr>"

subsection \<open>Input and output\<close>

text \<open>
  The loop of \<^verbatim>\<open>do_recv\<close>; its result is the number of bytes, \<open>-1\<close> or, when there is nothing more to
  read, \<open>0\<close>, whatever was read before.
\<close>

fun api_recv_loop :: "int \<Rightarrow> (bytes \<times> sys_ret) list \<Rightarrow> mybuff \<Rightarrow> (int \<times> mybuff) option" where
  "api_recv_loop got [] mb = None"
| "api_recv_loop got ((d, n, e) # rs) mb =
     (if n > 0 then
        (case mybuff_setdata (\<lambda>_. True) 20480 mb d of
           None \<Rightarrow> None
         | Some mb1 \<Rightarrow> if n = 2048 then api_recv_loop (got + n) rs mb1 else Some (got + n, mb1))
      else if n = 0 then Some (-1, mb)
      else if e = EINTR then api_recv_loop got rs mb
      else if e = EAGAIN then Some (0, mb)
      else Some (-1, mb))"

definition api_do_recv :: "(bytes \<times> sys_ret) list \<Rightarrow> mybuff \<Rightarrow> (int \<times> mybuff) option" where
  "api_do_recv = api_recv_loop 0"

text \<open>A result of \<^verbatim>\<open>send\<close> as \<^verbatim>\<open>do_send\<close> sees it, in a variable of type \<^verbatim>\<open>size_t\<close>.\<close>

definition size_of_ret :: "int \<Rightarrow> nat" where
  "size_of_ret n = nat (n mod 2 ^ 64)"

text \<open>The first loop of \<^verbatim>\<open>do_send\<close>; the result \<open>0\<close> stands for its \<^verbatim>\<open>break\<close>.\<close>

fun api_send_loop :: "sys_ret list \<Rightarrow> bytes \<Rightarrow> mybuff \<Rightarrow> (int \<times> mybuff \<times> sent list) option" where
  "api_send_loop [] data mb = None"
| "api_send_loop ((n, e) # rs) data mb =
     (if size_of_ret n > 0 then
        Some (if size_of_ret n < length data then SOCK_SEND else 0, mybuff_skipdata mb (size_of_ret n),
              if n > 0 then [Sent_data (take (nat n) data)] else [])
      else if e = EINTR then api_send_loop rs data mb
      else if e = EAGAIN then Some (SOCK_SEND, mb, [])
      else Some (SOCK_CLOSE, mb, []))"

text \<open>The second loop, with the descriptors that are closed.\<close>

fun api_sendfile_loop ::
  "sys_ret list \<Rightarrow> int \<times> int \<times> nat \<Rightarrow> mybuff \<Rightarrow> (int \<times> mybuff \<times> int list \<times> sent list) option" where
  "api_sendfile_loop [] f mb = None"
| "api_sendfile_loop ((n, e) # rs) (lfd, start, len) mb =
     (if size_of_ret n > 0 then
        (case mybuff_skipfile mb (size_of_ret n) of (mb1, closed) \<Rightarrow>
           Some (if size_of_ret n < len then SOCK_SEND else SOCK_COMP, mb1, closed,
                 if n > 0 then [Sent_file lfd start (min (nat n) (min len GSIZE))] else []))
      else if e = EINTR then api_sendfile_loop rs (lfd, start, len) mb
      else if e = EAGAIN then Some (SOCK_SEND, mb, [], [])
      else Some (SOCK_CLOSE, mb, [], []))"

definition api_do_send ::
  "sys_ret list \<Rightarrow> sys_ret list \<Rightarrow> mybuff \<Rightarrow> (int \<times> mybuff \<times> int list \<times> sent list) option" where
  "api_do_send ds fs mb =
     (case (case mybuff_getdata mb of Some data \<Rightarrow> api_send_loop ds data mb | None \<Rightarrow> Some (0, mb, [])) of
        None \<Rightarrow> None
      | Some (ret, mb1, out1) \<Rightarrow>
          if ret \<noteq> 0 then Some (ret, mb1, [], out1)
          else case mybuff_getfile mb1 of
                 None \<Rightarrow> Some (SOCK_COMP, mb1, [], out1)
               | Some f \<Rightarrow> map_option (\<lambda>(r, mb2, cl, out2). (r, mb2, cl, out1 @ out2)) (api_sendfile_loop fs f mb1))"

subsection \<open>Messages\<close>

text \<open>A complete message is copied over the beginning of \<^verbatim>\<open>result\<close>, an array of 2048 bytes.\<close>

definition api_check_req :: "api_state \<Rightarrow> int \<times> api_state" where
  "api_check_req s =
     (case mybuff_getdata (as_recv s) of
        None \<Rightarrow> (SOCK_RECV, s)
      | Some data \<Rightarrow>
          (case parse_sig_msg zero_head [] data of (ret, h, b) \<Rightarrow>
             if ret > 0 then (SOCK_RECV, s)
             else if ret = E_PACKET_ERR_CLOSE then (SOCK_CLOSE, s)
             else
               (if as_stat s = GET_STORAGE then SOCK_SWITCH else SOCK_DATA_OVER,
                s\<lparr>as_result := memcpy (as_result s) b, as_undefined := as_undefined s \<or> length b > 2048\<rparr>)))"

text \<open>The text in \<^verbatim>\<open>result\<close>.\<close>

definition result_text :: "api_state \<Rightarrow> string" where
  "result_text s = cstr (str_of (as_result s))"

definition connect_storage :: "api_env \<Rightarrow> api_state \<Rightarrow> int \<times> api_state" where
  "connect_storage env s =
     (case strchr CHR '':'' (result_text s) of
        None \<Rightarrow> (-1, upd_api (\<lambda>a. a\<lparr>a_errmsg := ''errmsg:'' @ result_text s\<rparr>)
                     (s\<lparr>as_undefined := as_undefined s \<or> length (result_text s) + 7 \<ge> 256\<rparr>))
      | Some (ip, port) \<Rightarrow>
          let s1 = s\<lparr>as_result := (as_result s)[length ip := 0]\<rparr>;
              fd = ae_connect env ip (atoi port)
          in (fd, if fd \<ge> 0 \<and> as_cache_flag s \<and> nc_port (as_cache s) = 0
                  then s1\<lparr>as_cache := \<lparr>nc_uptime = ae_now env, nc_ip = snprintf_s 16 ip, nc_port = atoi port, nc_fd = -1\<rparr>,
                          as_addr := (ip, atoi port)\<rparr>
                  else s1\<lparr>as_addr := (ip, atoi port)\<rparr>))"

definition api_get_localfile_stat :: "store \<Rightarrow> t_task_base \<Rightarrow> t_task_base option" where
  "api_get_localfile_stat st task =
     (case fs_files st (b_filename task) of
        None \<Rightarrow> None
      | Some c \<Rightarrow>
          map_option (\<lambda>md5. task\<lparr>b_mtime := fs_mtime st (b_filename task), b_fsize := int (length c),
                                 b_filemd5 := put_at 0 md5 (b_filemd5 task)\<rparr>)
            (file_md5 (b_filename task) st))"

text \<open>The description of the file, and the \<^verbatim>\<open>addtype\<close> that is used; \<open>None\<close> where the file cannot be read or is empty.\<close>

definition req_base :: "api_env \<Rightarrow> t_api_info \<Rightarrow> (t_task_base \<times> uint8) option" where
  "req_base env api =
     (let base = zero_base\<lparr>b_type := a_type api\<rparr> in
      if a_type api = TASK_DELFILE then Some (base\<lparr>b_filename := snprintf_s 256 (a_remotefile api)\<rparr>, a_addtype api)
      else
        case api_get_localfile_stat (ae_store env) (base\<lparr>b_filename := snprintf_s 256 (a_localfile api)\<rparr>) of
          None \<Rightarrow> None
        | Some b \<Rightarrow>
            if b_fsize b = 0 then None
            else
              let (b1, add) = (if a_type api = TASK_MODYFILE
                               then (b\<lparr>b_filename := snprintf_s 256 (''/'' @ a_remotefile api)\<rparr>, API_PATH_BY_UPLOAD)
                               else (b, a_addtype api))
              in Some (if add = API_DIR_BY_UPLOAD then b1\<lparr>b_filename := snprintf_s 256 (a_remotefile api)\<rparr> else b1, add))"

definition reinit_buffs :: "api_state \<Rightarrow> api_state" where
  "reinit_buffs s =
     (let (sb, cl1) = mybuff_reinit (\<lambda>_. True) 20480 (as_send s); (rb, cl2) = mybuff_reinit (\<lambda>_. True) 20480 (as_recv s)
      in s\<lparr>as_send := sb, as_recv := rb, as_closed := as_closed s @ cl1 @ cl2\<rparr>)"

definition set_send :: "bytes \<Rightarrow> api_state \<Rightarrow> api_state" where
  "set_send m s =
     (case mybuff_setdata (\<lambda>_. True) 20480 (as_send s) m of
        None \<Rightarrow> s\<lparr>as_undefined := True\<rparr> | Some sb \<Rightarrow> s\<lparr>as_send := sb\<rparr>)"

definition create_req_msg :: "api_env \<Rightarrow> api_state \<Rightarrow> int \<times> api_state" where
  "create_req_msg env s0 =
     (let s = reinit_buffs s0; api = as_api s; g = a_group api in
      if as_stat s = GET_STORAGE then
        (0, set_send (if a_type api = TASK_ADDFILE
                      then create_sig_msg UPLOAD_REQ (a_nametype api) (bytes_of g) (of_nat (length g))
                      else create_sig_msg MODI_DEL_REQ (a_addtype api) (bytes_of g) (of_nat (length g))) s)
      else
        case req_base env api of
          None \<Rightarrow> (-1, s)
        | Some (base, add) \<Rightarrow>
            let s1 = set_send (create_sig_msg CMD_PUT_FILE_REQ add (enc_base base) (of_nat SIZEOF_BASE))
                       (upd_api (\<lambda>a. a\<lparr>a_addtype := add\<rparr>) s) in
            if a_type api = TASK_DELFILE then (0, s1)
            else
              let lfd = ae_open env (a_localfile api) in
              if lfd < 0 then (-1, s1)
              else (case mybuff_setfile (as_send s1) lfd 0 (nat (b_fsize base)) of
                      (sb, cl) \<Rightarrow> (0, s1\<lparr>as_send := sb, as_closed := as_closed s1 @ cl\<rparr>)))"

text \<open>The name in the answer is taken from its last leading slash on.\<close>

definition check_rsp_from_storage :: "api_state \<Rightarrow> int \<times> api_state" where
  "check_rsp_from_storage s =
     (let e = a_errmsg (as_api s) in
      if take 3 e \<noteq> ''OK|'' then (-1, s)
      else
        case strchr CHR ''|'' (drop 3 e) of
          None \<Rightarrow> (-1, s)
        | Some (name, g) \<Rightarrow>
            (0, upd_api (\<lambda>a. a\<lparr>a_remotefile := (if take 1 name = ''/'' then ''/'' @ dropWhile (\<lambda>c. c = CHR ''/'') name else ''|'' @ name),
                               a_group := g\<rparr>)
                  (s\<lparr>as_undefined := as_undefined s \<or> length g \<ge> 128\<rparr>)))"

subsection \<open>The loop (upload_file_inter, operate_pfs)\<close>

definition close_conn :: "api_state \<Rightarrow> api_state" where
  "close_conn s = s\<lparr>as_closed := as_closed s @ [as_fd s]\<rparr>"

definition set_err :: "string \<Rightarrow> api_state \<Rightarrow> api_state" where
  "set_err m = upd_api (\<lambda>a. a\<lparr>a_errmsg := snprintf_s 256 m\<rparr>)"

text \<open>The name server has answered: the request goes to the storage server it names.\<close>

definition switch_storage :: "api_env \<Rightarrow> api_state \<Rightarrow> int \<times> api_state" where
  "switch_storage env s =
     (case create_req_msg env ((close_conn s)\<lparr>as_stat := PUT_DATA\<rparr>) of (r, s1) \<Rightarrow>
        if r \<noteq> 0 then (PFS_LOCAL_FILE, s1)
        else case connect_storage env s1 of (fd, s2) \<Rightarrow>
          let s3 = s2\<lparr>as_fd := fd\<rparr> in
          if fd < 0 then (PFS_CON_STORAGE, set_err (result_text s3) s3) else (0, s3))"

text \<open>
  The steps of a round give \<open>Inl\<close> and the value of \<^verbatim>\<open>ret\<close> where the loop ends, and \<open>Inr\<close> and \<^verbatim>\<open>havedata\<close> where
  it goes on.  The first one is what follows a successful \<^verbatim>\<open>do_recv\<close>.
\<close>

definition round_answer :: "api_env \<Rightarrow> bool \<Rightarrow> api_state \<Rightarrow> (int + bool) \<times> api_state" where
  "round_answer env havedata s =
     (case api_check_req s of (ret, s1) \<Rightarrow>
        if ret = SOCK_SWITCH then
          (case switch_storage env s1 of (e, s2) \<Rightarrow> if e \<noteq> 0 then (Inl e, s2) else (Inr True, s2))
        else if ret = SOCK_DATA_OVER then (Inl ret, set_err (result_text s1) s1)
        else if ret = SOCK_CLOSE then (Inl ret, s1)
        else (Inr havedata, s1))"

definition round_read :: "api_env \<Rightarrow> api_round \<Rightarrow> bool \<Rightarrow> api_state \<Rightarrow> ((int + bool) \<times> api_state) option" where
  "round_read env r havedata s =
     (case api_do_recv (rd_recv r) (as_recv s) of
        None \<Rightarrow> None
      | Some (n, rb) \<Rightarrow>
          let s1 = s\<lparr>as_recv := rb\<rparr> in
          Some (if n < 0 then (Inl n, s1) else if n = 0 then (Inr havedata, s1) else round_answer env havedata s1))"

definition round_write :: "api_round \<Rightarrow> bool \<Rightarrow> api_state \<Rightarrow> ((int + bool) \<times> api_state) option" where
  "round_write r havedata s =
     (if havedata \<and> rd_write r then
        map_option (\<lambda>(ret, sb, cl, out).
            (if ret = SOCK_CLOSE then Inl ret else Inr (ret = SOCK_SEND),
             put_out out (s\<lparr>as_send := sb, as_closed := as_closed s @ cl\<rparr>)))
          (api_do_send (rd_send r) (rd_sendfile r) (as_send s))
      else Some (Inr havedata, s))"

definition api_round_step :: "api_env \<Rightarrow> api_round \<Rightarrow> bool \<Rightarrow> api_state \<Rightarrow> ((int + bool) \<times> api_state) option" where
  "api_round_step env r havedata s =
     (if rd_select r = -1 then Some (Inl SOCK_SELECT_ERR, s)
      else if rd_select r = 0 then
        Some (Inl SOCK_SELECT_TO, set_err (''time out '' @ (if as_stat s = GET_STORAGE then ''0'' else ''1'') @ ''!'') s)
      else
        case round_write r havedata s of
          None \<Rightarrow> None
        | Some (Inl ret, s1) \<Rightarrow> Some (Inl ret, s1)
        | Some (Inr h, s1) \<Rightarrow> if rd_read r then round_read env r h s1 else Some (Inr h, s1))"

fun api_loop :: "api_env \<Rightarrow> api_round list \<Rightarrow> bool \<Rightarrow> api_state \<Rightarrow> (int \<times> api_state) option" where
  "api_loop env [] havedata s = None"
| "api_loop env (r # rs) havedata s =
     (case api_round_step env r havedata s of
        None \<Rightarrow> None
      | Some (Inl ret, s1) \<Rightarrow> Some (ret, s1)
      | Some (Inr h, s1) \<Rightarrow> api_loop env rs h s1)"

text \<open>The code behind the label \<^verbatim>\<open>up_err\<close>.\<close>

definition up_err :: "int \<Rightarrow> api_state \<Rightarrow> int \<times> api_state" where
  "up_err ret s0 =
     (let s1 = (if as_fd s0 > 0 then close_conn s0 else s0);
          s = s1\<lparr>as_closed := as_closed s1 @ mybuff_fini (\<lambda>_. True) 20480 (as_send s1) @ mybuff_fini (\<lambda>_. True) 20480 (as_recv s1)\<rparr>
      in if ret \<noteq> SOCK_DATA_OVER then (ret, s)
         else case check_rsp_from_storage s of (r, s2) \<Rightarrow> (if r \<noteq> 0 then PFS_STORAGE_FILE else PFS_OK, s2))"

text \<open>The first connection: to the cached storage server, or to the name server.\<close>

definition first_connect :: "api_env \<Rightarrow> string \<Rightarrow> int \<Rightarrow> api_state \<Rightarrow> api_state" where
  "first_connect env nameip nameport s0 =
     (let s = s0\<lparr>as_stat := GET_STORAGE, as_fd := -1\<rparr>; nc = as_cache s;
          s1 = (if as_cache_flag s \<and> nc_port nc > 0 then
                  let fd = (if nc_fd nc > 0 then nc_fd nc else ae_connect env (nc_ip nc) (nc_port nc)) in
                  if fd < 0 then s else s\<lparr>as_fd := fd, as_addr := (nc_ip nc, nc_port nc), as_stat := PUT_DATA\<rparr>
                else s)
      in if as_fd s1 < 0 then s1\<lparr>as_fd := ae_connect env nameip nameport, as_addr := (nameip, nameport)\<rparr> else s1)"

definition upload_file_inter ::
  "api_env \<Rightarrow> string \<Rightarrow> int \<Rightarrow> api_round list \<Rightarrow> api_state \<Rightarrow> (int \<times> api_state) option" where
  "upload_file_inter env nameip nameport rs s0 =
     (let s1 = first_connect env nameip nameport s0 in
      if as_fd s1 < 0 then Some (PFS_CON_NAMESERVER, s1)
      else
        case create_req_msg env (s1\<lparr>as_send := mybuff_init, as_recv := mybuff_init, as_result := replicate 2048 0\<rparr>) of (r, s2) \<Rightarrow>
          if r \<noteq> 0 then Some (up_err PFS_LOCAL_FILE s2)
          else map_option (\<lambda>(ret, s3). up_err ret s3) (api_loop env rs True s2))"

definition operate_pfs ::
  "api_env \<Rightarrow> string \<Rightarrow> int \<Rightarrow> api_round list \<Rightarrow> api_state \<Rightarrow> (int \<times> api_state) option" where
  "operate_pfs env nameip nameport rs s =
     (let api = as_api s in
      if a_type api > TASK_MODYFILE \<or> a_type api < TASK_ADDFILE then Some (PFS_ERR_TYPE, s)
      else if a_type api = TASK_ADDFILE \<and> a_localfile api = [] then Some (PFS_ERR_INFO_UNCOM, s)
      else if a_type api \<noteq> TASK_ADDFILE \<and> (a_remotefile api = [] \<or> a_group api = []) then Some (PFS_ERR_INFO_UNCOM, s)
      else upload_file_inter env nameip nameport rs s)"

definition init_ns_cache :: "api_state \<Rightarrow> api_state" where
  "init_ns_cache s = s\<lparr>as_cache := zero_cache, as_cache_flag := True\<rparr>"

subsection \<open>Sending all of a request\<close>

text \<open>The bytes of a list of pieces, given the contents of the open files.\<close>

fun wire :: "(int \<Rightarrow> bytes) \<Rightarrow> sent list \<Rightarrow> bytes" where
  "wire cont [] = []"
| "wire cont (Sent_data d # out) = d @ wire cont out"
| "wire cont (Sent_file lfd off n # out) = take n (drop (nat off) (cont lfd)) @ wire cont out"

definition sent_to :: "string \<times> int \<Rightarrow> api_state \<Rightarrow> sent list" where
  "sent_to addr s = map snd (filter (\<lambda>(a, x). a = addr) (as_out s))"

text \<open>A round in which the socket takes some bytes, and one in which the bytes \<open>d\<close> arrive.\<close>

definition send_round :: "api_round \<Rightarrow> bool" where
  "send_round r \<longleftrightarrow> rd_select r > 0 \<and> rd_write r \<and> \<not> rd_read r \<and>
     (\<exists>n1 e1 n2 e2. rd_send r = [(n1, e1)] \<and> rd_sendfile r = [(n2, e2)] \<and> 0 < n1 \<and> n1 < 2 ^ 64 \<and> 0 < n2 \<and> n2 \<le> int GSIZE)"

definition recv_round :: "api_round \<Rightarrow> bytes \<Rightarrow> bool" where
  "recv_round r d \<longleftrightarrow> rd_select r > 0 \<and> rd_read r \<and> (\<exists>e. rd_recv r = [(d, int (length d), e)]) \<and> d \<noteq> [] \<and> length d < 2048"

text \<open>What is left of \<open>d\<close> bytes and \<open>f\<close> bytes of a file after such rounds.\<close>

fun left_after :: "api_round list \<Rightarrow> nat \<times> nat \<Rightarrow> nat \<times> nat" where
  "left_after [] df = df"
| "left_after (r # rs) (d, f) =
     (let n1 = nat (fst (hd (rd_send r))); n2 = nat (fst (hd (rd_sendfile r))) in
      left_after rs (if n1 < d then (d - n1, f) else (0, f - n2)))"

lemma wire_append [simp]: "wire cont (a @ b) = wire cont a @ wire cont b"
  by (induction cont a rule: wire.induct) simp_all

lemma put_out_put_out: "put_out b (put_out a s) = put_out (a @ b) s"
  by (simp add: put_out_def)

lemma left_after_done: "left_after rs (0, 0) = (0, 0)"
  by (induction rs) (simp_all add: Let_def)

lemma api_idle_rounds:
  assumes "\<forall>r \<in> set sr. send_round r"
  shows "api_loop env (sr @ rs) False s = api_loop env rs False s"
  using assms
  by (induction sr) (auto simp: api_round_step_def round_write_def send_round_def)

text \<open>The file that is still to be sent: \<open>f\<close> bytes of \<open>lfd\<close> from \<open>off\<close> on.\<close>

definition file_left :: "mybuff \<Rightarrow> int \<Rightarrow> int \<Rightarrow> nat \<Rightarrow> bool" where
  "file_left mb lfd off f \<longleftrightarrow> (if f = 0 then mb_fd mb < 0 else mb_fd mb = lfd \<and> 0 \<le> lfd \<and> mb_foffset mb = off \<and> mb_flen mb = f)"

lemma skipdata_file_left [simp]: "file_left (mybuff_skipdata mb n) lfd off f = file_left mb lfd off f"
  by (simp add: file_left_def mybuff_skipdata_def split: option.split)

text \<open>One round: \<open>b1\<close> of the bytes and \<open>f1\<close> bytes of the file go out.\<close>

lemma api_do_send_progress:
  assumes ok: "mb_ok mb" and f: "file_left mb lfd off f" and off: "0 \<le> off"
    and n: "0 < n1" "n1 < 2 ^ 64" "0 < n2" "n2 \<le> int GSIZE" and d: "d = length (mb_bytes mb)"
    and df': "(d', f') = (if nat n1 < d then (d - nat n1, f) else (0, f - nat n2))"
  obtains ret mb' cl out where "api_do_send [(n1, e1)] [(n2, e2)] mb = Some (ret, mb', cl, out)"
    and "ret = (if d' = 0 \<and> f' = 0 then SOCK_COMP else SOCK_SEND)"
    and "mb_ok mb'" and "mb_bytes mb' = drop (d - d') (mb_bytes mb)" and "file_left mb' lfd (off + int (f - f')) f'"
    and "wire cont out = take (d - d') (mb_bytes mb) @ take (f - f') (drop (nat off) (cont lfd))"
proof -
  have s: "size_of_ret n1 = nat n1" "size_of_ret n2 = nat n2" using n by (simp_all add: size_of_ret_def)
  define mb1 where "mb1 = mybuff_skipdata mb (nat n1)"
  have 1: "mb_ok mb1" "mb_bytes mb1 = drop (nat n1) (mb_bytes mb)" "file_left mb1 lfd off f"
    using ok f skipdata_ok skipdata_bytes by (simp_all add: mb1_def)
  show ?thesis
  proof (cases "nat n1 < d")
    case True
    then have "mybuff_getdata mb = Some (mb_bytes mb)" using getdata_bytes [OF ok] d by auto
    then show ?thesis
      using True 1 n(1) s df' d
      by (intro that [of SOCK_SEND mb1 "[]" "[Sent_data (take (nat n1) (mb_bytes mb))]"])
        (auto simp: api_do_send_def mb1_def)
  next
    case False
    define mb2 where "mb2 = (if d = 0 then mb else mb1)"
    define out1 where "out1 = (if d = 0 then [] else [Sent_data (mb_bytes mb)])"
    have 2: "mb_ok mb2" "mb_bytes mb2 = []" "file_left mb2 lfd off f" "wire cont out1 = mb_bytes mb"
      using False 1 ok f d by (auto simp: mb2_def out1_def)
    have first: "(case mybuff_getdata mb of Some data \<Rightarrow> api_send_loop [(n1, e1)] data mb | None \<Rightarrow> Some (0, mb, [])) = Some (0, mb2, out1)"
      using getdata_bytes [OF ok] False n(1) s d by (auto simp: mb2_def mb1_def out1_def)
    show ?thesis
    proof (cases "f = 0")
      case True
      then have "mybuff_getfile mb2 = None" using 2(3) by (auto simp: file_left_def mybuff_getfile_def)
      then show ?thesis
        using True False 2 df' first
        by (intro that [of SOCK_COMP mb2 "[]" out1]) (auto simp: api_do_send_def d)
    next
      case f0: False
      then have g: "mybuff_getfile mb2 = Some (lfd, off, f)" "mb_fd mb2 = lfd" "0 \<le> lfd" "mb_foffset mb2 = off" "mb_flen mb2 = f"
        using 2(3) by (auto simp: file_left_def mybuff_getfile_def)
      obtain mb3 cl where sk: "mybuff_skipfile mb2 (nat n2) = (mb3, cl)" by fastforce
      have 3: "mb_ok mb3" "mb_bytes mb3 = []" "file_left mb3 lfd (off + int (f - f')) f'"
        using sk g False df' 2(1,2) n(3) f0
        by (auto simp: mybuff_skipfile_def file_left_def mb_ok_def mb_bytes_def split: if_splits option.splits)
      show ?thesis
        using f0 False 2 3 df' first g n(3,4) s sk
        by (intro that [of "if f' = 0 then SOCK_COMP else SOCK_SEND" mb3 cl "out1 @ [Sent_file lfd off (min (nat n2) f)]"])
          (auto simp: api_do_send_def d min_def)
    qed
  qed
qed

lemma send_phase:
  assumes "\<forall>r \<in> set sr. send_round r" and "left_after sr (length (mb_bytes (as_send s)), f) = (0, 0)"
    and "mb_bytes (as_send s) \<noteq> [] \<or> f \<noteq> 0" and "mb_ok (as_send s)" and "file_left (as_send s) lfd off f" and "0 \<le> off"
  shows "\<exists>sb cl out. api_loop env (sr @ rs) True s =
      api_loop env rs False (put_out out (s\<lparr>as_send := sb, as_closed := as_closed s @ cl\<rparr>)) \<and> mb_ok sb
    \<and> wire cont out = mb_bytes (as_send s) @ take f (drop (nat off) (cont lfd))"
  using assms
proof (induction sr arbitrary: s f off)
  case Nil
  then show ?case by simp
next
  case (Cons r sr)
  let ?d = "length (mb_bytes (as_send s))"
  obtain n1 e1 n2 e2 where r: "rd_send r = [(n1, e1)]" "rd_sendfile r = [(n2, e2)]" "0 < n1" "n1 < 2 ^ 64" "0 < n2" "n2 \<le> int GSIZE"
    "rd_select r > 0" "rd_write r" "\<not> rd_read r"
    using Cons.prems(1) by (auto simp: send_round_def)
  obtain d' f' where df: "(d', f') = (if nat n1 < ?d then (?d - nat n1, f) else (0, f - nat n2))" by (metis surj_pair)
  obtain ret mb' cl out where p: "api_do_send [(n1, e1)] [(n2, e2)] (as_send s) = Some (ret, mb', cl, out)"
    "ret = (if d' = 0 \<and> f' = 0 then SOCK_COMP else SOCK_SEND)" "mb_ok mb'"
    "mb_bytes mb' = drop (?d - d') (mb_bytes (as_send s))" "file_left mb' lfd (off + int (f - f')) f'"
    "wire cont out = take (?d - d') (mb_bytes (as_send s)) @ take (f - f') (drop (nat off) (cont lfd))"
    by (rule api_do_send_progress [OF Cons.prems(4-6) r(3-6) refl df])
  let ?s = "put_out out (s\<lparr>as_send := mb', as_closed := as_closed s @ cl\<rparr>)"
  have le: "d' \<le> ?d" "f' \<le> f" "f = f' \<or> d' = 0" using df by (auto split: if_splits)
  have step: "api_loop env ((r # sr) @ rs) True s = api_loop env (sr @ rs) (ret = SOCK_SEND) ?s"
    using r p(1,2) by (auto simp: api_round_step_def round_write_def)
  have len: "length (mb_bytes mb') = d'" using p(4) le by simp
  show ?case
  proof (cases "d' = 0 \<and> f' = 0")
    case True
    then show ?thesis
      using step p(2,3,6) api_idle_rounds [of sr env rs ?s] Cons.prems(1)
      by (intro exI [of _ mb'] exI [of _ cl] exI [of _ out]) auto
  next
    case False
    have "left_after sr (d', f') = (0, 0)" using Cons.prems(2) r(1,2) df by (simp add: Let_def)
    then obtain sb cl2 out2 where i: "api_loop env (sr @ rs) True ?s =
        api_loop env rs False (put_out out2 (?s\<lparr>as_send := sb, as_closed := as_closed ?s @ cl2\<rparr>))" "mb_ok sb"
      "wire cont out2 = mb_bytes mb' @ take f' (drop (nat (off + int (f - f'))) (cont lfd))"
      using Cons.IH [of ?s f' "off + int (f - f')"] Cons.prems(1,6) p(3,5) len False by (auto simp: put_out_def)
    have "put_out out2 (?s\<lparr>as_send := sb, as_closed := as_closed ?s @ cl2\<rparr>) =
        put_out (out @ out2) (s\<lparr>as_send := sb, as_closed := as_closed s @ cl @ cl2\<rparr>)"
      by (simp add: put_out_def)
    moreover have "wire cont (out @ out2) = mb_bytes (as_send s) @ take f (drop (nat off) (cont lfd))"
    proof (cases "f = f'")
      case True
      then show ?thesis using p(4,6) i(3) by (simp flip: append.assoc)
    next
      case False
      then have "d' = 0" "nat (off + int (f - f')) = nat off + (f - f')" using le Cons.prems(6) by auto
      moreover have "take f x = take (f - f') x @ take f' (drop (f - f') x)" for x :: bytes
        using take_add [of "f - f'" f' x] le by simp
      ultimately show ?thesis using p(4,6) i(3) len by (simp add: add.commute)
    qed
    ultimately show ?thesis using step p(2) False i(1,2) by (auto intro!: exI [of _ sb] exI [of _ "cl @ cl2"] exI [of _ "out @ out2"])
  qed
qed

subsection \<open>Receiving all of an answer\<close>

lemma parse_incomplete:
  assumes "buf @ r = create_sig_msg cmd st b n" and "unat n = length b" and "r \<noteq> []"
  shows "0 < fst (parse_sig_msg h0 b0 buf)"
proof (cases "length buf < SIG_HEADSIZE")
  case False
  then have "h_bodylen (head_of buf) = n"
    using head_of_append [of buf r] head_of_create [of cmd st b n "[]"] assms(1) by simp
  moreover have "length buf < SIG_HEADSIZE + unat n"
    using length_create_sig_msg [of n b cmd st] assms by (metis append_Nil2 le_refl length_append less_add_same_cancel1 length_greater_0_conv)
  ultimately show ?thesis by (simp add: parse_sig_msg_cases)
qed (simp add: parse_sig_msg_cases)

lemma parse_complete:
  assumes "unat n = length b"
  shows "parse_sig_msg zero_head [] (create_sig_msg cmd st b n) = (E_PRO_OK, \<lparr>h_bodylen = n, h_cmdid = cmd, h_status = st\<rparr>, b)"
  using assms head_of_create [of cmd st b n "[]"] length_create_sig_msg [of n b cmd st] drop_head_create [of n b cmd st]
  by (simp add: parse_sig_msg_cases memcpy_def)

lemma recv_phase:
  assumes "list_all2 recv_round bs ds" and "ds \<noteq> []" and "mb_ok (as_recv s)"
    and "mb_bytes (as_recv s) @ concat ds = create_sig_msg cmd st b n" and "unat n = length b"
  shows "\<exists>rb. mb_ok rb \<and> mb_bytes rb = create_sig_msg cmd st b n \<and>
    api_loop env (bs @ rs) False s =
      (case round_answer env False (s\<lparr>as_recv := rb\<rparr>) of (Inl e, s1) \<Rightarrow> Some (e, s1) | (Inr h, s1) \<Rightarrow> api_loop env rs h s1)"
  using assms
proof (induction bs arbitrary: ds s)
  case Nil
  then show ?case by simp
next
  case (Cons r bs)
  then obtain d ds' where d: "ds = d # ds'" "recv_round r d" "list_all2 recv_round bs ds'" by (cases ds) auto
  then obtain e where e: "rd_recv r = [(d, int (length d), e)]" "0 < length d" "length d < 2048" "rd_select r > 0" "rd_read r"
    by (auto simp: recv_round_def)
  define k where "k = unat n"
  have k: "k < 65536" by (simp add: k_def)
  have "length (mb_bytes (as_recv s)) + length d \<le> SIG_HEADSIZE + k"
    using arg_cong [OF Cons.prems(4), of length] d(1) length_create_sig_msg [of n b cmd st] Cons.prems(5) k_def by simp
  then have "length (mb_bytes (as_recv s)) + length d + 1 < 2 ^ 64" using k by simp
  then obtain rb where rb: "mybuff_setdata (\<lambda>_. True) 20480 (as_recv s) d = Some rb" "mb_ok rb" "mb_bytes rb = mb_bytes (as_recv s) @ d"
    using setdata_ok [OF Cons.prems(3), of d 20480 "\<lambda>_. True"] by auto
  let ?s = "s\<lparr>as_recv := rb\<rparr>"
  have step: "api_loop env ((r # bs) @ rs) False s =
      (case round_answer env False ?s of (Inl e, s1) \<Rightarrow> Some (e, s1) | (Inr h, s1) \<Rightarrow> api_loop env (bs @ rs) h s1)"
    using e rb(1) by (simp add: api_round_step_def round_write_def round_read_def api_do_recv_def split: prod.split sum.split)
  have all: "mb_bytes rb @ concat ds' = create_sig_msg cmd st b n" using Cons.prems(4) d(1) rb(3) by simp
  show ?case
  proof (cases "ds' = []")
    case True
    then have bs: "bs = []" using d(3) by simp
    show ?thesis using step all True rb(2) unfolding bs append_Cons append_Nil by (intro exI [of _ rb]) simp
  next
    case False
    then have "concat ds' \<noteq> []" using d(3) by (cases ds') (auto simp: list_all2_Cons2 recv_round_def)
    from parse_incomplete [OF all Cons.prems(5) this, of zero_head "[]"] have "round_answer env False ?s = (Inr False, ?s)"
      using getdata_bytes [OF rb(2)] by (auto simp: round_answer_def api_check_req_def case_prod_beta)
    then show ?thesis using step Cons.IH [OF d(3) False, of ?s] rb(2) all Cons.prems(5) by simp
  qed
qed

subsection \<open>Storing a file\<close>

text \<open>
  An exchange with a server: in the first rounds \<open>d\<close> bytes and \<open>f\<close> bytes of a file go out, in the pieces
  the socket takes, in the following ones \<open>answer\<close> arrives, in the pieces the network makes.
\<close>

definition exchange :: "api_round list \<Rightarrow> nat \<times> nat \<Rightarrow> bytes \<Rightarrow> bool" where
  "exchange rs df answer \<longleftrightarrow> (\<exists>sr rr ds. rs = sr @ rr \<and> (\<forall>r \<in> set sr. send_round r) \<and> left_after sr df = (0, 0)
     \<and> list_all2 recv_round rr ds \<and> concat ds = answer)"

definition name_request :: "t_api_info \<Rightarrow> bytes" where
  "name_request api =
     create_sig_msg (if a_type api = TASK_ADDFILE then UPLOAD_REQ else MODI_DEL_REQ)
       (if a_type api = TASK_ADDFILE then a_nametype api else a_addtype api) (bytes_of (a_group api)) (of_nat (length (a_group api)))"

lemma exchange_loop:
  assumes ex: "exchange rs (length D, f) (create_sig_msg cmd st b n)" and "unat n = length b"
    and "mb_ok (as_send s)" and "mb_bytes (as_send s) = D" and "D \<noteq> []" and "file_left (as_send s) lfd 0 f"
    and "mb_ok (as_recv s)" and "mb_bytes (as_recv s) = []"
  obtains sb rb cl out where "mb_ok sb" and "mb_ok rb" and "mb_bytes rb = create_sig_msg cmd st b n"
    and "wire cont out = D @ take f (cont lfd)"
    and "api_loop env (rs @ qs) True s =
      (case round_answer env False (put_out out (s\<lparr>as_send := sb, as_recv := rb, as_closed := as_closed s @ cl\<rparr>)) of
         (Inl e, s1) \<Rightarrow> Some (e, s1) | (Inr h, s1) \<Rightarrow> api_loop env qs h s1)"
proof -
  obtain sr rr ds where e: "rs = sr @ rr" "\<forall>r \<in> set sr. send_round r" "left_after sr (length D, f) = (0, 0)"
    "list_all2 recv_round rr ds" "concat ds = create_sig_msg cmd st b n"
    using ex by (auto simp: exchange_def)
  obtain sb cl out where 1: "api_loop env (sr @ rr @ qs) True s =
      api_loop env (rr @ qs) False (put_out out (s\<lparr>as_send := sb, as_closed := as_closed s @ cl\<rparr>))" "mb_ok sb"
    "wire cont out = D @ take f (cont lfd)"
    using send_phase [of sr s f lfd 0 env "rr @ qs" cont] e(2,3) assms(3-6) by auto
  let ?s = "put_out out (s\<lparr>as_send := sb, as_closed := as_closed s @ cl\<rparr>)"
  have "length (concat ds) \<ge> SIG_HEADSIZE" using e(5) length_create_sig_msg [of n b cmd st] assms(2) by simp
  then have ds: "ds \<noteq> []" by auto
  have s: "mb_ok (as_recv ?s)" "mb_bytes (as_recv ?s) @ concat ds = create_sig_msg cmd st b n"
    using assms(7,8) e(5) by (simp_all add: put_out_def)
  obtain rb where 2: "mb_ok rb" "mb_bytes rb = create_sig_msg cmd st b n"
    "api_loop env (rr @ qs) False ?s = (case round_answer env False (?s\<lparr>as_recv := rb\<rparr>) of
         (Inl e, s1) \<Rightarrow> Some (e, s1) | (Inr h, s1) \<Rightarrow> api_loop env qs h s1)"
    using recv_phase [OF e(4) ds s assms(2)] by blast
  have "?s\<lparr>as_recv := rb\<rparr> = put_out out (s\<lparr>as_send := sb, as_recv := rb, as_closed := as_closed s @ cl\<rparr>)"
    by (simp add: put_out_def)
  then show ?thesis using that [OF 1(2) 2(1,2) 1(3)] 1(1) 2(3) e(1) by simp
qed

lemma check_req_complete:
  assumes "mb_ok (as_recv s)" and "mb_bytes (as_recv s) = create_sig_msg cmd st b n" and "unat n = length b"
  shows "api_check_req s = (if as_stat s = GET_STORAGE then SOCK_SWITCH else SOCK_DATA_OVER,
     s\<lparr>as_result := memcpy (as_result s) b, as_undefined := as_undefined s \<or> length b > 2048\<rparr>)"
proof -
  have "create_sig_msg cmd st b n \<noteq> []" using length_create_sig_msg [of n b cmd st] assms(3) by auto
  then show ?thesis
    using getdata_bytes [OF assms(1)] assms(2) parse_complete [OF assms(3), of cmd st] by (simp add: api_check_req_def)
qed

text \<open>Texts in \<^verbatim>\<open>result\<close>.\<close>

lemma result_fresh:
  assumes "NUL \<notin> set t" and "as_result s = memcpy (replicate 2048 0) (bytes_of t)" and "length t < 2048"
  shows "result_text s = t"
proof -
  obtain k where "2048 - length t = Suc k" using assms(3) by (metis Suc_diff_Suc)
  then have "str_of (as_result s) = t @ NUL # replicate k NUL"
    using assms(2) by (simp add: memcpy_def str_of_append str_of_zeros str_of_zero)
  then show ?thesis using cstr_stop [OF assms(1)] by (simp add: result_text_def)
qed

lemma result_field:
  assumes "NUL \<notin> set t" and "as_result s = memcpy r (text_field 256 t)" and "length t < 256"
  shows "result_text s = t"
proof -
  obtain k where k: "256 - length t = Suc k" using assms(3) by (metis Suc_diff_Suc)
  then have "Suc (length t + k) = 256" using assms(3) by simp
  then have "str_of (as_result s) = t @ NUL # replicate k NUL @ str_of (drop 256 r)"
    using assms(2,3) k by (simp add: memcpy_def text_field_def str_of_append str_of_zeros str_of_zero)
  then show ?thesis using cstr_stop [OF assms(1)] by (simp add: result_text_def)
qed

lemma set_send_fresh:
  assumes "mb_ok (as_send s)" and "mb_bytes (as_send s) = []" and "length m < 2 ^ 32"
  shows "\<exists>sb. set_send m s = s\<lparr>as_send := sb\<rparr> \<and> mb_ok sb \<and> mb_bytes sb = m \<and> mb_fd sb = mb_fd (as_send s)"
proof -
  obtain sb where "mybuff_setdata (\<lambda>_. True) 20480 (as_send s) m = Some sb" "mb_ok sb" "mb_bytes sb = m"
    using setdata_ok [OF assms(1), of m 20480 "\<lambda>_. True"] assms(2,3) by auto
  moreover from this(1) have "mb_fd sb = mb_fd (as_send s)"
    by (auto simp: mybuff_setdata_def Let_def split: if_splits option.splits)
  ultimately show ?thesis by (auto simp: set_send_def)
qed

lemma reinit_buffs_clean:
  assumes "mb_ok (as_send s)" and "mb_ok (as_recv s)"
  shows "\<exists>sb rb cl. reinit_buffs s = s\<lparr>as_send := sb, as_recv := rb, as_closed := as_closed s @ cl\<rparr> \<and> mb_ok sb \<and> mb_ok rb
    \<and> mb_bytes sb = [] \<and> mb_bytes rb = [] \<and> mb_fd sb < 0"
proof -
  have "mb_bytes (fst (mybuff_reinit (\<lambda>_. True) 20480 mb)) = []" "mb_fd (fst (mybuff_reinit (\<lambda>_. True) 20480 mb)) < 0" for mb
    by (auto simp: mybuff_reinit_def mb_bytes_def Let_def split: option.split)
  moreover have "mb_ok (fst (mybuff_reinit (\<lambda>_. True) 20480 (as_send s)))" "mb_ok (fst (mybuff_reinit (\<lambda>_. True) 20480 (as_recv s)))"
    using reinit_ok assms by simp_all
  ultimately show ?thesis
    by (intro exI [of _ "fst (mybuff_reinit (\<lambda>_. True) 20480 (as_send s))"] exI [of _ "fst (mybuff_reinit (\<lambda>_. True) 20480 (as_recv s))"]
        exI [of _ "snd (mybuff_reinit (\<lambda>_. True) 20480 (as_send s)) @ snd (mybuff_reinit (\<lambda>_. True) 20480 (as_recv s))"])
      (simp add: reinit_buffs_def case_prod_beta)
qed

text \<open>The first request.\<close>

lemma create_name_request:
  assumes "as_stat s = GET_STORAGE" and "mb_ok (as_send s)" and "mb_ok (as_recv s)" and "length (a_group (as_api s)) < 128"
  shows "\<exists>sb rb cl. create_req_msg env s = (0, s\<lparr>as_send := sb, as_recv := rb, as_closed := as_closed s @ cl\<rparr>) \<and> mb_ok sb \<and> mb_ok rb
    \<and> mb_bytes sb = name_request (as_api s) \<and> mb_bytes rb = [] \<and> mb_fd sb < 0"
proof -
  obtain sb rb cl where r: "reinit_buffs s = s\<lparr>as_send := sb, as_recv := rb, as_closed := as_closed s @ cl\<rparr>" "mb_ok sb" "mb_ok rb"
    "mb_bytes sb = []" "mb_bytes rb = []" "mb_fd sb < 0"
    using reinit_buffs_clean [OF assms(2,3)] by blast
  let ?s = "s\<lparr>as_send := sb, as_recv := rb, as_closed := as_closed s @ cl\<rparr>"
  have "length (name_request (as_api s)) \<le> 132"
    using assms(4) by (auto simp: name_request_def create_sig_msg_def Let_def)
  then obtain sb' where "set_send (name_request (as_api s)) ?s = ?s\<lparr>as_send := sb'\<rparr>" "mb_ok sb'" "mb_bytes sb' = name_request (as_api s)"
    "mb_fd sb' < 0"
    using set_send_fresh [of ?s "name_request (as_api s)"] r by auto
  moreover have "create_req_msg env s = (0, set_send (name_request (as_api s)) ?s)"
    using r(1) assms(1) by (simp add: create_req_msg_def name_request_def Let_def)
  ultimately show ?thesis using r(3,5) by (intro exI [of _ sb'] exI [of _ rb] exI [of _ cl]) simp
qed

text \<open>The request to the storage server, followed by the file.\<close>

lemma create_put_request:
  assumes "as_stat s = PUT_DATA" and "mb_ok (as_send s)" and "mb_ok (as_recv s)"
    and "req_base env (as_api s) = Some (base, add)" and "a_type (as_api s) \<noteq> TASK_DELFILE" and "0 \<le> ae_open env (a_localfile (as_api s))"
    and "length (enc_base base) = SIZEOF_BASE" and "m = create_sig_msg CMD_PUT_FILE_REQ add (enc_base base) (of_nat SIZEOF_BASE)"
    and "lfd = ae_open env (a_localfile (as_api s))" and "0 < b_fsize base"
  shows "\<exists>sb rb cl. create_req_msg env s = (0, upd_api (\<lambda>a. a\<lparr>a_addtype := add\<rparr>) (s\<lparr>as_send := sb, as_recv := rb, as_closed := as_closed s @ cl\<rparr>))
    \<and> mb_ok sb \<and> mb_ok rb \<and> mb_bytes sb = m \<and> mb_bytes rb = [] \<and> file_left sb lfd 0 (nat (b_fsize base))"
proof -
  obtain sb rb cl where r: "reinit_buffs s = s\<lparr>as_send := sb, as_recv := rb, as_closed := as_closed s @ cl\<rparr>" "mb_ok sb" "mb_ok rb"
    "mb_bytes sb = []" "mb_bytes rb = []" "mb_fd sb < 0"
    using reinit_buffs_clean [OF assms(2,3)] by blast
  let ?s = "upd_api (\<lambda>a. a\<lparr>a_addtype := add\<rparr>) (s\<lparr>as_send := sb, as_recv := rb, as_closed := as_closed s @ cl\<rparr>)"
  have "length m = 828" using assms(7,8) length_create_sig_msg [of "of_nat SIZEOF_BASE" "enc_base base" CMD_PUT_FILE_REQ add] by simp
  then obtain sb' where sb': "set_send m ?s = ?s\<lparr>as_send := sb'\<rparr>" "mb_ok sb'" "mb_bytes sb' = m" "mb_fd sb' < 0"
    using set_send_fresh [of ?s m] r by (auto simp: upd_api_def)
  let ?sb = "sb'\<lparr>mb_fd := lfd, mb_foffset := 0, mb_flen := nat (b_fsize base)\<rparr>"
  have "mb_ok ?sb" "mb_bytes ?sb = m" "file_left ?sb lfd 0 (nat (b_fsize base))"
    using sb'(2,3) assms(6,9,10) by (auto simp: mb_ok_def mb_bytes_def file_left_def split: option.splits)
  moreover have "create_req_msg env s = (0, ?s\<lparr>as_send := ?sb\<rparr>)"
    using assms(1,4-6,8,9) r(1) sb'(1,4)
    by (simp add: create_req_msg_def Let_def mybuff_setfile_def)
  ultimately show ?thesis using r(3,5) by (intro exI [of _ ?sb] exI [of _ rb] exI [of _ cl]) (simp add: upd_api_def)
qed

text \<open>
  The preconditions of storing: the file can be read and opened and is described by \<open>base\<close>, the request is
  complete, no storage server is cached, and both connections are made.
\<close>

definition can_put :: "api_env \<Rightarrow> string \<Rightarrow> int \<Rightarrow> string \<Rightarrow> nat \<Rightarrow> t_task_base \<Rightarrow> uint8 \<Rightarrow> bytes \<Rightarrow> api_state \<Rightarrow> bool" where
  "can_put env nameip nameport ip port base add c s \<longleftrightarrow>
     (let api = as_api s in
      (a_type api = TASK_ADDFILE \<or> a_type api = TASK_MODYFILE \<and> a_remotefile api \<noteq> [] \<and> a_group api \<noteq> []) \<and>
      a_localfile api \<noteq> [] \<and> length (a_group api) < 128 \<and> \<not> as_cache_flag s \<and>
      req_base env api = Some (base, add) \<and> b_fsize base = int (length c) \<and> length (b_filemd5 base) = 17 \<and>
      0 \<le> ae_open env (a_localfile api)) \<and>
     0 \<le> ae_connect env nameip nameport \<and> 0 \<le> ae_connect env ip (int port) \<and> (nameip, nameport) \<noteq> (ip, int port) \<and>
     NUL \<notin> set ip \<and> CHR '':'' \<notin> set ip \<and> length ip < 16 \<and> port < 65536"

lemma req_base_size: "req_base env api = Some (base, add) \<Longrightarrow> a_type api \<noteq> TASK_DELFILE \<Longrightarrow> b_fsize base \<noteq> 0"
  by (auto simp: req_base_def Let_def split: if_splits option.splits)

lemma enc_base_size: "length (b_filemd5 b) = 17 \<Longrightarrow> length (enc_base b) = SIZEOF_BASE"
  by (simp add: enc_base_def)

definition addr_text :: "string \<Rightarrow> nat \<Rightarrow> string" where
  "addr_text ip port = ip @ '':'' @ dec port"

lemma addr_text_facts:
  assumes "NUL \<notin> set ip" and "CHR '':'' \<notin> set ip" and "length ip < 16" and "port < 65536"
  shows "NUL \<notin> set (addr_text ip port)" "length (addr_text ip port) < 100"
    "strchr CHR '':'' (addr_text ip port) = Some (ip, dec port)" "atoi (dec port) = int port"
    "unat (of_nat (length (addr_text ip port)) :: uint16) = length (addr_text ip port)"
proof -
  have "NUL \<notin> set (dec port)" using dec_digits [of NUL port] by (auto simp: isdigit_def NUL_def)
  then show "NUL \<notin> set (addr_text ip port)" using assms(1) by (auto simp: addr_text_def NUL_def)
  have "length (dec port) \<le> 5" by (rule length_dec_le) (use assms(4) in simp_all)
  then show l: "length (addr_text ip port) < 100" using assms(3) by (simp add: addr_text_def)
  show "strchr CHR '':'' (addr_text ip port) = Some (ip, dec port)" using assms(2) by (simp add: addr_text_def strchr_Some_iff)
  show "atoi (dec port) = int port" by (rule atoi_dec) (use assms(4) in simp)
  show "unat (of_nat (length (addr_text ip port)) :: uint16) = length (addr_text ip port)"
    using l by (simp add: unat_of_nat take_bit_nat_eq_self)
qed

lemma switch_answer:
  assumes c: "can_put env nameip nameport ip port base add c s0" and s: "as_api s = as_api s0" "\<not> as_cache_flag s"
    and st: "as_stat s = GET_STORAGE" and ok: "mb_ok (as_send s)" "mb_ok (as_recv s)" and r: "as_result s = replicate 2048 0"
    and b: "mb_bytes (as_recv s) = create_sig_msg cmd sta (bytes_of (addr_text ip port)) (of_nat (length (addr_text ip port)))"
    and m: "m = create_sig_msg CMD_PUT_FILE_REQ add (enc_base base) (of_nat SIZEOF_BASE)"
  shows "\<exists>sb rb cl res. round_answer env h s = (Inr True, upd_api (\<lambda>a. a\<lparr>a_addtype := add\<rparr>)
      (s\<lparr>as_stat := PUT_DATA, as_fd := ae_connect env ip (int port), as_addr := (ip, int port), as_send := sb, as_recv := rb,
         as_result := res, as_closed := as_closed s @ as_fd s # cl\<rparr>))
    \<and> mb_ok sb \<and> mb_ok rb \<and> mb_bytes sb = m \<and> mb_bytes rb = [] \<and> file_left sb (ae_open env (a_localfile (as_api s0))) 0 (length c)"
proof -
  note a = addr_text_facts [of ip port]
  have p: "NUL \<notin> set ip" "CHR '':'' \<notin> set ip" "length ip < 16" "port < 65536" "0 \<le> ae_connect env ip (int port)"
    "req_base env (as_api s) = Some (base, add)" "a_type (as_api s) \<noteq> TASK_DELFILE" "0 \<le> ae_open env (a_localfile (as_api s))"
    "length (b_filemd5 base) = 17" "b_fsize base = int (length c)"
    using c s(1) by (auto simp: can_put_def Let_def)
  note a = addr_text_facts [OF p(1-4)]
  let ?t = "addr_text ip port"
  let ?s1 = "s\<lparr>as_result := memcpy (replicate 2048 0) (bytes_of ?t)\<rparr>"
  let ?s2 = "(close_conn ?s1)\<lparr>as_stat := PUT_DATA\<rparr>"
  have 1: "api_check_req s = (SOCK_SWITCH, ?s1)"
    using check_req_complete [OF ok(2) b] a(2,5) st r by simp
  have z: "0 < b_fsize base" "nat (b_fsize base) = length c" using req_base_size [OF p(6,7)] p(10) by simp_all
  have q: "as_stat ?s2 = PUT_DATA" "mb_ok (as_send ?s2)" "mb_ok (as_recv ?s2)" "as_api ?s2 = as_api s" using ok by (simp_all add: close_conn_def)
  obtain sb rb cl where 2: "create_req_msg env ?s2 =
      (0, upd_api (\<lambda>a. a\<lparr>a_addtype := add\<rparr>) (?s2\<lparr>as_send := sb, as_recv := rb, as_closed := as_closed ?s2 @ cl\<rparr>))"
    "mb_ok sb" "mb_ok rb" "mb_bytes sb = m" "mb_bytes rb = []" "file_left sb (ae_open env (a_localfile (as_api s))) 0 (length c)"
    using create_put_request [OF q(1-3) p(6-8) [folded q(4)] enc_base_size [OF p(9)] m refl z(1)] unfolding q(4) z(2) by blast
  let ?s3 = "upd_api (\<lambda>a. a\<lparr>a_addtype := add\<rparr>) (?s2\<lparr>as_send := sb, as_recv := rb, as_closed := as_closed ?s2 @ cl\<rparr>)"
  have "result_text ?s3 = ?t" by (rule result_fresh) (use a(1,2) in \<open>auto simp: upd_api_def close_conn_def\<close>)
  then have "connect_storage env ?s3 = (ae_connect env ip (int port),
      ?s3\<lparr>as_result := (as_result ?s3)[length ip := 0], as_addr := (ip, int port)\<rparr>)"
    using a(3,4) s(2) by (simp add: connect_storage_def Let_def upd_api_def close_conn_def)
  then have "round_answer env h s = (Inr True, ?s3\<lparr>as_result := (as_result ?s3)[length ip := 0], as_addr := (ip, int port),
      as_fd := ae_connect env ip (int port)\<rparr>)"
    using 1 2(1) p(5) by (simp add: round_answer_def switch_storage_def Let_def)
  then show ?thesis
    using 2(2-6) s(1)
    by (intro exI [of _ sb] exI [of _ rb] exI [of _ cl] exI [of _ "(as_result ?s3)[length ip := 0]"]) (simp add: upd_api_def close_conn_def)
qed

definition ok_text :: "string \<Rightarrow> string \<Rightarrow> string" where
  "ok_text name d = ''OK|'' @ name @ ''|'' @ d"

lemma final_answer:
  assumes "as_stat s = PUT_DATA" and "mb_ok (as_recv s)" and "mb_bytes (as_recv s) = create_sig_msg cmd sta (text_field 256 (ok_text name d)) 256"
    and "NUL \<notin> set name" and "NUL \<notin> set d" and "length (ok_text name d) < 256"
  shows "\<exists>res. round_answer env h s = (Inl SOCK_DATA_OVER, upd_api (\<lambda>a. a\<lparr>a_errmsg := ok_text name d\<rparr>) (s\<lparr>as_result := res\<rparr>))"
proof -
  let ?b = "text_field 256 (ok_text name d)"
  have 1: "api_check_req s = (SOCK_DATA_OVER, s\<lparr>as_result := memcpy (as_result s) ?b\<rparr>)"
    using check_req_complete [OF assms(2,3)] assms(1) by simp
  have "NUL \<notin> set (ok_text name d)" using assms(4,5) by (auto simp: ok_text_def NUL_def)
  then have "result_text (s\<lparr>as_result := memcpy (as_result s) ?b\<rparr>) = ok_text name d"
    using result_field [of "ok_text name d" "s\<lparr>as_result := memcpy (as_result s) ?b\<rparr>" "as_result s"] assms(6) by simp
  then show ?thesis using 1 assms(6)
    by (auto simp: round_answer_def set_err_def upd_api_def snprintf_s_fits)
qed

lemma up_err_ok:
  assumes "a_errmsg (as_api s) = ok_text name d" and "take 1 name = ''/''" and "CHR ''|'' \<notin> set name" and "length d < 128"
  shows "\<exists>cl. up_err SOCK_DATA_OVER s = (PFS_OK, upd_api (\<lambda>a. a\<lparr>a_remotefile := ''/'' @ dropWhile (\<lambda>c. c = CHR ''/'') name, a_group := d\<rparr>)
     (s\<lparr>as_closed := cl\<rparr>))"
proof -
  have "strchr CHR ''|'' (name @ CHR ''|'' # d) = Some (name, d)" using assms(3) by (simp add: strchr_append)
  then have "check_rsp_from_storage s' = (0, upd_api (\<lambda>a. a\<lparr>a_remotefile := ''/'' @ dropWhile (\<lambda>c. c = CHR ''/'') name, a_group := d\<rparr>) s')"
    if "as_api s' = as_api s" for s'
    using assms(1,2,4) that by (simp add: check_rsp_from_storage_def Let_def ok_text_def upd_api_def)
  then show ?thesis by (simp add: up_err_def close_conn_def Let_def) blast
qed

lemma sent_to_put_out:
  "sent_to addr (put_out out s) = sent_to addr s @ (if addr = as_addr s then out else [])"
  by (auto simp: sent_to_def put_out_def filter_map o_def)

lemma sent_to_cong: "as_out s = as_out s' \<Longrightarrow> sent_to addr s = sent_to addr s'"
  by (simp add: sent_to_def)

lemma name_exchange:
  assumes c: "can_put env nameip nameport ip port base add c s" and o: "as_out s = []"
    and e1: "exchange rs1 (length (name_request (as_api s)), 0)
        (create_sig_msg cmd1 st1 (bytes_of (addr_text ip port)) (of_nat (length (addr_text ip port))))"
  obtains s' where "upload_file_inter env nameip nameport (rs1 @ qs) s = map_option (\<lambda>(ret, s1). up_err ret s1) (api_loop env qs True s')"
    and "as_stat s' = PUT_DATA" and "as_addr s' = (ip, int port)" and "mb_ok (as_send s')" and "mb_ok (as_recv s')" and "mb_bytes (as_recv s') = []"
    and "mb_bytes (as_send s') = create_sig_msg CMD_PUT_FILE_REQ add (enc_base base) (of_nat SIZEOF_BASE)"
    and "file_left (as_send s') (ae_open env (a_localfile (as_api s))) 0 (length c)"
    and "wire cont (sent_to (nameip, nameport) s') = name_request (as_api s)" and "sent_to (ip, int port) s' = []"
    and "as_undefined s' = as_undefined s"
proof -
  have p: "NUL \<notin> set ip" "CHR '':'' \<notin> set ip" "length ip < 16" "port < 65536" "length (a_group (as_api s)) < 128"
    "\<not> as_cache_flag s" "0 \<le> ae_connect env nameip nameport" "(nameip, nameport) \<noteq> (ip, int port)"
    using c by (auto simp: can_put_def Let_def)
  note a = addr_text_facts [OF p(1-4)]
  define s1 where "s1 = s\<lparr>as_stat := GET_STORAGE, as_fd := ae_connect env nameip nameport, as_addr := (nameip, nameport),
    as_send := mybuff_init, as_recv := mybuff_init, as_result := replicate 2048 0\<rparr>"
  have q1: "as_stat s1 = GET_STORAGE" "mb_ok (as_send s1)" "mb_ok (as_recv s1)" "as_api s1 = as_api s" by (simp_all add: s1_def)
  obtain sb rb cl where r: "create_req_msg env s1 = (0, s1\<lparr>as_send := sb, as_recv := rb, as_closed := as_closed s1 @ cl\<rparr>)" "mb_ok sb" "mb_ok rb"
    "mb_bytes sb = name_request (as_api s)" "mb_bytes rb = []" "mb_fd sb < 0"
    using create_name_request [OF q1(1-3)] p(5) unfolding q1(4) by blast
  define s2 where "s2 = s1\<lparr>as_send := sb, as_recv := rb, as_closed := as_closed s1 @ cl\<rparr>"
  have q2: "mb_ok (as_send s2)" "mb_bytes (as_send s2) = name_request (as_api s)" "name_request (as_api s) \<noteq> []"
    "file_left (as_send s2) 0 0 0" "mb_ok (as_recv s2)" "mb_bytes (as_recv s2) = []"
    using r by (simp_all add: s2_def file_left_def name_request_def create_sig_msg_def be16_def Let_def)
  obtain sb2 rb2 cl2 out1 where l1: "mb_ok sb2" "mb_ok rb2"
    "mb_bytes rb2 = create_sig_msg cmd1 st1 (bytes_of (addr_text ip port)) (of_nat (length (addr_text ip port)))"
    "wire cont out1 = name_request (as_api s) @ take 0 (cont 0)"
    "api_loop env (rs1 @ qs) True s2 =
      (case round_answer env False (put_out out1 (s2\<lparr>as_send := sb2, as_recv := rb2, as_closed := as_closed s2 @ cl2\<rparr>)) of
         (Inl e, s1) \<Rightarrow> Some (e, s1) | (Inr h, s1) \<Rightarrow> api_loop env qs h s1)"
    by (rule exchange_loop [OF e1 _ q2]) (use a(5) in simp)
  define s3 where "s3 = put_out out1 (s2\<lparr>as_send := sb2, as_recv := rb2, as_closed := as_closed s2 @ cl2\<rparr>)"
  have q3: "as_api s3 = as_api s" "\<not> as_cache_flag s3" "as_stat s3 = GET_STORAGE" "mb_ok (as_send s3)" "mb_ok (as_recv s3)"
    "as_result s3 = replicate 2048 0" "mb_bytes (as_recv s3) = create_sig_msg cmd1 st1 (bytes_of (addr_text ip port)) (of_nat (length (addr_text ip port)))"
    "sent_to (nameip, nameport) s3 = out1" "sent_to (ip, int port) s3 = []" "as_undefined s3 = as_undefined s"
    using l1 p(6,8) o by (simp_all add: s3_def put_out_def s2_def s1_def sent_to_def filter_map o_def)
  have up: "upload_file_inter env nameip nameport (rs1 @ qs) s = map_option (\<lambda>(ret, s3). up_err ret s3) (api_loop env (rs1 @ qs) True s2)"
    using p(6,7) r(1) by (simp add: upload_file_inter_def first_connect_def s1_def s2_def Let_def)
  obtain sb3 rb3 cl3 res where sw: "round_answer env False s3 = (Inr True, upd_api (\<lambda>a. a\<lparr>a_addtype := add\<rparr>)
      (s3\<lparr>as_stat := PUT_DATA, as_fd := ae_connect env ip (int port), as_addr := (ip, int port), as_send := sb3, as_recv := rb3,
         as_result := res, as_closed := as_closed s3 @ as_fd s3 # cl3\<rparr>))"
    "mb_ok sb3" "mb_ok rb3" "mb_bytes sb3 = create_sig_msg CMD_PUT_FILE_REQ add (enc_base base) (of_nat SIZEOF_BASE)" "mb_bytes rb3 = []"
    "file_left sb3 (ae_open env (a_localfile (as_api s))) 0 (length c)"
    using switch_answer [OF c q3(1-7) refl] by blast
  show ?thesis
    by (rule that [of "snd (round_answer env False s3)"])
      (use up l1(4,5) sw q3(8-10) in \<open>simp_all add: s3_def [symmetric] upd_api_def sent_to_def\<close>)
qed

lemma storage_exchange:
  assumes e2: "exchange rs2 (length m, length c) (create_sig_msg cmd2 st2 (text_field 256 (ok_text name d)) 256)"
    and s: "as_stat s = PUT_DATA" "mb_ok (as_send s)" "mb_ok (as_recv s)" "mb_bytes (as_recv s) = []" "mb_bytes (as_send s) = m" "m \<noteq> []"
    and f: "file_left (as_send s) lfd 0 (length c)" "cont lfd = c"
    and t: "NUL \<notin> set name" "NUL \<notin> set d" "length (ok_text name d) < 256"
  obtains s' where "api_loop env (rs2 @ qs) True s = Some (SOCK_DATA_OVER, s')" and "a_errmsg (as_api s') = ok_text name d"
    and "wire cont (sent_to (as_addr s) s') = wire cont (sent_to (as_addr s) s) @ m @ c"
    and "\<forall>addr. addr \<noteq> as_addr s \<longrightarrow> sent_to addr s' = sent_to addr s" and "as_undefined s' = as_undefined s"
proof -
  obtain sb rb cl out where l: "mb_ok rb" "mb_bytes rb = create_sig_msg cmd2 st2 (text_field 256 (ok_text name d)) 256"
    "wire cont out = m @ take (length c) (cont lfd)"
    "api_loop env (rs2 @ qs) True s =
      (case round_answer env False (put_out out (s\<lparr>as_send := sb, as_recv := rb, as_closed := as_closed s @ cl\<rparr>)) of
         (Inl e, s1) \<Rightarrow> Some (e, s1) | (Inr h, s1) \<Rightarrow> api_loop env qs h s1)"
    by (rule exchange_loop [OF e2 _ s(2,5,6) f(1) s(3,4)]) simp
  define s1 where "s1 = put_out out (s\<lparr>as_send := sb, as_recv := rb, as_closed := as_closed s @ cl\<rparr>)"
  have q: "as_stat s1 = PUT_DATA" "mb_ok (as_recv s1)" "mb_bytes (as_recv s1) = create_sig_msg cmd2 st2 (text_field 256 (ok_text name d)) 256"
    using l(1,2) s(1) by (simp_all add: s1_def put_out_def)
  obtain res where r: "round_answer env False s1 = (Inl SOCK_DATA_OVER, upd_api (\<lambda>a. a\<lparr>a_errmsg := ok_text name d\<rparr>) (s1\<lparr>as_result := res\<rparr>))"
    using final_answer [OF q t] by blast
  have o: "as_undefined s1 = as_undefined s" "as_addr s1 = as_addr s" "sent_to addr s1 = sent_to addr s @ (if addr = as_addr s then out else [])" for addr
    by (auto simp: s1_def put_out_def sent_to_def filter_map o_def)
  show ?thesis
    by (rule that [of "snd (round_answer env False s1)"])
      (use r l(3,4) f(2) o in \<open>simp_all add: s1_def [symmetric] upd_api_def sent_to_def\<close>)
qed

text \<open>
  A client's file reaches the storage server that the name server names.  However the sockets take and
  the network cuts the data, the client sends the name server its request and nothing else, and
  the storage server the description of the file and then exactly its contents; it returns success, with the
  name and the domain of the answer.
\<close>

lemma client_puts_file:
  assumes c: "can_put env nameip nameport ip port base add c s" and o: "as_out s = []"
    and e1: "exchange rs1 (length (name_request (as_api s)), 0)
        (create_sig_msg cmd1 st1 (bytes_of (addr_text ip port)) (of_nat (length (addr_text ip port))))"
    and e2: "exchange rs2 (SIG_HEADSIZE + SIZEOF_BASE, length c) (create_sig_msg cmd2 st2 (text_field 256 (ok_text name d)) 256)"
    and name: "take 1 name = ''/''" "NUL \<notin> set name" "CHR ''|'' \<notin> set name" and d: "NUL \<notin> set d" "length d < 128"
    and fits: "length (ok_text name d) < 256" and cont: "cont (ae_open env (a_localfile (as_api s))) = c"
  shows "\<exists>s'. operate_pfs env nameip nameport (rs1 @ rs2 @ qs) s = Some (PFS_OK, s')
    \<and> wire cont (sent_to (nameip, nameport) s') = name_request (as_api s)
    \<and> wire cont (sent_to (ip, int port) s') = create_sig_msg CMD_PUT_FILE_REQ add (enc_base base) (of_nat SIZEOF_BASE) @ c
    \<and> a_remotefile (as_api s') = ''/'' @ dropWhile (\<lambda>x. x = CHR ''/'') name \<and> a_group (as_api s') = d
    \<and> as_undefined s' = as_undefined s"
proof -
  let ?m = "create_sig_msg CMD_PUT_FILE_REQ add (enc_base base) (of_nat SIZEOF_BASE)"
  have p: "(nameip, nameport) \<noteq> (ip, int port)" "length (b_filemd5 base) = 17" using c by (auto simp: can_put_def Let_def)
  have len: "length ?m = SIG_HEADSIZE + SIZEOF_BASE" "?m \<noteq> []"
    using enc_base_size [OF p(2)] length_create_sig_msg [of "of_nat SIZEOF_BASE" "enc_base base"]
    by (simp_all add: create_sig_msg_def be16_def Let_def)
  obtain s1 where 1: "upload_file_inter env nameip nameport (rs1 @ rs2 @ qs) s = map_option (\<lambda>(ret, s). up_err ret s) (api_loop env (rs2 @ qs) True s1)"
    "as_stat s1 = PUT_DATA" "as_addr s1 = (ip, int port)" "mb_ok (as_send s1)" "mb_ok (as_recv s1)" "mb_bytes (as_recv s1) = []"
    "mb_bytes (as_send s1) = ?m" "file_left (as_send s1) (ae_open env (a_localfile (as_api s))) 0 (length c)"
    "wire cont (sent_to (nameip, nameport) s1) = name_request (as_api s)" "sent_to (ip, int port) s1 = []" "as_undefined s1 = as_undefined s"
    by (rule name_exchange [OF c o e1])
  obtain s2 where 2: "api_loop env (rs2 @ qs) True s1 = Some (SOCK_DATA_OVER, s2)" "a_errmsg (as_api s2) = ok_text name d"
    "wire cont (sent_to (as_addr s1) s2) = wire cont (sent_to (as_addr s1) s1) @ ?m @ c"
    "\<forall>addr. addr \<noteq> as_addr s1 \<longrightarrow> sent_to addr s2 = sent_to addr s1" "as_undefined s2 = as_undefined s1"
    by (rule storage_exchange [where env = env and qs = qs and cont = cont and lfd = "ae_open env (a_localfile (as_api s))", OF e2 [folded len(1)] 1(2,4-7) len(2) 1(8) cont name(2) d(1) fits])
  obtain cl where u: "up_err SOCK_DATA_OVER s2 = (PFS_OK,
      upd_api (\<lambda>a. a\<lparr>a_remotefile := ''/'' @ dropWhile (\<lambda>c. c = CHR ''/'') name, a_group := d\<rparr>) (s2\<lparr>as_closed := cl\<rparr>))"
    using up_err_ok [OF 2(2) name(1,3) d(2)] by blast
  have "operate_pfs env nameip nameport (rs1 @ rs2 @ qs) s = upload_file_inter env nameip nameport (rs1 @ rs2 @ qs) s"
    using c by (auto simp: operate_pfs_def can_put_def Let_def)
  then show ?thesis using 1 2 u p(1) by (simp add: upd_api_def sent_to_def)
qed

definition example_ae :: api_env where
  "example_ae = \<lparr>ae_store = example_store\<lparr>fs_files := [''/7/42/c.jpg'' \<mapsto> [1, 2, 3]]\<rparr>, ae_open = (\<lambda>_. 7),
     ae_connect = (\<lambda>_ _. 5), ae_now = 1000\<rparr>"

definition example_api :: api_state where
  "example_api = \<lparr>as_stat = GET_STORAGE, as_cache_flag = False, as_cache = zero_cache,
     as_api = \<lparr>a_errmsg = [], a_localfile = ''/7/42/c.jpg'', a_remotefile = [], a_group = ''img'', a_type = TASK_ADDFILE,
       a_addtype = API_PATH_BY_UPLOAD, a_nametype = 0\<rparr>,
     as_fd = -1, as_addr = ([], 0), as_send = mybuff_init, as_recv = mybuff_init, as_result = [], as_out = [], as_closed = [],
     as_undefined = False\<rparr>"

definition example_send :: api_round where
  "example_send = \<lparr>rd_select = 1, rd_write = True, rd_read = False, rd_send = [(500, EAGAIN)], rd_sendfile = [(1, EAGAIN)], rd_recv = []\<rparr>"

definition example_recv :: "bytes \<Rightarrow> api_round" where
  "example_recv d = \<lparr>rd_select = 1, rd_write = False, rd_read = True, rd_send = [], rd_sendfile = [], rd_recv = [(d, int (length d), EAGAIN)]\<rparr>"

text \<open>
  A send that fails is taken for one that succeeded.  The result of \<^verbatim>\<open>send\<close> is kept in an unsigned
  variable, so \<open>-1\<close> is the largest number: the code that handles errors and a socket that is not ready is never reached, the
  pending request is dropped although nothing of it was sent, and the client waits for the answer until \<^verbatim>\<open>select\<close> times out.
\<close>

theorem failed_send_taken_as_sent:
  assumes "mb_ok (as_send s)" and "mb_bytes (as_send s) \<noteq> []" and "mb_fd (as_send s) < 0"
    and "rd_select r > 0" and "rd_write r" and "\<not> rd_read r" and "rd_send r = (-1, e) # es" and "rd_select r' = 0"
  shows "\<exists>s'. api_loop env [r, r'] True s = Some (SOCK_SELECT_TO, s') \<and> as_out s' = as_out s \<and> mb_bytes (as_send s') = []"
proof -
  have n: "size_of_ret (-1) = 2 ^ 64 - 1" by (simp add: size_of_ret_def)
  define sb where "sb = mybuff_skipdata (as_send s) (2 ^ 64 - 1)"
  have l: "length (mb_bytes (as_send s)) < 2 ^ 64" using assms(1) by (auto simp: mb_ok_def mb_bytes_def split: option.splits)
  have "mybuff_getfile sb = None" using assms(3) by (simp add: sb_def mybuff_getfile_def mybuff_skipdata_def split: option.split)
  then have d: "api_do_send (rd_send r) (rd_sendfile r) (as_send s) = Some (SOCK_COMP, sb, [], [])"
    using getdata_bytes [OF assms(1)] assms(2,7) l n by (simp add: api_do_send_def sb_def)
  have "mb_bytes sb = []" using skipdata_bytes [OF assms(1)] l by (simp add: sb_def)
  then show ?thesis using d assms(4-6,8)
    by (simp add: api_round_step_def round_write_def put_out_def set_err_def upd_api_def)
qed

theorem failed_send_taken_as_sent_witness:
  "\<exists>s'. api_loop example_ae [example_send\<lparr>rd_send := [(-1, EAGAIN)]\<rparr>, example_send\<lparr>rd_select := 0\<rparr>] True
       (example_api\<lparr>as_send := mybuff_init\<lparr>mb_data := Some [1], mb_size := 20480, mb_len := 1\<rparr>\<rparr>) = Some (SOCK_SELECT_TO, s')
     \<and> as_out s' = [] \<and> mb_bytes (as_send s') = []"
  using failed_send_taken_as_sent [of "example_api\<lparr>as_send := mybuff_init\<lparr>mb_data := Some [1], mb_size := 20480, mb_len := 1\<rparr>\<rparr>"
      "example_send\<lparr>rd_send := [(-1, EAGAIN)]\<rparr>" EAGAIN "[]" "example_send\<lparr>rd_select := 0\<rparr>" example_ae]
  by (simp add: example_send_def example_api_def mybuff_init_def mb_ok_def mb_bytes_def)

end
