(* ===== verification/Pfs_Params.thy ===== *)
theory Pfs_Params
  imports Pfs_Prelude
begin

section \<open>Lists of parameters (network/parsepara.c)\<close>

text \<open>
  The commands that an operator sends to a server are texts \<^verbatim>\<open>name=value&name=value\<close>, in which the three
  characters \<^verbatim>\<open>= & %\<close> of a value are written as \<^verbatim>\<open>%\<close> and two hexadecimal digits.  A \<^verbatim>\<open>StringPairList\<close> is an
  array of pairs of texts, 200 and 4096 bytes long; \<open>sp_pairs\<close> gives the pair at each index, also at
  those that were not written yet, where it is what \<^verbatim>\<open>malloc\<close> left there.
  A result \<open>None\<close>, and the component \<open>pa_bad\<close> of the parser's state, are accesses out of the bounds of an array.
\<close>

abbreviation MAX_NAME_LEN :: nat where "MAX_NAME_LEN \<equiv> 200"
abbreviation MAX_VALUE_LEN :: nat where "MAX_VALUE_LEN \<equiv> 4096"

subsection \<open>Escaped characters\<close>

definition shouldencode :: "char \<Rightarrow> bool" where
  "shouldencode c \<longleftrightarrow> c \<in> set ''=&%''"

definition isprint :: "char \<Rightarrow> bool" where
  "isprint c \<longleftrightarrow> (32 :: nat) \<le> of_char c \<and> of_char c \<le> (126 :: nat)"

definition escape :: "char \<Rightarrow> string" where
  "escape c = [CHR ''%'', ''0123456789ABCDEF'' ! (of_char c div 16), ''0123456789ABCDEF'' ! (of_char c mod 16)]"

definition encode_hexstring :: "string \<Rightarrow> string" where
  "encode_hexstring s = concat (map (\<lambda>c. if \<not> isprint c \<or> shouldencode c then escape c else [c]) s)"

definition encode_string :: "string \<Rightarrow> string" where
  "encode_string s = concat (map (\<lambda>c. if shouldencode c then escape c else [c]) s)"

definition get_index :: "char \<Rightarrow> int" where
  "get_index c = (case List.find (\<lambda>i. ''0123456789ABCDEF'' ! i = toupper c) [0..<16] of None \<Rightarrow> -1 | Some i \<Rightarrow> int i)"

text \<open>A character of a text, zero from its end on.\<close>

definition char_at :: "string \<Rightarrow> nat \<Rightarrow> char" where
  "char_at s i = (if i < length s then s ! i else NUL)"

definition unescape :: "int \<Rightarrow> int \<Rightarrow> char" where
  "unescape j k = char_of (nat ((j * 16 + k) mod 256))"

text \<open>
  \<open>short\<close> says that the whole text has less than two characters: then \<^verbatim>\<open>strlen(s) - 2\<close> wraps around and the test for a cut
  escape fails.
\<close>

fun hex_chars :: "bool \<Rightarrow> string \<Rightarrow> int + string" where
  "hex_chars short [] = Inr []"
| "hex_chars short (c # r) =
     (if c = CHR ''%'' then
        if \<not> short \<and> length r < 2 then Inl (-1)
        else
          let j = get_index (char_at r 0); k = get_index (char_at r 1) in
          if j < 0 \<or> k < 0 then Inl (-2) else map_sum id (Cons (unescape j k)) (hex_chars short (drop 2 r))
      else map_sum id (Cons c) (hex_chars short r))"

definition decode_hexstring :: "string \<Rightarrow> int + string" where
  "decode_hexstring s = hex_chars (length s < 2) s"

fun decode_stringnew :: "string \<Rightarrow> string" where
  "decode_stringnew [] = []"
| "decode_stringnew (c # r) =
     (if c \<noteq> CHR ''%'' then c # decode_stringnew r
      else if length r < 2 then []
      else unescape (get_index (r ! 0)) (get_index (r ! 1)) # decode_stringnew (drop 2 r))"

text \<open>The result, and the text written to a buffer with room for \<open>room\<close> characters.\<close>

fun decode_into :: "bool \<Rightarrow> nat \<Rightarrow> string \<Rightarrow> int \<times> string" where
  "decode_into short room [] = (0, [])"
| "decode_into short room (c # r) =
     (if c = CHR ''%'' then
        if \<not> short \<and> length r < 2 then (-1, [])
        else
          let j = get_index (char_at r 0); k = get_index (char_at r 1) in
          if j < 0 \<or> k < 0 then (-2, [])
          else if room = 0 then (0, [])
          else apsnd (Cons (unescape j k)) (decode_into short (room - 1) (drop 2 r))
      else if room = 0 then (0, [])
      else apsnd (Cons c) (decode_into short (room - 1) r))"

definition decode_string :: "string \<Rightarrow> nat \<Rightarrow> int \<times> string" where
  "decode_string s n = decode_into (length s < 2) (n - 1) s"

subsection \<open>Lists of pairs\<close>

record StringPairList =
  sp_last :: nat
  sp_max :: int
  sp_pairs :: "nat \<Rightarrow> string \<times> string"

text \<open>\<open>mem\<close> is the allocated memory, \<open>None\<close> where \<^verbatim>\<open>malloc\<close> fails.\<close>

definition CreateStringPairList :: "(nat \<Rightarrow> string \<times> string) option \<Rightarrow> int \<Rightarrow> StringPairList option" where
  "CreateStringPairList mem n =
     (if n < 0 then None else map_option (\<lambda>m. \<lparr>sp_last = 0, sp_max = n, sp_pairs = m\<rparr>) mem)"

definition add_pair :: "string \<times> string \<Rightarrow> StringPairList \<Rightarrow> StringPairList" where
  "add_pair p l = l\<lparr>sp_pairs := (sp_pairs l)(sp_last l := p), sp_last := sp_last l + 1\<rparr>"

definition ConcatPairList :: "StringPairList \<Rightarrow> StringPairList \<Rightarrow> StringPairList" where
  "ConcatPairList p1 p2 =
     fold (\<lambda>i l. if int (sp_last l) \<ge> sp_max l then l else add_pair (sp_pairs p2 i) l) [0..<sp_last p2] p1"

text \<open>The pairs that \<^verbatim>\<open>TraverseList\<close> hands to its function argument, in order.\<close>

definition TraverseList :: "StringPairList \<Rightarrow> (string \<times> string) list" where
  "TraverseList l = map (sp_pairs l) [0..<sp_last l]"

definition ResetStringPairList :: "StringPairList \<Rightarrow> StringPairList" where
  "ResetStringPairList l = l\<lparr>sp_last := 0\<rparr>"

definition find_para :: "StringPairList \<Rightarrow> string \<Rightarrow> string option" where
  "find_para l name = map_option snd (List.find (\<lambda>p. strcasecmp_eq name (fst p)) (TraverseList l))"

text \<open>The text in the caller's buffer, which was zeroed before; \<open>None\<close> is the result \<^verbatim>\<open>NULL\<close>.\<close>

definition GetBinaryPara :: "StringPairList \<Rightarrow> string \<Rightarrow> (int + string) option" where
  "GetBinaryPara l name = map_option decode_hexstring (find_para l name)"

definition GetParaValue :: "StringPairList \<Rightarrow> string \<Rightarrow> nat \<Rightarrow> string option" where
  "GetParaValue l name n = map_option (\<lambda>v. snd (decode_string v n)) (find_para l name)"

text \<open>The encoded value is kept in an array of \<^verbatim>\<open>MAX_VALUE_LEN*2\<close> bytes.\<close>

definition set_encoded :: "StringPairList \<Rightarrow> string \<Rightarrow> string \<Rightarrow> (int \<times> StringPairList) option" where
  "set_encoded l name e =
     (if int (sp_last l) \<ge> sp_max l then Some (-1, l)
      else if length e \<ge> MAX_VALUE_LEN * 2 then None
      else Some (0, add_pair (take (MAX_NAME_LEN - 1) name, take (MAX_VALUE_LEN - 1) e) l))"

definition SetBinaryPara :: "StringPairList \<Rightarrow> string \<Rightarrow> string \<Rightarrow> (int \<times> StringPairList) option" where
  "SetBinaryPara l name v = set_encoded l name (encode_hexstring v)"

definition SetParaValue :: "StringPairList \<Rightarrow> string \<Rightarrow> string \<Rightarrow> (int \<times> StringPairList) option" where
  "SetParaValue l name v = set_encoded l name (encode_string v)"

text \<open>The pairs that fit into a buffer of \<open>cap\<close> bytes, each followed by an ampersand, the last of which is removed.\<close>

fun encode_pairs :: "nat \<Rightarrow> (string \<times> string) list \<Rightarrow> string" where
  "encode_pairs cap [] = []"
| "encode_pairs cap ((a, b) # ps) =
     (if length a + length b + 2 \<ge> cap then []
      else let t = a @ ''='' @ b @ ''&'' in t @ encode_pairs (cap - length t) ps)"

definition EncodePara :: "StringPairList \<Rightarrow> nat \<Rightarrow> string" where
  "EncodePara l cap = butlast (encode_pairs cap (TraverseList l))"

subsection \<open>The parser\<close>

record para_state =
  pa_arr :: "nat \<Rightarrow> string \<times> string"
  pa_at :: nat
  pa_buf :: string
  pa_flag :: bool
  pa_num :: nat
  pa_bad :: bool

definition set_name :: "string \<Rightarrow> para_state \<Rightarrow> para_state" where
  "set_name s st = st\<lparr>pa_arr := (pa_arr st)(pa_at st := (s, snd (pa_arr st (pa_at st))))\<rparr>"

definition set_value :: "string \<Rightarrow> para_state \<Rightarrow> para_state" where
  "set_value s st = st\<lparr>pa_arr := (pa_arr st)(pa_at st := (fst (pa_arr st (pa_at st)), s))\<rparr>"

text \<open>
  The loop over the characters; its first component is false where the function returns \<open>-1\<close>.  A pair is complete at the second
  separator or a zero; the loop stops there when only two pairs are left in the array.
\<close>

fun para_loop :: "char \<Rightarrow> char \<Rightarrow> int \<Rightarrow> string \<Rightarrow> para_state \<Rightarrow> bool \<times> para_state" where
  "para_loop ch1 ch2 len [] st = (True, st)"
| "para_loop ch1 ch2 len (ch # cs) st =
     (if ch = ch1 then
        para_loop ch1 ch2 len cs ((set_name (take (MAX_NAME_LEN - 1) (pa_buf st)) st)\<lparr>pa_buf := [], pa_flag := True\<rparr>)
      else if ch = ch2 \<or> ch = NUL then
        let st1 = (set_value (take (MAX_VALUE_LEN - 1) (pa_buf st)) st)\<lparr>pa_buf := []\<rparr> in
        if \<not> pa_flag st1 then (False, st1)
        else
          let st2 = st1\<lparr>pa_at := pa_at st1 + 1, pa_num := pa_num st1 + 1\<rparr> in
          if int (pa_at st2) \<ge> len - 2 then (True, st2) else para_loop ch1 ch2 len cs (st2\<lparr>pa_flag := False\<rparr>)
      else
        para_loop ch1 ch2 len cs
          (st\<lparr>pa_buf := pa_buf st @ [ch], pa_bad := pa_bad st \<or> length (pa_buf st) \<ge> MAX_NAME_LEN + MAX_VALUE_LEN\<rparr>))"

text \<open>Whether the text has a character at which the array is written.\<close>

definition pa_touched :: "string \<Rightarrow> char \<Rightarrow> char \<Rightarrow> bool" where
  "pa_touched s c1 c2 \<longleftrightarrow>
     (\<exists>c \<in> set s. c = (if c1 = NUL then CHR ''='' else c1) \<or> c = (if c2 = NUL then CHR ''&'' else c2) \<or> c = NUL)"

text \<open>The value of the last pair is copied without the test of its length.\<close>

definition parsepara :: "string \<Rightarrow> (nat \<Rightarrow> string \<times> string) \<Rightarrow> int \<Rightarrow> char \<Rightarrow> char \<Rightarrow> int \<times> (nat \<Rightarrow> string \<times> string) \<times> bool" where
  "parsepara s arr len c1 c2 =
     (if s = [] then (0, arr, False)
      else
        case para_loop (if c1 = NUL then CHR ''='' else c1) (if c2 = NUL then CHR ''&'' else c2) len s
               \<lparr>pa_arr = arr, pa_at = 0, pa_buf = [], pa_flag = False, pa_num = 0, pa_bad = False\<rparr> of (ok, st) \<Rightarrow>
          if \<not> ok \<or> \<not> pa_flag st then (-1, pa_arr st, pa_bad st \<or> (len \<le> 0 \<and> pa_touched s c1 c2))
          else
            let st1 = set_value (pa_buf st) st in
            (int (pa_num st) + 1, (pa_arr st1)(pa_at st + 1 := ([], [])),
             pa_bad st \<or> length (pa_buf st) \<ge> MAX_VALUE_LEN \<or> int (pa_at st) + 1 \<ge> len))"

definition DecodePara :: "string \<Rightarrow> StringPairList \<Rightarrow> int \<times> StringPairList \<times> bool" where
  "DecodePara s l =
     (case parsepara s (sp_pairs l) (sp_max l) CHR ''='' CHR ''&'' of (r, arr, bad) \<Rightarrow>
        if r \<ge> 0 then (0, l\<lparr>sp_pairs := arr, sp_last := nat r\<rparr>, bad) else (-1, l\<lparr>sp_pairs := arr\<rparr>, bad))"

subsection \<open>Trimming, and lists in a file\<close>

text \<open>
  The rest of the text is copied to its start and ended there.  The last test of \<^verbatim>\<open>TrimLeft\<close> reads the character at the old place of
  the rest: when there are as many leading spaces as characters in the rest, this is the zero that ends the copy, and the whole
  text is erased.
\<close>

definition TrimLeft :: "string \<Rightarrow> string" where
  "TrimLeft s = (let t = dropWhile isspace s in if length s - length t = length t then [] else t)"

lemma TrimLeft_erases:
  assumes "\<forall>c \<in> set sp. isspace c" and "t \<noteq> []" and "\<not> isspace (hd t)" and "length sp = length t"
  shows "TrimLeft (sp @ t) = []"
proof -
  have "dropWhile isspace t = t" using assms(2,3) by (cases t) auto
  then show ?thesis using assms(1,4) by (simp add: TrimLeft_def dropWhile_append2)
qed

text \<open>The first character is never removed; an empty text makes the pointer start before it.\<close>

definition TrimRight :: "string \<Rightarrow> string option" where
  "TrimRight s = (case s of [] \<Rightarrow> None | c # r \<Rightarrow> Some (c # rev (dropWhile isspace (rev r))))"

definition TrimString :: "string \<Rightarrow> string option" where
  "TrimString s = TrimRight (TrimLeft s)"

text \<open>The lines that \<^verbatim>\<open>fgets\<close> gives; a pair goes to the next element of the array.\<close>

fun load_pairs :: "string list \<Rightarrow> (string \<times> string) list option" where
  "load_pairs [] = Some []"
| "load_pairs (line # ls) =
     (if take 1 line = ''#'' \<or> take 2 line = ''//'' then load_pairs ls
      else case TrimString line of
        None \<Rightarrow> None
      | Some t \<Rightarrow>
          (case strchr CHR '' '' t of
             None \<Rightarrow> load_pairs ls
           | Some (a, b) \<Rightarrow>
               (case (TrimString a, TrimString b) of
                  (Some a', Some b') \<Rightarrow>
                    map_option (Cons (take (MAX_NAME_LEN - 1) a', take (MAX_VALUE_LEN - 1) b')) (load_pairs ls)
                | _ \<Rightarrow> None)))"

definition LoadFromFile :: "string list option \<Rightarrow> (int \<times> (string \<times> string) list) option" where
  "LoadFromFile lines = (case lines of None \<Rightarrow> Some (-1, []) | Some ls \<Rightarrow> map_option (Pair 0) (load_pairs ls))"

subsection \<open>Well-formed lists\<close>

text \<open>What the code writes into the list stays inside its two arrays of characters, and inside the array of pairs.\<close>

definition pairs_ok :: "StringPairList \<Rightarrow> bool" where
  "pairs_ok l \<longleftrightarrow> int (sp_last l) \<le> sp_max l \<and>
     (\<forall>i < sp_last l. length (fst (sp_pairs l i)) < MAX_NAME_LEN \<and> length (snd (sp_pairs l i)) < MAX_VALUE_LEN)"

lemma pairs_ok_add:
  assumes "pairs_ok l" and "int (sp_last l) < sp_max l" and "length a < MAX_NAME_LEN" and "length b < MAX_VALUE_LEN"
  shows "pairs_ok (add_pair (a, b) l)"
  using assms by (auto simp: pairs_ok_def add_pair_def less_Suc_eq)

lemma pairs_ok_set: "pairs_ok l \<Longrightarrow> set_encoded l name e = Some (r, l') \<Longrightarrow> pairs_ok l'"
  by (auto simp: set_encoded_def intro!: pairs_ok_add split: if_splits)

lemma pairs_ok_concat:
  assumes "pairs_ok p1" and "pairs_ok p2"
  shows "pairs_ok (ConcatPairList p1 p2)"
proof -
  have "pairs_ok (fold (\<lambda>i l. if int (sp_last l) \<ge> sp_max l then l else add_pair (sp_pairs p2 i) l) is p1)"
    if "\<forall>i \<in> set is. i < sp_last p2" "pairs_ok p1" for "is" p1
    using that
  proof (induction "is" arbitrary: p1)
    case (Cons i "is")
    have "pairs_ok (add_pair (sp_pairs p2 i) p1)" if "int (sp_last p1) < sp_max p1"
      using pairs_ok_add [OF Cons.prems(2) that, of "fst (sp_pairs p2 i)" "snd (sp_pairs p2 i)"] Cons.prems(1) assms(2)
      by (simp add: pairs_ok_def)
    then show ?case using Cons by simp
  qed simp
  then show ?thesis using assms(1) by (simp add: ConcatPairList_def)
qed

text \<open>The pairs that the parser has completed, the name of the one it is reading, and where it stands.\<close>

definition para_ok :: "int \<Rightarrow> para_state \<Rightarrow> bool" where
  "para_ok len st \<longleftrightarrow> pa_num st = pa_at st \<and> int (pa_at st) \<le> max 0 (len - 2) \<and>
     (\<forall>i < pa_at st. length (fst (pa_arr st i)) < MAX_NAME_LEN \<and> length (snd (pa_arr st i)) < MAX_VALUE_LEN) \<and>
     (int (pa_at st) < len - 2 \<and> pa_flag st \<longrightarrow> length (fst (pa_arr st (pa_at st))) < MAX_NAME_LEN)"

lemma para_ok_name:
  "para_ok len st \<Longrightarrow> para_ok len ((set_name (take (MAX_NAME_LEN - 1) b) st)\<lparr>pa_buf := [], pa_flag := True\<rparr>)"
  by (auto simp: para_ok_def set_name_def)

lemma para_loop_ok:
  assumes "para_ok len st" and "int (pa_at st) < len - 2" and "para_loop ch1 ch2 len cs st = (ok, st')"
  shows "para_ok len st'"
  using assms
proof (induction cs arbitrary: st)
  case (Cons ch cs)
  consider (name) "ch = ch1" | (val) "ch \<noteq> ch1" "ch = ch2 \<or> ch = NUL" | (char) "ch \<noteq> ch1" "\<not> (ch = ch2 \<or> ch = NUL)" by blast
  then show ?case
  proof cases
    case name
    then show ?thesis using Cons.IH [OF para_ok_name [OF Cons.prems(1)]] Cons.prems(2,3) by (simp add: set_name_def)
  next
    case char
    let ?st = "st\<lparr>pa_buf := pa_buf st @ [ch], pa_bad := pa_bad st \<or> length (pa_buf st) \<ge> MAX_NAME_LEN + MAX_VALUE_LEN\<rparr>"
    have "para_ok len ?st" using Cons.prems(1) by (simp add: para_ok_def)
    from Cons.IH [OF this] show ?thesis using char Cons.prems(2,3) by simp
  next
    case val
    define st1 where "st1 = (set_value (take (MAX_VALUE_LEN - 1) (pa_buf st)) st)\<lparr>pa_buf := []\<rparr>"
    define st2 where "st2 = st1\<lparr>pa_at := pa_at st1 + 1, pa_num := pa_num st1 + 1\<rparr>"
    have 1: "para_ok len st1" "pa_at st1 = pa_at st" "pa_flag st1 = pa_flag st" using Cons.prems(1) by (auto simp: para_ok_def st1_def set_value_def)
    have v: "length (snd (pa_arr st1 (pa_at st))) < MAX_VALUE_LEN" by (simp add: st1_def set_value_def)
    have 2: "para_ok len (st2\<lparr>pa_flag := False\<rparr>)" "int (pa_at st2) \<ge> len - 2 \<Longrightarrow> para_ok len st2" if "pa_flag st1"
      using 1 v that Cons.prems(2) by (auto simp: para_ok_def st2_def less_Suc_eq)
    have "para_loop ch1 ch2 len (ch # cs) st =
        (if \<not> pa_flag st1 then (False, st1) else if int (pa_at st2) \<ge> len - 2 then (True, st2)
         else para_loop ch1 ch2 len cs (st2\<lparr>pa_flag := False\<rparr>))"
      using val by (auto simp: st1_def st2_def Let_def)
    then show ?thesis using Cons.prems(3) 1(1) 2 Cons.IH [of "st2\<lparr>pa_flag := False\<rparr>"] by (auto split: if_splits)
  qed
qed simp

lemma pairs_ok_decode:
  assumes "DecodePara s l = (0, l', False)" and "int (sp_last l') < sp_max l - 1" and "2 < sp_max l"
  shows "pairs_ok l'"
proof -
  let ?st = "\<lparr>pa_arr = sp_pairs l, pa_at = 0, pa_buf = [], pa_flag = False, pa_num = 0, pa_bad = False\<rparr>"
  obtain ok st where p: "para_loop CHR ''='' CHR ''&'' (sp_max l) s ?st = (ok, st)" by fastforce
  have "para_ok (sp_max l) ?st" by (simp add: para_ok_def)
  from para_loop_ok [OF this _ p] assms(3) have o: "para_ok (sp_max l) st" by simp
  show ?thesis
  proof (cases "s = []")
    case True
    then show ?thesis using assms(1,3) by (auto simp: DecodePara_def parsepara_def pairs_ok_def)
  next
    case False
    then have "ok" "pa_flag st" and l': "l' = l\<lparr>sp_pairs := (pa_arr (set_value (pa_buf st) st))(pa_at st + 1 := ([], [])), sp_last := pa_num st + 1\<rparr>"
      and b: "length (pa_buf st) < MAX_VALUE_LEN"
      using assms(1) p by (auto simp: DecodePara_def parsepara_def NUL_def Let_def split: if_splits)
    then show ?thesis using o assms(2) by (auto simp: pairs_ok_def para_ok_def set_value_def less_Suc_eq)
  qed
qed

text \<open>What a program may do with its lists.\<close>

inductive pairlist :: "StringPairList \<Rightarrow> bool" where
  Create: "CreateStringPairList mem n = Some l \<Longrightarrow> pairlist l"
| Reset: "pairlist l \<Longrightarrow> pairlist (ResetStringPairList l)"
| Concat: "pairlist l1 \<Longrightarrow> pairlist l2 \<Longrightarrow> pairlist (ConcatPairList l1 l2)"
| Value: "pairlist l \<Longrightarrow> SetParaValue l name v = Some (r, l') \<Longrightarrow> pairlist l'"
| Binary: "pairlist l \<Longrightarrow> SetBinaryPara l name v = Some (r, l') \<Longrightarrow> pairlist l'"
| Decode: "pairlist l \<Longrightarrow> DecodePara s l = (0, l', False) \<Longrightarrow> 2 < sp_max l \<Longrightarrow> int (sp_last l') < sp_max l - 1 \<Longrightarrow> pairlist l'"



definition pair_text :: "string \<times> string \<Rightarrow> string" where
  "pair_text p = fst p @ ''='' @ snd p @ ''&''"

definition plain_pair :: "string \<times> string \<Rightarrow> bool" where
  "plain_pair p \<longleftrightarrow> set (fst p) \<inter> {CHR ''='', CHR ''&'', NUL} = {} \<and> set (snd p) \<inter> {CHR ''='', CHR ''&'', NUL} = {}
     \<and> length (fst p) < MAX_NAME_LEN \<and> length (snd p) < MAX_VALUE_LEN"

lemma para_chars:
  assumes "set t \<inter> {ch1, ch2, NUL} = {}" and "length (pa_buf st) + length t \<le> MAX_NAME_LEN + MAX_VALUE_LEN"
  shows "para_loop ch1 ch2 len (t @ cs) st = para_loop ch1 ch2 len cs (st\<lparr>pa_buf := pa_buf st @ t\<rparr>)"
  using assms
proof (induction t arbitrary: st)
  case (Cons c t)
  then show ?case using Cons.IH [of "st\<lparr>pa_buf := pa_buf st @ [c]\<rparr>"] by auto
qed simp

definition put_pair :: "string \<times> string \<Rightarrow> para_state \<Rightarrow> para_state" where
  "put_pair p st = st\<lparr>pa_arr := (pa_arr st)(pa_at st := p), pa_buf := [], pa_at := pa_at st + 1, pa_num := pa_num st + 1, pa_flag := False\<rparr>"

text \<open>A name and its sign, and a value.\<close>

lemma para_name:
  assumes "plain_pair p" and "pa_buf st = []"
  shows "para_loop CHR ''='' CHR ''&'' len (fst p @ ''='' @ snd p @ cs) st =
    para_loop CHR ''='' CHR ''&'' len cs ((set_name (fst p) st)\<lparr>pa_flag := True, pa_buf := snd p\<rparr>)"
proof -
  have "para_loop CHR ''='' CHR ''&'' len (fst p @ ''='' @ snd p @ cs) st =
      para_loop CHR ''='' CHR ''&'' len (''='' @ snd p @ cs) (st\<lparr>pa_buf := fst p\<rparr>)"
    using para_chars [of "fst p" "CHR ''=''" "CHR ''&''" st len "''='' @ snd p @ cs"] assms by (auto simp: plain_pair_def)
  also have "\<dots> = para_loop CHR ''='' CHR ''&'' len (snd p @ cs) ((set_name (fst p) st)\<lparr>pa_buf := [], pa_flag := True\<rparr>)"
    using assms by (simp add: plain_pair_def set_name_def)
  also have "\<dots> = para_loop CHR ''='' CHR ''&'' len cs ((set_name (fst p) st)\<lparr>pa_flag := True, pa_buf := snd p\<rparr>)"
    using para_chars [of "snd p" "CHR ''=''" "CHR ''&''" "(set_name (fst p) st)\<lparr>pa_buf := [], pa_flag := True\<rparr>" len cs] assms
    by (auto simp: plain_pair_def set_name_def)
  finally show ?thesis .
qed

lemma para_pair:
  assumes "plain_pair p" and "pa_buf st = []"
  shows "para_loop CHR ''='' CHR ''&'' len (pair_text p @ cs) st =
    (if int (pa_at st) + 1 \<ge> len - 2 then (True, (put_pair p st)\<lparr>pa_flag := True\<rparr>)
     else para_loop CHR ''='' CHR ''&'' len cs (put_pair p st))"
proof -
  have "pair_text p @ cs = fst p @ ''='' @ snd p @ (CHR ''&'' # cs)" by (simp add: pair_text_def)
  then have "para_loop CHR ''='' CHR ''&'' len (pair_text p @ cs) st =
      para_loop CHR ''='' CHR ''&'' len (CHR ''&'' # cs) ((set_name (fst p) st)\<lparr>pa_flag := True, pa_buf := snd p\<rparr>)"
    using para_name [OF assms, of len "CHR ''&'' # cs"] by simp
  also have "\<dots> = (if int (pa_at st) + 1 \<ge> len - 2 then (True, (put_pair p st)\<lparr>pa_flag := True\<rparr>)
     else para_loop CHR ''='' CHR ''&'' len cs (put_pair p st))"
    using assms by (auto simp: plain_pair_def set_name_def set_value_def put_pair_def Let_def)
  finally show ?thesis .
qed

lemma put_pairs_fields:
  "pa_at (fold put_pair ps st) = pa_at st + length ps" "pa_num (fold put_pair ps st) = pa_num st + length ps"
  "pa_buf st = [] \<Longrightarrow> pa_buf (fold put_pair ps st) = []" "pa_bad (fold put_pair ps st) = pa_bad st"
  "pa_arr (fold put_pair ps st) i = (if pa_at st \<le> i \<and> i < pa_at st + length ps then ps ! (i - pa_at st) else pa_arr st i)"
  by (induction ps arbitrary: st) (auto simp: put_pair_def nth_Cons' dest: le_antisym)

lemma para_pairs:
  assumes "\<forall>p \<in> set ps. plain_pair p" and "pa_buf st = []" and "int (pa_at st) + int (length ps) < len - 2"
  shows "para_loop CHR ''='' CHR ''&'' len (concat (map pair_text ps) @ cs) st = para_loop CHR ''='' CHR ''&'' len cs (fold put_pair ps st)"
  using assms
proof (induction ps arbitrary: st)
  case (Cons p ps)
  then show ?case using para_pair [of p st len "concat (map pair_text ps) @ cs"] Cons.IH [of "put_pair p st"] by (auto simp: put_pair_def)
qed simp

text \<open>The two results of the parser: after a text that ends inside its last value, and after one that has too many pairs.\<close>

abbreviation pa_start :: "StringPairList \<Rightarrow> para_state" where
  "pa_start l \<equiv> \<lparr>pa_arr = sp_pairs l, pa_at = 0, pa_buf = [], pa_flag = False, pa_num = 0, pa_bad = False\<rparr>"

lemma TraverseList_eqI:
  "sp_last l = length ps \<Longrightarrow> (\<And>i. i < length ps \<Longrightarrow> sp_pairs l i = ps ! i) \<Longrightarrow> TraverseList l = ps"
  by (auto simp: TraverseList_def intro: nth_equalityI)

lemma DecodePara_pairs:
  assumes "\<forall>q \<in> set (ps @ [p]). plain_pair q" and "int (length ps) < sp_max l - 2"
  shows "\<exists>l'. DecodePara (concat (map pair_text ps) @ fst p @ ''='' @ snd p) l = (0, l', False) \<and> TraverseList l' = ps @ [p]"
proof -
  define st where "st = fold put_pair ps (pa_start l)"
  note f = put_pairs_fields [where ps = ps and st = "pa_start l", folded st_def, simplified]
  have "para_loop CHR ''='' CHR ''&'' (sp_max l) (concat (map pair_text ps) @ fst p @ ''='' @ snd p) (pa_start l) =
      (True, (set_name (fst p) st)\<lparr>pa_flag := True, pa_buf := snd p\<rparr>)"
    using para_pairs [of ps "pa_start l" "sp_max l" "fst p @ ''='' @ snd p @ []"] para_name [of p st "sp_max l" "[]"] assms
    by (simp add: st_def [symmetric] f)
  moreover have "length (snd p) < MAX_VALUE_LEN" using assms(1) by (simp add: plain_pair_def)
  ultimately show ?thesis using assms(2)
    by (auto simp: DecodePara_def parsepara_def NUL_def set_name_def set_value_def f nth_append Let_def intro!: TraverseList_eqI)
qed

text \<open>
  A command with too many parameters gets one with a name nobody wrote.  After the separator of the
  last pair but two of the array the parser stops, and counts the next element as a pair with an empty value: its name
  is what the allocated memory contained.
\<close>

theorem excess_parameters_garbage:
  assumes "\<forall>p \<in> set ps. plain_pair p" and "int (length ps) = sp_max l - 2" and "ps \<noteq> []"
  shows "\<exists>l'. DecodePara (concat (map pair_text ps) @ more_text) l = (0, l', False) \<and>
    TraverseList l' = ps @ [(fst (sp_pairs l (length ps)), [])]"
proof -
  obtain qs p where ps: "ps = qs @ [p]" using assms(3) by (cases ps rule: rev_exhaust) auto
  define st where "st = fold put_pair qs (pa_start l)"
  note f = put_pairs_fields [where ps = qs and st = "pa_start l", folded st_def, simplified]
  have "para_loop CHR ''='' CHR ''&'' (sp_max l) (concat (map pair_text ps) @ more_text) (pa_start l) =
      (True, (put_pair p st)\<lparr>pa_flag := True\<rparr>)"
    using para_pairs [of qs "pa_start l" "sp_max l" "pair_text p @ more_text"] para_pair [of p st "sp_max l" more_text] assms(1,2)
    by (simp add: ps st_def [symmetric] f)
  moreover have "concat (map pair_text ps) \<noteq> []" by (simp add: ps pair_text_def)
  ultimately show ?thesis using assms(2)
    by (auto simp: ps DecodePara_def parsepara_def NUL_def put_pair_def set_value_def f nth_append less_Suc_eq Let_def intro!: TraverseList_eqI)
qed

theorem excess_parameters_garbage_witness:
  "\<exists>l'. DecodePara ''cmd=a&x=y'' (the (CreateStringPairList (Some (\<lambda>i. (''old'', ''''))) 3)) = (0, l', False) \<and>
    TraverseList l' = [(''cmd'', ''a''), (''old'', '''')]"
  using excess_parameters_garbage [of "[(''cmd'', ''a'')]" "the (CreateStringPairList (Some (\<lambda>i. (''old'', ''''))) 3)" "''x=y''"]
  by (simp add: CreateStringPairList_def pair_text_def plain_pair_def NUL_def)

subsection \<open>From the sender's values to the receiver's\<close>

lemma decode_into_encode: "decode_into short room (encode_string v) = (0, take room v)"
proof (induction v arbitrary: room)
  case (Cons c v)
  consider "c = CHR ''=''" | "c = CHR ''&''" | "c = CHR ''%''" | "\<not> shouldencode c" by (auto simp: shouldencode_def)
  then show ?case using Cons
    by cases (auto simp: encode_string_def shouldencode_def escape_def get_index_def toupper_def unescape_def char_at_def take_Cons' upt_rec char_of_def bit_0)
qed (simp add: encode_string_def)

lemma encode_string_plain: "NUL \<notin> set v \<Longrightarrow> set (encode_string v) \<inter> {CHR ''='', CHR ''&'', NUL} = {}"
  by (induction v) (auto simp: encode_string_def shouldencode_def escape_def NUL_def)

lemma encode_pairs_all: "length (concat (map pair_text ps)) < cap \<Longrightarrow> encode_pairs cap ps = concat (map pair_text ps)"
  by (induction cap ps rule: encode_pairs.induct) (auto simp: pair_text_def Let_def)

fun set_all :: "StringPairList \<Rightarrow> (string \<times> string) list \<Rightarrow> StringPairList option" where
  "set_all l [] = Some l"
| "set_all l ((a, b) # ps) = (case SetParaValue l a b of None \<Rightarrow> None | Some (r, l') \<Rightarrow> if r = 0 then set_all l' ps else None)"

text \<open>A name without separators, and a value that fits when it is encoded.\<close>

definition sendable :: "string \<times> string \<Rightarrow> bool" where
  "sendable p \<longleftrightarrow> plain_pair (fst p, encode_string (snd p)) \<and> NUL \<notin> set (snd p)"

lemma TraverseList_add: "TraverseList (add_pair p l) = TraverseList l @ [p]"
  by (auto simp: TraverseList_def add_pair_def)

lemma set_all_pairs:
  assumes "\<forall>p \<in> set ps. sendable p" and "int (sp_last l) + int (length ps) \<le> sp_max l"
  shows "\<exists>l'. set_all l ps = Some l' \<and> TraverseList l' = TraverseList l @ map (apsnd encode_string) ps"
  using assms
proof (induction ps arbitrary: l)
  case (Cons p ps)
  obtain a b where p: "p = (a, b)" by (cases p)
  have "SetParaValue l a b = Some (0, add_pair (a, encode_string b) l)"
    using Cons.prems by (auto simp: SetParaValue_def set_encoded_def sendable_def plain_pair_def p)
  then show ?case using Cons.IH [of "add_pair (a, encode_string b) l"] Cons.prems
    by (auto simp: p TraverseList_add) (simp add: add_pair_def)
qed simp

text \<open>
  C18: what a program puts into a list of parameters is what the other one takes out of the text it receives: the encoded
  text is decoded without an error, and each name gives the value that was first set for it, up to the
  size of the caller's buffer; upper and lower case of names are not distinguished.
\<close>

theorem params_roundtrip:
  assumes "\<forall>p \<in> set ps. sendable p" and "CreateStringPairList mem n = Some l" and "int (length ps) \<le> n"
    and "length (concat (map (pair_text \<circ> apsnd encode_string) ps)) < cap"
    and "CreateStringPairList mem' n' = Some k" and "int (length ps) \<le> n' - 2"
  shows "\<exists>l1 l2. set_all l ps = Some l1 \<and> DecodePara (EncodePara l1 cap) k = (0, l2, False) \<and>
    (\<forall>name m. GetParaValue l2 name m =
       map_option (\<lambda>p. take (m - 1) (snd p)) (List.find (\<lambda>p. strcasecmp_eq name (fst p)) ps))"
proof -
  let ?es = "map (apsnd encode_string) ps"
  have "sp_last l = 0" "sp_max l = n" and k: "sp_last k = 0" "sp_max k = n'" using assms(2,5) by (auto simp: CreateStringPairList_def split: if_splits)
  then obtain l1 where l1: "set_all l ps = Some l1" "TraverseList l1 = ?es"
    using set_all_pairs [OF assms(1), of l] assms(3) by (auto simp: TraverseList_def)
  have pl: "\<forall>p \<in> set ?es. plain_pair p" using assms(1) by (auto simp: sendable_def)
  have e: "EncodePara l1 cap = butlast (concat (map pair_text ?es))"
    using encode_pairs_all [of ?es cap] assms(4) by (simp add: EncodePara_def l1(2))
  have "\<exists>l2. DecodePara (EncodePara l1 cap) k = (0, l2, False) \<and> TraverseList l2 = ?es"
  proof (cases ?es rule: rev_cases)
    case Nil
    then show ?thesis using k by (simp add: e DecodePara_def parsepara_def TraverseList_def)
  next
    case (snoc qs q)
    have len: "length ps = Suc (length qs)" using arg_cong [OF snoc, of length] by simp
    have "butlast (concat (map pair_text ?es)) = concat (map pair_text qs) @ fst q @ ''='' @ snd q"
      by (simp add: snoc pair_text_def butlast_append)
    then show ?thesis using DecodePara_pairs [of qs q k] pl assms(6) k(2) len by (simp add: e snoc)
  qed
  then obtain l2 where l2: "DecodePara (EncodePara l1 cap) k = (0, l2, False)" "TraverseList l2 = ?es" by blast
  have "GetParaValue l2 name m = map_option (\<lambda>p. take (m - 1) (snd p)) (List.find (\<lambda>p. strcasecmp_eq name (fst p)) ps)" for name m
    unfolding GetParaValue_def find_para_def l2(2)
    by (induction ps) (auto simp: decode_string_def decode_into_encode)
  then show ?thesis using l1(1) l2(1) by blast
qed

theorem params_roundtrip_witness:
  "\<exists>l1 l2. set_all (the (CreateStringPairList (Some (\<lambda>i. ([], []))) 1)) [(''Cmd'', ''a=b'')] = Some l1 \<and>
    DecodePara (EncodePara l1 20) (the (CreateStringPairList (Some (\<lambda>i. ([], []))) 3)) = (0, l2, False) \<and>
    GetParaValue l2 ''cmd'' 64 = Some ''a=b''"
proof -
  let ?l = "the (CreateStringPairList (Some (\<lambda>i. ([], []))) 1)" and ?k = "the (CreateStringPairList (Some (\<lambda>i. ([], []))) 3)"
  have 1: "\<forall>p \<in> set [(''Cmd'', ''a=b'')]. sendable p" by code_simp
  have 2: "CreateStringPairList (Some (\<lambda>i. ([], []))) 1 = Some ?l" "CreateStringPairList (Some (\<lambda>i. ([], []))) 3 = Some ?k"
    by (simp_all add: CreateStringPairList_def)
  have 3: "length (concat (map (pair_text \<circ> apsnd encode_string) [(''Cmd'', ''a=b'')])) < 20" by code_simp
  have 4: "map_option (\<lambda>p. take (64 - 1) (snd p)) (List.find (\<lambda>p. strcasecmp_eq ''cmd'' (fst p)) [(''Cmd'', ''a=b'')]) = Some ''a=b''" by code_simp
  show ?thesis using params_roundtrip [OF 1 2(1) _ 3 2(2)] 4 by fastforce
qed

end
