(* ===== verification/Pfs_Maintain.thy ===== *)
theory Pfs_Maintain
  imports Pfs_Config Pfs_Poss Pfs_Store Pfs_Params
begin

section \<open>Maintenance commands (network/pfs_maintain.c)\<close>

text \<open>
  An operator's commands reach a server as lists of parameters: the configuration is changed and written back, time
  stamps are set, files and directories are fetched again.  The theory models \<^verbatim>\<open>pfs_maintain.c\<close>, and of the files
  it calls \<^verbatim>\<open>myconfig_dump_to_file\<close> (\<^verbatim>\<open>lib/myconfig.c\<close>) and \<^verbatim>\<open>reload_config\<close> (\<^verbatim>\<open>pfs_init.c\<close>).  The theorems say which
  entries of the configuration a command can change, that a changed entry takes effect, and what the commands do
  that have no effect or never return.
  A result \<open>None\<close> is an access out of the bounds of an array, or a call that does not return.
\<close>

subsection \<open>The configuration is written back (myconfig.c)\<close>

definition dump_entry :: "cfg_state \<Rightarrow> string \<Rightarrow> nat \<Rightarrow> string option" where
  "dump_entry s pre i =
     (let k = mc_key (cf_mc s i); v = mc_val (cf_mc s i) in
      if pre = ''nopre'' then Some (CHR 0x09 # k @ '' = '' @ v @ [CHR 0x0A])
      else if length pre > length k then None
      else Some (CHR 0x09 # drop (length pre) k @ '' = '' @ v @ [CHR 0x0A]))"

text \<open>The name of a section is copied without its last character to an array of 20; the first list has no heading.\<close>

definition dump_section :: "cfg_state \<Rightarrow> nat \<times> prehash \<Rightarrow> string option" where
  "dump_section s = (\<lambda>(n, p).
     if n > 0 \<and> (ph_pre p = [] \<or> length (ph_pre p) > 20) then None
     else map_option (\<lambda>es. (if n > 0 then ''[ '' @ butlast (ph_pre p) @ '' ]'' @ [CHR 0x0A] else []) @ concat es
                           @ replicate 61 CHR ''-'' @ [CHR 0x0A])
            (those (map (dump_entry s (ph_pre p)) (ph_list p))))"

definition dump_comment :: string where
  "dump_comment = CHR 0x0A # ''##'' @ [CHR 0xC5, CHR 0xE4, CHR 0xD6, CHR 0xC3, CHR 0xCE, CHR 0xC4, CHR 0xBC, CHR 0xFE,
     CHR 0xB2, CHR 0xBB, CHR 0xC7, CHR 0xF8, CHR 0xB7, CHR 0xD6, CHR 0xB4, CHR 0xF3, CHR 0xD0, CHR 0xA1, CHR 0xD0, CHR 0xB4]
     @ ''!'' @ [CHR 0x0A, CHR 0x0A]"

text \<open>The result and the text of the file; \<open>opened\<close> is false where \<^verbatim>\<open>fopen\<close> fails.\<close>

definition myconfig_dump_to_file :: "bool \<Rightarrow> cfg_state \<Rightarrow> (int \<times> string option) option" where
  "myconfig_dump_to_file opened s =
     (if \<not> opened then Some (-1, None)
      else map_option (\<lambda>ts. (0, Some (dump_comment @ concat ts)))
             (those (map (dump_section s) (enumerate 0 (takeWhile ph_used (cf_pre s))))))"

subsection \<open>The configuration is read again (pfs_init.c)\<close>

record t_g_config =
  gc_max_data_connects :: uint16
  gc_max_task_run_once :: uint16
  gc_poss_interval :: uint16
  gc_real_rm_time :: int
  gc_sync_dir_span :: uint16
  gc_check_task_timeout :: uint8
  gc_pfs_test :: uint8
  gc_task_timeout :: int
  gc_sync_dir_count :: uint8
  gc_policy :: uint8
  gc_timeout :: uint16

fun read_ints :: "(string \<times> int) list \<Rightarrow> cfg_state \<Rightarrow> int list \<times> cfg_state" where
  "read_ints [] c = ([], c)"
| "read_ints ((k, d) # ks) c =
     (case myconfig_get_intval k d c of (v, c1) \<Rightarrow> case read_ints ks c1 of (vs, c2) \<Rightarrow> (v # vs, c2))"

definition reload_ints :: "(string \<times> int) list" where
  "reload_ints = [(''max_data_connects'', 1024), (''max_task_run_once'', 1024), (''poss_interval'', 300), (''real_rm_time'', 7200),
     (''sync_dir_span'', 300), (''check_task_timeout'', 1), (''pfs_test'', 0), (''task_timeout'', 86400),
     (''sync_dir_count'', 20), (''task_policy'', 0), (''timeout'', 3)]"

text \<open>The quotient by \<^verbatim>\<open>POLICY_MAX\<close>, rounded towards zero.\<close>

definition policy_of :: "int \<Rightarrow> int" where
  "policy_of v = (if v \<ge> 0 then v div 3 else - ((- v) div 3))"

definition reload_config :: "cfg_state \<Rightarrow> t_g_config \<times> cfg_state" where
  "reload_config c =
     (case read_ints reload_ints c of (vs, c1) \<Rightarrow>
        (\<lparr>gc_max_data_connects = word_of_int (vs ! 0), gc_max_task_run_once = word_of_int (vs ! 1),
          gc_poss_interval = word_of_int (vs ! 2), gc_real_rm_time = vs ! 3, gc_sync_dir_span = word_of_int (vs ! 4),
          gc_check_task_timeout = word_of_int (vs ! 5), gc_pfs_test = word_of_int (vs ! 6), gc_task_timeout = vs ! 7,
          gc_sync_dir_count = word_of_int (vs ! 8), gc_policy = word_of_int (policy_of (vs ! 9)),
          gc_timeout = word_of_int (vs ! 10)\<rparr>, c1))"

subsection \<open>State\<close>

record mnt_state =
  mn_cfg :: cfg_state
  mn_g :: t_g_config
  mn_file :: "string option"
  mn_task :: task_state
  mn_store :: store
  mn_seq :: uint32
  mn_send :: bytes

record mnt_env =
  me_mem :: "(nat \<Rightarrow> string \<times> string) option"
  me_now :: int
  me_start :: int
  me_compiled :: "string \<times> string"
  me_localtime :: "int \<Rightarrow> tm"
  me_mktime :: "tm \<Rightarrow> int"
  me_resolve :: "string \<Rightarrow> string option"
  me_lock :: "int \<Rightarrow> int"
  me_malloc :: "task_state \<Rightarrow> nat option"
  me_cfg_malloc :: bool
  me_fopen :: bool
  me_self_ip :: uint32
  me_cf :: store_config
  me_errmsg :: string

subsection \<open>Configuration commands\<close>

definition cmd_type :: "string list" where
  "cmd_type = [''M_ONLINE'', ''M_OFFLINE'', ''M_GETINFO'', ''M_SYNCDIR'', ''M_SYNCFILE'', ''M_CONFUPDA'', ''M_SETDIRTIME'',
     ''M_GETDIRTIME'', ''M_ADD_MOD_GROUP'', ''M_DEL_GROUP'']"

definition validcmd :: "string list" where
  "validcmd = [''cs_preday'', ''fcs_max_connects'', ''max_data_connects'', ''max_task_run_once'', ''pfs_test'', ''real_rm_time'',
     ''task_timeout'', ''fcs_max_task'', ''cs_sync_dir'', ''data_calcu_md5'', ''sync_dir_count'', ''timeout'']"

definition isvalid :: "string \<Rightarrow> int" where
  "isvalid key = (if \<exists>c \<in> set validcmd. strcasecmp_eq key c then 0 else 1)"

text \<open>
  The loop that ends a value at a line feed or carriage return looks at all characters but the last; with an empty value
  its counter starts below zero and it runs over the end.
\<close>

definition crlf :: "char \<Rightarrow> bool" where
  "crlf c \<longleftrightarrow> c = CHR 0x0D \<or> c = CHR 0x0A"

definition cut_line :: "string \<Rightarrow> string option" where
  "cut_line v = (if v = [] then None else Some (if \<exists>c \<in> set (butlast v). crlf c then takeWhile (\<lambda>c. \<not> crlf c) v else v))"

text \<open>An entry of the configuration has room for values shorter than \<^verbatim>\<open>VAL_MAX_LEN\<close>.\<close>

fun confupda_pairs :: "mnt_env \<Rightarrow> (string \<times> string) list \<Rightarrow> cfg_state \<Rightarrow> (int \<times> cfg_state) option" where
  "confupda_pairs env [] c = Some (0, c)"
| "confupda_pairs env ((key, v) # ps) c =
     (if strcasecmp_eq key ''pfs_cmd'' \<or> isvalid key \<noteq> 0 then confupda_pairs env ps c
      else case cut_line v of
        None \<Rightarrow> None
      | Some val \<Rightarrow>
          if length val \<ge> VAL_MAX_LEN then None
          else case myconfig_update_value (me_cfg_malloc env) key val (snd (myconfig_delete_value [] key c)) of (r, c1) \<Rightarrow>
            if r < 0 then Some (-1, c1) else confupda_pairs env ps c1)"

definition do_confupda :: "mnt_env \<Rightarrow> StringPairList \<Rightarrow> mnt_state \<Rightarrow> (int \<times> mnt_state) option" where
  "do_confupda env l s =
     (case confupda_pairs env (TraverseList l) (mn_cfg s) of
        None \<Rightarrow> None
      | Some (r, c) \<Rightarrow>
          if r < 0 then Some (-1, s\<lparr>mn_cfg := c\<rparr>)
          else case myconfig_dump_to_file (me_fopen env) c of
            None \<Rightarrow> None
          | Some (_, t) \<Rightarrow>
              (case reload_config c of (g, c1) \<Rightarrow>
                 Some (0, s\<lparr>mn_cfg := c1, mn_g := g, mn_file := (case t of None \<Rightarrow> mn_file s | Some x \<Rightarrow> Some x)\<rparr>)))"

definition get_cmd_position :: "string \<Rightarrow> int" where
  "get_cmd_position cmd = (case List.find (\<lambda>i. cmd_type ! i = cmd) [0..<10] of None \<Rightarrow> -1 | Some i \<Rightarrow> int i)"

definition get_info :: "mnt_env \<Rightarrow> mnt_state \<Rightarrow> string" where
  "get_info env s =
     (let n = (\<lambda>q. dec_int (get_task_count q (mn_task s))) in
      ''starttime='' @ get_strtime_by_t (me_localtime env) (me_start env) @ ''|compile_time='' @ fst (me_compiled env) @ '' ''
      @ snd (me_compiled env) @ ''|pfs_test='' @ dec (unat (gc_pfs_test (mn_g s))) @ ''|task_timeout='' @ dec_int (gc_task_timeout (mn_g s))
      @ ''|task_run='' @ n TASK_Q_RUN @ ''|task_wait='' @ n TASK_Q_WAIT @ ''|task_fin='' @ n TASK_Q_FIN
      @ ''|task_clean='' @ n TASK_Q_CLEAN @ ''|task_wait_sync='' @ n TASK_Q_WAIT_SYNC @ ''|task_wait_sync_ip='' @ n TASK_Q_WAIT_SYNC_IP
      @ ''|task_wait_tmp='' @ n TASK_Q_WAIT_TMP @ ''|'')"

subsection \<open>Time stamps\<close>

text \<open>
  The answer is built in a buffer of 40960 bytes; a piece is written while the text so far is shorter.  The
  texts here are what \<^verbatim>\<open>snprintf\<close> would have written into a buffer that is long enough.
\<close>

abbreviation SENDBUF :: nat where "SENDBUF \<equiv> 40960"

definition add_text :: "string \<Rightarrow> string \<Rightarrow> string" where
  "add_text t out = (if length out < SENDBUF then out @ t else out)"

fun dirtime_pairs :: "mnt_env \<Rightarrow> (string \<times> string) list \<Rightarrow> string \<Rightarrow> store \<Rightarrow> (string \<times> store) option" where
  "dirtime_pairs env [] out st = Some (out @ [CHR 0x0A], st)"
| "dirtime_pairs env ((key, v) # ps) out st =
     (if strcasecmp_eq key ''pfs_cmd'' then dirtime_pairs env ps out st
      else case cut_line v of
        None \<Rightarrow> None
      | Some val \<Rightarrow>
          (case strchr CHR '','' key of
             None \<Rightarrow> dirtime_pairs env ps out st
           | Some (_, k2) \<Rightarrow>
               let d1 = atoi key; d2 = atoi k2; tval = get_time_t (me_mktime env) val;
                   oval = get_time_stamp_by_int (me_cf env) d1 d2 st in
               dirtime_pairs env ps
                 (add_text (''set fcs '' @ key @ ''='' @ val @ ''('' @ dec_int tval @ ''),old ''
                    @ get_strtime_by_t (me_localtime env) oval @ ''('' @ dec_int oval @ '') '') out)
                 (snd (set_time_stamp_by_int (me_cf env) d1 d2 tval st))))"

definition set_dirtime :: "mnt_env \<Rightarrow> StringPairList \<Rightarrow> mnt_state \<Rightarrow> (string \<times> mnt_state) option" where
  "set_dirtime env l s =
     map_option (\<lambda>(t, st). (t, s\<lparr>mn_store := st\<rparr>)) (dirtime_pairs env (TraverseList l) [] (mn_store s))"

text \<open>The function calls itself with the arguments it was given.\<close>

partial_function (option) get_dirtime :: "string \<Rightarrow> nat \<Rightarrow> (string \<times> mnt_state) option" where
  "get_dirtime buf len = get_dirtime buf len"

subsection \<open>Files and directories to fetch\<close>

abbreviation TASK_SYNCDIR :: uint8 where "TASK_SYNCDIR \<equiv> 51"

definition mnt_task :: "mnt_env \<Rightarrow> t_pfs_taskinfo \<Rightarrow> int \<Rightarrow> mnt_state \<Rightarrow> int \<times> mnt_state" where
  "mnt_task env info q s =
     (case pfs_get_task (me_lock env) (me_malloc env (mn_task s)) (me_now env) TASK_Q_HOME (mn_task s) of (r, t, ts) \<Rightarrow>
        (case t of
           Some k \<Rightarrow>
             if r \<noteq> 0 then (-1, s\<lparr>mn_task := ts\<rparr>)
             else (0, s\<lparr>mn_task := snd (pfs_set_task (me_lock env) (me_now env) k q
                     (upd_task k (\<lambda>x. x\<lparr>tk_task := info\<lparr>ti_user := ti_user (tk_task x)\<rparr>\<rparr>) ts))\<rparr>)
         | None \<Rightarrow> (-1, s\<lparr>mn_task := ts\<rparr>)))"

definition do_poss_sync_file :: "mnt_env \<Rightarrow> string \<Rightarrow> string \<Rightarrow> mnt_state \<Rightarrow> int \<times> mnt_state" where
  "do_poss_sync_file env file' sip =
     mnt_task env \<lparr>ti_base = zero_base\<lparr>b_filename := snprintf_s 256 file', b_starttime := me_now env, b_type := TASK_ADDFILE,
         b_dstip := me_self_ip env\<rparr>,
       ti_sub = zero_sub\<lparr>u_oper_type := OPER_FROM_POSS, u_need_sync := TASK_SYNC_VOSS_FILE, u_peerip := snprintf_s 16 sip\<rparr>,
       ti_user = None\<rparr> TASK_Q_WAIT"

definition do_poss_sync_dir :: "mnt_env \<Rightarrow> string \<Rightarrow> string \<Rightarrow> int \<Rightarrow> mnt_state \<Rightarrow> int \<times> mnt_state" where
  "do_poss_sync_dir env dom' file' starttime =
     mnt_task env \<lparr>ti_base = zero_base\<lparr>b_filename := snprintf_s 256 file', b_starttime := starttime, b_type := TASK_SYNCDIR\<rparr>,
       ti_sub = zero_sub\<lparr>u_need_sync := TASK_SYNC_VOSS_FILE\<rparr>, ti_user = None\<rparr> TASK_Q_SYNC_POSS"

fun sync_file_pairs :: "mnt_env \<Rightarrow> (string \<times> string) list \<Rightarrow> string \<Rightarrow> mnt_state \<Rightarrow> (string \<times> mnt_state) option" where
  "sync_file_pairs env [] out s = Some (out, s)"
| "sync_file_pairs env ((key, v) # ps) out s =
     (if strcasecmp_eq key ''pfs_cmd'' then sync_file_pairs env ps out s
      else case cut_line v of
        None \<Rightarrow> None
      | Some val \<Rightarrow>
          (case do_poss_sync_file env key val s of (r, s1) \<Rightarrow>
             sync_file_pairs env ps
               (if r \<noteq> 0 then add_text (''sync '' @ key @ '' '' @ val @ '' err '' @ me_errmsg env) out else out) s1))"

definition poss_sync_file :: "mnt_env \<Rightarrow> StringPairList \<Rightarrow> mnt_state \<Rightarrow> (string \<times> mnt_state) option" where
  "poss_sync_file env l s = sync_file_pairs env (TraverseList l) [] s"

fun sync_dir_pairs :: "mnt_env \<Rightarrow> (string \<times> string) list \<Rightarrow> string \<Rightarrow> mnt_state \<Rightarrow> (string \<times> mnt_state) option" where
  "sync_dir_pairs env [] out s = Some (out, s)"
| "sync_dir_pairs env ((key, v) # ps) out s =
     (if strcasecmp_eq key ''pfs_cmd'' then sync_dir_pairs env ps out s
      else case cut_line v of
        None \<Rightarrow> None
      | Some val \<Rightarrow>
          (case strrchr CHR ''|'' val of
             None \<Rightarrow>
               sync_dir_pairs env ps (add_text (''sync '' @ key @ '' '' @ val @ '' errformat domain=d1,d2|yyyymmddHHMMSS'') out) s
           | Some (d, t) \<Rightarrow>
               (case do_poss_sync_dir env key d (get_time_t (me_mktime env) t) s of (r, s1) \<Rightarrow>
                  sync_dir_pairs env ps
                    (if r \<noteq> 0 then add_text (''sync '' @ key @ '' '' @ d @ '' err '' @ me_errmsg env) out else out) s1)))"

definition poss_sync_dir :: "mnt_env \<Rightarrow> StringPairList \<Rightarrow> mnt_state \<Rightarrow> (string \<times> mnt_state) option" where
  "poss_sync_dir env l s = sync_dir_pairs env (TraverseList l) [] s"

text \<open>The addresses of each value are looked up, and nothing is done with them.\<close>

fun off_on_line_pairs :: "mnt_env \<Rightarrow> (string \<times> string) list \<Rightarrow> (uint32 \<times> string option) list option" where
  "off_on_line_pairs env [] = Some []"
| "off_on_line_pairs env ((key, v) # ps) =
     (if strcasecmp_eq key ''pfs_cmd'' then off_on_line_pairs env ps
      else case cut_line v of
        None \<Rightarrow> None
      | Some val \<Rightarrow> map_option (append (map (get_uint32_ip (me_resolve env)) (commas val))) (off_on_line_pairs env ps))"

definition poss_off_on_line :: "mnt_env \<Rightarrow> StringPairList \<Rightarrow> mnt_state \<Rightarrow> (string \<times> mnt_state) option" where
  "poss_off_on_line env l s = map_option (\<lambda>_. ([], s)) (off_on_line_pairs env (TraverseList l))"

subsection \<open>A request\<close>

text \<open>
  The characters after the last letter or digit are removed; when there is no letter or digit the loop goes on before
  the array.
\<close>

definition trim_cmd :: "string \<Rightarrow> string option" where
  "trim_cmd v = (let t = rstrip (\<lambda>c. \<not> isalnum c) v in if t = [] then None else Some t)"

definition or_else :: "string \<Rightarrow> string \<times> mnt_state \<Rightarrow> string \<times> mnt_state" where
  "or_else d = apfst (\<lambda>t. if t = [] then d else t)"

text \<open>\<open>shown\<close> is the text from the start of the request up to a zero byte, as \<^verbatim>\<open>%s\<close> prints it.\<close>

definition run_cmd :: "mnt_env \<Rightarrow> string \<Rightarrow> int \<Rightarrow> StringPairList \<Rightarrow> mnt_state \<Rightarrow> (string \<times> mnt_state) option" where
  "run_cmd env shown type l s =
     (if type = 5 then
        map_option (\<lambda>(r, s1). (shown @ (if r = 0 then ''::Result=OK&Code=0&Msg=Success'' else ''::Msg=Failed''), s1)) (do_confupda env l s)
      else if type = 2 then Some (get_info env s, s)
      else if type = 6 then set_dirtime env l s
      else if type = 7 then get_dirtime [] SENDBUF
      else if type = 4 then map_option (or_else ''sync file OK!'') (poss_sync_file env l s)
      else if type = 3 then map_option (or_else ''sync dir OK!'') (poss_sync_dir env l s)
      else if type = 1 then map_option (or_else (''offline '' @ shown @ '' OK!'')) (poss_off_on_line env l s)
      else if type = 0 then map_option (or_else (''online '' @ shown @ '' OK!'')) (poss_off_on_line env l s)
      else Some (shown @ '':: not implement'', s))"

text \<open>
  What is sent of a text of the buffer: as many bytes as \<^verbatim>\<open>snprintf\<close> would have written, also when they are more than
  fit; the last byte of the buffer is the zero that ends the text.
\<close>

definition answer_bytes :: "string \<Rightarrow> bytes option" where
  "answer_bytes t =
     (if length t < SENDBUF then Some (bytes_of t)
      else if length t = SENDBUF then Some (bytes_of (butlast t) @ [0])
      else None)"

definition send_answer :: "string \<Rightarrow> mnt_state \<Rightarrow> mnt_state option" where
  "send_answer t s =
     (if t = [] then Some s
      else case create_poss_head RSP_PFS_CMD (length t) (mn_seq s) of (h, seq) \<Rightarrow>
        map_option (\<lambda>b. s\<lparr>mn_seq := seq, mn_send := mn_send s @ h @ b\<rparr>) (answer_bytes t))"

text \<open>\<open>behind\<close> is what follows the request in the receive buffer.\<close>

definition do_request :: "mnt_env \<Rightarrow> string \<Rightarrow> string \<Rightarrow> mnt_state \<Rightarrow> mnt_state option" where
  "do_request env data behind s =
     (case CreateStringPairList (me_mem env) 20 of
        None \<Rightarrow> Some s
      | Some l0 \<Rightarrow>
          (case DecodePara data l0 of (r, l, bad) \<Rightarrow>
             if bad then None
             else if r \<noteq> 0 then Some s
             else case GetParaValue l ''pfs_cmd'' 32 of
               None \<Rightarrow> Some s
             | Some v \<Rightarrow>
                 (case trim_cmd v of
                    None \<Rightarrow> None
                  | Some cmd \<Rightarrow>
                      let type = get_cmd_position cmd in
                      if type = -1 then Some s
                      else case run_cmd env (cstr (data @ behind)) type l s of
                        None \<Rightarrow> None
                      | Some (t, s1) \<Rightarrow> send_answer t s1)))"

subsection \<open>Which entries a command can change\<close>

lemma find_filter: "(\<And>x. P x \<Longrightarrow> Q x) \<Longrightarrow> List.find P (filter Q xs) = List.find P xs"
  by (induction xs) auto

lemma find_filter_none: "List.find P (filter (\<lambda>x. \<not> P x) xs) = None"
  by (induction xs) auto

lemma valid_key_chars:
  assumes "isvalid key = 0" and "c \<in> set key" and "SEP c"
  shows "c = CHR ''_''"
proof -
  obtain k where k: "k \<in> set validcmd" "map tolower key = map tolower k"
    using assms(1) by (auto simp: isvalid_def strcasecmp_eq_def split: if_splits)
  have "tolower c \<in> set (map tolower key)" using assms(2) by simp
  then have "tolower c \<in> set (map tolower k)" by (simp only: k(2))
  moreover have "\<forall>x \<in> set validcmd. \<forall>d \<in> set (map tolower x). d \<noteq> CHR '' '' \<and> d \<noteq> CHR ''.'' \<and> d \<noteq> CHR ''-''" by code_simp
  ultimately have "tolower c \<noteq> CHR '' '' \<and> tolower c \<noteq> CHR ''.'' \<and> tolower c \<noteq> CHR ''-''" using k(1) by blast
  moreover have "tolower CHR '' '' = CHR '' ''" "tolower CHR ''.'' = CHR ''.''" "tolower CHR ''-'' = CHR ''-''" by code_simp+
  ultimately show ?thesis using assms(3) unfolding SEP_def by metis
qed

lemma del_key_valid: "isvalid key = 0 \<Longrightarrow> del_key [] key = key"
  using valid_key_chars by (auto simp: del_key_def intro!: map_idI)

lemma SEP_under: "SEP CHR ''_''" "tolower CHR ''_'' = CHR ''_''" by (simp_all add: SEP_def) code_simp

lemma cfg_key_valid:
  assumes "isvalid key = 0"
  shows "cfg_key [] key = map tolower key" "strchr CHR ''_'' key = Some (pre, key0) \<Longrightarrow> cfg_key (pre @ ''-'') key0 = map tolower key"
proof -
  have m: "map (\<lambda>c. tolower (if SEP c then CHR ''_'' else c)) xs = map tolower xs" if "set xs \<subseteq> set key" for xs
    using that valid_key_chars [OF assms] by (fastforce simp: SEP_under)
  show "cfg_key [] key = map tolower key" unfolding cfg_key_def append_Nil by (rule m) simp
  assume "strchr CHR ''_'' key = Some (pre, key0)"
  then have k: "key = pre @ CHR ''_'' # key0" by (simp add: strchr_Some_iff)
  have "set pre \<subseteq> set key" "set key0 \<subseteq> set key" by (auto simp: k)
  then have "map (\<lambda>c. tolower (if SEP c then CHR ''_'' else c)) pre = map tolower pre"
    "map (\<lambda>c. tolower (if SEP c then CHR ''_'' else c)) key0 = map tolower key0" using m by blast+
  then show "cfg_key (pre @ ''-'') key0 = map tolower key"
    unfolding cfg_key_def map_append by (simp add: k SEP_under(2)) (simp add: SEP_def SEP_under(2))
qed

lemma isvalid_lower: "isvalid (map tolower key) = isvalid key"
proof -
  have "tolower (tolower c) = tolower c" for c by (cases c) (auto simp: tolower_def)
  then show ?thesis by (simp add: isvalid_def strcasecmp_eq_def comp_def)
qed

text \<open>The entries of other keys, and the invariant of the table, through the three functions that are called for a key.\<close>

definition keeps :: "cfg_state \<Rightarrow> cfg_state \<Rightarrow> bool" where
  "keeps c c' \<longleftrightarrow> cfg_ok c' \<and> (\<forall>q. isvalid q \<noteq> 0 \<longrightarrow> myconfig_get_value q c' = myconfig_get_value q c)"

lemma keeps_trans: "keeps c c1 \<Longrightarrow> keeps c1 c2 \<Longrightarrow> keeps c c2"
  by (simp add: keeps_def)

lemma delete_tables:
  "cf_mc (snd (myconfig_delete_value pre key c)) = cf_mc c" "cf_next (snd (myconfig_delete_value pre key c)) = cf_next c"
  "cf_hash (snd (myconfig_delete_value pre key c)) b =
     (if b = bucket (r5hash (del_key pre key)) then filter (\<lambda>i. \<not> cfg_match c (del_key pre key) i) (cf_hash c b) else cf_hash c b)"
  by (simp_all add: myconfig_delete_value_def Let_def)

lemma cfg_find_delete:
  "cfg_find q (snd (myconfig_delete_value [] key c)) = (if q = del_key [] key then None else cfg_find q c)"
proof -
  let ?c = "snd (myconfig_delete_value [] key c)"
  have "cfg_match ?c = cfg_match c" by (auto simp: cfg_match_def fun_eq_iff delete_tables)
  moreover have "cfg_match c q i \<Longrightarrow> q \<noteq> del_key [] key \<Longrightarrow> \<not> cfg_match c (del_key [] key) i" for i by (auto simp: cfg_match_def)
  ultimately show ?thesis by (auto simp: cfg_find_def delete_tables find_filter find_filter_none)
qed

lemma keeps_delete: "cfg_ok c \<Longrightarrow> isvalid key = 0 \<Longrightarrow> keeps c (snd (myconfig_delete_value [] key c))"
  by (auto simp: keeps_def cfg_ok_def delete_tables myconfig_get_value_def cfg_find_delete del_key_valid)

lemma cfg_find_key: "cfg_find k c = Some i \<Longrightarrow> mc_key (cf_mc c i) = k"
  by (auto simp: cfg_find_def find_Some_iff cfg_match_def)

lemma keeps_cell:
  assumes "cfg_ok c" and "cfg_find key c = Some i" and "mc_hash m = mc_hash (cf_mc c i)" and "mc_key m = key"
    and "isvalid key = 0 \<or> mc_val m = mc_val (cf_mc c i)"
  shows "keeps c (c\<lparr>cf_mc := (cf_mc c)(i := m)\<rparr>)"
proof -
  let ?c = "c\<lparr>cf_mc := (cf_mc c)(i := m)\<rparr>"
  have f: "cfg_find q ?c = cfg_find q c" for q
    by (rule find_upd_same_key) (use assms(3,4) cfg_find_key [OF assms(2)] in auto)
  have "cfg_ok ?c" using assms(1) by (simp add: cfg_ok_def)
  moreover have "mc_val (cf_mc ?c j) = mc_val (cf_mc c j)" if "cfg_find q c = Some j" "isvalid q \<noteq> 0" for q j
    using that assms(2,5) cfg_find_key [OF that(1)] cfg_find_key [OF assms(2)] by auto
  moreover have "map_option (\<lambda>j. mc_val (cf_mc ?c j)) (cfg_find q c) = map_option (\<lambda>j. mc_val (cf_mc c j)) (cfg_find q c)"
    if "isvalid q \<noteq> 0" for q
    using calculation(2) [OF _ that] by (cases "cfg_find q c") (simp_all del: fun_upd_apply)
  ultimately show ?thesis by (simp add: keeps_def myconfig_get_value_def f)
qed

lemma keeps_put:
  assumes "cfg_ok c" and "isvalid (cfg_key pre key0) = 0"
  shows "keeps c (snd (myconfig_put_value m pre key0 v c))"
proof (cases m)
  case True
  have "keeps c (cfg_put (pre, key0) v c)"
    using assms cfg.get_put [OF assms(1)] cfg_ok_put [OF assms(1)] by (auto simp: keeps_def)
  then show ?thesis using True by (simp add: cfg_put_def)
next
  case False
  then show ?thesis using assms(1) by (simp add: keeps_def myconfig_put_value_def)
qed

lemma keeps_update:
  assumes "cfg_ok c" and "isvalid key = 0"
  shows "keeps c (snd (myconfig_update_value m key v c))"
proof (cases "cfg_find key c")
  case None
  then show ?thesis using assms keeps_put cfg_key_valid [OF assms(2)]
    by (auto simp: myconfig_update_value_def isvalid_lower split: option.splits)
next
  case (Some i)
  then show ?thesis using keeps_cell [OF assms(1) Some, of "(cf_mc c i)\<lparr>mc_val := v\<rparr>"] assms(2) cfg_find_key [OF Some]
    by (simp add: myconfig_update_value_def)
qed

lemma keeps_intval:
  assumes "cfg_ok c"
  shows "keeps c (snd (myconfig_get_intval k d c))"
proof (cases "cfg_find k c")
  case None
  then show ?thesis using assms by (simp add: myconfig_get_intval_def keeps_def)
next
  case (Some i)
  show ?thesis
    using keeps_cell [OF assms Some, of "(cf_mc c i)\<lparr>mc_intval := n\<rparr>" for n] cfg_find_key [OF Some] assms
    by (auto simp: myconfig_get_intval_def Some Let_def keeps_def split: option.splits)
qed

lemma keeps_read_ints: "cfg_ok c \<Longrightarrow> keeps c (snd (read_ints ks c))"
proof (induction ks arbitrary: c)
  case (Cons k ks)
  obtain key d where k: "k = (key, d)" by (cases k)
  let ?c = "snd (myconfig_get_intval key d c)"
  have "keeps c ?c" by (rule keeps_intval [OF Cons.prems])
  moreover from this have "keeps ?c (snd (read_ints ks ?c))" using Cons.IH by (simp add: keeps_def)
  ultimately show ?case using keeps_trans by (auto simp: k split: prod.splits)
qed (simp add: keeps_def)

lemma keeps_pairs: "cfg_ok c \<Longrightarrow> confupda_pairs env ps c = Some (r, c') \<Longrightarrow> keeps c c'"
proof (induction env ps c arbitrary: c' rule: confupda_pairs.induct)
  case (2 env key v ps c)
  show ?case
  proof (cases "strcasecmp_eq key ''pfs_cmd'' \<or> isvalid key \<noteq> 0")
    case True
    then show ?thesis using 2 by simp
  next
    case False
    then obtain val where val: "cut_line v = Some val" "\<not> length val \<ge> VAL_MAX_LEN" using "2.prems"(2) by (auto split: option.splits if_splits)
    obtain n c1 where u: "myconfig_update_value (me_cfg_malloc env) key val (snd (myconfig_delete_value [] key c)) = (n, c1)" by fastforce
    have "keeps c (snd (myconfig_delete_value [] key c))" using False "2.prems"(1) by (intro keeps_delete) auto
    moreover from this have "keeps (snd (myconfig_delete_value [] key c)) c1" using keeps_update u False by (metis keeps_def snd_conv)
    ultimately have c1: "keeps c c1" by (rule keeps_trans)
    then have "cfg_ok c1" by (simp add: keeps_def)
    then have "\<not> n < 0 \<Longrightarrow> confupda_pairs env ps c1 = Some (r, c') \<Longrightarrow> keeps c1 c'"
      using "2.IH"(2) [OF False val u [symmetric]] by blast
    then show ?thesis using "2.prems"(2) False val u c1 keeps_trans by (auto split: if_splits)
  qed
qed (simp add: keeps_def)

lemma keeps_confupda: "cfg_ok (mn_cfg s) \<Longrightarrow> do_confupda env l s = Some (r, s') \<Longrightarrow> keeps (mn_cfg s) (mn_cfg s')"
proof -
  assume ok: "cfg_ok (mn_cfg s)" and d: "do_confupda env l s = Some (r, s')"
  obtain n c where c: "confupda_pairs env (TraverseList l) (mn_cfg s) = Some (n, c)"
    using d by (auto simp: do_confupda_def split: option.splits)
  have k: "keeps (mn_cfg s) c" by (rule keeps_pairs [OF ok c])
  then have "keeps c (snd (reload_config c))" using keeps_read_ints [of c reload_ints] by (simp add: reload_config_def keeps_def case_prod_beta)
  then have "keeps (mn_cfg s) (snd (reload_config c))" using k keeps_trans by blast
  moreover have "mn_cfg s' = c \<or> mn_cfg s' = snd (reload_config c)"
    using d c by (auto simp: do_confupda_def split: option.splits if_splits prod.splits)
  ultimately show ?thesis using k by auto
qed

text \<open>Every other command leaves the configuration as it is.\<close>

lemma get_dirtime_diverges: "get_dirtime buf len = None"
proof (cases "get_dirtime buf len")
  case (Some y)
  then show ?thesis using get_dirtime.raw_induct [where P = "\<lambda>_ _ _. False"] by blast
qed

lemma mnt_task_cfg: "mn_cfg (snd (mnt_task env info q s)) = mn_cfg s"
  by (auto simp: mnt_task_def split: prod.splits option.splits)

lemma sync_file_cfg: "sync_file_pairs env ps out s = Some (t, s') \<Longrightarrow> mn_cfg s' = mn_cfg s"
  by (induction env ps out s rule: sync_file_pairs.induct)
    (auto simp: do_poss_sync_file_def split: option.splits if_splits prod.splits dest!: arg_cong [where f = "\<lambda>p. mn_cfg (snd p)"] simp: mnt_task_cfg)

lemma sync_dir_cfg: "sync_dir_pairs env ps out s = Some (t, s') \<Longrightarrow> mn_cfg s' = mn_cfg s"
  by (induction env ps out s rule: sync_dir_pairs.induct)
    (auto simp: do_poss_sync_dir_def split: option.splits if_splits prod.splits dest!: arg_cong [where f = "\<lambda>p. mn_cfg (snd p)"] simp: mnt_task_cfg)

lemma keeps_run_cmd:
  assumes "cfg_ok (mn_cfg s)" and "run_cmd env shown type l s = Some (t, s')"
  shows "keeps (mn_cfg s) (mn_cfg s')"
proof -
  have "(\<exists>r. do_confupda env l s = Some (r, s')) \<or> mn_cfg s' = mn_cfg s"
    using assms(2) sync_file_cfg sync_dir_cfg
    by (auto simp: run_cmd_def set_dirtime_def poss_sync_file_def poss_sync_dir_def poss_off_on_line_def or_else_def get_dirtime_diverges
        split: if_splits)
  then show ?thesis using assms(1) keeps_confupda by (auto simp: keeps_def)
qed

lemma send_answer_cfg: "send_answer t s = Some s' \<Longrightarrow> mn_cfg s' = mn_cfg s \<and> mn_g s' = mn_g s"
  by (auto simp: send_answer_def split: if_splits prod.splits)


subsection \<open>A changed entry takes effect\<close>

lemma intval_find: "cfg_find k (snd (myconfig_get_intval k' d c)) = cfg_find k c"
  by (rule find_upd_same_key) (auto simp: myconfig_get_intval_def Let_def split: option.splits)

lemma intval_other:
  assumes "k \<noteq> k'"
  shows "fst (myconfig_get_intval k d (snd (myconfig_get_intval k' d' c))) = fst (myconfig_get_intval k d c)"
proof -
  have "cf_mc (snd (myconfig_get_intval k' d' c)) i = cf_mc c i" if "cfg_find k c = Some i" for i
    using that assms cfg_find_key [of k c i] cfg_find_key [of k' c] by (auto simp: myconfig_get_intval_def Let_def split: option.splits)
  then show ?thesis unfolding myconfig_get_intval_def [of k] intval_find by (auto simp: Let_def split: option.splits)
qed

lemma intval_again: "fst (myconfig_get_intval k d (snd (myconfig_get_intval k d' c))) = fst (myconfig_get_intval k d c)"
proof (cases "cfg_find k c")
  case (Some i)
  then show ?thesis unfolding myconfig_get_intval_def [of k d "snd _"] intval_find
    by (auto simp: myconfig_get_intval_def Let_def split: option.splits)
qed (simp add: myconfig_get_intval_def)

lemma read_ints_keep: "fst (myconfig_get_intval k d (snd (read_ints ks c))) = fst (myconfig_get_intval k d c)"
proof (induction ks arbitrary: c)
  case (Cons p ks)
  obtain k' d' where p: "p = (k', d')" by (cases p)
  show ?case using Cons [of "snd (myconfig_get_intval k' d' c)"] intval_again [of k d d' c] intval_other [of k k' d d' c]
    by (cases "k = k'") (auto simp: p split: prod.splits)
qed simp

lemma read_ints_nth:
  assumes "n < length ks"
  shows "fst (read_ints ks c) ! n = fst (myconfig_get_intval (fst (ks ! n)) (snd (ks ! n)) c)"
  using assms
proof (induction ks arbitrary: n c)
  case (Cons p ks)
  obtain k' d' where p: "p = (k', d')" by (cases p)
  let ?c = "snd (myconfig_get_intval k' d' c)"
  have "fst (myconfig_get_intval k d ?c) = fst (myconfig_get_intval k d c)" for k d
    using read_ints_keep [of k d "[(k', d')]" c] by (simp add: case_prod_beta)
  then show ?case using Cons by (cases n) (auto simp: p case_prod_beta)
qed simp

lemma read_ints_value: "myconfig_get_value q (snd (read_ints ks c)) = myconfig_get_value q c"
proof (induction ks arbitrary: c)
  case (Cons p ks)
  obtain k d where p: "p = (k, d)" by (cases p)
  have "mc_val (cf_mc (snd (myconfig_get_intval k d c)) i) = mc_val (cf_mc c i)" for i
    by (auto simp: myconfig_get_intval_def Let_def split: option.splits)
  then have "myconfig_get_value q (snd (myconfig_get_intval k d c)) = myconfig_get_value q c"
    by (simp add: myconfig_get_value_def intval_find)
  then show ?case using Cons [of "snd (myconfig_get_intval k d c)"] by (simp add: p case_prod_beta)
qed simp

lemma update_after_delete:
  assumes "cfg_ok c" and "isvalid key = 0" and "map tolower key = key" and "int_of_val v = Some n"
    and "c1 = snd (myconfig_update_value True key v (snd (myconfig_delete_value [] key c)))"
  shows "fst (myconfig_get_intval key d c1) = n" "myconfig_get_value key c1 = Some v" "fst (myconfig_update_value True key v (snd (myconfig_delete_value [] key c))) \<ge> 0"
proof -
  let ?c = "snd (myconfig_delete_value [] key c)"
  have none: "cfg_find key ?c = None" by (simp add: cfg_find_delete del_key_valid [OF assms(2)])
  have ok: "cfg_ok ?c" using keeps_delete [OF assms(1,2)] by (simp add: keeps_def)
  obtain pre key0 where u: "myconfig_update_value True key v ?c = myconfig_put_value True pre key0 v ?c" and k: "cfg_key pre key0 = key"
  proof (cases "strchr CHR ''_'' key")
    case None
    then show ?thesis using that [of "[]" key] none cfg_key_valid(1) [OF assms(2)] assms(3) by (simp add: myconfig_update_value_def)
  next
    case (Some p)
    then show ?thesis using that [of "fst p @ ''-''" "snd p"] none cfg_key_valid(2) [OF assms(2), of "fst p" "snd p"] assms(3)
      by (simp add: myconfig_update_value_def case_prod_beta)
  qed
  have c1: "c1 = cfg_put (pre, key0) v ?c" by (simp add: assms(5) u cfg_put_def)
  have f: "cfg_find key c1 = Some (cf_next ?c)" using cfg_find_put [OF ok, of key pre key0 v] by (simp add: c1 k)
  have m: "cf_mc c1 (cf_next ?c) = \<lparr>mc_hash = r5hash key, mc_key = key, mc_val = v, mc_intval = -1\<rparr>"
    by (simp add: c1 cfg_put_def put_value_tables k)
  show "fst (myconfig_get_intval key d c1) = n" using f m assms(4) by (simp add: myconfig_get_intval_def)
  show "myconfig_get_value key c1 = Some v" using f m by (simp add: myconfig_get_value_def)
  show "fst (myconfig_update_value True key v ?c) \<ge> 0" by (simp add: u myconfig_put_value_def Let_def)
qed

text \<open>A request with a command and one parameter.\<close>

definition request :: "string \<Rightarrow> string \<times> string \<Rightarrow> string" where
  "request cmd p = ''pfs_cmd='' @ cmd @ ''&'' @ fst p @ ''='' @ snd p"

lemma do_request_one:
  assumes "me_mem env = Some mem" and "cmd \<in> set cmd_type" and "plain_pair p"
  shows "\<exists>l. TraverseList l = [(''pfs_cmd'', cmd), p] \<and> do_request env (request cmd p) behind s =
    (case run_cmd env (cstr (request cmd p @ behind)) (get_cmd_position cmd) l s of None \<Rightarrow> None | Some (t, s1) \<Rightarrow> send_answer t s1)"
proof -
  let ?l = "\<lparr>sp_last = 0, sp_max = 20, sp_pairs = mem\<rparr>"
  have pl: "\<forall>c \<in> set cmd_type. plain_pair (''pfs_cmd'', c)" by code_simp
  have c: "\<forall>c \<in> set cmd_type. snd (decode_string c 32) = c \<and> trim_cmd c = Some c \<and> get_cmd_position c \<noteq> -1" by code_simp
  obtain l where l: "DecodePara (pair_text (''pfs_cmd'', cmd) @ fst p @ ''='' @ snd p) ?l = (0, l, False)" "TraverseList l = [(''pfs_cmd'', cmd), p]"
    using DecodePara_pairs [of "[(''pfs_cmd'', cmd)]" p ?l] pl assms(2,3) by auto
  have "pair_text (''pfs_cmd'', cmd) @ fst p @ ''='' @ snd p = request cmd p" by (simp add: pair_text_def request_def)
  moreover have "GetParaValue l ''pfs_cmd'' 32 = Some cmd"
    using c assms(2) by (auto simp: GetParaValue_def find_para_def l(2) strcasecmp_eq_def)
  ultimately show ?thesis
    using l c assms(1,2) by (intro exI [of _ l]) (auto simp: do_request_def CreateStringPairList_def Let_def)
qed

lemma confupda_effect:
  assumes "cfg_ok (mn_cfg s)" and "me_mem env = Some mem" and "me_cfg_malloc env"
    and "key \<in> set validcmd" and "int_of_val v = Some n" and "v \<noteq> []" and "\<forall>c \<in> set v. c \<notin> {CHR ''='', CHR ''&'', NUL} \<and> \<not> crlf c"
    and "length v < VAL_MAX_LEN" and "length behind < 1000"
    and "c1 = snd (myconfig_update_value True key v (snd (myconfig_delete_value [] key (mn_cfg s))))"
    and "myconfig_dump_to_file (me_fopen env) c1 \<noteq> None"
  shows "\<exists>s'. do_request env (request ''M_CONFUPDA'' (key, v)) behind s = Some s' \<and>
    myconfig_get_value key (mn_cfg s') = Some v \<and> fst (myconfig_get_intval key d (mn_cfg s')) = n \<and>
    (key = ''task_timeout'' \<longrightarrow> gc_task_timeout (mn_g s') = n)"
proof -
  have "map tolower key = key \<and> \<not> strcasecmp_eq key ''pfs_cmd'' \<and> length key < 20"
    using assms(4) by (auto simp: validcmd_def strcasecmp_eq_def tolower_def)
  moreover have "isvalid key = 0" using assms(4) by (auto simp: isvalid_def strcasecmp_eq_def)
  ultimately have k: "isvalid key = 0 \<and> map tolower key = key \<and> \<not> strcasecmp_eq key ''pfs_cmd'' \<and> length key < 20" by blast
  have "set key \<inter> {CHR ''='', CHR ''&'', NUL} = {}" using assms(4) by (auto simp: validcmd_def NUL_def)
  then have pl: "plain_pair (key, v)" using k assms(7,8) by (auto simp: plain_pair_def)
  obtain l where l: "TraverseList l = [(''pfs_cmd'', ''M_CONFUPDA''), (key, v)]"
    and rq: "do_request env (request ''M_CONFUPDA'' (key, v)) behind s =
      (case run_cmd env (cstr (request ''M_CONFUPDA'' (key, v) @ behind)) (get_cmd_position ''M_CONFUPDA'') l s of
         None \<Rightarrow> None | Some (t, s1) \<Rightarrow> send_answer t s1)"
    using do_request_one [OF assms(2) _ pl, of "''M_CONFUPDA''"] by (auto simp: cmd_type_def)
  have cut: "cut_line v = Some v" using assms(6,7) by (auto simp: cut_line_def dest: in_set_butlastD)
  note u = update_after_delete [OF assms(1) conjunct1 [OF k] _ assms(5,10)]
  have pairs: "confupda_pairs env (TraverseList l) (mn_cfg s) = Some (0, c1)"
    using u(3) k cut assms(3,8,10) by (auto simp: l strcasecmp_eq_def split: prod.splits)
  obtain r t where dump: "myconfig_dump_to_file (me_fopen env) c1 = Some (r, t)" using assms(11) by auto
  define s1 where "s1 = s\<lparr>mn_cfg := snd (reload_config c1), mn_g := fst (reload_config c1),
      mn_file := (case t of None \<Rightarrow> mn_file s | Some x \<Rightarrow> Some x)\<rparr>"
  have "do_confupda env l s = Some (0, s1)" by (simp add: do_confupda_def pairs dump s1_def case_prod_beta)
  moreover have "get_cmd_position ''M_CONFUPDA'' = 5" by code_simp
  moreover define t1 where "t1 = cstr (request ''M_CONFUPDA'' (key, v) @ behind) @ ''::Result=OK&Code=0&Msg=Success''"
  ultimately have rq': "do_request env (request ''M_CONFUPDA'' (key, v)) behind s = send_answer t1 s1"
    by (simp add: rq run_cmd_def)
  have "length t1 < SENDBUF"
    using length_takeWhile_le [of "\<lambda>c. c \<noteq> NUL" "request ''M_CONFUPDA'' (key, v) @ behind"] k assms(8,9)
    by (simp add: t1_def cstr_def request_def)
  then obtain s' where s': "send_answer t1 s1 = Some s'" by (auto simp: send_answer_def answer_bytes_def t1_def case_prod_beta)
  have cfg: "mn_cfg s' = snd (read_ints reload_ints c1)" "mn_g s' = fst (reload_config c1)"
    using send_answer_cfg [OF s'] by (simp_all add: s1_def reload_config_def case_prod_beta)
  show ?thesis

  proof (intro exI [of _ s'] conjI impI)
    show "do_request env (request ''M_CONFUPDA'' (key, v)) behind s = Some s'" by (simp add: rq' s')
    show "myconfig_get_value key (mn_cfg s') = Some v" using u(2) k by (simp add: cfg read_ints_value)
    show "fst (myconfig_get_intval key d (mn_cfg s')) = n" using u(1) k by (simp add: cfg read_ints_keep)
    show "gc_task_timeout (mn_g s') = n" if "key = ''task_timeout''"
      using read_ints_nth [of 7 reload_ints c1] u(1) [of 86400] k that
      by (simp add: cfg reload_config_def case_prod_beta) (simp add: reload_ints_def)
  qed
qed


text \<open>
  The command \<^verbatim>\<open>M_GETDIRTIME\<close> never returns: its function only calls itself.
\<close>

theorem getdirtime_never_returns:
  assumes "me_mem env = Some mem" and "plain_pair p"
  shows "do_request env (request ''M_GETDIRTIME'' p) behind s = None"
proof -
  have "get_cmd_position ''M_GETDIRTIME'' = 7" by code_simp
  then show ?thesis using do_request_one [OF assms(1) _ assms(2), of "''M_GETDIRTIME''" behind s]
    by (auto simp: cmd_type_def run_cmd_def get_dirtime_diverges)
qed

text \<open>
  The command that takes servers off line answers that it succeeded and changes nothing: the addresses are looked up,
  and only the answer is queued.
\<close>

theorem offline_without_effect:
  assumes "me_mem env = Some mem" and "plain_pair p" and "snd p \<noteq> []" and "\<not> strcasecmp_eq (fst p) ''pfs_cmd''" and "length behind < 1000"
  shows "\<exists>s'. do_request env (request ''M_OFFLINE'' p) behind s = Some s' \<and>
    s' = s\<lparr>mn_seq := mn_seq s + 1, mn_send := mn_send s' \<rparr> \<and>
    mn_send s' = mn_send s @ fst (create_poss_head RSP_PFS_CMD (length (cstr (request ''M_OFFLINE'' p @ behind)) + 12) (mn_seq s)) @
      bytes_of (''offline '' @ cstr (request ''M_OFFLINE'' p @ behind) @ '' OK!'')"
proof -
  let ?shown = "cstr (request ''M_OFFLINE'' p @ behind)"
  obtain l where l: "TraverseList l = [(''pfs_cmd'', ''M_OFFLINE''), p]"
    and rq: "do_request env (request ''M_OFFLINE'' p) behind s =
      (case run_cmd env ?shown (get_cmd_position ''M_OFFLINE'') l s of None \<Rightarrow> None | Some (t, s1) \<Rightarrow> send_answer t s1)"
    using do_request_one [OF assms(1) _ assms(2), of "''M_OFFLINE''"] by (auto simp: cmd_type_def)
  have "get_cmd_position ''M_OFFLINE'' = 1" by code_simp
  moreover have "poss_off_on_line env l s = Some ([], s)"
    using assms(3,4) by (cases p) (auto simp: poss_off_on_line_def l cut_line_def strcasecmp_eq_def)
  ultimately have "do_request env (request ''M_OFFLINE'' p) behind s = send_answer (''offline '' @ ?shown @ '' OK!'') s"
    by (simp add: rq run_cmd_def or_else_def)
  moreover have "length ?shown < 6000"
    using length_takeWhile_le [of "\<lambda>c. c \<noteq> NUL" "request ''M_OFFLINE'' p @ behind"] assms(2,5)
    by (simp add: cstr_def request_def plain_pair_def)
  ultimately show ?thesis by (simp add: send_answer_def answer_bytes_def create_poss_head_def getseq_def Let_def)
qed

subsection \<open>A file to fetch\<close>

text \<open>
  The command \<^verbatim>\<open>M_SYNCFILE\<close> queues one task: the named file is to be fetched from the given server by this one, and the
  task is the last of those that wait.
\<close>

theorem syncfile_queued:
  assumes "me_mem env = Some mem" and "plain_pair (name, ip)" and "ip \<noteq> []" and "\<forall>c \<in> set ip. \<not> crlf c"
    and "length ip < 16" and "\<not> strcasecmp_eq name ''pfs_cmd''"
    and "pfstask (mn_task s) TASK_Q_HOME = t # ts" and "t \<notin> set (pfstask (mn_task s) TASK_Q_WAIT)"
    and "me_lock env TASK_Q_HOME = 0" and "me_lock env TASK_Q_WAIT = 0"
  shows "\<exists>s'. do_request env (request ''M_SYNCFILE'' (name, ip)) behind s = Some s' \<and>
    pfstask (mn_task s') TASK_Q_WAIT = pfstask (mn_task s) TASK_Q_WAIT @ [t] \<and>
    b_filename (ti_base (tk_task (tasks (mn_task s') t))) = name \<and> b_dstip (ti_base (tk_task (tasks (mn_task s') t))) = me_self_ip env \<and>
    u_peerip (ti_sub (tk_task (tasks (mn_task s') t))) = ip \<and> u_oper_type (ti_sub (tk_task (tasks (mn_task s') t))) = OPER_FROM_POSS"
proof -
  obtain l where l: "TraverseList l = [(''pfs_cmd'', ''M_SYNCFILE''), (name, ip)]"
    and rq: "do_request env (request ''M_SYNCFILE'' (name, ip)) behind s =
      (case run_cmd env (cstr (request ''M_SYNCFILE'' (name, ip) @ behind)) (get_cmd_position ''M_SYNCFILE'') l s of
         None \<Rightarrow> None | Some (t, s1) \<Rightarrow> send_answer t s1)"
    using do_request_one [OF assms(1) _ assms(2), of "''M_SYNCFILE''"] by (auto simp: cmd_type_def)
  have cut: "cut_line ip = Some ip" using assms(3,4) by (auto simp: cut_line_def dest: in_set_butlastD)
  have f: "snprintf_s 256 name = name" "snprintf_s 16 ip = ip"
    using assms(2,5) by (simp_all add: plain_pair_def snprintf_s_def)
  obtain s1 where s1: "do_poss_sync_file env name ip s = (0, s1)"
    and q: "pfstask (mn_task s1) TASK_Q_WAIT = pfstask (mn_task s) TASK_Q_WAIT @ [t]"
      "b_filename (ti_base (tk_task (tasks (mn_task s1) t))) = name" "b_dstip (ti_base (tk_task (tasks (mn_task s1) t))) = me_self_ip env"
      "u_peerip (ti_sub (tk_task (tasks (mn_task s1) t))) = ip" "u_oper_type (ti_sub (tk_task (tasks (mn_task s1) t))) = OPER_FROM_POSS"
    using assms(7-10) f
    by (simp add: do_poss_sync_file_def mnt_task_def pfs_get_task_def pfs_set_task_def status_ok_def unlink_task_def upd_task_def link_tail_def
        atomic_inc_def atomic_dec_def remove1_idem)
  have "get_cmd_position ''M_SYNCFILE'' = 4" by code_simp
  moreover have "poss_sync_file env l s = Some ([], s1)"
    using s1 cut assms(6) by (simp add: poss_sync_file_def l strcasecmp_eq_def)
  ultimately have "do_request env (request ''M_SYNCFILE'' (name, ip)) behind s = send_answer ''sync file OK!'' s1"
    by (simp add: rq run_cmd_def or_else_def)
  then show ?thesis using q by (simp add: send_answer_def answer_bytes_def case_prod_beta)
qed

subsection \<open>The file that is written back\<close>

lemma parse_tab: "parse_line sec (CHR 0x09 # l) = parse_line sec l"
  by (simp add: parse_line_def blank_def)

lemma load_none: "parse_line sec l = (sec, None) \<Longrightarrow> load_line l (sec, s) = (sec, s)"
  by (simp add: load_line_def)


definition example_mnt_env :: mnt_env where
  "example_mnt_env = \<lparr>me_mem = Some (\<lambda>_. ([], [])), me_now = 5, me_start = 1, me_compiled = (''Jan  1 2014'', ''12:00:00''),
     me_localtime = (\<lambda>_. \<lparr>tm_year = 114, tm_mon = 0, tm_mday = 1, tm_hour = 0, tm_min = 0, tm_sec = 0\<rparr>), me_mktime = (\<lambda>_. 7),
     me_resolve = (\<lambda>_. None), me_lock = (\<lambda>_. 0), me_malloc = (\<lambda>_. None), me_cfg_malloc = True, me_fopen = True, me_self_ip = 9,
     me_cf = example_cf, me_errmsg = []\<rparr>"

definition example_mnt :: mnt_state where
  "example_mnt = \<lparr>mn_cfg = empty_config, mn_g = fst (reload_config empty_config), mn_file = None,
     mn_task = example_tasks, mn_store = example_store, mn_seq = 0, mn_send = []\<rparr>"

lemma example_confupda:
  "cfg_ok (mn_cfg example_mnt)" "me_mem example_mnt_env = Some (\<lambda>_. ([], []))" "me_cfg_malloc example_mnt_env" "''task_timeout'' \<in> set validcmd"
  "int_of_val ''300'' = Some 300" "''300'' \<noteq> []" "\<forall>c \<in> set ''300''. c \<notin> {CHR ''='', CHR ''&'', NUL} \<and> \<not> crlf c" "length ''300'' < VAL_MAX_LEN" "length [] < 1000"
  "myconfig_dump_to_file (me_fopen example_mnt_env)
     (snd (myconfig_update_value True ''task_timeout'' ''300'' (snd (myconfig_delete_value [] ''task_timeout'' (mn_cfg example_mnt))))) \<noteq> None"
  by (simp add: example_mnt_def cfg_ok_def empty_config_def, simp add: example_mnt_env_def, simp add: example_mnt_env_def, simp add: validcmd_def,
      code_simp, simp, code_simp, simp, simp, code_simp)


theorem getdirtime_never_returns_witness:
  "do_request example_mnt_env (request ''M_GETDIRTIME'' (''a'', ''b'')) [] example_mnt = None"
  by (rule getdirtime_never_returns [OF example_confupda(2)]) code_simp

theorem offline_without_effect_witness:
  "\<exists>s'. do_request example_mnt_env (request ''M_OFFLINE'' (''ip'', ''1.1.1.1'')) [] example_mnt = Some s' \<and> mn_task s' = mn_task example_mnt"
proof -
  have "plain_pair (''ip'', ''1.1.1.1'')" "\<not> strcasecmp_eq (fst (''ip'', ''1.1.1.1'')) ''pfs_cmd''" by code_simp+
  then show ?thesis using offline_without_effect [OF example_confupda(2), of "(''ip'', ''1.1.1.1'')" "[]" example_mnt]
    by (auto dest: arg_cong [where f = mn_task])
qed

theorem syncfile_queued_witness:
  "\<exists>s'. do_request example_mnt_env (request ''M_SYNCFILE'' (''/f'', ''1.1.1.1'')) []
      (example_mnt\<lparr>mn_task := (mn_task example_mnt)\<lparr>pfstask := (\<lambda>q. if q = TASK_Q_HOME then [3] else [])\<rparr>\<rparr>) = Some s' \<and>
    pfstask (mn_task s') TASK_Q_WAIT = [3] \<and> b_filename (ti_base (tk_task (tasks (mn_task s') 3))) = ''/f''"
proof -
  have "plain_pair (''/f'', ''1.1.1.1'')" "\<forall>c \<in> set ''1.1.1.1''. \<not> crlf c" "\<not> strcasecmp_eq ''/f'' ''pfs_cmd''" by code_simp+
  then show ?thesis
    using syncfile_queued [OF example_confupda(2), of "''/f''" "''1.1.1.1''"
        "example_mnt\<lparr>mn_task := (mn_task example_mnt)\<lparr>pfstask := (\<lambda>q. if q = TASK_Q_HOME then [3] else [])\<rparr>\<rparr>" 3 "[]" "[]"]
    by (auto simp: example_mnt_env_def)
qed


end
