(* ===== verification/Pfs_Agent.thy ===== *)
theory Pfs_Agent
  imports Pfs_Event Pfs_Maintain
begin

section \<open>The agent (network/pfs_agent.c)\<close>

text \<open>
  Every server runs a thread that reports its finished tasks to the operation server and carries out the commands it gets from
  there.  Without a connection the reports are appended to files of a directory, which are sent later, the
  oldest first, and removed.  The theory models \<^verbatim>\<open>pfs_agent.c\<close> except the initialisation of its log.  The theorems
  say that a report reaches the operation server, that a file is removed when it was sent and not before, and what
  happens on a failed \<^verbatim>\<open>write\<close> and with a message of length zero.

  The send buffer of the connection is \<open>mn_send\<close> of the state of the commands, together with the file part
  \<open>ag_fd\<close>, \<open>ag_off\<close>, \<open>ag_len\<close>; \<open>ag_name\<close> is the path that was opened as \<open>ag_fd\<close>, and \<open>ag_sent\<close> the bytes that the socket has
  taken.  One value of \<open>ag_env\<close> has what the system calls return in one round of the loop.
\<close>

abbreviation MAXTMPFILE :: nat where "MAXTMPFILE \<equiv> 10240"
abbreviation FILE_DATA :: int where "FILE_DATA \<equiv> 2"
abbreviation SOCK_CLOSE :: int where "SOCK_CLOSE \<equiv> 0x10"
abbreviation SOCK_SEND :: int where "SOCK_SEND \<equiv> 0x20"
abbreviation SOCK_SEND_FILE :: int where "SOCK_SEND_FILE \<equiv> 0x40"
abbreviation SOCK_COMP :: int where "SOCK_COMP \<equiv> 0x80"

definition PREFIX :: string where "PREFIX = ''poss_''"
definition SUFFIX :: string where "SUFFIX = ''.data''"

definition task_status :: "string list" where
  "task_status = [''TASK_Q_DELAY'', ''TASK_Q_WAIT'', ''TASK_Q_WAIT_TMP'', ''TASK_Q_WAIT_SYNC'', ''TASK_Q_WAIT_SYNC_IP'',
     ''TASK_Q_WAIT_SYNC_DIR'', ''TASK_Q_WAIT_SYNC_DIR_TMP'', ''TASK_Q_SYNC_DIR'', ''TASK_Q_SYNC_DIR_TMP'', ''TASK_Q_RUN'',
     ''TASK_Q_FIN'', ''TASK_Q_CLEAN'', ''TASK_Q_HOME'', ''TASK_Q_SEND'', ''TASK_Q_RECV'', ''TASK_Q_SYNC_VOSS'',
     ''TASK_Q_SYNC_DIR_REQ'', ''TASK_Q_SYNC_DIR_RSP'']"

definition over_status :: "string list" where
  "over_status = [''OVER_UNKNOWN'', ''OVER_OK'', ''OVER_E_MD5'', ''OVER_PEERERR'', ''TASK_Q_EXIST'', ''OVER_PEERCLOSE'',
     ''OVER_UNLINK'', ''OVER_TIMEOUT'', ''OVER_MALLOC'', ''OVER_SRC_DOMAIN_ERR'', ''OVER_SRC_IP_OFFLINE'',
     ''OVER_E_OPEN_SRCFILE'', ''OVER_E_OPEN_DSTFILE'', ''OVER_E_IP'', ''OVER_E_TYPE'', ''OVER_SEND_LEN'',
     ''OVER_TOO_MANY_TRY'', ''OVER_DISK_ERR'', ''OVER_UP_ERR'']"

record fileinfo =
  fi_mtime :: uint32
  fi_file :: string

record ag_state =
  ag_m :: mnt_state
  ag_databuff :: bytes
  ag_fd :: int
  ag_off :: int
  ag_len :: nat
  ag_name :: string
  ag_in :: bytes
  ag_tmp :: "fileinfo list"
  ag_index :: int
  ag_last :: int
  ag_freed :: "nat list"
  ag_disk :: "string \<Rightarrow> bytes option"
  ag_sent :: bytes
  ag_closed :: "int list"
  ag_stop :: bool
  ag_outdata :: int
  ag_hb :: int
  ag_wfds :: bool

record ag_env =
  av_m :: mnt_env
  av_domain :: string
  av_self_stat :: uint8
  av_heartbeat :: int
  av_tmpdir :: string
  av_day :: string
  av_open :: "string \<Rightarrow> int"
  av_write :: "nat \<Rightarrow> int"
  av_unlink :: bool
  av_fd :: int
  av_readdir :: "(string \<times> int option) list option"
  av_qsort :: "fileinfo list \<Rightarrow> fileinfo list"
  av_stale :: string
  av_select :: int
  av_wset :: bool
  av_rset :: bool
  av_send :: "sys_ret list"
  av_sendfile :: "sys_ret list"
  av_recv :: "(bytes \<times> sys_ret) list"

definition ag_task :: "ag_state \<Rightarrow> task_state" where
  "ag_task s = mn_task (ag_m s)"

definition ag_set_task :: "task_state \<Rightarrow> ag_state \<Rightarrow> ag_state" where
  "ag_set_task ts s = s\<lparr>ag_m := (ag_m s)\<lparr>mn_task := ts\<rparr>\<rparr>"

text \<open>\<^verbatim>\<open>mybuff_setdata\<close> on the send buffer.\<close>

definition ag_queue :: "bytes \<Rightarrow> ag_state \<Rightarrow> ag_state" where
  "ag_queue d s = s\<lparr>ag_m := (ag_m s)\<lparr>mn_send := mn_send (ag_m s) @ d\<rparr>\<rparr>"

definition ag_head :: "uint32 \<Rightarrow> nat \<Rightarrow> ag_state \<Rightarrow> ag_state" where
  "ag_head cmd n s =
     (case create_poss_head cmd n (mn_seq (ag_m s)) of (h, seq) \<Rightarrow>
        (ag_queue h s)\<lparr>ag_m := (ag_m (ag_queue h s))\<lparr>mn_seq := seq\<rparr>\<rparr>)"

subsection \<open>Finished tasks\<close>

text \<open>A line has less than 1024 characters: the name and the domain are the only long fields.\<close>

definition report_line :: "ag_env \<Rightarrow> t_pfs_tasklist \<Rightarrow> string" where
  "report_line env k =
     (let base = ti_base (tk_task k); sub = ti_sub (tk_task k) in
      b_filename base @ '':'' @ ip2str (b_dstip base) @ '':'' @ [char_of (unat (b_type base))] @ '':''
      @ task_status ! nat (tk_status k) @ '':'' @ over_status ! unat (b_overstatus base) @ '':''
      @ dec_int (b_starttime base) @ '':'' @ dec_int (me_now (av_m env)) @ '':'' @ dec_int (b_fsize base) @ '':''
      @ dec (unat (u_oper_type sub)) @ '':'' @ av_domain env @ [CHR 0x0A])"

text \<open>The entry of a task in the temporary status file is not touched: \<^verbatim>\<open>set_tmp_blank\<close> returns at once.\<close>

definition get_data_from_task :: "ag_env \<Rightarrow> nat \<Rightarrow> ag_state \<Rightarrow> ag_state" where
  "get_data_from_task env t s =
     (let k = tasks (ag_task s) t;
          ts1 = atomic_dec (tk_status k) (unlink_task t (ag_task s));
          ts2 = upd_task t (\<lambda>x. x\<lparr>tk_task := zero_taskinfo\<rparr>) ts1 in
      ag_set_task (snd (pfs_set_task (me_lock (av_m env)) (me_now (av_m env)) t TASK_Q_HOME ts2))
        (s\<lparr>ag_databuff := ag_databuff s @ bytes_of (report_line env k)\<rparr>))"

definition clean_unused_task_mem :: "ag_env \<Rightarrow> nat \<Rightarrow> ag_state \<Rightarrow> ag_state" where
  "clean_unused_task_mem env t s =
     (let l = tk_last (tasks (ag_task s) t) in
      if l < 0 \<or> me_now (av_m env) - l < 3600 then s
      else ag_set_task (atomic_dec TASK_Q_HOME (unlink_task t (ag_task s))) (s\<lparr>ag_freed := ag_freed s @ [t]\<rparr>))"

text \<open>\<^verbatim>\<open>scan_some_status_task\<close> with a callback on the agent's state.\<close>

definition ag_scan :: "ag_env \<Rightarrow> int \<Rightarrow> (nat \<Rightarrow> ag_state \<Rightarrow> ag_state) \<Rightarrow> ag_state \<Rightarrow> ag_state" where
  "ag_scan env q cb s =
     (if me_lock (av_m env) q \<noteq> 0 \<and> me_lock (av_m env) q \<noteq> EDEADLK then s else fold cb (pfstask (ag_task s) q) s)"

definition do_scan :: "ag_env \<Rightarrow> bool \<Rightarrow> ag_state \<Rightarrow> ag_state" where
  "do_scan env type s =
     (let s1 = ag_scan env TASK_Q_CLEAN (get_data_from_task env) s;
          d = ag_databuff s1;
          s2 = (if d = [] then s1
                else let s' = ag_queue d (if type then ag_head REQ_SUBMIT (length d) s1 else s1) in
                     s'\<lparr>ag_databuff := [], ag_outdata := (if ag_outdata s' = 0 then 1 else if ag_outdata s' = 2 then 3 else ag_outdata s')\<rparr>) in
      if me_now (av_m env) - ag_last s2 < 3600 then s2
      else ag_scan env TASK_Q_HOME (clean_unused_task_mem env) (s2\<lparr>ag_last := me_now (av_m env)\<rparr>))"

subsection \<open>Files of reports\<close>

text \<open>The result of \<^verbatim>\<open>write\<close> is kept in a \<^verbatim>\<open>size_t\<close>: with \<open>-1\<close> all data is skipped.\<close>

definition dump_name :: "ag_env \<Rightarrow> string" where
  "dump_name env = snprintf_s 256 (av_tmpdir env @ ''/'' @ PREFIX @ take 10 (av_day env) @ SUFFIX)"

definition dump_to_file :: "ag_env \<Rightarrow> ag_state \<Rightarrow> ag_state" where
  "dump_to_file env s =
     (let f = dump_name env; data = mn_send (ag_m s) in
      if av_open env f < 0 then s
      else
        let old = (case ag_disk s f of None \<Rightarrow> [] | Some d \<Rightarrow> d); n = av_write env (length data);
            s1 = s\<lparr>ag_disk := (ag_disk s)(f := Some (if data = [] then old else old @ take (nat n) data)),
                   ag_closed := ag_closed s @ [av_open env f]\<rparr> in
        if data = [] \<or> n = 0 then s1
        else s1\<lparr>ag_m := (ag_m s1)\<lparr>mn_send := (if n < 0 then [] else drop (nat n) data)\<rparr>\<rparr>)"

definition file_pending :: "ag_state \<Rightarrow> bool" where
  "file_pending s \<longleftrightarrow> ag_fd s \<ge> 0 \<and> ag_len s > 0"

definition get_most_old_file :: "ag_env \<Rightarrow> ag_state \<Rightarrow> ag_state" where
  "get_most_old_file env s =
     (if file_pending s then s\<lparr>ag_outdata := FILE_DATA\<rparr>
      else if ag_index s < 0 then s
      else
        let f = fi_file (ag_tmp s ! nat (ag_index s)); fd = av_open env f in
        if fd > 0 then
          let n = (case ag_disk s f of None \<Rightarrow> 0 | Some d \<Rightarrow> length d); s1 = ag_head REQ_SUBMIT n s in
          s1\<lparr>ag_fd := fd, ag_off := 0, ag_len := n, ag_name := f,
             ag_closed := (if ag_fd s1 \<ge> 0 then ag_closed s1 @ [ag_fd s1] else ag_closed s1), ag_outdata := FILE_DATA\<rparr>
        else s)"

definition rm_last_send_file :: "ag_env \<Rightarrow> ag_state \<Rightarrow> ag_state" where
  "rm_last_send_file env s =
     (if ag_index s < 0 then s
      else
        let f = fi_file (ag_tmp s ! nat (ag_index s)) in
        s\<lparr>ag_disk := (if av_unlink env then (ag_disk s)(f := None) else ag_disk s), ag_index := ag_index s - 1\<rparr>)"

text \<open>
  The entries of the directory, with their times where \<^verbatim>\<open>stat\<close> succeeds.  Where the directory cannot be read the index stays 0
  and the first entry has an empty name, because \<^verbatim>\<open>memset\<close> clears eight bytes of it.
\<close>

definition tmp_entries :: "string \<Rightarrow> (string \<times> int option) list \<Rightarrow> fileinfo list" where
  "tmp_entries dir es =
     take MAXTMPFILE (concat (map (\<lambda>(n, m). if take 1 n = ''.'' \<or> take 5 n \<noteq> PREFIX then []
       else case m of None \<Rightarrow> [] | Some t \<Rightarrow> [\<lparr>fi_mtime = word_of_int t, fi_file = snprintf_s 256 (dir @ ''/'' @ n)\<rparr>]) es))"

definition scantmpdir :: "ag_env \<Rightarrow> ag_state \<Rightarrow> ag_state" where
  "scantmpdir env s =
     (case av_readdir env of
        None \<Rightarrow> s\<lparr>ag_index := 0, ag_tmp := \<lparr>fi_mtime = 0, fi_file = []\<rparr> # tl (ag_tmp s)\<rparr>
      | Some es \<Rightarrow>
          let l = av_qsort env (tmp_entries (av_tmpdir env) es) in
          s\<lparr>ag_tmp := l, ag_index := int (length l) - 1\<rparr>)"

subsection \<open>Sending and receiving\<close>

fun ag_send_loop :: "sys_ret list \<Rightarrow> bytes \<Rightarrow> ag_state \<Rightarrow> (int \<times> ag_state) option" where
  "ag_send_loop [] data s = None"
| "ag_send_loop ((n, e) # rs) data s =
     (if n > 0 then
        Some (if nat n < length data then SOCK_SEND else SOCK_COMP,
              s\<lparr>ag_m := (ag_m s)\<lparr>mn_send := drop (nat n) data\<rparr>, ag_sent := ag_sent s @ take (nat n) data\<rparr>)
      else if e = EINTR then ag_send_loop rs data s
      else if e = EAGAIN then Some (SOCK_SEND, s)
      else Some (SOCK_CLOSE, s))"

definition ag_content :: "ag_state \<Rightarrow> bytes" where
  "ag_content s = (case ag_disk s (ag_name s) of None \<Rightarrow> [] | Some d \<Rightarrow> d)"

definition ag_skipfile :: "nat \<Rightarrow> ag_state \<Rightarrow> ag_state" where
  "ag_skipfile n s =
     (if ag_len s \<le> n then s\<lparr>ag_fd := -1, ag_off := 0, ag_len := 0, ag_closed := ag_closed s @ [ag_fd s]\<rparr>
      else s\<lparr>ag_off := ag_off s + int n, ag_len := ag_len s - n\<rparr>)"

fun ag_sendfile_loop :: "ag_env \<Rightarrow> sys_ret list \<Rightarrow> ag_state \<Rightarrow> (int \<times> ag_state) option" where
  "ag_sendfile_loop env [] s = None"
| "ag_sendfile_loop env ((n, e) # rs) s =
     (if n > 0 then
        let s1 = ag_skipfile (nat n) (s\<lparr>ag_sent := ag_sent s @ take (nat n) (drop (nat (ag_off s)) (ag_content s))\<rparr>) in
        Some (if nat n < ag_len s then (SOCK_SEND_FILE, s1) else (SOCK_COMP, rm_last_send_file env s1))
      else if e = EINTR then ag_sendfile_loop env rs s
      else if e = EAGAIN then Some (SOCK_SEND_FILE, s)
      else Some (SOCK_CLOSE, s))"

definition ag_do_send :: "ag_env \<Rightarrow> ag_state \<Rightarrow> (int \<times> ag_state) option" where
  "ag_do_send env s =
     (case (if mn_send (ag_m s) = [] then Some (SOCK_COMP, s) else ag_send_loop (av_send env) (mn_send (ag_m s)) s) of
        None \<Rightarrow> None
      | Some (ret, s1) \<Rightarrow>
          if ret = SOCK_COMP \<and> file_pending s1 then ag_sendfile_loop env (av_sendfile env) s1 else Some (ret, s1))"

fun ag_do_recv :: "(bytes \<times> sys_ret) list \<Rightarrow> ag_state \<Rightarrow> (int \<times> ag_state) option" where
  "ag_do_recv [] s = None"
| "ag_do_recv ((d, n, e) # rs) s =
     (if n > 0 then
        let s1 = s\<lparr>ag_in := ag_in s @ take (nat n) d\<rparr> in
        if n = 2048 then ag_do_recv rs s1 else Some (SOCK_COMP, s1)
      else if n = 0 then Some (SOCK_CLOSE, s)
      else if e = EINTR then ag_do_recv rs s
      else if e = EAGAIN then Some (SOCK_COMP, s)
      else Some (SOCK_CLOSE, s))"

text \<open>
  A command of negative length has no characters.  What follows the message in the receive buffer, and what was there
  before, is printed with the command.
\<close>

definition set_from_poss :: "ag_env \<Rightarrow> t_head_info \<Rightarrow> bytes \<Rightarrow> ag_state \<Rightarrow> ag_state option" where
  "set_from_poss env h data s =
     (if ph_cmdid h = REQ_PFS_CMD then
        let n = unat (ph_totallen h) in
        if n < HEADSIZE then Some s
        else map_option (\<lambda>m. s\<lparr>ag_m := m\<rparr>)
               (do_request (av_m env) (str_of (take (n - HEADSIZE) (drop HEADSIZE data))) (str_of (drop n data) @ av_stale env) (ag_m s))
      else Some s)"

definition do_hb :: "ag_env \<Rightarrow> ag_state \<Rightarrow> ag_state" where
  "do_hb env s =
     (let s1 = ag_queue [av_self_stat env] (ag_head REQ_HEARTBEAT 1 s) in
      s1\<lparr>ag_outdata := (if ag_outdata s1 = 0 then 1 else if ag_outdata s1 = 2 then 3 else ag_outdata s1)\<rparr>)"

definition ag_check_req :: "ag_env \<Rightarrow> ag_state \<Rightarrow> (int \<times> ag_state) option" where
  "ag_check_req env s =
     (if ag_in s = [] then Some (-1, s)
      else case parse_msg (ag_in s) of (r, h) \<Rightarrow>
        if r = E_NOT_SUFFIC \<or> length (ag_in s) < unat (ph_totallen h) then Some (-1, s)
        else if ph_cmdid h = REQ_STOPPFS then Some (-1, s\<lparr>ag_stop := True\<rparr>)
        else map_option (\<lambda>s1. (0, s1\<lparr>ag_in := drop (unat (ph_totallen h)) (ag_in s1), ag_outdata := max 1 (ag_outdata s1)\<rparr>))
               (set_from_poss env h (ag_in s) s))"

fun check_loop :: "nat \<Rightarrow> ag_env \<Rightarrow> ag_state \<Rightarrow> ag_state option" where
  "check_loop 0 env s = None"
| "check_loop (Suc fuel) env s =
     (case ag_check_req env s of
        None \<Rightarrow> None
      | Some (r, s1) \<Rightarrow> if r = -1 then Some s1 else check_loop fuel env s1)"

subsection \<open>The loop\<close>

text \<open>
  One round, with \<open>False\<close> where the loop is left.  When nothing is to be sent the set for writing is not given to \<^verbatim>\<open>select\<close>, and
  the test sees what an earlier round left in it.
\<close>

definition ag_writable :: "ag_env \<Rightarrow> ag_state \<Rightarrow> (bool \<times> ag_state) option" where
  "ag_writable env s =
     map_option (\<lambda>(ret, s1). (ret \<noteq> SOCK_CLOSE, if ret = SOCK_SEND then s1\<lparr>ag_outdata := 1\<rparr>
                                                else if ret = SOCK_SEND_FILE then s1\<lparr>ag_outdata := 2\<rparr> else s1)) (ag_do_send env s)"

definition ag_readable :: "ag_env \<Rightarrow> ag_state \<Rightarrow> (bool \<times> ag_state) option" where
  "ag_readable env s =
     (case ag_do_recv (av_recv env) s of
        None \<Rightarrow> None
      | Some (ret, s1) \<Rightarrow>
          if ret = SOCK_CLOSE then Some (False, s1) else map_option (Pair True) (check_loop (Suc (length (ag_in s1))) env s1))"

definition agent_round :: "ag_env \<Rightarrow> ag_state \<Rightarrow> (bool \<times> ag_state) option" where
  "agent_round env s0 =
     (let s = get_most_old_file env s0; w = (if ag_outdata s \<noteq> 0 then av_wset env else ag_wfds s) in
      if av_select env = -1 then Some (False, s)
      else if av_select env = 0 then
        let s1 = (if ag_outdata s \<noteq> 0 then s\<lparr>ag_wfds := False\<rparr> else s) in
        if ag_outdata s1 \<noteq> 2 then
          let s2 = do_scan env True s1 in
          Some (True, if me_now (av_m env) - ag_hb s2 > av_heartbeat env then do_hb env (s2\<lparr>ag_hb := me_now (av_m env)\<rparr>) else s2)
        else Some (True, s1)
      else
        let s1 = s\<lparr>ag_outdata := 0, ag_wfds := w\<rparr> in
        case (if w then ag_writable env s1 else Some (True, s1)) of
          None \<Rightarrow> None
        | Some (ok, s2) \<Rightarrow>
            if \<not> ok then Some (False, s2) else if av_rset env then ag_readable env s2 else Some (True, s2))"

fun agent_rounds :: "ag_env list \<Rightarrow> ag_state \<Rightarrow> (bool \<times> ag_state) option" where
  "agent_rounds [] s = Some (True, s)"
| "agent_rounds (env # es) s =
     (if ag_stop s then Some (False, s)
      else case agent_round env s of
        None \<Rightarrow> None
      | Some (ok, s1) \<Rightarrow> if ok then agent_rounds es s1 else Some (False, s1))"

definition ag_reinit :: "ag_state \<Rightarrow> ag_state" where
  "ag_reinit s = s\<lparr>ag_m := (ag_m s)\<lparr>mn_send := []\<rparr>, ag_in := [], ag_fd := -1, ag_off := 0, ag_len := 0,
     ag_closed := (if ag_fd s \<ge> 0 then ag_closed s @ [ag_fd s] else ag_closed s), ag_outdata := 0\<rparr>"

text \<open>\<open>env\<close> is the system at the start of a run, \<open>es\<close> in the rounds of the loop.\<close>

definition agent_do_run :: "ag_env \<Rightarrow> ag_env list \<Rightarrow> ag_state \<Rightarrow> ag_state option" where
  "agent_do_run env es s =
     (let s1 = ag_reinit s in
      if av_fd env < 0 then
        let s2 = do_scan env False s1 in Some (if ag_outdata s2 \<noteq> 0 then dump_to_file env s2 else s2)
      else
        map_option (\<lambda>(ok, s3). s3\<lparr>ag_closed := ag_closed s3 @ [av_fd env]\<rparr>)
          (agent_rounds es ((scantmpdir env s1)\<lparr>ag_hb := me_now (av_m env)\<rparr>)))"

subsection \<open>The queues of tasks\<close>

lemma tasks_ok_mono: "tasks_ok H s \<Longrightarrow> H' \<subseteq> H \<Longrightarrow> tasks_ok H' s"
  by (auto simp: tasks_ok_def queue_ok_def)

lemma get_data_task:
  assumes "tk_status (tasks (ag_task s) t) = q"
  shows "ag_task (get_data_from_task env t s) = snd (pfs_set_task (me_lock (av_m env)) (me_now (av_m env)) t TASK_Q_HOME
    (unlink_task t (upd_task t (\<lambda>x. x\<lparr>tk_task := zero_taskinfo\<rparr>) (atomic_dec q (ag_task s)))))"
proof -
  have "upd_task t f (atomic_dec q (unlink_task t ts)) = unlink_task t (upd_task t f (atomic_dec q ts))" for f ts
    by (simp add: task_defs)
  then show ?thesis using assms by (simp add: get_data_from_task_def ag_task_def ag_set_task_def Let_def)
qed

lemma tasks_ok_get_data [pfs_inv]:
  assumes ok: "tasks_ok H (ag_task s)" and q: "status_ok q" and t: "t \<in> set (pfstask (ag_task s) q)"
  shows "tasks_ok H (ag_task (get_data_from_task env t s))"
proof -
  let ?u = "unlink_task t (upd_task t (\<lambda>x. x\<lparr>tk_task := zero_taskinfo\<rparr>) (atomic_dec q (ag_task s)))"
  have st: "tk_status (tasks (ag_task s) t) = q" by (rule tasks_ok_status [OF ok q t])
  have "t \<notin> H" using ok q t by (auto simp: tasks_ok_def queue_ok_def)
  have u: "tasks_ok (insert t H) ?u" by (rule tasks_ok_take [OF ok q t])
  obtain r s' where p: "pfs_set_task (me_lock (av_m env)) (me_now (av_m env)) t TASK_Q_HOME ?u = (r, s')" by fastforce
  have "tasks_ok (if r = -1 then insert t H else insert t H - {t}) s'"
    using tasks_ok_set [OF u tasks_ok_held [OF u] p] by simp
  then have "tasks_ok H s'" by (rule tasks_ok_mono) (use \<open>t \<notin> H\<close> in auto)
  then show ?thesis by (simp add: get_data_task [OF st] p)
qed

lemma tasks_ok_clean [pfs_inv]:
  assumes "tasks_ok H (ag_task s)" and "t \<in> set (pfstask (ag_task s) TASK_Q_HOME)"
  shows "tasks_ok H (ag_task (clean_unused_task_mem env t s))"
proof -
  have "tasks_ok (insert t H) (unlink_task t (upd_task t id (atomic_dec TASK_Q_HOME (ag_task s))))"
    by (rule tasks_ok_take [OF assms(1) _ assms(2)]) simp
  moreover have "unlink_task t (upd_task t id (atomic_dec TASK_Q_HOME (ag_task s))) = atomic_dec TASK_Q_HOME (unlink_task t (ag_task s))"
    by (simp add: task_defs)
  ultimately have "tasks_ok H (atomic_dec TASK_Q_HOME (unlink_task t (ag_task s)))" using tasks_ok_mono by fastforce
  then show ?thesis using assms(1) by (simp add: clean_unused_task_mem_def ag_task_def ag_set_task_def Let_def)
qed

text \<open>What a callback does to the other tasks and queues.\<close>

lemma get_data_queue:
  assumes "q \<noteq> TASK_Q_HOME"
  shows "pfstask (ag_task (get_data_from_task env t s)) q = remove1 t (pfstask (ag_task s) q) \<or>
    pfstask (ag_task (get_data_from_task env t s)) q = remove1 t (remove1 t (pfstask (ag_task s) q))"
  using assms by (auto simp: get_data_from_task_def ag_task_def ag_set_task_def Let_def task_defs pfs_set_task_def)

lemma get_data_other: "x \<noteq> t \<Longrightarrow> tasks (ag_task (get_data_from_task env t s)) x = tasks (ag_task s) x"
  by (auto simp: get_data_from_task_def ag_task_def ag_set_task_def Let_def task_defs pfs_set_task_def)

lemma clean_queue:
  "pfstask (ag_task (clean_unused_task_mem env t s)) q = pfstask (ag_task s) q \<or>
   pfstask (ag_task (clean_unused_task_mem env t s)) q = remove1 t (pfstask (ag_task s) q)"
  by (auto simp: clean_unused_task_mem_def ag_task_def ag_set_task_def Let_def task_defs)

lemma clean_tasks: "tasks (ag_task (clean_unused_task_mem env t s)) = tasks (ag_task s)"
  by (auto simp: clean_unused_task_mem_def ag_task_def ag_set_task_def Let_def task_defs)

lemma tasks_ok_scan_get:
  assumes "tasks_ok H (ag_task s)" and "set ts \<subseteq> set (pfstask (ag_task s) TASK_Q_CLEAN)" and "distinct ts"
  shows "tasks_ok H (ag_task (fold (get_data_from_task env) ts s))"
  using assms
proof (induction ts arbitrary: s)
  case (Cons t ts)
  let ?s = "get_data_from_task env t s"
  have "tasks_ok H (ag_task ?s)" using Cons.prems by (intro tasks_ok_get_data [of _ _ TASK_Q_CLEAN]) (auto simp: status_ok_def)
  moreover have "set ts \<subseteq> set (pfstask (ag_task ?s) TASK_Q_CLEAN)"
    using get_data_queue [of TASK_Q_CLEAN env t s] Cons.prems(2,3) by (auto, (metis in_set_remove1 subsetD)+)
  ultimately show ?case using Cons.IH Cons.prems(3) by simp
qed simp

lemma tasks_ok_scan_clean:
  assumes "tasks_ok H (ag_task s)" and "set ts \<subseteq> set (pfstask (ag_task s) TASK_Q_HOME)" and "distinct ts"
  shows "tasks_ok H (ag_task (fold (clean_unused_task_mem env) ts s))"
  using assms
proof (induction ts arbitrary: s)
  case (Cons t ts)
  let ?s = "clean_unused_task_mem env t s"
  have "tasks_ok H (ag_task ?s)" using Cons.prems by (intro tasks_ok_clean) auto
  moreover have "set ts \<subseteq> set (pfstask (ag_task ?s) TASK_Q_HOME)"
    using clean_queue [of env t s TASK_Q_HOME] Cons.prems(2,3) by (auto, (metis in_set_remove1 subsetD)+)
  ultimately show ?case using Cons.IH Cons.prems(3) by simp
qed simp

subsection \<open>What a scan reports\<close>

definition reports :: "ag_env \<Rightarrow> ag_state \<Rightarrow> bytes" where
  "reports env s = concat (map (\<lambda>t. bytes_of (report_line env (tasks (ag_task s) t))) (pfstask (ag_task s) TASK_Q_CLEAN))"

text \<open>The parts of the state that a scan leaves alone.\<close>

definition ag_view :: "ag_state \<Rightarrow> (bytes \<times> uint32) \<times> (int \<times> nat) \<times> int \<times> int \<times> bytes \<times> (string \<Rightarrow> bytes option) \<times> int \<times> bool" where
  "ag_view s = ((mn_send (ag_m s), mn_seq (ag_m s)), (ag_fd s, ag_len s), ag_index s, ag_outdata s, ag_sent s, ag_disk s, ag_hb s, ag_stop s)"

lemma ag_view_callbacks:
  "ag_view (get_data_from_task env t s) = ag_view s" "ag_view (clean_unused_task_mem env t s) = ag_view s"
  "ag_databuff (clean_unused_task_mem env t s) = ag_databuff s"
  by (auto simp: get_data_from_task_def clean_unused_task_mem_def ag_view_def ag_set_task_def Let_def)

lemma ag_view_fold: "(\<And>t s. ag_view (cb t s) = ag_view s) \<Longrightarrow> ag_view (fold cb ts s) = ag_view s"
  by (induction ts arbitrary: s) auto

lemma fold_get_data:
  assumes "distinct ts"
  shows "ag_databuff (fold (get_data_from_task env) ts s) =
    ag_databuff s @ concat (map (\<lambda>t. bytes_of (report_line env (tasks (ag_task s) t))) ts)"
  using assms
proof (induction ts arbitrary: s)
  case (Cons t ts)
  have o: "tasks (ag_task (get_data_from_task env t s)) x = tasks (ag_task s) x" if "x \<in> set ts" for x
    using that Cons.prems by (intro get_data_other) auto
  have "map (\<lambda>x. bytes_of (report_line env (tasks (ag_task (get_data_from_task env t s)) x))) ts =
      map (\<lambda>x. bytes_of (report_line env (tasks (ag_task s) x))) ts"
    using o by (intro map_cong refl) simp
  moreover have "ag_databuff (get_data_from_task env t s) = ag_databuff s @ bytes_of (report_line env (tasks (ag_task s) t))"
    by (simp add: get_data_from_task_def ag_set_task_def Let_def)
  ultimately show ?case using Cons.IH [of "get_data_from_task env t s"] Cons.prems by (simp del: map_eq_conv)
qed simp

lemma clean_databuff: "ag_databuff (fold (clean_unused_task_mem env) ts s) = ag_databuff s"
  by (induction ts arbitrary: s) (auto simp: ag_view_callbacks)

definition locks_ok :: "ag_env \<Rightarrow> bool" where
  "locks_ok env \<longleftrightarrow> (\<forall>q. me_lock (av_m env) q = 0)"

text \<open>After a scan the reports of the cleaned tasks are queued, behind a head when there is a connection.\<close>

lemma do_scan_reports:
  assumes "tasks_ok H (ag_task s)" and "locks_ok env" and "ag_databuff s = []"
  shows "ag_databuff (do_scan env type s) = []" "tasks_ok H (ag_task (do_scan env type s))"
    "reports env s = [] \<Longrightarrow> ag_view (do_scan env type s) = ag_view s"
    "reports env s \<noteq> [] \<Longrightarrow> ag_outdata s = 0 \<Longrightarrow> ag_view (do_scan env type s) =
       ((mn_send (ag_m s) @ (if type then fst (create_msg REQ_SUBMIT (reports env s) (mn_seq (ag_m s))) else reports env s),
         if type then mn_seq (ag_m s) + 1 else mn_seq (ag_m s)), (ag_fd s, ag_len s), ag_index s, 1, ag_sent s, ag_disk s, ag_hb s, ag_stop s)"
proof -
  let ?q = "pfstask (ag_task s) TASK_Q_CLEAN"
  define s1 where "s1 = fold (get_data_from_task env) ?q s"
  have d: "distinct ?q" using assms(1) by (auto simp: tasks_ok_def queue_ok_def status_ok_def)
  have s1: "ag_scan env TASK_Q_CLEAN (get_data_from_task env) s = s1" using assms(2) by (simp add: ag_scan_def s1_def locks_ok_def)
  have b: "ag_databuff s1 = reports env s" using fold_get_data [OF d, of env s] assms(3) by (simp add: s1_def reports_def)
  have v: "ag_view s1 = ag_view s" unfolding s1_def by (rule ag_view_fold) (simp add: ag_view_callbacks)
  have ok1: "tasks_ok H (ag_task s1)" unfolding s1_def by (rule tasks_ok_scan_get [OF assms(1) _ d]) simp
  define s2 where "s2 = (if reports env s = [] then s1
     else let s' = ag_queue (reports env s) (if type then ag_head REQ_SUBMIT (length (reports env s)) s1 else s1) in
          s'\<lparr>ag_databuff := [], ag_outdata := (if ag_outdata s' = 0 then 1 else if ag_outdata s' = 2 then 3 else ag_outdata s')\<rparr>)"
  define r where "r = (if me_now (av_m env) - ag_last s2 < 3600 then s2
     else ag_scan env TASK_Q_HOME (clean_unused_task_mem env) (s2\<lparr>ag_last := me_now (av_m env)\<rparr>))"
  have e: "do_scan env type s = r" by (simp add: do_scan_def s1 b s2_def r_def Let_def)
  have t2: "ag_task s2 = ag_task s1" by (simp add: s2_def Let_def ag_task_def ag_queue_def ag_head_def case_prod_beta)
  have b2: "ag_databuff s2 = []" using b by (simp add: s2_def Let_def)
  have vr: "ag_view r = ag_view s2" and br: "ag_databuff r = []"
    using ag_view_fold [of "clean_unused_task_mem env", OF ag_view_callbacks(2)] b2 clean_databuff
    by (auto simp: r_def ag_scan_def) (simp_all add: ag_view_def)
  have h: "distinct (pfstask (ag_task s2) TASK_Q_HOME)" using ok1 by (auto simp: t2 tasks_ok_def queue_ok_def status_ok_def)
  show "ag_databuff (do_scan env type s) = []" by (simp add: e br)
  show "tasks_ok H (ag_task (do_scan env type s))"
    using tasks_ok_scan_clean [of H "s2\<lparr>ag_last := me_now (av_m env)\<rparr>" "pfstask (ag_task s2) TASK_Q_HOME" env] ok1 h
    by (auto simp: e r_def ag_scan_def t2 [unfolded ag_task_def] ag_task_def)
  show "ag_view (do_scan env type s) = ag_view s" if "reports env s = []" using that v by (simp add: e vr s2_def)
  show "ag_view (do_scan env type s) =
       ((mn_send (ag_m s) @ (if type then fst (create_msg REQ_SUBMIT (reports env s) (mn_seq (ag_m s))) else reports env s),
         if type then mn_seq (ag_m s) + 1 else mn_seq (ag_m s)), (ag_fd s, ag_len s), ag_index s, 1, ag_sent s, ag_disk s, ag_hb s, ag_stop s)"
    if "reports env s \<noteq> []" "ag_outdata s = 0"
    using that v unfolding e vr
    by (auto simp: s2_def Let_def ag_view_def ag_queue_def ag_head_def create_poss_head_eq create_msg_eq)
qed

subsection \<open>Reports reach the operation server\<close>

text \<open>A round in which the socket takes \<open>n\<close> bytes of the buffer.\<close>

definition writes :: "nat \<Rightarrow> ag_env \<Rightarrow> bool" where
  "writes n env \<longleftrightarrow> n > 0 \<and> av_select env > 0 \<and> av_wset env \<and> \<not> av_rset env \<and> (\<exists>e. av_send env = [(int n, e)])"

lemma round_writes:
  assumes "writes n env" and "n \<le> length (mn_send (ag_m s))" and "ag_index s < 0" and "\<not> file_pending s" and "ag_outdata s \<noteq> 0"
  shows "agent_round env s = Some (True, s\<lparr>ag_m := (ag_m s)\<lparr>mn_send := drop n (mn_send (ag_m s))\<rparr>, ag_sent := ag_sent s @ take n (mn_send (ag_m s)),
    ag_outdata := (if n < length (mn_send (ag_m s)) then 1 else 0), ag_wfds := True\<rparr>)"
proof -
  obtain e where e: "av_send env = [(int n, e)]" using assms(1) by (auto simp: writes_def)
  have ne: "mn_send (ag_m s) \<noteq> []" using assms(1,2) by (auto simp: writes_def)
  show ?thesis
    using assms ne e
    by (auto simp: agent_round_def get_most_old_file_def writes_def ag_writable_def ag_do_send_def file_pending_def Let_def)
qed

lemma send_rounds:
  assumes "list_all2 writes ns es" and "sum_list ns = length (mn_send (ag_m s))" and "\<not> ag_stop s" and "ag_index s < 0" and "\<not> file_pending s"
    and "mn_send (ag_m s) \<noteq> [] \<Longrightarrow> ag_outdata s \<noteq> 0"
  shows "\<exists>s'. agent_rounds es s = Some (True, s') \<and> ag_sent s' = ag_sent s @ mn_send (ag_m s) \<and> mn_send (ag_m s') = []"
  using assms
proof (induction ns es arbitrary: s rule: list_all2_induct)
  case Nil
  then show ?case by simp
next
  case (Cons n ns env es)
  let ?d = "mn_send (ag_m s)"
  define s1 where "s1 = s\<lparr>ag_m := (ag_m s)\<lparr>mn_send := drop n ?d\<rparr>, ag_sent := ag_sent s @ take n ?d,
      ag_outdata := (if n < length ?d then 1 else 0), ag_wfds := True\<rparr>"
  have n: "n > 0" "n \<le> length ?d" using Cons.hyps(1) Cons.prems(1) by (auto simp: writes_def)
  then have r: "agent_round env s = Some (True, s1)"
    using round_writes [OF Cons.hyps(1) n(2) Cons.prems(3,4)] Cons.prems(5) by (fastforce simp: s1_def)
  have "\<exists>s'. agent_rounds es s1 = Some (True, s') \<and> ag_sent s' = ag_sent s1 @ mn_send (ag_m s1) \<and> mn_send (ag_m s') = []"
    using Cons.IH [of s1] Cons.prems by (auto simp: s1_def file_pending_def)
  then show ?case using r Cons.prems(2) by (auto simp: s1_def)
qed

text \<open>The round in which nothing is ready and the tasks are scanned.\<close>

lemma round_scans:
  assumes "av_select env = 0" and "ag_index s < 0" and "\<not> file_pending s" and "ag_outdata s = 0"
    and "me_now (av_m env) - ag_hb s \<le> av_heartbeat env" and "ag_hb (do_scan env True s) = ag_hb s"
  shows "agent_round env s = Some (True, do_scan env True s)"
  using assms by (simp add: agent_round_def get_most_old_file_def Let_def)

lemma reports_sent:
  assumes "tasks_ok H (ag_task s)" and "locks_ok env" and "ag_databuff s = []" and "reports env s \<noteq> []"
    and "av_select env = 0" and "ag_index s < 0" and "\<not> file_pending s" and "ag_outdata s = 0" and "mn_send (ag_m s) = []" and "\<not> ag_stop s"
    and "me_now (av_m env) - ag_hb s \<le> av_heartbeat env"
    and "list_all2 writes ns es" and "sum_list ns = HEADSIZE + length (reports env s)"
  shows "\<exists>s'. agent_rounds (env # es) s = Some (True, s') \<and>
    ag_sent s' = ag_sent s @ fst (create_msg REQ_SUBMIT (reports env s) (mn_seq (ag_m s))) \<and> mn_send (ag_m s') = []"
proof -
  let ?s = "do_scan env True s"
  have v: "ag_view ?s = ((fst (create_msg REQ_SUBMIT (reports env s) (mn_seq (ag_m s))), mn_seq (ag_m s) + 1),
      (ag_fd s, ag_len s), ag_index s, 1, ag_sent s, ag_disk s, ag_hb s, ag_stop s)"
    using do_scan_reports(4) [OF assms(1-4,8), of True] assms(9) by simp
  have r: "agent_round env s = Some (True, ?s)"
    using v by (intro round_scans [OF assms(5-8,11)]) (simp add: ag_view_def)
  have "\<exists>s'. agent_rounds es ?s = Some (True, s') \<and> ag_sent s' = ag_sent ?s @ mn_send (ag_m ?s) \<and> mn_send (ag_m s') = []"
    using v assms(6,7,10,12,13) by (intro send_rounds) (auto simp: ag_view_def file_pending_def create_msg_eq)
  then show ?thesis using r v assms(10) by (auto simp: ag_view_def)
qed

text \<open>
  C15: the report of a finished task reaches the operation server.  After the scan that finds finished tasks, and the
  rounds in which the socket takes the data, in pieces of any size, the bytes sent are one message, and the operation
  server that gets them, cut in any other way, has appended the lines of these tasks to the file of this connection.
\<close>

theorem report_reaches_operation_server:
  assumes "tasks_ok H (ag_task s)" and "locks_ok env" and "ag_databuff s = []" and "reports env s \<noteq> []"
    and "av_select env = 0" and "ag_index s < 0" and "\<not> file_pending s" and "ag_outdata s = 0" and "mn_send (ag_m s) = []" and "\<not> ag_stop s"
    and "me_now (av_m env) - ag_hb s \<le> av_heartbeat env"
    and "list_all2 writes ns es" and "sum_list ns = HEADSIZE + length (reports env s)" and "length (reports env s) < 2 ^ 31"
    and "store_env penv f" and "stores_to penv fd f p" and "\<not> syncing (po_peer p fd)"
  shows "\<exists>s' sent. agent_rounds (env # es) s = Some (True, s') \<and> ag_sent s' = ag_sent s @ sent \<and>
    (\<forall>ds. concat ds = sent \<longrightarrow> (\<exists>p'. poss_pieces penv fd p [] ds = Some (p', []) \<and>
       po_file p' = (po_file p)(f := po_file p f @ reports env s)))"
proof -
  let ?ms = "[(mn_seq (ag_m s), reports env s)]"
  obtain s' where s': "agent_rounds (env # es) s = Some (True, s')" "ag_sent s' = ag_sent s @ submit_stream ?ms"
    using reports_sent [OF assms(1-13)] by (auto simp: submit_stream_def)
  have "\<exists>p'. poss_pieces penv fd p [] ds = Some (p', []) \<and> po_file p' = (po_file p)(f := po_file p f @ reports env s)"
    if "concat ds = submit_stream ?ms" for ds
  proof -
    have "awaits penv fd f p [] (concat ds) (reports env s)"
      unfolding awaits_def using assms(14,16,17) that by (intro conjI exI [of _ ?ms]) (auto simp: bodies_def)
    then obtain p' b w r where "poss_pieces penv fd p [] ds = Some (p', b)" "awaits penv fd f p' b [] r"
      "reports env s = w @ r" "po_file p' = (po_file p)(f := po_file p f @ w)"
      using poss_pieces_stores [OF assms(15)] by blast
    then show ?thesis using awaits_end by fastforce
  qed
  then show ?thesis using s' by blast
qed

subsection \<open>Files are removed when they were sent\<close>

definition ships :: "nat \<Rightarrow> ag_env \<Rightarrow> bool" where
  "ships m env \<longleftrightarrow> m > 0 \<and> av_select env > 0 \<and> av_wset env \<and> \<not> av_rset env \<and> av_unlink env \<and> (\<exists>e. av_sendfile env = [(int m, e)])"

text \<open>The file \<open>f\<close> with contents \<open>d\<close> is being sent, \<open>k\<close> bytes are gone.\<close>

definition sending :: "string \<Rightarrow> bytes \<Rightarrow> nat \<Rightarrow> ag_state \<Rightarrow> bool" where
  "sending f d k s \<longleftrightarrow> ag_fd s \<ge> 0 \<and> ag_name s = f \<and> ag_off s = int k \<and> ag_len s = length d - k \<and> k < length d \<and> ag_disk s f = Some d \<and>
     mn_send (ag_m s) = [] \<and> ag_index s \<ge> 0 \<and> fi_file (ag_tmp s ! nat (ag_index s)) = f \<and> \<not> ag_stop s"

lemma sendfile_part:
  assumes "sending f d k s" and "m > 0" and "k + m \<le> length d" and "av_unlink env"
  shows "\<exists>s'. ag_sendfile_loop env [(int m, e)] s = Some (if k + m < length d then SOCK_SEND_FILE else SOCK_COMP, s') \<and>
    ag_sent s' = ag_sent s @ take m (drop k d) \<and>
    (if k + m < length d then sending f d (k + m) s' else ag_disk s' f = None)"
  using assms by (auto simp: sending_def ag_skipfile_def rm_last_send_file_def ag_content_def Let_def)

lemma file_rounds:
  assumes "list_all2 ships ms es" and "sending f d k s" and "k + sum_list ms \<le> length d"
  shows "\<exists>s'. agent_rounds es s = Some (True, s') \<and> ag_sent s' = ag_sent s @ take (sum_list ms) (drop k d) \<and>
    ag_disk s' f = (if k + sum_list ms = length d then None else Some d)"
  using assms
proof (induction ms es arbitrary: s k rule: list_all2_induct)
  case Nil
  then show ?case by (auto simp: sending_def)
next
  case (Cons m ms env es)
  obtain e where e: "av_sendfile env = [(int m, e)]" and m: "m > 0" and sv: "av_select env > 0" "av_wset env" "\<not> av_rset env" "av_unlink env"
    using Cons.hyps(1) by (auto simp: ships_def)
  let ?s = "s\<lparr>ag_outdata := 0, ag_wfds := True\<rparr>"
  have s0: "sending f d k ?s" using Cons.prems(1) by (simp add: sending_def)
  have km: "k + m \<le> length d" using Cons.prems(2) by simp
  obtain s1 where s1: "ag_sendfile_loop env [(int m, e)] ?s = Some (if k + m < length d then SOCK_SEND_FILE else SOCK_COMP, s1)"
    "ag_sent s1 = ag_sent ?s @ take m (drop k d)" "if k + m < length d then sending f d (k + m) s1 else ag_disk s1 f = None"
    using sendfile_part [OF s0 m km sv(4), of e] by blast
  define s2 where "s2 = (if k + m < length d then s1\<lparr>ag_outdata := 2\<rparr> else s1)"
  have fp: "file_pending s" "mn_send (ag_m s) = []" "\<not> ag_stop s" using Cons.prems(1) by (auto simp: sending_def file_pending_def)
  then have "agent_round env s = Some (True, s2)"
    using sv s1(1) e by (auto simp: agent_round_def get_most_old_file_def ag_writable_def ag_do_send_def file_pending_def s2_def Let_def)
  moreover have "\<exists>s'. agent_rounds es s2 = Some (True, s') \<and> ag_sent s' = ag_sent s2 @ take (sum_list ms) (drop (k + m) d) \<and>
      ag_disk s' f = (if k + m + sum_list ms = length d then None else Some d)"
  proof (cases "k + m < length d")
    case True
    then have "sending f d (k + m) s2" using s1(3) by (simp add: s2_def sending_def)
    then show ?thesis using Cons.IH [of "k + m" s2] Cons.prems(2) by (simp add: add.assoc)
  next
    case False
    then have "sum_list ms = 0" using Cons.prems(2) by (simp only: sum_list.Cons)
    moreover have "ms = []" using Cons.hyps(2) calculation by (cases ms) (auto simp: list_all2_Cons1 ships_def)
    moreover have "es = []" using Cons.hyps(2) calculation(2) by simp
    ultimately show ?thesis using False s1(3) km by (simp add: s2_def)
  qed
  moreover have "ag_sent s2 = ag_sent s @ take m (drop k d)" by (simp add: s2_def s1(2))
  ultimately show ?case using fp(3) by (auto simp: take_add add.assoc add.commute)
qed


subsection \<open>Without a connection\<close>

text \<open>What a run without a connection does with the reports: they leave the queues and are given to \<^verbatim>\<open>write\<close>.\<close>

lemma offline_run:
  assumes "tasks_ok H (ag_task s)" and "locks_ok env" and "ag_databuff s = []" and "reports env s \<noteq> []" and "av_fd env < 0"
    and "av_open env (dump_name env) \<ge> 0"
  shows "\<exists>s'. agent_do_run env es s = Some s' \<and> ag_databuff s' = [] \<and>
    ag_disk s' = (ag_disk s)(dump_name env := Some ((case ag_disk s (dump_name env) of None \<Rightarrow> [] | Some d \<Rightarrow> d)
       @ take (nat (av_write env (length (reports env s)))) (reports env s))) \<and>
    mn_send (ag_m s') = (if av_write env (length (reports env s)) < 0 then [] else drop (nat (av_write env (length (reports env s)))) (reports env s))"
proof -
  let ?s = "ag_reinit s"
  have t: "ag_task ?s = ag_task s" "ag_databuff ?s = []" "reports env ?s = reports env s" "ag_disk ?s = ag_disk s" "ag_outdata ?s = 0" "mn_send (ag_m ?s) = []"
    using assms(3) by (simp_all add: ag_reinit_def ag_task_def reports_def)
  note d = do_scan_reports [of H ?s env False]
  have v: "ag_databuff (do_scan env False ?s) = []" "mn_send (ag_m (do_scan env False ?s)) = reports env s"
    "ag_outdata (do_scan env False ?s) = 1" "ag_disk (do_scan env False ?s) = ag_disk s"
    using d(1,4) assms(1,2,4) t by (auto simp: ag_view_def)
  show ?thesis
    using v assms(4-6) by (simp add: agent_do_run_def dump_to_file_def Let_def)
qed

text \<open>
  Without a connection the reports are kept: when the file of the hour can be opened and written, the lines of all finished
  tasks are appended to it and nothing else changes on the disk.
\<close>

theorem offline_reports_kept:
  assumes "tasks_ok H (ag_task s)" and "locks_ok env" and "ag_databuff s = []" and "reports env s \<noteq> []" and "av_fd env < 0"
    and "av_open env (dump_name env) \<ge> 0" and "\<forall>n. av_write env n = int n" and "ag_disk s (dump_name env) = Some old"
  shows "\<exists>s'. agent_do_run env es s = Some s' \<and> ag_disk s' = (ag_disk s)(dump_name env \<mapsto> old @ reports env s)"
  using offline_run [OF assms(1-6), of es] assms(7,8) by auto

text \<open>
  When \<^verbatim>\<open>write\<close> fails the reports are lost: its result \<open>-1\<close> counts as a large number, so the whole buffer is skipped,
  while the tasks have already been cleared and the file is unchanged.
\<close>

theorem failed_write_loses_reports:
  assumes "tasks_ok H (ag_task s)" and "locks_ok env" and "ag_databuff s = []" and "reports env s \<noteq> []" and "av_fd env < 0"
    and "av_open env (dump_name env) \<ge> 0" and "\<forall>n. av_write env n = -1" and "ag_disk s (dump_name env) = Some old"
  shows "\<exists>s'. agent_do_run env es s = Some s' \<and> ag_disk s' = ag_disk s \<and> mn_send (ag_m s') = [] \<and> ag_databuff s' = []"
  using offline_run [OF assms(1-6), of es] assms(7,8) by (auto simp: fun_upd_idem)

subsection \<open>Freed memory\<close>

lemma fold_clean_queue: "set (pfstask (ag_task (fold (clean_unused_task_mem env) ts s)) q) \<subseteq> set (pfstask (ag_task s) q)"
proof (induction ts arbitrary: s)
  case (Cons y ts)
  have "set (pfstask (ag_task (clean_unused_task_mem env y s)) q) \<subseteq> set (pfstask (ag_task s) q)"
    using clean_queue [of env y s q] by (elim disjE) (simp_all add: set_remove1_subset)
  then show ?case using Cons [of "clean_unused_task_mem env y s"] by simp
qed simp

lemma fold_clean_freed:
  assumes "tasks_ok H (ag_task s)" and "set ts \<subseteq> set (pfstask (ag_task s) TASK_Q_HOME)" and "distinct ts"
    and "t \<in> set (ag_freed (fold (clean_unused_task_mem env) ts s)) - set (ag_freed s)"
  shows "t \<in> set ts \<and> tk_last (tasks (ag_task s) t) \<ge> 0 \<and> me_now (av_m env) - tk_last (tasks (ag_task s) t) \<ge> 3600 \<and>
    (\<forall>q. status_ok q \<longrightarrow> t \<notin> set (pfstask (ag_task (fold (clean_unused_task_mem env) ts s)) q))"
  using assms
proof (induction ts arbitrary: s)
  case (Cons x ts)
  let ?s = "clean_unused_task_mem env x s"
  have ok: "tasks_ok H (ag_task ?s)" using Cons.prems by (intro tasks_ok_clean) auto
  have sub: "set ts \<subseteq> set (pfstask (ag_task ?s) TASK_Q_HOME)"
    using clean_queue [of env x s TASK_Q_HOME] Cons.prems(2,3) by (auto, (metis in_set_remove1 subsetD)+)
  show ?case
  proof (cases "t \<in> set (ag_freed ?s)")
    case True
    have f: "t = x" "tk_last (tasks (ag_task s) t) \<ge> 0" "me_now (av_m env) - tk_last (tasks (ag_task s) t) \<ge> 3600"
      using True Cons.prems(4) by (auto simp: clean_unused_task_mem_def ag_set_task_def Let_def split: if_splits)
    have gone: "t \<notin> set (pfstask (ag_task ?s) q)" if "status_ok q" for q
    proof -
      have "distinct (pfstask (ag_task s) q)" using Cons.prems(1) that by (auto simp: tasks_ok_def queue_ok_def)
      then show ?thesis using f by (auto simp: clean_unused_task_mem_def ag_task_def ag_set_task_def Let_def task_defs)
    qed
    then show ?thesis using f gone fold_clean_queue by fastforce
  next
    case False
    then show ?thesis using Cons.IH [OF ok sub] Cons.prems(3,4) by (simp add: clean_tasks)
  qed
qed simp


subsection \<open>A message of length zero\<close>

text \<open>
  A message whose head says total length zero hangs the agent: whatever its command, other than the one that stops
  the server, it is consumed by dropping no byte and found again.
\<close>

theorem agent_zero_length_livelock:
  assumes "ag_in s = be32 0 @ be32 cmd @ be32 seq @ t" and "cmd \<noteq> REQ_STOPPFS"
  shows "check_loop fuel env s = None"
  using assms(1)
proof (induction fuel arbitrary: s)
  case (Suc fuel)
  let ?s = "s\<lparr>ag_outdata := max 1 (ag_outdata s)\<rparr>"
  have "ag_in s \<noteq> []" using Suc.prems by (simp add: be32_def)
  then have "ag_check_req env s = Some (0, ?s)"
    using assms(2) Suc.prems by (simp add: ag_check_req_def parse_msg_head set_from_poss_def)
  then show ?case using Suc.IH [of ?s] Suc.prems by simp
qed simp

text \<open>With a length of at least one the loop over the messages ends.\<close>

lemma check_req_shrinks:
  assumes "ag_check_req env s = Some (0, s1)" and "unat (ph_totallen (snd (parse_msg (ag_in s)))) > 0"
  shows "length (ag_in s1) < length (ag_in s)"
  using assms
  by (auto simp: ag_check_req_def set_from_poss_def Let_def split: if_splits prod.splits)

subsection \<open>A command of the operator\<close>

text \<open>A round in which the agent receives \<open>d\<close>, and the states in which it has nothing to send.\<close>

definition reads :: "bytes \<Rightarrow> ag_env \<Rightarrow> bool" where
  "reads d env \<longleftrightarrow> av_select env > 0 \<and> av_rset env \<and> d \<noteq> [] \<and> length d < 2048 \<and> (\<exists>e. av_recv env = [(d, int (length d), e)])"

definition quiet :: "ag_state \<Rightarrow> bool" where
  "quiet a \<longleftrightarrow> ag_index a < 0 \<and> \<not> file_pending a \<and> ag_outdata a = 0 \<and> \<not> ag_wfds a \<and> \<not> ag_stop a"

lemma round_reads:
  assumes "reads d env" and "quiet a"
  shows "agent_round env a = map_option (Pair True) (check_loop (Suc (length (ag_in a @ d))) env (a\<lparr>ag_in := ag_in a @ d\<rparr>))"
proof -
  obtain e where e: "av_recv env = [(d, int (length d), e)]" using assms(1) by (auto simp: reads_def)
  have q: "a\<lparr>ag_outdata := 0, ag_wfds := False, ag_in := x\<rparr> = a\<lparr>ag_in := x\<rparr>" for x using assms(2) by (cases a) (simp add: quiet_def)
  show ?thesis
    using assms e by (simp add: q agent_round_def get_most_old_file_def quiet_def reads_def ag_readable_def Let_def del: check_loop.simps)
qed

lemma partial_message_waits:
  assumes "p @ q = be32 (of_nat n) @ be32 cmd @ be32 seq @ t" and "p \<noteq> []" and "q \<noteq> []" and "n = HEADSIZE + length t" and "n < 2 ^ 32" and "ag_in a = p"
  shows "check_loop (Suc k) env a = Some a"
proof (cases "length p < HEADSIZE")
  case True
  then show ?thesis using assms(2,6) by (simp add: ag_check_req_def parse_msg_def)
next
  case False
  have "(be32 (of_nat n) @ be32 cmd @ be32 seq) @ t = p @ q" using assms(1) by simp
  moreover have "length (be32 (of_nat n) @ be32 cmd @ be32 seq) \<le> length p" using False by (simp add: be32_def)
  ultimately obtain c where c: "p = (be32 (of_nat n) @ be32 cmd @ be32 seq) @ c" using longer_prefix by metis
  have "length p < n" 
  proof -
    have "length p + length q = HEADSIZE + length t" using arg_cong [OF assms(1), of length] by (simp add: be32_def)
    moreover have "length q > 0" using assms(3) by simp
    ultimately show ?thesis using assms(4) by linarith
  qed
  moreover have "unat (of_nat n :: uint32) = n" using assms(5) by (simp add: unsigned_of_nat take_bit_nat_eq_self)
  ultimately show ?thesis using assms(2,6) c by (simp add: ag_check_req_def parse_msg_head)
qed

lemma unat_small: "n < 2 ^ 32 \<Longrightarrow> unat (of_nat n :: uint32) = n"
  by (simp add: unsigned_of_nat take_bit_nat_eq_self)

lemma command_executed:
  assumes "list_all2 reads ds es" and "quiet a" and "ag_in a @ concat ds = cmd_msg cmd seq" and "es \<noteq> []" and "length cmd < 2 ^ 31"
    and "do_request (av_m (last es)) cmd (av_stale (last es)) (ag_m a) = Some m"
  shows "\<exists>a'. agent_rounds es a = Some (True, a') \<and> ag_m a' = m \<and> ag_in a' = []"
  using assms
proof (induction ds es arbitrary: a rule: list_all2_induct)
  case (Cons d ds env es)
  let ?a = "a\<lparr>ag_in := ag_in a @ d\<rparr>"
  have r: "agent_round env a = map_option (Pair True) (check_loop (Suc (length (ag_in a @ d))) env ?a)"
    by (rule round_reads [OF Cons.hyps(1) Cons.prems(1)])
  have d: "d \<noteq> []" using Cons.hyps(1) by (simp add: reads_def)
  have st: "\<not> ag_stop a" using Cons.prems(1) by (simp add: quiet_def)
  show ?case
  proof (cases "es = []")
    case True
    then have "ds = []" using Cons.hyps(2) by simp
    then have c: "ag_in ?a = cmd_msg cmd seq" using Cons.prems(2) by simp
    have n: "unat (of_nat (HEADSIZE + length cmd) :: uint32) = HEADSIZE + length cmd" by (rule unat_small) (use Cons.prems(4) in simp)
    have len: "length (cmd_msg cmd seq) = HEADSIZE + length cmd" by (simp add: cmd_msg_def be32_def)
    have "str_of [] = []" by (simp add: str_of_def)
    moreover have "do_request (av_m env) cmd (av_stale env) (ag_m a) = Some m" using Cons.prems(5) True by simp
    ultimately have "set_from_poss env \<lparr>ph_totallen = of_nat (HEADSIZE + length cmd), ph_cmdid = REQ_PFS_CMD, ph_seq = seq\<rparr> (cmd_msg cmd seq) ?a = Some (?a\<lparr>ag_m := m\<rparr>)"
      using n len parse_cmd_msg(2) [of cmd seq] by (simp add: set_from_poss_def del: of_nat_add)
    then have "ag_check_req env ?a = Some (0, ?a\<lparr>ag_m := m, ag_in := [], ag_outdata := max 1 (ag_outdata a)\<rparr>)"
      using c n len parse_cmd_msg(1) [of cmd seq] by (auto simp: ag_check_req_def)
    then have "check_loop (Suc (length (ag_in a @ d))) env ?a = Some (?a\<lparr>ag_m := m, ag_in := [], ag_outdata := max 1 (ag_outdata a)\<rparr>)"
      using d by (cases "length (ag_in a @ d)") (simp_all add: ag_check_req_def [of _ "_\<lparr>ag_outdata := _\<rparr>"])
    then show ?thesis using r st True by simp
  next
    case False
    then have "ds \<noteq> []" using Cons.hyps(2) by auto
    then have ne: "concat ds \<noteq> []" using Cons.hyps(2) by (cases ds) (auto simp: list_all2_Cons1 reads_def)
    have "check_loop (Suc (length (ag_in a @ d))) env ?a = Some ?a"
    proof (rule partial_message_waits)
      show "(ag_in a @ d) @ concat ds = be32 (of_nat (HEADSIZE + length cmd)) @ be32 REQ_PFS_CMD @ be32 seq @ bytes_of cmd"
        using Cons.prems(2) by (simp add: cmd_msg_def)
    qed (use d ne Cons.prems(4) in \<open>auto simp: bytes_of_def\<close>)
    moreover have "quiet ?a" using Cons.prems(1) by (simp add: quiet_def file_pending_def)
    ultimately show ?thesis using Cons.IH [of ?a] Cons.prems False r st by simp
  qed
qed simp

subsection \<open>Examples\<close>

definition example_ag_env :: ag_env where
  "example_ag_env = \<lparr>av_m = example_mnt_env\<lparr>me_now := 4000\<rparr>, av_domain = ''d'', av_self_stat = 3, av_heartbeat = 30, av_tmpdir = ''/t'', av_day = ''20140101000000'',
     av_open = (\<lambda>_. 9), av_write = int, av_unlink = True, av_fd = -1, av_readdir = None, av_qsort = id, av_stale = [],
     av_select = 0, av_wset = False, av_rset = False, av_send = [], av_sendfile = [], av_recv = []\<rparr>"

definition example_clean :: task_state where
  "example_clean = \<lparr>tasks = (\<lambda>t. if t = 7 then example_task ''a'' 1 TASK_Q_CLEAN else (home_task\<lparr>tk_last := 1\<rparr>)),
     pfstask = (\<lambda>q. if q = TASK_Q_CLEAN then [7] else if q = TASK_Q_HOME then [8] else []),
     taskcount = (\<lambda>q. if q = TASK_Q_CLEAN then 1 else if q = TASK_Q_HOME then - 2047 else 0)\<rparr>"

definition example_ag :: ag_state where
  "example_ag = \<lparr>ag_m = example_mnt\<lparr>mn_task := example_clean\<rparr>, ag_databuff = [], ag_fd = -1, ag_off = 0, ag_len = 0, ag_name = [], ag_in = [],
     ag_tmp = [\<lparr>fi_mtime = 1, fi_file = ''/t/poss_x.data''\<rparr>], ag_index = -1, ag_last = 0, ag_freed = [],
     ag_disk = [''/t/poss_x.data'' \<mapsto> [1, 2, 3], ''/t/poss_2014010100.data'' \<mapsto> [4]], ag_sent = [], ag_closed = [], ag_stop = False,
     ag_outdata = 0, ag_hb = 4000, ag_wfds = False\<rparr>"

lemma example_clean_ok: "tasks_ok {} (ag_task example_ag)"
  by (auto simp: tasks_ok_def queue_ok_def example_ag_def ag_task_def example_clean_def example_task_def home_task_def home_offset_def)

lemma example_locks: "locks_ok example_ag_env"
  by (simp add: locks_ok_def example_ag_env_def example_mnt_env_def)

lemma example_reports: "reports example_ag_env example_ag \<noteq> []"
proof -
  have "pfstask (ag_task example_ag) TASK_Q_CLEAN = [7]" by (simp add: example_ag_def ag_task_def example_clean_def)
  then show ?thesis by (simp add: reports_def report_line_def bytes_of_def Let_def)
qed

lemma example_plain: "ag_databuff example_ag = []" "av_select example_ag_env = 0" "ag_index example_ag < 0" "\<not> file_pending example_ag"
  "ag_outdata example_ag = 0" "mn_send (ag_m example_ag) = []" "\<not> ag_stop example_ag" "me_now (av_m example_ag_env) - ag_hb example_ag \<le> av_heartbeat example_ag_env"
  "av_fd example_ag_env < 0" "av_open example_ag_env (dump_name example_ag_env) \<ge> 0"
  by (simp_all add: example_ag_def example_ag_env_def example_mnt_def file_pending_def)

lemma example_dump: "ag_disk example_ag (dump_name example_ag_env) = Some [4]"
proof -
  have "dump_name example_ag_env = ''/t/poss_2014010100.data''"
    by (simp add: dump_name_def example_ag_env_def PREFIX_def SUFFIX_def snprintf_s_def)
  then show ?thesis by (simp add: example_ag_def)
qed

theorem report_reaches_operation_server_witness:
  "\<exists>s' p' ds. agent_rounds [example_ag_env, example_ag_env\<lparr>av_select := 1, av_wset := True, av_send := [(int (HEADSIZE + length (reports example_ag_env example_ag)), EOTHER)]\<rparr>] example_ag
       = Some (True, s') \<and> ag_sent s' = ds \<and> poss_pieces example_poss_env 5 example_poss [] [ds] = Some (p', [])"
proof -
  let ?n = "HEADSIZE + length (reports example_ag_env example_ag)"
  let ?f = "data_file example_poss_env (po_peer example_poss 5)"
  have w: "list_all2 writes [?n] [example_ag_env\<lparr>av_select := 1, av_wset := True, av_send := [(int ?n, EOTHER)]\<rparr>]"
    by (simp add: writes_def example_ag_env_def)
  have len: "length (reports example_ag_env example_ag) < 2 ^ 31"
  proof -
    have "pfstask (ag_task example_ag) TASK_Q_CLEAN = [7]" "tasks (ag_task example_ag) 7 = example_task ''a'' 1 TASK_Q_CLEAN"
      by (simp_all add: example_ag_def ag_task_def example_clean_def)
    then have "reports example_ag_env example_ag = bytes_of (report_line example_ag_env (example_task ''a'' 1 TASK_Q_CLEAN))" by (simp add: reports_def)
    moreover have "length (bytes_of (report_line example_ag_env (example_task ''a'' 1 TASK_Q_CLEAN))) < 2 ^ 31"
      by (simp add: bytes_of_def report_line_def example_task_def home_task_def zero_taskinfo_def zero_base_def zero_sub_def example_ag_env_def
          task_status_def over_status_def ip2str_def octet_str_def ip_octet_def dec_int_def dec.simps Let_def)
    ultimately show ?thesis by simp
  qed
  have p: "store_env example_poss_env ?f" "stores_to example_poss_env 5 ?f example_poss" "\<not> syncing (po_peer example_poss 5)"
    by (simp_all add: store_env_def example_poss_env_def stores_to_def example_poss_def syncing_def Let_def)
  have sent: "ag_sent example_ag = []" by (simp add: example_ag_def)
  have n: "sum_list [?n] = HEADSIZE + length (reports example_ag_env example_ag)" by simp
  from report_reaches_operation_server [OF example_clean_ok example_locks example_plain(1) example_reports example_plain(2-8) w n len p]
  obtain s' x where r: "agent_rounds [example_ag_env, example_ag_env\<lparr>av_select := 1, av_wset := True, av_send := [(int ?n, EOTHER)]\<rparr>] example_ag = Some (True, s')"
    and x: "ag_sent s' = ag_sent example_ag @ x"
    and q: "\<forall>ds. concat ds = x \<longrightarrow> (\<exists>p'. poss_pieces example_poss_env 5 example_poss [] ds = Some (p', []) \<and>
      po_file p' = (po_file example_poss)(?f := po_file example_poss ?f @ reports example_ag_env example_ag))" by blast
  have "concat [x] = x" by simp
  with q obtain p' where "poss_pieces example_poss_env 5 example_poss [] [x] = Some (p', [])" by blast
  then show ?thesis using r x sent by (metis append_Nil)
qed


theorem offline_reports_kept_witness:
  "\<exists>s'. agent_do_run example_ag_env [] example_ag = Some s' \<and> ag_disk s' (dump_name example_ag_env) = Some ([4] @ reports example_ag_env example_ag)"
  using offline_reports_kept [OF example_clean_ok example_locks example_plain(1) example_reports example_plain(9,10) _ example_dump, of "[]"]
  by (auto simp: example_ag_env_def)

theorem failed_write_loses_reports_witness:
  "\<exists>s'. agent_do_run (example_ag_env\<lparr>av_write := (\<lambda>_. -1)\<rparr>) [] example_ag = Some s' \<and> ag_disk s' = ag_disk example_ag \<and> mn_send (ag_m s') = []"
proof -
  let ?e = "example_ag_env\<lparr>av_write := (\<lambda>_. -1)\<rparr>"
  have l: "locks_ok ?e" using example_locks by (simp add: locks_ok_def)
  have d: "dump_name ?e = dump_name example_ag_env" by (simp add: dump_name_def)
  have r': "reports ?e example_ag \<noteq> []" using example_reports by (simp add: reports_def report_line_def)
  have a: "av_fd ?e < 0" "av_open ?e (dump_name ?e) \<ge> 0" using example_plain(9,10) by (simp_all add: d)
  have dm: "ag_disk example_ag (dump_name ?e) = Some [4]" using example_dump by (simp add: d)
  show ?thesis
    using failed_write_loses_reports [OF example_clean_ok l example_plain(1) r' a _ dm, of "[]"] by auto
qed


theorem agent_zero_length_livelock_witness:
  "check_loop 100 example_ag_env (example_ag\<lparr>ag_in := be32 0 @ be32 REQ_HEARTBEAT @ be32 1\<rparr>) = None"
  by (rule agent_zero_length_livelock [where cmd = REQ_HEARTBEAT and seq = 1 and t = "[]"]) simp_all

end
