(* ===== verification/Pfs_Acl.thy ===== *)
theory Pfs_Acl
  imports Pfs_Prelude Pfs_Config
begin

section \<open>Access lists and paths (lib/acl.c)\<close>

text \<open>
  Helpers for requests by URL: the list of pages that may link to a file, the check and the decoding of a path, patterns with
  \<^verbatim>\<open>*\<close> and \<^verbatim>\<open>?\<close>, and the splitting of texts.  The theorems say that a decoded path cannot leave its directory, and
  show inputs on which the other two checks accept what they are meant to refuse.
  A result \<open>None\<close> is a read behind the end of a text.
\<close>

subsection \<open>Referers\<close>

definition strcasestr :: "string \<Rightarrow> string \<Rightarrow> nat option" where
  "strcasestr hay key =
     List.find (\<lambda>i. map tolower (take (length key) (drop i hay)) = map tolower key) [0..<Suc (length hay) - length key]"

text \<open>The first occurrence counts, and only when it is at the start or after a space.\<close>

definition listed_word :: "string \<Rightarrow> string \<Rightarrow> bool" where
  "listed_word l key = (case strcasestr l key of None \<Rightarrow> False | Some q \<Rightarrow> q = 0 \<or> l ! (q - 1) = CHR '' '')"

text \<open>
  The dots of the host, without one at its end; the part of the host behind the \<open>k\<close>th dot from the right, or the whole host, each
  cut to 127 characters.
\<close>

definition host_dots :: "string \<Rightarrow> nat list" where
  "host_dots host = (let d = filter (\<lambda>i. host ! i = CHR ''.'') [0..<length host] in
     if host \<noteq> [] \<and> last host = CHR ''.'' then butlast d else d)"

definition behind_dot :: "string \<Rightarrow> nat \<Rightarrow> string" where
  "behind_dot host k = (let d = host_dots host in take 127 (drop (Suc (d ! (length d - k))) host))"

definition check_referer :: "string option \<Rightarrow> string \<Rightarrow> bool \<Rightarrow> int" where
  "check_referer referer referer_list allow_null =
     (case (case referer of None \<Rightarrow> None | Some r \<Rightarrow> strchr CHR '':'' r) of
        None \<Rightarrow> if allow_null then 0 else -1
      | Some (_, r) \<Rightarrow>
          let host = takeWhile (\<lambda>c. c \<noteq> CHR ''/'' \<and> c \<noteq> CHR '':'') (dropWhile (\<lambda>c. c = CHR ''/'') r);
              dots = host_dots host; n = length dots in
          if length (filter (\<lambda>c. c = CHR ''.'') host) \<ge> 10 then -1
          else if n < 1 then -1
          else
            let suffix_len = length host - 1 - last dots; whole = take 127 host in
            if suffix_len = 3 then
              if n \<ge> 2 then
                if listed_word referer_list (behind_dot host 2) then 0
                else if listed_word referer_list (if n = 2 then whole else behind_dot host 3) then 0 else -1
              else if listed_word referer_list whole then 0 else -1
            else if suffix_len = 2 then
              if strcasestr referer_list (if n \<le> 2 then whole else behind_dot host 3) \<noteq> None then 0
              else if n \<ge> 2 \<and> listed_word referer_list (behind_dot host 2) then 0 else -1
            else -1)"

subsection \<open>Paths\<close>

text \<open>
  The counters are 16 bits wide.  After a run of slashes that is not followed by \<^verbatim>\<open>../\<close> or \<^verbatim>\<open>./\<close> one more character is skipped,
  which may be the zero at the end.
\<close>

function path_loop :: "string \<Rightarrow> uint16 \<Rightarrow> uint16 \<Rightarrow> (uint16 \<times> uint16) option" where
  "path_loop s dirs udirs =
     (if s = [] \<or> \<not> (udirs = 0 \<or> udirs < dirs) then Some (dirs, udirs)
      else if hd s = CHR ''/'' then
        let t = dropWhile (\<lambda>c. c = CHR ''/'') s in
        if take 3 t = ''../'' then path_loop (drop 3 t) dirs (udirs + 1)
        else if take 2 t = ''./'' then path_loop (drop 2 t) dirs udirs
        else if t = [] then None
        else path_loop (tl t) (dirs + 1) udirs
      else path_loop (tl s) dirs udirs)"
  by pat_completeness auto
termination
proof (relation "measure (\<lambda>(s, _, _). length s)", goal_cases)
  case (2 s dirs udirs t)
  then show ?case using length_dropWhile_le [of "\<lambda>c. c = CHR ''/''" "tl s"] by (cases s) auto
next
  case (3 s dirs udirs t)
  then show ?case using length_dropWhile_le [of "\<lambda>c. c = CHR ''/''" "tl s"] by (cases s) auto
next
  case (4 s dirs udirs t)
  then show ?case using length_dropWhile_le [of "\<lambda>c. c = CHR ''/''" "tl s"] by (cases s) auto
qed auto

declare path_loop.simps [simp del]

definition check_path :: "string \<Rightarrow> bool option" where
  "check_path path = (if take 1 path \<noteq> ''/'' then Some False else map_option (\<lambda>(d, u). u < d) (path_loop path 0 0))"

subsection \<open>Patterns\<close>

fun strstr :: "string \<Rightarrow> string \<Rightarrow> string option" where
  "strstr [] n = (if n = [] then Some [] else None)"
| "strstr (c # s) n = (if take (length n) (c # s) = n then Some (c # s) else strstr s n)"

text \<open>
  The comparison with \<open>prefix\<close> is over the length of the value, and the end of the suffix is looked for at that distance from where it
  was found: behind the end of the value unless that is its start.
\<close>

definition partnership :: "string \<Rightarrow> string \<Rightarrow> string \<Rightarrow> string \<Rightarrow> bool option" where
  "partnership currval prefix' suffix' pattern =
     (let size' = length currval; pat = (pattern = [] \<or> strstr currval pattern \<noteq> None) in
      if \<not> (prefix' = [] \<or> take size' prefix' = currval) then Some False
      else if suffix' = [] then Some pat
      else case strstr currval suffix' of
        None \<Rightarrow> Some False
      | Some t \<Rightarrow> if t = currval then Some pat else None)"

text \<open>The pieces between separators, at most \<open>count\<close> of them.\<close>

fun split_at :: "char \<Rightarrow> string \<Rightarrow> string list" where
  "split_at sep [] = [[]]"
| "split_at sep (c # s) = (if c = sep then [] # split_at sep s else case split_at sep s of [] \<Rightarrow> [[c]] | x # xs \<Rightarrow> (c # x) # xs)"

definition splitstr :: "string \<Rightarrow> char \<Rightarrow> nat \<Rightarrow> string list" where
  "splitstr str sep count = take count (split_at sep str)"

datatype match_flag = Start | Star | Quest

record matchitem =
  mi_val :: string
  mi_flag :: match_flag

text \<open>\<open>alloc\<close> is false where \<^verbatim>\<open>malloc\<close> fails.\<close>

definition getmatch :: "bool \<Rightarrow> string \<Rightarrow> matchitem list" where
  "getmatch alloc str =
     (if \<not> alloc then []
      else concat (map (\<lambda>(i, v). map (\<lambda>(m, x). \<lparr>mi_val = x, mi_flag = (if m > 0 then Quest else if i = 0 then Start else Star)\<rparr>)
                                  (enumerate 0 (splitstr v CHR ''?'' 1024)))
                    (enumerate (0 :: nat) (splitstr str CHR ''*'' 1024))))"

text \<open>
  \<open>star\<close> is the inner loop for an asterisk: \<open>pm\<close> is the text at which the item is matched, \<open>str\<close> the position of the search.  When the
  search has reached the end of the text the item is passed over.
\<close>

lemma strstr_length: "strstr s n = Some t \<Longrightarrow> length t \<le> length s"
  by (induction s n rule: strstr.induct) (auto split: if_splits)

function (sequential) strmatch :: "matchitem list \<Rightarrow> string \<Rightarrow> bool option"
  and star :: "string \<Rightarrow> matchitem list \<Rightarrow> string \<Rightarrow> string \<Rightarrow> bool option" where
  "strmatch [] pm = Some (pm = [])"
| "strmatch (it # next) pm =
     (case mi_flag it of
        Start \<Rightarrow>
          if mi_val it = [] \<and> next = [] then Some True
          else if take (length (mi_val it)) pm \<noteq> mi_val it then Some False
          else strmatch next (drop (length (mi_val it)) pm)
      | Star \<Rightarrow> star (mi_val it) next pm pm
      | Quest \<Rightarrow>
          if pm = [] then None
          else if mi_val it \<noteq> [] \<and> take (length (mi_val it)) (tl pm) \<noteq> mi_val it then Some False
          else strmatch next (drop (length (mi_val it)) (tl pm)))"
| "star val next pm [] = strmatch next pm"
| "star val next pm (c # str) =
     (case strstr (c # str) val of
        None \<Rightarrow> Some False
      | Some t \<Rightarrow>
          if val = [] \<and> next = [] then Some True
          else case strmatch next (drop (length val) t) of
            None \<Rightarrow> None
          | Some True \<Rightarrow> Some True
          | Some False \<Rightarrow> star val next pm (tl t))"
  by pat_completeness auto
termination
proof (relation "measures [\<lambda>x. case x of Inl (is, _) \<Rightarrow> length is | Inr (_, is, _, _) \<Rightarrow> Suc (length is),
    \<lambda>x. case x of Inl _ \<Rightarrow> 1 | Inr _ \<Rightarrow> 0, \<lambda>x. case x of Inl _ \<Rightarrow> 0 | Inr (_, _, _, str) \<Rightarrow> length str]", goal_cases)
  case (7 val "next" pm c str t b)
  then show ?case using strstr_length [of "c # str" val t] by (cases t) auto
qed (auto)

subsection \<open>Texts\<close>

definition strtrim :: "string \<Rightarrow> string" where
  "strtrim s = rstrip (\<lambda>c. c = CHR '' '') (dropWhile (\<lambda>c. c = CHR '' '') s)"

text \<open>\<^verbatim>\<open>strtok_r\<close>: the next token and the text behind it.\<close>

definition strtok_r :: "string \<Rightarrow> string \<Rightarrow> (string \<times> string) option" where
  "strtok_r delims s =
     (let t = dropWhile (\<lambda>c. c \<in> set delims) s in
      if t = [] then None
      else Some (takeWhile (\<lambda>c. c \<notin> set delims) t, drop 1 (dropWhile (\<lambda>c. c \<notin> set delims) t)))"

fun getval :: "nat \<Rightarrow> string \<Rightarrow> string option \<Rightarrow> string \<Rightarrow> string list" where
  "getval 0 delims stop str = []"
| "getval (Suc count) delims stop str =
     (case strtok_r delims str of
        None \<Rightarrow> []
      | Some (tok, r) \<Rightarrow> let v = strtrim tok in if stop = Some v then [v] else v # getval count delims stop r)"

definition getvalue :: "string list \<Rightarrow> string \<Rightarrow> nat \<Rightarrow> string option" where
  "getvalue val str len = map_option (drop len) (List.find (\<lambda>v. strcasecmp_eq (take len v) (take len str)) val)"

subsection \<open>URLs\<close>

fun decode_url :: "string \<Rightarrow> string" where
  "decode_url [] = []"
| "decode_url (c # r) =
     (if c = CHR ''%'' \<and> take 2 r = ''20'' then CHR '' '' # decode_url (drop 2 r)
      else if c = CHR ''%'' \<and> take 2 r = ''21'' then CHR ''!'' # decode_url (drop 2 r)
      else c # decode_url r)"

definition xdigit :: "char \<Rightarrow> nat option" where
  "xdigit c =
     (let n = (of_char c :: nat) in
      if 48 \<le> n \<and> n \<le> 57 then Some (n - 48)
      else if 65 \<le> n \<and> n \<le> 70 then Some (n - 55)
      else if 97 \<le> n \<and> n \<le> 102 then Some (n - 87)
      else None)"

text \<open>The next character and the text behind it.\<close>

fun url_char :: "string \<Rightarrow> (char \<times> string) option" where
  "url_char [] = None"
| "url_char (c # r) =
     (case r of
        a # b # r' \<Rightarrow>
          (case (xdigit a, xdigit b) of
             (Some x, Some y) \<Rightarrow> if c = CHR ''%'' then Some (char_of (x * 16 + y), r') else Some (c, r)
           | _ \<Rightarrow> Some (c, r))
      | _ \<Rightarrow> Some (c, r))"

text \<open>
  What was written so far is a list with the last character first.  Before a slash is written, an empty component, \<^verbatim>\<open>.\<close> or \<^verbatim>\<open>..\<close>
  at the end is taken back, the latter with the component before it.
\<close>

definition before_slash :: "string \<Rightarrow> string" where
  "before_slash w =
     (if take 1 w = ''/'' then drop 1 w
      else if take 2 w = ''./'' then drop 2 w
      else if take 3 w = ''../'' then tl (dropWhile (\<lambda>c. c \<noteq> CHR ''/'') (drop 3 w))
      else w)"

definition put_char :: "char \<Rightarrow> string \<Rightarrow> string" where
  "put_char ch w = (if ch = CHR ''/'' then CHR ''/'' # before_slash w else ch # w)"

text \<open>\<open>len\<close> is the size of the buffer.\<close>

function decode_loop :: "nat \<Rightarrow> string \<Rightarrow> string \<Rightarrow> string" where
  "decode_loop len url w =
     (if length w \<ge> len then w
      else case url_char url of None \<Rightarrow> w | Some (ch, r) \<Rightarrow> decode_loop len r (put_char ch w))"
  by pat_completeness auto
termination
proof (relation "measure (\<lambda>(_, url, _). length url)", goal_cases)
  case (2 len url w p ch r)
  then show ?case by (cases url rule: url_char.cases) (auto split: list.splits option.splits if_splits)
qed auto

declare decode_loop.simps [simp del]

definition decodeurl :: "string \<Rightarrow> nat \<Rightarrow> string" where
  "decodeurl url len =
     (let w = decode_loop len url ''/'' in
      rev (if take 2 w = ''./'' then drop 1 w
           else if take 3 w = ''../'' then (if drop 3 w = [] then ''/'' else dropWhile (\<lambda>c. c \<noteq> CHR ''/'') (drop 3 w))
           else w))"

subsection \<open>A decoded path stays in its directory\<close>

lemma split_at_ne [simp]: "split_at sep s \<noteq> []"
  by (cases s) (auto split: list.splits)

lemma split_at_append: "split_at sep (a @ sep # b) = split_at sep a @ split_at sep b"
proof (induction a)
  case (Cons c a)
  then show ?case by (cases "split_at sep a") auto
qed simp

lemma split_at_plain: "sep \<notin> set s \<Longrightarrow> split_at sep s = [s]"
  by (induction s) auto

text \<open>A path, last character first, none of whose complete components is \<^verbatim>\<open>..\<close>.\<close>

definition clean_path :: "string \<Rightarrow> bool" where
  "clean_path w \<longleftrightarrow> w \<noteq> [] \<and> last w = CHR ''/'' \<and> ''..'' \<notin> set (butlast (split_at CHR ''/'' (rev w)))"

lemma clean_path_split:
  assumes "w \<noteq> []" and "last w = CHR ''/''"
  obtains l r where "w = l @ CHR ''/'' # r" "CHR ''/'' \<notin> set l" "split_at CHR ''/'' (rev w) = split_at CHR ''/'' (rev r) @ [rev l]"
proof -
  have "CHR ''/'' \<in> set w" using assms last_in_set by force
  then obtain l r where w: "w = l @ CHR ''/'' # r" "CHR ''/'' \<notin> set l" using split_list_first by metis
  then have "split_at CHR ''/'' (rev w) = split_at CHR ''/'' (rev r) @ [rev l]"
    by (simp add: split_at_append split_at_plain)
  then show ?thesis using that w by blast
qed

lemma clean_path_char:
  assumes "clean_path w" and "c \<noteq> CHR ''/''"
  shows "clean_path (c # w)"
proof -
  obtain l r where w: "w = l @ CHR ''/'' # r" "CHR ''/'' \<notin> set l" "split_at CHR ''/'' (rev w) = split_at CHR ''/'' (rev r) @ [rev l]"
    using assms(1) clean_path_split by (metis clean_path_def)
  have "split_at CHR ''/'' (rev (c # w)) = split_at CHR ''/'' (rev r) @ [rev (c # l)]"
    using w(2) assms(2) by (simp add: w(1) split_at_append split_at_plain)
  then show ?thesis using assms(1) w(3) by (simp add: clean_path_def)
qed

lemma clean_path_slash:
  assumes "''..'' \<notin> set (split_at CHR ''/'' (rev r))" and "r = [] \<or> last r = CHR ''/''"
  shows "clean_path (CHR ''/'' # r)"
  using assms by (auto simp: clean_path_def split_at_append)

lemma clean_path_drop:
  assumes "clean_path (l @ CHR ''/'' # r)" and "CHR ''/'' \<notin> set l"
  shows "''..'' \<notin> set (split_at CHR ''/'' (rev r))" "r = [] \<or> last r = CHR ''/''"
  using assms by (auto simp: clean_path_def split_at_append split_at_plain split: if_splits)

lemma clean_path_before:
  assumes "clean_path w"
  shows "clean_path (CHR ''/'' # before_slash w)"
proof -
  obtain l r where w: "w = l @ CHR ''/'' # r" "CHR ''/'' \<notin> set l"
    using assms clean_path_split by (metis clean_path_def)
  note d = clean_path_drop [OF assms [unfolded w(1)] w(2)]
  consider "l = []" | "l = ''.''" | "l = ''..''" | "l \<noteq> []" "l \<noteq> ''.''" "l \<noteq> ''..''" by blast
  then show ?thesis
  proof cases
    case 3
    show ?thesis
    proof (cases "r = []")
      case False
      then obtain l' r' where r: "r = l' @ CHR ''/'' # r'" "CHR ''/'' \<notin> set l'" "split_at CHR ''/'' (rev r) = split_at CHR ''/'' (rev r') @ [rev l']"
        using d(2) clean_path_split by blast
      have "tl (dropWhile (\<lambda>c. c \<noteq> CHR ''/'') r) = r'" using r(1,2) by (simp add: dropWhile_append)
      moreover have "''..'' \<notin> set (split_at CHR ''/'' (rev r'))" using d(1) by (simp add: r(3))
      moreover have "r' = [] \<or> last r' = CHR ''/''" using d(2) r(1) by (auto split: if_splits)
      ultimately show ?thesis using clean_path_slash 3 by (simp add: w(1) before_slash_def)
    qed (use 3 w(1) clean_path_slash d in \<open>simp add: before_slash_def\<close>)
  next
    case 4
    have "before_slash w = w"
      using 4 w by (cases l; cases "tl l"; cases "tl (tl l)") (auto simp: before_slash_def)
    moreover have "''..'' \<notin> set (split_at CHR ''/'' (rev w))"
      using d(1) 4(3) w by (simp add: split_at_append split_at_plain) (metis rev_rev_ident rev.simps append_Nil append_Cons)
    ultimately show ?thesis using clean_path_slash assms by (auto simp: clean_path_def)
  qed (use w(1) clean_path_slash d in \<open>simp_all add: before_slash_def\<close>)
qed

lemma clean_path_loop: "clean_path w \<Longrightarrow> clean_path (decode_loop len url w)"
proof (induction len url w rule: decode_loop.induct)
  case (1 len url w)
  have "clean_path (put_char ch w)" for ch using "1.prems" clean_path_char clean_path_before by (simp add: put_char_def)
  then show ?case using 1 by (subst decode_loop.simps) (auto split: option.splits)
qed


subsection \<open>Checks that accept too much\<close>

text \<open>
  The check of a path accepts one that leaves its directory: after a \<^verbatim>\<open>../\<close> the slash before the next component has already been
  passed, so a second \<^verbatim>\<open>../\<close> is taken for the name of a directory.  Four steps up from a depth of three are accepted.
\<close>

theorem check_path_accepts_escape:
  "check_path ''/a/b/c/../../../../x'' = Some True \<and> check_path ''/a/../../x'' = Some False"
  by code_simp

text \<open>A path that ends in a slash is read behind its end.\<close>

lemma check_path_trailing_slash: "check_path ''/a/'' = None"
  by code_simp

text \<open>
  A page of another site is accepted when the name of its host is the end of a listed name: for names of two letters at the
  end the whole host is searched anywhere in the list.
\<close>

theorem referer_partial_match_accepted:
  assumes "strcasestr l host = Some k" and "host = a @ ''.'' @ b" and "length b = 2" and "\<forall>c \<in> set (a @ b). c \<notin> set ''./:''" and "a \<noteq> []" and "length host \<le> 127"
  shows "check_referer (Some (''http://'' @ host @ ''/'')) l allow = 0"
proof -
  have ch: "\<forall>c \<in> set host. c \<noteq> CHR ''/'' \<and> c \<noteq> CHR '':''" using assms(2,4) by auto
  have f: "filter (\<lambda>i. host ! i = CHR ''.'') [0..<length host] = [length a]"
  proof -
    have "filter (\<lambda>i. host ! i = CHR ''.'') [0..<length a] = []" using assms(4) by (auto simp: filter_empty_conv assms(2) nth_append)
    moreover have "host ! i \<noteq> CHR ''.''" if "Suc (length a) \<le> i" "i < length host" for i
    proof -
      have "host ! i = b ! (i - Suc (length a))" using that nth_append [of "a @ ''.''" b i] by (simp add: assms(2))
      moreover have "b ! (i - Suc (length a)) \<in> set b" using that by (intro nth_mem) (simp add: assms(2))
      ultimately show ?thesis using assms(4) by auto
    qed
    then have "filter (\<lambda>i. host ! i = CHR ''.'') [Suc (length a)..<length host] = []" by (simp add: filter_empty_conv)
    moreover have "[0..<length host] = [0..<length a] @ [length a] @ [Suc (length a)..<length host]"
      using upt_add_eq_append [of 0 "length a" "Suc (length b)"] upt_conv_Cons [of "length a" "length a + Suc (length b)"] by (simp add: assms(2))
    ultimately show ?thesis by (simp add: assms(2))
  qed
  have "last host \<noteq> CHR ''.''" using assms(2-4) by (cases b rule: rev_cases) auto
  then have d: "host_dots host = [length a]" by (simp add: host_dots_def f Let_def)
  have "length (filter (\<lambda>c. c = CHR ''.'') host) = 1" using assms(2,4) by (auto simp: filter_empty_conv)
  moreover have "takeWhile (\<lambda>c. c \<noteq> CHR ''/'' \<and> c \<noteq> CHR '':'') (dropWhile (\<lambda>c. c = CHR ''/'') (''//'' @ host @ ''/'')) = host"

  proof -
    have "dropWhile (\<lambda>c. c = CHR ''/'') (''//'' @ host @ ''/'') = host @ ''/''" using ch assms(2,5) by (cases a) auto
    then show ?thesis using ch by (simp add: takeWhile_append2)
  qed
  moreover have "strchr CHR '':'' (''http://'' @ host @ ''/'') = Some (''http'', ''//'' @ host @ ''/'')" by simp
  moreover have "length host - 1 - length a = 2" using assms(2,3) by simp
  ultimately show ?thesis using assms(1,6) by (simp add: check_referer_def d Let_def)
qed

theorem referer_partial_match_accepted_witness:
  "check_referer (Some ''http://z.cn/'') ''xyz.cn'' False = 0"
proof -
  have 1: "strcasestr ''xyz.cn'' ''z.cn'' = Some 2" by (simp add: strcasestr_def tolower_def upt_rec)
  have 2: "''z.cn'' = ''z'' @ ''.'' @ ''cn''" "length ''cn'' = 2" "\<forall>c \<in> set (''z'' @ ''cn''). c \<notin> set ''./:''" "''z'' \<noteq> []" "length ''z.cn'' \<le> 127" by simp_all
  have 3: "''http://'' @ ''z.cn'' @ ''/'' = ''http://z.cn/''" by simp
  show ?thesis using referer_partial_match_accepted [OF 1 2, of False] unfolding 3 .
qed

text \<open>A pattern without special characters matches itself only; an asterisk at the end of the text is passed over with what follows it.\<close>

lemma strmatch_literal:
  assumes "p \<noteq> []" and "CHR ''*'' \<notin> set p" and "CHR ''?'' \<notin> set p"
  shows "strmatch (getmatch True p) s = Some (p = s)"
  using assms by (auto simp: getmatch_def splitstr_def split_at_plain enumerate_eq_zip append_eq_conv_conj)

lemma strmatch_star_passed_over: "strmatch (getmatch True ''a*b'') ''a'' = Some True"
  by code_simp

end
