(* ===== verification/Pfs_Log.thy ===== *)
theory Pfs_Log
  imports Pfs_Prelude Pfs_Codec
begin

section \<open>Logs (lib/log.c)\<close>

text \<open>
  Up to 49 logs are kept, each with a level, and moved to numbered files when they are too old or too long.  The
  theory models all of \<^verbatim>\<open>log.c\<close> but the start of the thread that calls \<open>maintain_log\<close> every ten seconds.  The theorems
  say that the numbers of the old files stay in their range, so that the number of files is bounded, and which lines
  are written.  A result \<open>None\<close> is a write over the end of an array.
\<close>

abbreviation MAX_LOG :: nat where "MAX_LOG \<equiv> 50"
abbreviation MAX_LOG_LEN :: nat where "MAX_LOG_LEN \<equiv> 2048"
abbreviation DEFAULT_MAX_LOG_NUM :: int where "DEFAULT_MAX_LOG_NUM \<equiv> 10"

definition logcolors :: "string list" where
  "logcolors = [''36m'', ''35m'', ''32m'', ''31m'', ''41;30m'', ''41;30m'']"

definition logstring :: "string list" where
  "logstring = [''TRACE'', ''DEBUG'', ''NORMAL'', ''ERROR'', ''FAULT'', ''NONE'']"

record t_fdinfo =
  fd_timeout :: int
  fd_fd :: int
  fd_iclose :: bool

record logentity =
  le_fd :: int
  le_loglevel :: nat
  le_rotatesize :: int
  le_rotatetime :: uint32
  le_rotateintval :: int
  le_maxlognum :: int
  le_nextlogno :: int
  le_fn :: string
  le_fdinfo :: t_fdinfo

record log_state =
  logentities :: "nat \<Rightarrow> logentity"
  curlogid :: nat
  lg_files :: "string \<Rightarrow> bytes option"
  lg_out :: "(int \<times> bytes) list"
  lg_closed :: "int list"

record log_env =
  lv_now :: int
  lv_open :: "string \<Rightarrow> int"
  lv_mtime :: "string \<Rightarrow> int"
  lv_size :: "int \<Rightarrow> int option"
  lv_lock :: int
  lv_localtime :: "int \<Rightarrow> tm"

definition upd_log :: "nat \<Rightarrow> (logentity \<Rightarrow> logentity) \<Rightarrow> log_state \<Rightarrow> log_state" where
  "upd_log i f s = s\<lparr>logentities := (logentities s)(i := f (logentities s i))\<rparr>"

subsection \<open>Files\<close>

definition openfile :: "log_env \<Rightarrow> string \<Rightarrow> log_state \<Rightarrow> int \<times> log_state" where
  "openfile env fn s =
     (let fd = lv_open env fn in
      (fd, if fd < 0 then s else s\<lparr>lg_files := (lg_files s)(fn := Some (case lg_files s fn of None \<Rightarrow> [] | Some d \<Rightarrow> d))\<rparr>))"

definition delay_close :: "log_env \<Rightarrow> nat \<Rightarrow> int \<Rightarrow> int \<Rightarrow> log_state \<Rightarrow> log_state" where
  "delay_close env num fd timeout s =
     (let i = le_fdinfo (logentities s num); s1 = (if fd_iclose i then s\<lparr>lg_closed := lg_closed s @ [fd_fd i]\<rparr> else s) in
      upd_log num (\<lambda>e. e\<lparr>le_fdinfo := \<lparr>fd_timeout = lv_now env + timeout, fd_fd = fd, fd_iclose = True\<rparr>\<rparr>) s1)"

text \<open>The name of a numbered file, in an array of 128 characters.\<close>

definition old_name :: "string \<Rightarrow> int \<Rightarrow> string option" where
  "old_name fn n = (let t = fn @ ''.'' @ dec_int n in if length t < 128 then Some t else None)"

definition shiftfile :: "log_env \<Rightarrow> nat \<Rightarrow> log_state \<Rightarrow> (int \<times> log_state) option" where
  "shiftfile env num s =
     (let le = logentities s num in
      case old_name (le_fn le) (le_nextlogno le) of
        None \<Rightarrow> None
      | Some tmp \<Rightarrow>
          let files = (lg_files s)(tmp := None);
              files1 = (case files (le_fn le) of None \<Rightarrow> files | Some d \<Rightarrow> files(le_fn le := None, tmp := Some d));
              n = (le_nextlogno le + 1) mod le_maxlognum le;
              s1 = upd_log num (\<lambda>e. e\<lparr>le_nextlogno := (if n = 0 then 1 else n)\<rparr>) (s\<lparr>lg_files := files1\<rparr>) in
          Some (openfile env (le_fn le) s1))"

text \<open>
  The search for the first free number, or the oldest file: \<open>minno\<close> and \<open>minmtime\<close> are what the loop keeps, \<open>k\<close> is the number
  of candidates that are left.
\<close>

fun nextlogno_loop :: "log_env \<Rightarrow> string \<Rightarrow> log_state \<Rightarrow> nat \<Rightarrow> int \<Rightarrow> int \<Rightarrow> int \<Rightarrow> int option" where
  "nextlogno_loop env fn s 0 i minmtime minno = Some minno"
| "nextlogno_loop env fn s (Suc k) i minmtime minno =
     (case old_name fn i of
        None \<Rightarrow> None
      | Some tmp \<Rightarrow>
          if lg_files s tmp = None then Some i
          else if lv_mtime env tmp \<le> minmtime then nextlogno_loop env fn s k (i + 1) (lv_mtime env tmp) i
          else nextlogno_loop env fn s k (i + 1) minmtime minno)"

definition initnextlogno :: "log_env \<Rightarrow> logentity \<Rightarrow> log_state \<Rightarrow> int option" where
  "initnextlogno env le s = nextlogno_loop env (le_fn le) s (nat (le_maxlognum le - 1)) 1 (lv_now env) 1"

subsection \<open>Registration\<close>

definition registerlog_internal :: "log_env \<Rightarrow> logentity \<Rightarrow> log_state \<Rightarrow> (int \<times> log_state) option" where
  "registerlog_internal env le s =
     (if lv_lock env \<noteq> 0 then Some (-1, s)
      else if curlogid s < MAX_LOG - 1 then
        case openfile env (le_fn le) s of (fd, s1) \<Rightarrow>
          let le1 = le\<lparr>le_fd := fd, le_maxlognum := (if le_maxlognum le < 2 then DEFAULT_MAX_LOG_NUM else le_maxlognum le)\<rparr> in
          (case initnextlogno env le1 s1 of
             None \<Rightarrow> None
           | Some n \<Rightarrow>
               let le2 = le1\<lparr>le_nextlogno := n\<rparr>;
                   le3 = le2\<lparr>le_rotatetime := (if le_rotateintval le > 0 then word_of_int (lv_now env + le_rotateintval le) else 0)\<rparr> in
               if fd \<ge> 0 then Some (fd, upd_log (curlogid s1) (\<lambda>_. le3) (s1\<lparr>curlogid := curlogid s1 + 1\<rparr>))
               else Some (-1, upd_log (curlogid s1) (\<lambda>_. le2) s1))
      else Some (-1, s))"

text \<open>The name is copied to an array of 256 characters; the size is given in megabytes.\<close>

definition registerlog :: "log_env \<Rightarrow> string \<Rightarrow> nat \<Rightarrow> int \<Rightarrow> int \<Rightarrow> int \<Rightarrow> log_state \<Rightarrow> (int \<times> log_state) option" where
  "registerlog env filename level rotatesize rotateintval filenum s =
     (if length filename \<ge> 256 then None
      else case registerlog_internal env
          \<lparr>le_fd = 0, le_loglevel = level, le_rotatesize = sint (word_of_int (rotatesize * 2 ^ 20) :: uint32), le_rotatetime = 0,
           le_rotateintval = rotateintval, le_maxlognum = filenum, le_nextlogno = 0, le_fn = filename,
           le_fdinfo = \<lparr>fd_timeout = 0, fd_fd = 0, fd_iclose = False\<rparr>\<rparr> s of
        None \<Rightarrow> None
      | Some (ret, s1) \<Rightarrow> Some (if ret < 0 then ret else int (curlogid s1) - 1, s1))"

definition getloglevel :: "string \<Rightarrow> nat" where
  "getloglevel l =
     (if strcasecmp_eq l ''trace'' then 0 else if strcasecmp_eq l ''debug'' then 1 else if strcasecmp_eq l ''normal'' then 2
      else if strcasecmp_eq l ''error'' then 3 else if strcasecmp_eq l ''fault'' then 4 else 5)"

definition logclose :: "nat \<Rightarrow> log_state \<Rightarrow> log_state" where
  "logclose fd s = s\<lparr>lg_closed := lg_closed s @ [le_fd (logentities s fd)]\<rparr>"

subsection \<open>Lines\<close>

definition ESC :: char where "ESC = CHR 0x1B"

definition log_head :: "log_env \<Rightarrow> nat \<Rightarrow> string" where
  "log_head env level =
     (let t = lv_localtime env (lv_now env) in
      ESC # ''['' @ logcolors ! level @ ESC # ''[1m['' @ logstring ! level @ '']:['' @ pad0 4 (nat (tm_year t + 1900)) @ ''-''
      @ pad0 2 (nat (tm_mon t + 1)) @ ''-'' @ pad0 2 (nat (tm_mday t)) @ '' '' @ pad0 2 (nat (tm_hour t)) @ '':'' @ pad0 2 (nat (tm_min t))
      @ '':'' @ pad0 2 (nat (tm_sec t)) @ '']'')"

text \<open>
  \<open>msg\<close> is the formatted message.  The sequence that ends the colour is put behind the text, where there has to be room for it, but
  only the text is written.
\<close>

definition LOG :: "log_env \<Rightarrow> nat \<Rightarrow> nat \<Rightarrow> string \<Rightarrow> log_state \<Rightarrow> log_state option" where
  "LOG env fd level msg s =
     (if le_loglevel (logentities s fd) > level then Some s
      else let t = log_head env level @ msg in
           if length t + 5 > MAX_LOG_LEN then None else Some (s\<lparr>lg_out := lg_out s @ [(le_fd (logentities s fd), bytes_of t)]\<rparr>))"

subsection \<open>Maintenance\<close>

definition scan_log :: "log_env \<Rightarrow> nat \<Rightarrow> log_state \<Rightarrow> log_state option" where
  "scan_log env i s =
     (let le = logentities s i; now = (word_of_int (lv_now env) :: uint32) in
      case (if le_rotatetime le > 0 \<and> le_rotatetime le < now then
              map_option (\<lambda>(nfd, s1). if nfd \<ge> 0 then (Some nfd, upd_log i (\<lambda>e. e\<lparr>le_rotatetime := word_of_int (lv_now env + le_rotateintval le)\<rparr>) s1)
                                      else (None, s1)) (shiftfile env i s)
            else Some (None, s)) of
        None \<Rightarrow> None
      | Some (r, s1) \<Rightarrow>
          (case (if r = None \<and> le_rotatesize le > 0 \<and> (\<exists>n. lv_size env (le_fd le) = Some n \<and> le_rotatesize le < n) then
                   map_option (\<lambda>(nfd, s2). (if nfd \<ge> 0 then Some nfd else None, s2)) (shiftfile env i s1)
                 else Some (r, s1)) of
             None \<Rightarrow> None
           | Some (None, s2) \<Rightarrow> Some s2
           | Some (Some nfd, s2) \<Rightarrow> Some (delay_close env i (le_fd le) 5 (upd_log i (\<lambda>e. e\<lparr>le_fd := nfd\<rparr>) s2))))"

fun scan_all :: "log_env \<Rightarrow> nat list \<Rightarrow> log_state \<Rightarrow> log_state option" where
  "scan_all env [] s = Some s"
| "scan_all env (i # is) s = (case scan_log env i s of None \<Rightarrow> None | Some s1 \<Rightarrow> scan_all env is s1)"

definition scanlogs :: "log_env \<Rightarrow> log_state \<Rightarrow> log_state option" where
  "scanlogs env s = scan_all env [0..<curlogid s] s"

definition close_due :: "log_env \<Rightarrow> nat \<Rightarrow> log_state \<Rightarrow> log_state" where
  "close_due env i s =
     (let f = le_fdinfo (logentities s i) in
      if fd_iclose f \<and> lv_now env \<ge> fd_timeout f then
        upd_log i (\<lambda>e. e\<lparr>le_fdinfo := f\<lparr>fd_iclose := False\<rparr>\<rparr>) (s\<lparr>lg_closed := lg_closed s @ [fd_fd f]\<rparr>)
      else s)"

text \<open>One round of the loop.\<close>

definition maintain_log :: "log_env \<Rightarrow> log_state \<Rightarrow> log_state option" where
  "maintain_log env s = scanlogs env (fold (close_due env) [0..<curlogid s] s)"

definition zero_log :: logentity where
  "zero_log = \<lparr>le_fd = 0, le_loglevel = 0, le_rotatesize = 0, le_rotatetime = 0, le_rotateintval = 0, le_maxlognum = 0,
     le_nextlogno = 0, le_fn = [], le_fdinfo = \<lparr>fd_timeout = 0, fd_fd = 0, fd_iclose = False\<rparr>\<rparr>"

definition init_log :: "log_state \<Rightarrow> log_state" where
  "init_log s = s\<lparr>logentities := (\<lambda>_. zero_log), curlogid := 0\<rparr>"

subsection \<open>The numbers of old files\<close>

definition log_ok :: "log_state \<Rightarrow> bool" where
  "log_ok s \<longleftrightarrow> (\<forall>i < curlogid s. let e = logentities s i in 2 \<le> le_maxlognum e \<and> 1 \<le> le_nextlogno e \<and> le_nextlogno e < le_maxlognum e)"

lemma nextlogno_range:
  "nextlogno_loop env fn s k i m n = Some r \<Longrightarrow> 1 \<le> n \<Longrightarrow> n < i + int k \<Longrightarrow> 1 \<le> i \<Longrightarrow> 1 \<le> r \<and> r < i + int k"
proof (induction k arbitrary: i m n)
  case (Suc k)
  obtain tmp where tmp: "old_name fn i = Some tmp" using Suc.prems(1) by (auto split: option.splits)
  show ?case
    using Suc.prems Suc.IH [of "i + 1" "lv_mtime env tmp" i] Suc.IH [of "i + 1" m n] by (auto simp: tmp split: if_splits)
qed auto

lemma log_ok_upd: "log_ok s \<Longrightarrow> (let e = f (logentities s i) in 2 \<le> le_maxlognum e \<and> 1 \<le> le_nextlogno e \<and> le_nextlogno e < le_maxlognum e) \<Longrightarrow> log_ok (upd_log i f s)"
  by (auto simp: log_ok_def upd_log_def Let_def)

lemma openfile_log: "openfile env fn s = (fd, s') \<Longrightarrow> logentities s' = logentities s \<and> curlogid s' = curlogid s"
  by (auto simp: openfile_def Let_def split: if_splits)

lemma shiftfile_log:
  assumes "shiftfile env i s = Some (nfd, s')" and "log_ok s" and "i < curlogid s"
  shows "log_ok s'" "curlogid s' = curlogid s"
proof -
  let ?e = "logentities s i"
  define n where "n = (le_nextlogno ?e + 1) mod le_maxlognum ?e"
  have m: "2 \<le> le_maxlognum ?e" "1 \<le> le_nextlogno ?e" using assms(2,3) by (auto simp: log_ok_def Let_def)
  have r: "0 \<le> n" "n < le_maxlognum ?e" using m by (auto simp: n_def)
  obtain tmp s1 where o: "openfile env (le_fn ?e) (upd_log i (\<lambda>e. e\<lparr>le_nextlogno := (if n = 0 then 1 else n)\<rparr>) (s\<lparr>lg_files := tmp\<rparr>)) = (nfd, s')"
    using assms(1) by (auto simp: shiftfile_def n_def [symmetric] Let_def split: option.splits)
  have "log_ok (s\<lparr>lg_files := tmp\<rparr>)" using assms(2) by (simp add: log_ok_def)
  then have "log_ok (upd_log i (\<lambda>e. e\<lparr>le_nextlogno := (if n = 0 then 1 else n)\<rparr>) (s\<lparr>lg_files := tmp\<rparr>))"
    by (rule log_ok_upd) (use m r in \<open>auto simp: Let_def\<close>)
  then show "log_ok s'" "curlogid s' = curlogid s" using openfile_log [OF o] by (auto simp: log_ok_def upd_log_def)
qed

lemma log_ok_plain:
  assumes "log_ok s" and "\<And>e. le_maxlognum (f e) = le_maxlognum e" and "\<And>e. le_nextlogno (f e) = le_nextlogno e"
  shows "log_ok (upd_log i f s)"
  using assms by (auto simp: log_ok_def upd_log_def Let_def)

lemma scan_log_ok:
  assumes "scan_log env i s = Some s'" and "log_ok s" and "i < curlogid s"
  shows "log_ok s' \<and> curlogid s' = curlogid s"
proof -
  let ?le = "logentities s i"
  let ?c = "le_rotatetime ?le > 0 \<and> le_rotatetime ?le < (word_of_int (lv_now env) :: uint32)"
  obtain r s1 where 1: "(if ?c then
        map_option (\<lambda>(nfd, s1). if nfd \<ge> 0 then (Some nfd, upd_log i (\<lambda>e. e\<lparr>le_rotatetime := word_of_int (lv_now env + le_rotateintval ?le)\<rparr>) s1) else (None, s1)) (shiftfile env i s)
      else Some (None, s)) = Some (r, s1)"
    using assms(1) by (auto simp: scan_log_def Let_def split: option.splits)
  have ok1: "log_ok s1 \<and> curlogid s1 = curlogid s"
    using 1 assms(2,3) shiftfile_log by (auto simp: upd_log_def [of i _ "_ :: log_state", symmetric] split: if_splits intro: log_ok_plain) (auto simp: upd_log_def)
  let ?d = "r = None \<and> le_rotatesize ?le > 0 \<and> (\<exists>n. lv_size env (le_fd ?le) = Some n \<and> le_rotatesize ?le < n)"
  obtain q s2 where 2: "(if ?d then map_option (\<lambda>(nfd, s2). (if nfd \<ge> 0 then Some nfd else None, s2)) (shiftfile env i s1) else Some (r, s1)) = Some (q, s2)"
    using assms(1) 1 by (auto simp: scan_log_def Let_def split: option.splits)
  have ok2: "log_ok s2 \<and> curlogid s2 = curlogid s" using 2 ok1 assms(3) shiftfile_log [of env i s1] by (auto split: if_splits)
  have "s' = s2 \<or> (\<exists>nfd. s' = delay_close env i (le_fd ?le) 5 (upd_log i (\<lambda>e. e\<lparr>le_fd := nfd\<rparr>) s2))"
    using assms(1) 1 2 by (auto simp: scan_log_def Let_def split: option.splits)
  moreover have "log_ok (delay_close env i fd t s) \<and> curlogid (delay_close env i fd t s) = curlogid s" if "log_ok s" for fd t s
  proof -
    have "log_ok (s\<lparr>lg_closed := x\<rparr>)" for x using that by (simp add: log_ok_def)
    then show ?thesis using that by (auto simp: delay_close_def Let_def intro!: log_ok_plain) (simp_all add: upd_log_def)
  qed
  ultimately show ?thesis using ok2 log_ok_plain [of s2] by (auto simp: upd_log_def)
qed

lemma scan_all_ok: "scan_all env is s = Some s' \<Longrightarrow> log_ok s \<Longrightarrow> \<forall>i \<in> set is. i < curlogid s \<Longrightarrow> log_ok s' \<and> curlogid s' = curlogid s"
proof (induction env "is" s rule: scan_all.induct)
  case (2 env i "is" s)
  obtain s1 where s1: "scan_log env i s = Some s1" using "2.prems"(1) by (auto split: option.splits)
  then have "log_ok s1 \<and> curlogid s1 = curlogid s" using scan_log_ok "2.prems" by simp
  then show ?case using "2.IH" [OF s1] "2.prems" s1 by simp
qed simp

lemma close_due_ok: "log_ok s \<Longrightarrow> log_ok (fold (close_due env) is s) \<and> curlogid (fold (close_due env) is s) = curlogid s"
proof (induction "is" arbitrary: s)
  case (Cons i "is")
  have "log_ok (s\<lparr>lg_closed := x\<rparr>)" for x using Cons.prems by (simp add: log_ok_def)
  then have "log_ok (close_due env i s)" using Cons.prems by (auto simp: close_due_def Let_def intro!: log_ok_plain)
  then show ?case using Cons.IH [of "close_due env i s"] by (simp add: close_due_def upd_log_def Let_def)
qed simp

lemma registerlog_ok:
  assumes "registerlog env fn level size' intval n s = Some (r, s')" and "log_ok s"
  shows "log_ok s'"
proof -
  obtain le ret where i: "registerlog_internal env le s = Some (ret, s')"
    using assms(1) by (auto simp: registerlog_def split: if_splits option.splits)
  obtain fd s1 where o: "openfile env (le_fn le) s = (fd, s1)" by fastforce
  have o1: "logentities s1 = logentities s" "curlogid s1 = curlogid s" using openfile_log [OF o] by auto
  define m where "m = (if le_maxlognum le < 2 then DEFAULT_MAX_LOG_NUM else le_maxlognum le)"
  have m: "2 \<le> m" by (simp add: m_def)
  let ?f = "\<lambda>k t. le\<lparr>le_fd := fd, le_maxlognum := m, le_nextlogno := k, le_rotatetime := t\<rparr>"
  have "s' = s \<or> (\<exists>k t. nextlogno_loop env (le_fn le) s1 (nat (m - 1)) 1 (lv_now env) 1 = Some k \<and>
      (s' = upd_log (curlogid s1) (\<lambda>_. ?f k t) (s1\<lparr>curlogid := Suc (curlogid s1)\<rparr>) \<or>
       s' = upd_log (curlogid s1) (\<lambda>_. le\<lparr>le_fd := fd, le_maxlognum := m, le_nextlogno := k\<rparr>) s1))"
    using i o by (fastforce simp: registerlog_internal_def initnextlogno_def m_def [symmetric] Let_def split: if_splits option.splits)
  moreover have "1 \<le> k \<and> k < m" if "nextlogno_loop env (le_fn le) s1 (nat (m - 1)) 1 (lv_now env) 1 = Some k" for k
    using nextlogno_range [OF that] m by simp
  ultimately show ?thesis using assms(2) o1 m by (fastforce simp: log_ok_def upd_log_def Let_def less_Suc_eq)
qed

inductive log_step :: "log_state \<Rightarrow> log_state \<Rightarrow> bool" where
  Register: "registerlog env fn level size' intval n s = Some (r, s') \<Longrightarrow> log_step s s'"
| Line: "LOG env fd level msg s = Some s' \<Longrightarrow> log_step s s'"
| Maintain: "maintain_log env s = Some s' \<Longrightarrow> log_step s s'"
| Close: "log_step s (logclose fd s)"

text \<open>
  C34: the old files of a log have numbers from one up to less than the configured number of files, whatever is
  logged and however often it is rotated; so their number is bounded.
\<close>

theorem log_numbers_bounded:
  assumes "log_step\<^sup>*\<^sup>* (init_log s0) s" and "i < curlogid s"
  shows "1 \<le> le_nextlogno (logentities s i) \<and> le_nextlogno (logentities s i) < le_maxlognum (logentities s i)"
proof -
  have "log_ok s"
    using assms(1)
  proof (induction rule: rtranclp_induct)
    case (step y z)
    from step.hyps(2) step.IH show ?case
    proof cases
      case (Maintain env)
      then show ?thesis using scan_all_ok close_due_ok [OF step.IH] by (fastforce simp: maintain_log_def scanlogs_def)
    next
      case (Line env fd level msg)
      then show ?thesis using step.IH by (auto simp: LOG_def log_ok_def Let_def split: if_splits)
    qed (use registerlog_ok in \<open>auto simp: logclose_def log_ok_def\<close>)
  qed (simp add: log_ok_def init_log_def)
  then show ?thesis using assms(2) by (simp add: log_ok_def Let_def)
qed

definition example_log_env :: log_env where
  "example_log_env = \<lparr>lv_now = 100, lv_open = (\<lambda>_. 4), lv_mtime = (\<lambda>_. 0), lv_size = (\<lambda>_. None), lv_lock = 0,
     lv_localtime = (\<lambda>_. \<lparr>tm_year = 114, tm_mon = 0, tm_mday = 1, tm_hour = 0, tm_min = 0, tm_sec = 0\<rparr>)\<rparr>"

definition example_logs :: log_state where
  "example_logs = \<lparr>logentities = (\<lambda>_. zero_log), curlogid = 0, lg_files = (\<lambda>_. None), lg_out = [], lg_closed = []\<rparr>"

theorem log_numbers_bounded_witness:
  "\<exists>s. registerlog example_log_env ''a.log'' 2 1 3600 3 (init_log example_logs) = Some (0, s) \<and>
     le_nextlogno (logentities s 0) < le_maxlognum (logentities s 0)"
proof -
  have "\<exists>s. registerlog example_log_env ''a.log'' 2 1 3600 3 (init_log example_logs) = Some (0, s) \<and> curlogid s = 1"
    by (simp add: registerlog_def registerlog_internal_def initnextlogno_def old_name_def openfile_def upd_log_def example_log_env_def
        example_logs_def init_log_def dec_int_def dec.simps Let_def numeral_2_eq_2)
  then obtain s where s: "registerlog example_log_env ''a.log'' 2 1 3600 3 (init_log example_logs) = Some (0, s)" "curlogid s = 1" by blast
  have "log_step\<^sup>*\<^sup>* (init_log example_logs) s" using log_step.Register [OF s(1)] by blast
  from log_numbers_bounded [OF this, of 0] s show ?thesis by simp
qed

end
