(* ===== verification/Pfs_Process.thy ===== *)
theory Pfs_Process
  imports Pfs_Config Pfs_Timer
begin

section \<open>Threads and supervision (network/thread.c, watchdog.c, daemon.c)\<close>

text \<open>
  The table of threads of a process, the watchdog process with its table of counters, and the
  flags and the title kept by \<^verbatim>\<open>daemon.c\<close>.  What a system call returns is an argument; a thread's own steps
  (\<^verbatim>\<open>thread_entry\<close>, \<^verbatim>\<open>thread_reached\<close>) are definitions of their own, so that a run is a sequence of steps of
  the threads and of the watchdog.  The counters are shared memory and atomic, hence the steps are too.

  Shown: the watchdog kills exactly the threads that did not report for the configured number of
  checks; the program is executed again only when the server was ended by a signal, in particular never after
  \<^verbatim>\<open>SIGHUP\<close>; every thread that was started is joined when the server stops; the title never leaves its area.
\<close>

subsection \<open>The table of threads\<close>

abbreviation THREAD_UNUSED :: uint8 where "THREAD_UNUSED \<equiv> 0"
abbreviation THREAD_STANDBY :: uint8 where "THREAD_STANDBY \<equiv> 2"
abbreviation THREAD_STARTING :: uint8 where "THREAD_STARTING \<equiv> 3"
abbreviation THREAD_RUNNING :: uint8 where "THREAD_RUNNING \<equiv> 4"
abbreviation THREAD_STOPPING :: uint8 where "THREAD_STOPPING \<equiv> 5"
abbreviation THREAD_EXITED :: uint8 where "THREAD_EXITED \<equiv> 6"

abbreviation ENOMEM :: int where "ENOMEM \<equiv> 12"

record 'e thread =
  th_name :: string
  th_entry :: "'e option"
  th_tid :: int
  th_pid :: int
  th_id :: nat
  th_state :: uint8
  th_rv :: int

text \<open>The entries of \<^verbatim>\<open>threadlist\<close> up to \<^verbatim>\<open>curid\<close>, the first one being \<^verbatim>\<open>mainthread\<close>.\<close>

record 'e threads =
  tt_list :: "'e thread list"
  tt_maxid :: nat
  tt_signalled :: "nat list"
  tt_joined :: "nat list"

definition main_thread :: "int \<Rightarrow> 'e thread" where
  "main_thread pid = \<lparr>th_name = ''main'', th_entry = None, th_tid = 0, th_pid = pid, th_id = 0, th_state = THREAD_RUNNING, th_rv = 0\<rparr>"

definition init_thread :: "bool \<Rightarrow> int \<Rightarrow> 'e threads \<Rightarrow> int \<times> 'e threads" where
  "init_thread malloc_ok pid s =
     (if malloc_ok then (0, s\<lparr>tt_maxid := 16, tt_list := tt_list s @ [main_thread pid]\<rparr>)
      else (- ENOMEM, s\<lparr>tt_maxid := 16\<rparr>))"

definition register_thread :: "bool \<Rightarrow> string \<Rightarrow> 'e \<Rightarrow> 'e threads \<Rightarrow> int \<times> 'e threads" where
  "register_thread malloc_ok name entry s =
     (if length (tt_list s) \<ge> tt_maxid s then (-1, s)
      else if \<not> malloc_ok then (- ENOMEM, s)
      else (0, s\<lparr>tt_list := tt_list s @ [\<lparr>th_name = take 15 name, th_entry = Some entry, th_tid = 0, th_pid = 0,
                   th_id = length (tt_list s), th_state = THREAD_STOPPING, th_rv = -1\<rparr>]\<rparr>))"

definition upd_thread :: "nat \<Rightarrow> ('e thread \<Rightarrow> 'e thread) \<Rightarrow> 'e threads \<Rightarrow> 'e threads" where
  "upd_thread i f s = (if i < length (tt_list s) then s\<lparr>tt_list := (tt_list s)[i := f (tt_list s ! i)]\<rparr> else s)"

text \<open>The two halves of \<^verbatim>\<open>thread_entry\<close>, before and after the thread's own function.\<close>

definition thread_begins :: "int \<Rightarrow> nat \<Rightarrow> 'e threads \<Rightarrow> 'e threads" where
  "thread_begins pid i = upd_thread i (\<lambda>t. t\<lparr>th_pid := pid, th_state := THREAD_RUNNING\<rparr>)"

definition thread_ends :: "int \<Rightarrow> nat \<Rightarrow> 'e threads \<Rightarrow> 'e threads" where
  "thread_ends rv i = upd_thread i (\<lambda>t. t\<lparr>th_rv := rv, th_state := THREAD_EXITED\<rparr>)"

text \<open>\<open>create i\<close> is the thread that \<^verbatim>\<open>pthread_create\<close> makes for entry \<open>i\<close>; without one the process exits.\<close>

fun start_from :: "(nat \<Rightarrow> int option) \<Rightarrow> nat list \<Rightarrow> 'e threads \<Rightarrow> 'e threads option" where
  "start_from create [] s = Some s"
| "start_from create (i # is) s =
     (let s1 = upd_thread i (\<lambda>t. t\<lparr>th_state := THREAD_STARTING\<rparr>) s in
      case create i of
        None \<Rightarrow> None
      | Some tid \<Rightarrow> start_from create is (upd_thread i (\<lambda>t. t\<lparr>th_tid := tid\<rparr>) s1))"

definition start_threads :: "(nat \<Rightarrow> int option) \<Rightarrow> 'e threads \<Rightarrow> 'e threads option" where
  "start_threads create s = start_from create [1..<length (tt_list s)] s"

definition stop_one :: "nat \<Rightarrow> 'e threads \<Rightarrow> 'e threads" where
  "stop_one i s =
     (let s1 = (if th_state (tt_list s ! i) = THREAD_RUNNING then upd_thread i (\<lambda>t. t\<lparr>th_state := THREAD_STOPPING\<rparr>) s else s);
          s2 = (if th_state (tt_list s1 ! i) \<noteq> THREAD_UNUSED \<and> th_state (tt_list s1 ! i) \<noteq> THREAD_STANDBY
                then s1\<lparr>tt_joined := tt_joined s1 @ [i]\<rparr> else s1)
      in upd_thread i (\<lambda>t. t\<lparr>th_state := THREAD_UNUSED\<rparr>) s2)"

definition stop_threads :: "'e threads \<Rightarrow> 'e threads" where
  "stop_threads s =
     (let is = [1..<length (tt_list s)];
          s1 = s\<lparr>tt_signalled := tt_signalled s @ filter (\<lambda>i. th_state (tt_list s ! i) = THREAD_RUNNING) is\<rparr>;
          s2 = fold stop_one is s1
      in s2\<lparr>tt_list := take 1 (tt_list s2)\<rparr>)"

subsection \<open>The watchdog\<close>

record threadstat =
  ts_tid :: int
  ts_tickcnt :: uint32
  ts_badcnt :: int

record threadmap =
  tm_mthreads :: nat
  tm_nthreads :: nat
  tm_list :: "nat \<Rightarrow> threadstat"
  tm_deadlock :: int
  tm_killed :: "int list"

definition init_threadmap :: "cfg_state \<Rightarrow> threadmap \<Rightarrow> threadmap \<times> cfg_state" where
  "init_threadmap cfg m =
     (case myconfig_get_intval ''deadlock_timeout'' 60 cfg of (d, cfg1) \<Rightarrow>
        (m\<lparr>tm_mthreads := (16384 - 8) div 12, tm_nthreads := 0, tm_list := (\<lambda>_. \<lparr>ts_tid = 0, ts_tickcnt = 0, ts_badcnt = 0\<rparr>),
           tm_deadlock := (if d < 10 then 10 else d)\<rparr>, cfg1))"

text \<open>\<open>id\<close> is the thread's number and \<open>tid\<close> what the system call gives; the result is the index of the thread's entry.\<close>

definition get_threadstat :: "nat \<Rightarrow> int \<Rightarrow> threadmap \<Rightarrow> nat option \<times> threadmap" where
  "get_threadstat i tid m =
     (if i \<ge> tm_mthreads m then (None, m)
      else (Some i, m\<lparr>tm_nthreads := (if i \<ge> tm_nthreads m then i + 1 else tm_nthreads m),
                      tm_list := (tm_list m)(i := \<lparr>ts_tid = tid, ts_tickcnt = 1, ts_badcnt = 0\<rparr>)\<rparr>))"

definition thread_reached :: "nat option \<Rightarrow> threadmap \<Rightarrow> threadmap" where
  "thread_reached ts m =
     (case ts of None \<Rightarrow> m
      | Some i \<Rightarrow> m\<lparr>tm_list := (tm_list m)(i := (tm_list m i)\<lparr>ts_tickcnt := ts_tickcnt (tm_list m i) + 1\<rparr>)\<rparr>)"

definition check_thread :: "nat \<Rightarrow> threadmap \<Rightarrow> threadmap" where
  "check_thread i m =
     (let t = tm_list m i; cnt = ts_tickcnt t in
      if ts_tid t = 0 then m
      else
        let t1 = t\<lparr>ts_tickcnt := ts_tickcnt t - cnt\<rparr> in
        if cnt \<noteq> 0 then m\<lparr>tm_list := (tm_list m)(i := t1\<lparr>ts_badcnt := 0\<rparr>)\<rparr>
        else if ts_badcnt t1 \<ge> tm_deadlock m then
          m\<lparr>tm_list := (tm_list m)(i := t1\<lparr>ts_badcnt := ts_badcnt t1 + 1\<rparr>), tm_killed := tm_killed m @ [ts_tid t, ts_tid t]\<rparr>
        else m\<lparr>tm_list := (tm_list m)(i := t1\<lparr>ts_badcnt := ts_badcnt t1 + 1\<rparr>)\<rparr>)"

definition check_threadmap :: "threadmap \<Rightarrow> threadmap" where
  "check_threadmap m = fold check_thread [0..<tm_nthreads m] m"

text \<open>The handler of the alarm runs a check; the alarm it sets again is the next event of a run.\<close>

datatype wd_event = Reached nat | Alarm

fun wd_step :: "wd_event \<Rightarrow> threadmap \<Rightarrow> threadmap" where
  "wd_step (Reached i) m = thread_reached (Some i) m"
| "wd_step Alarm m = check_threadmap m"

subsection \<open>Restarting the program\<close>

record daemon_state =
  dn_stop :: bool
  dn_restart :: bool
  dn_progname :: "string option"
  dn_argv :: "string list option"

definition sigterm_handler :: "daemon_state \<Rightarrow> daemon_state" where
  "sigterm_handler s = s\<lparr>dn_restart := False, dn_stop := True\<rparr>"

definition sighup_handler :: "daemon_state \<Rightarrow> daemon_state" where
  "sighup_handler s = s\<lparr>dn_restart := True, dn_stop := True\<rparr>"

definition get_progname :: "string option \<Rightarrow> daemon_state \<Rightarrow> daemon_state" where
  "get_progname link s =
     (if dn_progname s \<noteq> None then s
      else case link of
        None \<Rightarrow> s
      | Some p \<Rightarrow>
          let n = length p in
          s\<lparr>dn_progname := Some (if n \<ge> 10 \<and> drop (n - 10) p = '' (deleted)'' then take (n - 10) p else p)\<rparr>)"

definition dup_argv :: "string option \<Rightarrow> bool \<Rightarrow> string list \<Rightarrow> daemon_state \<Rightarrow> daemon_state" where
  "dup_argv link malloc_ok argv s = (get_progname link s)\<lparr>dn_argv := (if malloc_ok then Some argv else None)\<rparr>"

text \<open>The result tells whether another program was executed; \<open>ex\<close> whether \<^verbatim>\<open>execv\<close> succeeds.\<close>

definition daemon_stop :: "bool \<Rightarrow> daemon_state \<Rightarrow> bool \<times> daemon_state" where
  "daemon_stop ex s =
     (if dn_restart s \<and> dn_progname s \<noteq> None \<and> dn_argv s \<noteq> None \<and> ex then (True, s)
      else (False, s\<lparr>dn_progname := None, dn_argv := None\<rparr>))"

definition wifexited :: "nat \<Rightarrow> bool" where
  "wifexited status \<longleftrightarrow> status mod 128 = 0"

text \<open>
  A return of \<^verbatim>\<open>wait\<close>: the process, whether \<^verbatim>\<open>errno\<close> is \<^verbatim>\<open>ECHILD\<close>, the status of the process (when there is one), and the
  signals that were handled by then.
\<close>

datatype wd_signal = Term | Hup

record wait_ret =
  wr_pid :: int
  wr_echild :: bool
  wr_status :: nat
  wr_signals :: "wd_signal list"

fun handle :: "wd_signal \<Rightarrow> daemon_state \<Rightarrow> daemon_state" where
  "handle Term s = sigterm_handler s"
| "handle Hup s = sighup_handler s"

text \<open>The loop of \<^verbatim>\<open>start_watchdog\<close>: the last status, the number of \<^verbatim>\<open>SIGTERM\<close> that were sent, and the flags.\<close>

fun wait_loop :: "int \<Rightarrow> nat \<Rightarrow> nat \<Rightarrow> wait_ret list \<Rightarrow> daemon_state \<Rightarrow> (nat \<times> nat \<times> daemon_state) option" where
  "wait_loop pid status k [] s = None"
| "wait_loop pid status k (r # rs) s =
     (let s1 = fold handle (wr_signals r) s;
          status1 = (if wr_pid r = -1 then status else wr_status r)
      in if wr_pid r = pid \<or> (wr_pid r = -1 \<and> wr_echild r) then Some (status1, k, s1)
         else wait_loop pid status1 (if dn_stop s1 then k + 1 else k) rs s1)"

datatype wd_result = Server | Failed | Executed_again nat | Watchdog_ends nat

text \<open>\<open>aligned\<close> says whether the table of counters fills pages; \<open>fork\<close> is the result of \<^verbatim>\<open>fork\<close>.\<close>

definition start_watchdog ::
  "bool \<Rightarrow> int \<Rightarrow> wait_ret list \<Rightarrow> bool \<Rightarrow> cfg_state \<Rightarrow> threadmap \<Rightarrow> daemon_state \<Rightarrow> (wd_result \<times> threadmap \<times> cfg_state \<times> daemon_state) option" where
  "start_watchdog aligned fork rs ex cfg m s =
     (if \<not> aligned then Some (Server, m, cfg, s)
      else
        case init_threadmap cfg m of (m1, cfg1) \<Rightarrow>
        case myconfig_get_intval ''disable_watchdog'' 0 cfg1 of (off, cfg2) \<Rightarrow>
        if off \<noteq> 0 then Some (Server, m1, cfg2, s)
        else if fork = -1 then Some (Failed, m1, cfg2, s)
        else if fork = 0 then Some (Server, m1, cfg2, s)
        else
          case wait_loop fork 0 0 rs s of
            None \<Rightarrow> None
          | Some (status, k, s1) \<Rightarrow>
              (case daemon_stop ex (if wifexited status then s1\<lparr>dn_restart := False\<rparr> else s1) of
                 (again, s2) \<Rightarrow> Some (if again then Executed_again k else Watchdog_ends k, m1, cfg2, s2)))"

subsection \<open>The title of the process\<close>

text \<open>
  The area holds the arguments of the program, \<open>len\<close> bytes; the strings of the environment that lie behind
  it without a gap, each with its terminator, are \<open>env\<close>.  \<open>contiguous\<close> says that \<^verbatim>\<open>env_start\<close> is not null and equals \<^verbatim>\<open>arg_end\<close>.
\<close>

record title_area =
  ta_len :: nat
  ta_env :: "string list"
  ta_contiguous :: bool
  ta_env_start :: bool
  ta_mem :: "char list"

definition env_len :: "string list \<Rightarrow> nat" where
  "env_len env = sum_list (map (\<lambda>e. length e + 1) env)"

definition daemon_set_title :: "string \<Rightarrow> title_area \<Rightarrow> title_area" where
  "daemon_set_title title a =
     (let tlen = length title + 1;
          a1 = (if ta_len a < tlen \<and> ta_contiguous a
                then a\<lparr>ta_len := ta_len a + env_len (ta_env a), ta_env_start := False, ta_contiguous := False\<rparr> else a);
          i = ta_len a1;
          text0 = (if tlen \<le> i then title @ replicate (i - length title) NUL else take (i - 1) title @ [NUL]);
          mem1 = text0 @ drop i (ta_mem a);
          mem2 = (if ta_env_start a1 then (case strchr (CHR '' '') (cstr mem1) of None \<Rightarrow> mem1 | Some (pre, _) \<Rightarrow> mem1[length pre := NUL]) else mem1)
      in a1\<lparr>ta_mem := mem2\<rparr>)"

text \<open>
  \<^verbatim>\<open>thread_jumbo_title\<close> writes to 128 bytes without a bound and goes on from a null pointer when the value has no
  slash; both are undefined.
\<close>

definition thread_jumbo_title :: "cfg_state \<Rightarrow> 'e threads \<Rightarrow> title_area \<Rightarrow> title_area option" where
  "thread_jumbo_title cfg s a =
     (let svc = (case myconfig_get_value ''solib_file'' cfg of
                   None \<Rightarrow> Some ''static'' | Some v \<Rightarrow> map_option snd (strrchr (CHR ''/'') v));
          second = (if length (tt_list s) > 1 then CHR '','' # th_name (tt_list s ! 1) else [])
      in case svc of
           None \<Rightarrow> None
         | Some v \<Rightarrow>
             let title = ''pfs_master:'' @ v @ second in
             if length title < 128 then Some (daemon_set_title title a) else None)"

subsection \<open>What a check does\<close>

text \<open>The effect of a check on one entry, and whether it kills the thread.\<close>

definition checked :: "int \<Rightarrow> threadstat \<Rightarrow> threadstat" where
  "checked d t = (if ts_tid t = 0 then t
     else if ts_tickcnt t \<noteq> 0 then t\<lparr>ts_tickcnt := 0, ts_badcnt := 0\<rparr> else t\<lparr>ts_badcnt := ts_badcnt t + 1\<rparr>)"

definition kills :: "int \<Rightarrow> threadstat \<Rightarrow> bool" where
  "kills d t \<longleftrightarrow> ts_tid t \<noteq> 0 \<and> ts_tickcnt t = 0 \<and> ts_badcnt t \<ge> d"

lemma checked_tid [simp]: "ts_tid (checked d t) = ts_tid t"
  by (simp add: checked_def)

lemma check_thread_eq:
  "check_thread i m = m\<lparr>tm_list := (tm_list m)(i := checked (tm_deadlock m) (tm_list m i)),
     tm_killed := tm_killed m @ (if kills (tm_deadlock m) (tm_list m i) then [ts_tid (tm_list m i), ts_tid (tm_list m i)] else [])\<rparr>"
  by (cases m) (auto simp: check_thread_def checked_def kills_def Let_def)

lemma fold_check_thread:
  assumes "distinct is"
  shows "tm_list (fold check_thread is m) = (\<lambda>i. if i \<in> set is then checked (tm_deadlock m) (tm_list m i) else tm_list m i) \<and>
    tm_killed (fold check_thread is m) = tm_killed m @ concat (map (\<lambda>i. replicate 2 (ts_tid (tm_list m i))) (filter (\<lambda>i. kills (tm_deadlock m) (tm_list m i)) is)) \<and>
    tm_deadlock (fold check_thread is m) = tm_deadlock m \<and> tm_nthreads (fold check_thread is m) = tm_nthreads m"
  using assms
proof (induction "is" arbitrary: m)
  case (Cons i js)
  let ?m = "check_thread i m"
  have l: "tm_list ?m = (tm_list m)(i := checked (tm_deadlock m) (tm_list m i))" "tm_deadlock ?m = tm_deadlock m" "tm_nthreads ?m = tm_nthreads m"
    "tm_killed ?m = tm_killed m @ (if kills (tm_deadlock m) (tm_list m i) then replicate 2 (ts_tid (tm_list m i)) else [])"
    by (simp_all add: check_thread_eq numeral_2_eq_2)
  have f: "filter (\<lambda>j. kills (tm_deadlock m) (tm_list ?m j)) js = filter (\<lambda>j. kills (tm_deadlock m) (tm_list m j)) js"
    using Cons.prems by (auto simp: l(1) intro!: filter_cong)
  have g: "ts_tid (tm_list ?m j) = ts_tid (tm_list m j)" for j by (simp add: l(1))
  have c: "checked (tm_deadlock m) (tm_list ?m j) = checked (tm_deadlock m) (tm_list m j)" if "j \<in> set js" for j using Cons.prems that by (auto simp: l(1))
  have "i \<notin> set js" "distinct js" using Cons.prems by simp_all
  then show ?case using Cons.IH [of ?m] l(2-) f g c by (auto simp: fun_eq_iff l(1))
qed simp

subsection \<open>How long a thread has been silent\<close>

text \<open>The number of checks since the thread last reported.\<close>

fun silent_step :: "nat \<Rightarrow> wd_event \<Rightarrow> nat \<Rightarrow> nat" where
  "silent_step i (Reached j) k = (if j = i then 0 else k)"
| "silent_step i Alarm k = k + 1"

definition silent :: "nat \<Rightarrow> wd_event list \<Rightarrow> nat" where
  "silent i es = fold (silent_step i) es 0"

text \<open>The table after every thread has called \<^verbatim>\<open>get_threadstat\<close>.\<close>

definition watched :: "threadmap \<Rightarrow> bool" where
  "watched m \<longleftrightarrow> (\<forall>i < tm_nthreads m. ts_tid (tm_list m i) \<noteq> 0 \<and> ts_tickcnt (tm_list m i) = 1 \<and> ts_badcnt (tm_list m i) = 0)"

definition tracks :: "threadstat \<Rightarrow> nat \<Rightarrow> nat \<Rightarrow> bool" where
  "tracks t k n \<longleftrightarrow> (if k = 0 then 0 < unat (ts_tickcnt t) \<and> unat (ts_tickcnt t) \<le> 1 + n else ts_tickcnt t = 0 \<and> ts_badcnt t = int k - 1)"

lemma tracks_reached:
  assumes "tracks t k n" and "n + 2 < 2 ^ 32"
  shows "tracks (t\<lparr>ts_tickcnt := ts_tickcnt t + 1\<rparr>) 0 (n + 1)"
proof -
  have u: "unat (ts_tickcnt t) \<le> 1 + n" using assms(1) by (auto simp: tracks_def split: if_splits)
  have "unat (ts_tickcnt t + 1) = unat (ts_tickcnt t) + 1" using u assms(2) by (subst unat_plus_simple [THEN iffD1]) (auto simp: word_le_nat_alt unat_word_ariths)
  then show ?thesis using u by (simp add: tracks_def)
qed

lemma tracks_checked:
  assumes "tracks t k n" and "ts_tid t \<noteq> 0"
  shows "tracks (checked d t) (k + 1) (n + 1)"
  using assms by (auto simp: tracks_def checked_def split: if_splits)

lemma wd_run_tracks:
  assumes "watched m" and "length es + 2 < 2 ^ 32"
  shows "tm_nthreads (fold wd_step es m) = tm_nthreads m \<and> tm_deadlock (fold wd_step es m) = tm_deadlock m \<and>
    (\<forall>i < tm_nthreads m. ts_tid (tm_list (fold wd_step es m) i) = ts_tid (tm_list m i) \<and> tracks (tm_list (fold wd_step es m) i) (silent i es) (length es))"
  using assms(2)
proof (induction es rule: rev_induct)
  case Nil
  then show ?case using assms(1) by (simp add: watched_def tracks_def silent_def)
next
  case (snoc e es)
  let ?m = "fold wd_step es m"
  have ih: "tm_nthreads ?m = tm_nthreads m" "tm_deadlock ?m = tm_deadlock m"
    "\<And>i. i < tm_nthreads m \<Longrightarrow> ts_tid (tm_list ?m i) = ts_tid (tm_list m i) \<and> tracks (tm_list ?m i) (silent i es) (length es)"
    using snoc by auto
  show ?case
  proof (cases e)
    case (Reached j)
    have "tracks (tm_list ?m i) (silent i es) (length es + 1)" if "i < tm_nthreads m" for i
      using ih(3) [OF that] by (auto simp: tracks_def split: if_splits)
    then show ?thesis using ih Reached snoc.prems tracks_reached [of "tm_list ?m j" "silent j es" "length es"]
      by (auto simp: thread_reached_def silent_def)
  next
    case Alarm
    have "tracks (checked (tm_deadlock m) (tm_list ?m i)) (silent i es + 1) (length es + 1)" if "i < tm_nthreads m" for i
      using tracks_checked ih(3) [OF that] assms(1) that by (auto simp: watched_def)
    then show ?thesis using ih Alarm fold_check_thread [of "[0..<tm_nthreads m]" ?m]
      by (simp add: check_threadmap_def silent_def)
  qed
qed

text \<open>
  C22: the watchdog kills exactly the threads that hang.  Through any sequence of reports and checks, a check kills those
  threads, and only those, that have been silent for more checks than \<^verbatim>\<open>deadlock_timeout\<close>; each
  is killed twice, in the order of their numbers.  A thread that reports between any two checks is thus never
  killed, and one that has stopped reporting is killed when its time is over.
\<close>

theorem watchdog_kills_hanging:
  assumes "watched m" and "length es + 2 < 2 ^ 32" and "0 \<le> tm_deadlock m"
  shows "tm_killed (wd_step Alarm (fold wd_step es m)) = tm_killed (fold wd_step es m) @
    concat (map (\<lambda>i. replicate 2 (ts_tid (tm_list m i))) (filter (\<lambda>i. int (silent i es) > tm_deadlock m) [0..<tm_nthreads m]))"
proof -
  let ?m = "fold wd_step es m"
  note r = wd_run_tracks [OF assms(1,2)]
  have k: "kills (tm_deadlock m) (tm_list ?m i) \<longleftrightarrow> int (silent i es) > tm_deadlock m" if "i < tm_nthreads m" for i
    using r that assms(1,3) by (auto simp: kills_def watched_def tracks_def split: if_splits)
  have f: "filter (\<lambda>i. kills (tm_deadlock m) (tm_list ?m i)) [0..<tm_nthreads m] = filter (\<lambda>i. int (silent i es) > tm_deadlock m) [0..<tm_nthreads m]"
    using k by (auto intro!: filter_cong)
  have "map (\<lambda>i. replicate 2 (ts_tid (tm_list ?m i))) xs = map (\<lambda>i. replicate 2 (ts_tid (tm_list m i))) xs" if "set xs \<subseteq> {0..<tm_nthreads m}" for xs
    using r that by auto
  note g = this [of "filter (\<lambda>i. int (silent i es) > tm_deadlock m) [0..<tm_nthreads m]"]
  show ?thesis using fold_check_thread [of "[0..<tm_nthreads m]" ?m] r f g by (simp add: check_threadmap_def subset_iff)
qed

definition example_map :: threadmap where
  "example_map = snd (get_threadstat 1 72 (snd (get_threadstat 0 71 (fst (init_threadmap empty_config
     \<lparr>tm_mthreads = 0, tm_nthreads = 0, tm_list = (\<lambda>_. \<lparr>ts_tid = 0, ts_tickcnt = 0, ts_badcnt = 0\<rparr>), tm_deadlock = 1, tm_killed = []\<rparr>)))))"

text \<open>The main thread reports between the checks, the other one hangs: at the sixty-second check it is killed.\<close>

theorem watchdog_kills_hanging_witness:
  "tm_killed (wd_step Alarm (fold wd_step (concat (replicate 61 [Reached 0, Alarm])) example_map)) =
     tm_killed (fold wd_step (concat (replicate 61 [Reached 0, Alarm])) example_map) @ [72, 72]"
proof -
  let ?es = "concat (replicate 61 [Reached 0, Alarm])"
  have e: "tm_nthreads example_map = 2" "tm_deadlock example_map = 60" "tm_list example_map 0 = \<lparr>ts_tid = 71, ts_tickcnt = 1, ts_badcnt = 0\<rparr>"
    "tm_list example_map 1 = \<lparr>ts_tid = 72, ts_tickcnt = 1, ts_badcnt = 0\<rparr>"
    by (simp_all add: example_map_def init_threadmap_def get_threadstat_def myconfig_get_intval_def cfg_find_def empty_config_def)
  have w: "watched example_map" using e by (auto simp: watched_def less_2_cases_iff)
  have "length (concat (replicate n xs)) = n * length xs" for n and xs :: "wd_event list" by (induction n) simp_all
  then have "length ?es + 2 < 2 ^ 32" by simp
  moreover have "silent 0 ?es = 1" "silent 1 ?es = 61" by (simp_all add: silent_def numeral_eq_Suc)
  ultimately show ?thesis using watchdog_kills_hanging [OF w, of ?es] e by (simp add: upt_rec numeral_2_eq_2)
qed

subsection \<open>Restarts\<close>

lemma wait_loop_end:
  assumes "\<forall>x \<in> set rs. wr_pid x \<noteq> pid \<and> \<not> (wr_pid x = -1 \<and> wr_echild x)" and "wr_pid r = pid" and "pid > 0"
  shows "\<exists>k. wait_loop pid status n (rs @ [r]) s = Some (wr_status r, k, fold handle (concat (map wr_signals (rs @ [r]))) s)"
  using assms(1) by (induction rs arbitrary: status n s) (use assms(2,3) in \<open>auto simp: Let_def\<close>)

lemma handle_keeps: "dn_progname (fold handle sg s) = dn_progname s \<and> dn_argv (fold handle sg s) = dn_argv s"
proof (induction sg arbitrary: s)
  case (Cons g sg)
  then show ?case by (cases g) (simp_all add: sigterm_handler_def sighup_handler_def)
qed simp

lemma handle_restart: "dn_restart (fold handle sg s) \<longleftrightarrow> (if sg = [] then dn_restart s else last sg = Hup)"
proof (induction sg rule: rev_induct)
  case (snoc g sg)
  then show ?case by (cases g) (simp_all add: sigterm_handler_def sighup_handler_def)
qed simp

text \<open>
  C23: the program is executed again after a crash, and only then.  When the server ends, the watchdog executes
  the program again if and only if a signal ended the server, the last signal the watchdog itself handled was not
  one that terminates it, and the name and the arguments of the program are known.  A server that ends by itself is
  not started again, even after \<^verbatim>\<open>SIGHUP\<close>, whose handler asks for a restart.
\<close>

theorem restarted_iff_crashed:
  assumes "fst (myconfig_get_intval ''disable_watchdog'' 0 (snd (init_threadmap cfg m))) = 0" and "pid > 0"
    and "\<forall>x \<in> set rs. wr_pid x \<noteq> pid \<and> \<not> (wr_pid x = -1 \<and> wr_echild x)" and "wr_pid r = pid"
    and "sg = concat (map wr_signals (rs @ [r]))"
  shows "\<exists>k m' cfg' s'. start_watchdog True pid (rs @ [r]) True cfg m s = Some
    (if \<not> wifexited (wr_status r) \<and> (if sg = [] then dn_restart s else last sg \<noteq> Term) \<and> dn_progname s \<noteq> None \<and> dn_argv s \<noteq> None
     then Executed_again k else Watchdog_ends k, m', cfg', s')"
proof -
  obtain k where w: "wait_loop pid 0 0 (rs @ [r]) s = Some (wr_status r, k, fold handle sg s)"
    using wait_loop_end [OF assms(3,4,2)] assms(5) by blast
  obtain m1 c1 where i: "init_threadmap cfg m = (m1, c1)" by force
  obtain c2 where d: "myconfig_get_intval ''disable_watchdog'' 0 c1 = (0, c2)" using assms(1) i by (cases "myconfig_get_intval ''disable_watchdog'' 0 c1") simp
  have h: "last sg = Hup \<longleftrightarrow> last sg \<noteq> Term" by (cases "last sg") simp_all
  show ?thesis using i d w assms(2) handle_keeps [of sg s] handle_restart [of sg s] h
    by (auto simp: start_watchdog_def daemon_stop_def split: if_splits)
qed

theorem restarted_iff_crashed_witness:
  "\<exists>k x. start_watchdog True 100 [\<lparr>wr_pid = -1, wr_echild = False, wr_status = 0, wr_signals = [Hup]\<rparr>, \<lparr>wr_pid = 100, wr_echild = False, wr_status = 0, wr_signals = []\<rparr>]
     True empty_config example_map \<lparr>dn_stop = False, dn_restart = True, dn_progname = Some ''/p'', dn_argv = Some [''p'']\<rparr> = Some (Watchdog_ends k, x)"
proof -
  let ?r1 = "\<lparr>wr_pid = -1, wr_echild = False, wr_status = 0, wr_signals = [Hup]\<rparr>"
  let ?r2 = "\<lparr>wr_pid = 100, wr_echild = False, wr_status = 0, wr_signals = []\<rparr>"
  have "fst (myconfig_get_intval ''disable_watchdog'' 0 (snd (init_threadmap empty_config example_map))) = 0"
    by (simp add: init_threadmap_def myconfig_get_intval_def cfg_find_def empty_config_def)
  from restarted_iff_crashed [OF this, of 100 "[?r1]" ?r2 "[Hup]"] show ?thesis by (simp add: wifexited_def)
qed

subsection \<open>Starting and stopping threads\<close>

text \<open>The steps of the threads while the server runs: a started one begins, a running one ends.\<close>

inductive thread_step :: "'e threads \<Rightarrow> 'e threads \<Rightarrow> bool" where
  begins: "0 < i \<Longrightarrow> i < length (tt_list s) \<Longrightarrow> th_state (tt_list s ! i) = THREAD_STARTING \<Longrightarrow> thread_step s (thread_begins pid i s)"
| ends: "0 < i \<Longrightarrow> i < length (tt_list s) \<Longrightarrow> th_state (tt_list s ! i) = THREAD_RUNNING \<Longrightarrow> thread_step s (thread_ends rv i s)"

definition started :: "nat \<Rightarrow> nat list \<Rightarrow> 'e threads \<Rightarrow> bool" where
  "started n js s \<longleftrightarrow> length (tt_list s) = n \<and> tt_joined s = js \<and>
     (\<forall>i. 0 < i \<and> i < n \<longrightarrow> th_state (tt_list s ! i) \<in> {THREAD_STARTING, THREAD_RUNNING, THREAD_EXITED})"

lemma started_step: "thread_step s s' \<Longrightarrow> started n js s \<Longrightarrow> started n js s'"
  by (induction rule: thread_step.induct) (auto simp: started_def thread_begins_def thread_ends_def upd_thread_def nth_list_update)

lemma started_steps: "thread_step\<^sup>*\<^sup>* s s' \<Longrightarrow> started n js s \<Longrightarrow> started n js s'"
  by (induction rule: rtranclp_induct) (auto dest: started_step)

lemma start_from_started:
  assumes "start_from create is s = Some s'" and "set is \<subseteq> {0<..<length (tt_list s)}"
  shows "length (tt_list s') = length (tt_list s) \<and> tt_joined s' = tt_joined s \<and>
    (\<forall>i < length (tt_list s). th_state (tt_list s' ! i) = (if i \<in> set is then THREAD_STARTING else th_state (tt_list s ! i)))"
  using assms
proof (induction create "is" s arbitrary: s' rule: start_from.induct)
  case (2 create i js s)
  let ?s1 = "upd_thread i (\<lambda>t. t\<lparr>th_state := THREAD_STARTING\<rparr>) s"
  obtain tid where c: "create i = Some tid" using 2(2) by (auto simp: Let_def split: option.splits)
  let ?s2 = "upd_thread i (\<lambda>t. t\<lparr>th_tid := tid\<rparr>) ?s1"
  have s2: "length (tt_list ?s2) = length (tt_list s)" "tt_joined ?s2 = tt_joined s"
    "\<And>j. j < length (tt_list s) \<Longrightarrow> th_state (tt_list ?s2 ! j) = (if j = i then THREAD_STARTING else th_state (tt_list s ! j))"
    by (auto simp: upd_thread_def nth_list_update)
  have "start_from create js ?s2 = Some s'" using 2(2) c by (simp add: Let_def)
  from 2(1) [OF refl c this] 2(3) s2 show ?case by auto
qed simp

lemma stop_one_joins:
  assumes "0 < i" and "i < length (tt_list s)" and "th_state (tt_list s ! i) \<in> {THREAD_STARTING, THREAD_RUNNING, THREAD_EXITED}"
  shows "tt_joined (stop_one i s) = tt_joined s @ [i] \<and> length (tt_list (stop_one i s)) = length (tt_list s) \<and>
    (\<forall>j. j \<noteq> i \<longrightarrow> tt_list (stop_one i s) ! j = tt_list s ! j)"
  using assms by (auto simp: stop_one_def upd_thread_def Let_def)

lemma fold_stop_joins:
  assumes "distinct is" and "\<forall>i \<in> set is. 0 < i \<and> i < length (tt_list s) \<and> th_state (tt_list s ! i) \<in> {THREAD_STARTING, THREAD_RUNNING, THREAD_EXITED}"
  shows "tt_joined (fold stop_one is s) = tt_joined s @ is \<and> length (tt_list (fold stop_one is s)) = length (tt_list s) \<and>
    (\<forall>j. j \<notin> set is \<longrightarrow> tt_list (fold stop_one is s) ! j = tt_list s ! j)"
  using assms
proof (induction "is" arbitrary: s)
  case (Cons i js)
  note o = stop_one_joins [of i s]
  have "0 < i \<and> i < length (tt_list s) \<and> th_state (tt_list s ! i) \<in> {THREAD_STARTING, THREAD_RUNNING, THREAD_EXITED}" using Cons.prems by simp
  with o have o: "tt_joined (stop_one i s) = tt_joined s @ [i]" "length (tt_list (stop_one i s)) = length (tt_list s)"
    "\<And>j. j \<noteq> i \<Longrightarrow> tt_list (stop_one i s) ! j = tt_list s ! j" by blast+
  have "\<forall>j \<in> set js. j \<noteq> i" using Cons.prems by auto
  then show ?case using Cons.IH [of "stop_one i s"] Cons.prems o by auto
qed simp

text \<open>Every thread that was started is joined, exactly once, whatever it did in between; only the main thread is left.\<close>

theorem started_threads_joined:
  assumes "start_threads create s = Some s1" and "thread_step\<^sup>*\<^sup>* s1 s2" and "tt_list s \<noteq> []"
  shows "tt_joined (stop_threads s2) = tt_joined s @ [1..<length (tt_list s)] \<and> tt_list (stop_threads s2) = [tt_list s2 ! 0]"
proof -
  let ?n = "length (tt_list s)"
  have "set [1..<?n] \<subseteq> {0<..<?n}" by auto
  then have "started ?n (tt_joined s) s1" using start_from_started [OF assms(1) [unfolded start_threads_def]] by (auto simp: started_def)
  then have "started ?n (tt_joined s) s2" by (rule started_steps [OF assms(2)])
  then have s2: "length (tt_list s2) = ?n" "tt_joined s2 = tt_joined s"
    "\<forall>i \<in> set [1..<?n]. 0 < i \<and> i < ?n \<and> th_state (tt_list s2 ! i) \<in> {THREAD_STARTING, THREAD_RUNNING, THREAD_EXITED}" by (auto simp: started_def)
  define u where "u = s2\<lparr>tt_signalled := tt_signalled s2 @ filter (\<lambda>i. th_state (tt_list s2 ! i) = THREAD_RUNNING) [1..<?n]\<rparr>"
  have u: "tt_list u = tt_list s2" "tt_joined u = tt_joined s2" by (simp_all add: u_def)
  have "stop_threads s2 = (fold stop_one [1..<?n] u)\<lparr>tt_list := take 1 (tt_list (fold stop_one [1..<?n] u))\<rparr>"
    by (simp add: stop_threads_def Let_def s2(1) u_def)
  moreover have f: "tt_joined (fold stop_one [1..<?n] u) = tt_joined s @ [1..<?n]" "length (tt_list (fold stop_one [1..<?n] u)) = ?n"
    "tt_list (fold stop_one [1..<?n] u) ! 0 = tt_list s2 ! 0"
    using fold_stop_joins [of "[1..<?n]" u] s2 u by simp_all
  moreover have "?n \<noteq> 0" using assms(3) by simp
  ultimately show ?thesis by (cases "tt_list (fold stop_one [1..<?n] u)") auto
qed

subsection \<open>The title\<close>

text \<open>The title, cut to the area, is what \<^verbatim>\<open>ps\<close> shows, and nothing outside the area is written.\<close>

theorem title_in_area:
  assumes "0 < ta_len a" and "ta_len a + env_len (ta_env a) \<le> length (ta_mem a)" and "NUL \<notin> set title"
    and "a' = daemon_set_title title a"
  shows "length (ta_mem a') = length (ta_mem a) \<and> drop (ta_len a') (ta_mem a') = drop (ta_len a') (ta_mem a) \<and>
    ta_len a' \<le> length (ta_mem a) \<and> (\<not> ta_env_start a' \<longrightarrow> cstr (ta_mem a') = take (ta_len a' - 1) title)"
proof -
  define a1 where "a1 = (if ta_len a < length title + 1 \<and> ta_contiguous a
    then a\<lparr>ta_len := ta_len a + env_len (ta_env a), ta_env_start := False, ta_contiguous := False\<rparr> else a)"
  define t where "t = (if length title + 1 \<le> ta_len a1 then title @ replicate (ta_len a1 - length title) NUL else take (ta_len a1 - 1) title @ [NUL])"
  define mem1 where "mem1 = t @ drop (ta_len a1) (ta_mem a)"
  have l: "0 < ta_len a1" "ta_len a1 \<le> length (ta_mem a)" using assms(1,2) by (auto simp: a1_def)
  have lt: "length t = ta_len a1" using l by (auto simp: t_def)
  have ct: "cstr mem1 = take (ta_len a1 - 1) title"
  proof -
    obtain q where "mem1 = take (ta_len a1 - 1) title @ NUL # q"
    proof (cases "length title + 1 \<le> ta_len a1")
      case True
      then obtain n where "ta_len a1 - length title = Suc n" by (cases "ta_len a1 - length title") auto
      then show ?thesis using True that by (simp add: mem1_def t_def)
    qed (use that in \<open>simp add: mem1_def t_def\<close>)
    then show ?thesis using assms(3) by (auto simp: cstr_def takeWhile_append dest: in_set_takeD)
  qed
  have e: "a' = a1\<lparr>ta_mem := (if ta_env_start a1 then (case strchr (CHR '' '') (cstr mem1) of None \<Rightarrow> mem1 | Some (pre, _) \<Rightarrow> mem1[length pre := NUL]) else mem1)\<rparr>"
    unfolding assms(4) daemon_set_title_def Let_def mem1_def t_def a1_def by (rule refl)
  have p: "length pre < ta_len a1" if "strchr (CHR '' '') (cstr mem1) = Some (pre, q)" for pre q
  proof -
    have "length (cstr mem1) < ta_len a1" using ct l by simp
    moreover have "cstr mem1 = pre @ CHR '' '' # q" using strchr_SomeD [OF that] by simp
    ultimately show ?thesis by simp
  qed
  have d: "drop (ta_len a1) (mem1[i := NUL]) = drop (ta_len a1) (ta_mem a)" if "i < ta_len a1" for i
    using that lt by (simp add: mem1_def drop_update_cancel)
  have "length mem1 = length (ta_mem a)" "drop (ta_len a1) mem1 = drop (ta_len a1) (ta_mem a)" using lt l by (simp_all add: mem1_def)
  then show ?thesis using e l ct d p by (auto split: option.splits)
qed

end
