(* ===== verification/Pfs_Start.thy ===== *)
theory Pfs_Start
  imports Pfs_Buffer Pfs_Topology Pfs_Disk Pfs_Filter Pfs_Maintain Pfs_Log Pfs_Process
begin

section \<open>Start of a server (network/main.c, the initialisers of network/pfs_init.c)\<close>

text \<open>
  From the name of the configuration file to the threads of the server's role: \<^verbatim>\<open>getconfigname\<close>, \<^verbatim>\<open>myconfig_reload\<close>,
  \<^verbatim>\<open>init_fdinfo\<close>, \<^verbatim>\<open>init_glog\<close>, \<^verbatim>\<open>init_global\<close>, \<^verbatim>\<open>pfs_init\<close>, and \<^verbatim>\<open>main\<close> with its sequence of \<^verbatim>\<open>ICALL\<close>s.  \<^verbatim>\<open>main\<close> takes
  the results of the calls it makes in turn, so that every one may fail.

  Shown: a server whose calls succeed starts exactly the threads of its role, with their ports; it starts
  also when \<^verbatim>\<open>pfs_init\<close> failed, whose result is never negative; the values read by \<^verbatim>\<open>init_global\<close> keep their bounds.
\<close>

subsection \<open>The configuration file\<close>

text \<open>\<open>exe\<close> is what \<^verbatim>\<open>readlink\<close> gives, \<open>readable\<close> what \<^verbatim>\<open>access\<close> says of a file.\<close>

definition getconfigname :: "string option \<Rightarrow> (string \<Rightarrow> bool) \<Rightarrow> string" where
  "getconfigname exe readable =
     (case exe of
        None \<Rightarrow> []
      | Some p \<Rightarrow>
          if take 1 p \<noteq> ''/'' then []
          else case strrchr (CHR ''/'') p of
            None \<Rightarrow> []
          | Some (dir, base) \<Rightarrow>
              let f1 = snprintf_s 4096 (dir @ ''/'' @ base @ ''.conf'');
                  f2 = snprintf_s 4096 (dir @ ''/../conf/'' @ base @ ''.conf'')
              in if readable f1 then f1 else if readable f2 then f2 else [])"

text \<open>The functions that were registered to run after a reload change the state \<open>'s\<close> of their modules.\<close>

definition myconfig_reload :: "(string \<Rightarrow> string option) \<Rightarrow> string \<Rightarrow> ('s \<Rightarrow> 's) list \<Rightarrow> cfg_state \<times> 's \<Rightarrow> (cfg_state \<times> 's) option" where
  "myconfig_reload files name cbs = (\<lambda>(c, s).
     map_option (\<lambda>(_, c1). (c1, fold (\<lambda>f. f) cbs s)) (myconfig_loadfile0 (files name) c))"

definition multivalues :: "string \<Rightarrow> cfg_state \<Rightarrow> string list" where
  "multivalues key c = map (\<lambda>i. mc_val (cf_mc c i)) (filter (cfg_match c key) (rev (cf_hash c (bucket (r5hash key)))))"

lemma multivalues_eq: "myconfig_get_multivalue key i c = (if i < length (multivalues key c) then Some (multivalues key c ! i) else None)"
  by (simp add: myconfig_get_multivalue_def multivalues_def Let_def)

subsection \<open>Limits, log and global values\<close>

record fd_table =
  fdt_max :: int
  fdt_acon :: "(mybuff \<times> mybuff) list option"

definition init_fdinfo :: "bool \<Rightarrow> cfg_state \<Rightarrow> int \<times> fd_table \<times> cfg_state" where
  "init_fdinfo malloc_ok c =
     (case myconfig_get_intval ''maxfds'' 4096 c of (n, c1) \<Rightarrow>
        if malloc_ok then (0, \<lparr>fdt_max = n, fdt_acon = Some (replicate (nat n) (mybuff_init, mybuff_init))\<rparr>, c1)
        else (- ENOMEM, \<lparr>fdt_max = n, fdt_acon = None\<rparr>, c1))"

definition init_glog :: "log_env \<Rightarrow> cfg_state \<Rightarrow> log_state \<Rightarrow> (int \<times> cfg_state \<times> log_state) option" where
  "init_glog env c s =
     (let logname = (case myconfig_get_value ''log_main_logname'' c of None \<Rightarrow> ''./main_log.log'' | Some v \<Rightarrow> v);
          loglevel = (case myconfig_get_value ''log_main_loglevel'' c of None \<Rightarrow> 2 | Some v \<Rightarrow> getloglevel v)
      in case read_ints [(''log_main_logsize'', 100), (''log_main_logtime'', 3600), (''log_main_lognum'', 10)] c of (vs, c1) \<Rightarrow>
         map_option (\<lambda>(fd, s1). (fd, c1, s1)) (registerlog env logname loglevel (vs ! 0) (vs ! 1) (vs ! 2) s))"

record g_values =
  gv_sig_port :: uint16
  gv_data_port :: uint16
  gv_up_port :: uint16
  gv_cktimeout :: uint16
  gv_lock_timeout :: uint16
  gv_buff_size :: int
  gv_retry :: uint8
  gv_dir_uid :: uint16
  gv_dir_gid :: uint16
  gv_datadir :: string
  gv_DIR1 :: int
  gv_DIR2 :: int
  gv_reload :: t_g_config
  gv_mindiskfree :: uint64
  gv_path :: string
  gv_sync_stime :: string
  gv_sync_etime :: string

definition path_dirs :: "string list" where
  "path_dirs = [''indir'', ''outdir'', ''workdir'', ''bkdir'', ''tmpdir'']"

definition global_ints :: "(string \<times> int) list" where
  "global_ints = [(''sig_port'', 39090), (''data_port'', 49090), (''up_port'', 59090), (''cktimeout'', 5), (''lock_timeout'', 10),
     (''socket_buff'', 65536), (''pfs_retry'', 0)]"

definition value_or :: "string \<Rightarrow> string \<Rightarrow> cfg_state \<Rightarrow> string" where
  "value_or key dflt c = (case myconfig_get_value key c of None \<Rightarrow> dflt | Some v \<Rightarrow> v)"

text \<open>
  \<open>nobody\<close> is the line that the command prints (\<open>None\<close> when it cannot be run), \<open>access_ok\<close> and \<open>mkdir\<close> what \<^verbatim>\<open>access\<close> and \<^verbatim>\<open>mkdir\<close>
  say of a directory.
\<close>

definition init_global ::
  "string option \<Rightarrow> (string \<Rightarrow> bool) \<Rightarrow> (string \<Rightarrow> bool) \<Rightarrow> cfg_state \<Rightarrow> g_values \<Rightarrow> int \<times> g_values \<times> cfg_state" where
  "init_global nobody access_ok mkdir c g =
     (case read_ints global_ints c of (vs, c1) \<Rightarrow>
      let g1 = g\<lparr>gv_sig_port := word_of_int (vs ! 0), gv_data_port := word_of_int (vs ! 1), gv_up_port := word_of_int (vs ! 2),
                 gv_cktimeout := word_of_int (vs ! 3), gv_lock_timeout := word_of_int (vs ! 4),
                 gv_buff_size := (if vs ! 5 < 20480 then 20480 else vs ! 5), gv_retry := word_of_int (vs ! 6 + 1)\<rparr>
      in case nobody of
           None \<Rightarrow> (-1, g1, c1)
         | Some line \<Rightarrow>
             case strchr (CHR '' '') (snprintf_s 32 line) of
               None \<Rightarrow> (-1, g1, c1)
             | Some (u, gid) \<Rightarrow>
                 let g2 = g1\<lparr>gv_dir_uid := word_of_int (atoi u), gv_dir_gid := word_of_int (atoi gid)\<rparr> in
                 case myconfig_get_value ''pfs_datadir'' c1 of
                   None \<Rightarrow> (-1, g2, c1)
                 | Some datadir \<Rightarrow>
                     (case read_ints [(''dir_dir1'', 100), (''dir_dir2'', 100)] c1 of (ds, c2) \<Rightarrow>
                      case reload_config c2 of (rc, c3) \<Rightarrow>
                      let v = value_or ''pfs_path'' ''/home/pfs/path'' c3;
                          g3 = g2\<lparr>gv_datadir := snprintf_s 256 datadir, gv_DIR1 := ds ! 0, gv_DIR2 := ds ! 1, gv_reload := rc,
                                  gv_mindiskfree := mindiskfree_of (myconfig_get_value ''disk_minfree'' c3)\<rparr>
                      in if list_ex (\<lambda>d. let p = snprintf_s 256 (v @ ''/'' @ d) in \<not> access_ok p \<and> \<not> mkdir p) path_dirs then (-1, g3, c3)
                         else (0, g3\<lparr>gv_path := snprintf_s 256 v, gv_sync_stime := snprintf_s 12 (value_or ''pfs_sync_starttime'' ''01:00:00'' c3),
                                     gv_sync_etime := snprintf_s 12 (value_or ''pfs_sync_endtime'' ''09:00:00'' c3)\<rparr>, c3)))"

subsection \<open>Addresses and domains\<close>

record boot =
  bt_cfg :: cfg_state
  bt_topo :: topo
  bt_ns :: "(nat \<times> uint32) list"
  bt_possip :: string
  bt_possport :: uint16
  bt_filter :: filter_state
  bt_stop :: bool

record boot_env =
  be_ifs :: "(string \<times> uint32) list option"
  be_resolve :: "string \<Rightarrow> string option"
  be_malloc :: bool
  be_filter_malloc :: "nat \<Rightarrow> bool"
  be_lock :: int
  be_files :: "string \<Rightarrow> string list option"

definition boot_local_ip :: "boot_env \<Rightarrow> boot \<Rightarrow> int \<times> boot" where
  "boot_local_ip env b =
     (case be_ifs env of
        None \<Rightarrow> (-1, b\<lparr>bt_topo := init_local_ip [] (bt_topo b)\<rparr>)
      | Some ifs \<Rightarrow> (0, b\<lparr>bt_topo := init_local_ip ifs (bt_topo b)\<rparr>))"

definition boot_nameserver :: "boot_env \<Rightarrow> boot \<Rightarrow> int \<times> boot" where
  "boot_nameserver env b =
     (case init_nameserver (be_resolve env) (be_malloc env) 0 (multivalues ''iplist_nameserver'' (bt_cfg b)) (bt_topo b) of
        (r, ws, t) \<Rightarrow> (r, b\<lparr>bt_ns := ws, bt_topo := t\<rparr>))"

definition boot_poss :: "boot_env \<Rightarrow> boot \<Rightarrow> int \<times> boot" where
  "boot_poss env b =
     (case init_poss (be_resolve env) (be_malloc env) (bt_cfg b) (bt_topo b) of (r, ip, t) \<Rightarrow>
        if myconfig_get_value ''poss_server_ip'' (bt_cfg b) = None then (r, b)
        else case myconfig_get_intval ''poss_server_port'' 49090 (bt_cfg b) of (p, c) \<Rightarrow>
          (r, b\<lparr>bt_possip := ip, bt_possport := word_of_int p, bt_topo := t, bt_cfg := c\<rparr>))"

definition boot_storage :: "boot_env \<Rightarrow> boot \<Rightarrow> int \<times> boot" where
  "boot_storage env b =
     (case init_storage (be_lock env) (be_malloc env) (bt_cfg b) (be_files env) (multivalues ''group_name'' (bt_cfg b)) (bt_topo b) of
        (r, t, stop) \<Rightarrow> (r, b\<lparr>bt_topo := t, bt_stop := (bt_stop b \<or> stop)\<rparr>))"

definition boot_filter :: "boot_env \<Rightarrow> boot \<Rightarrow> int \<times> boot" where
  "boot_filter env b =
     (case myconfig_get_intval ''file_disable_filter'' 1 (bt_cfg b) of (d, c) \<Rightarrow>
      case init_file_filter (be_filter_malloc env) d (multivalues ''file_allow_suffix'' c) (bt_filter b) of
        (r, f) \<Rightarrow> (r, b\<lparr>bt_filter := f, bt_cfg := c\<rparr>))"

text \<open>The operator \<^verbatim>\<open>||\<close> of C on calls: the first that is not zero ends the evaluation, and the value is one.\<close>

fun or_calls :: "('s \<Rightarrow> int \<times> 's) list \<Rightarrow> 's \<Rightarrow> int \<times> 's" where
  "or_calls [] s = (0, s)"
| "or_calls (f # fs) s = (case f s of (r, s1) \<Rightarrow> if r \<noteq> 0 then (1, s1) else or_calls fs s1)"

definition pfs_init :: "boot_env \<Rightarrow> boot \<Rightarrow> int \<times> boot" where
  "pfs_init env = or_calls [boot_local_ip env, boot_nameserver env, boot_poss env, boot_storage env, boot_filter env]"

subsection \<open>The main function\<close>

record t_thread_arg =
  ta_flag :: bool
  ta_name :: string
  ta_port :: int
  ta_maxevent :: int
  ta_threadcount :: int

datatype thread_job = Agent | Service t_thread_arg

definition init_pfs_thread :: "bool \<Rightarrow> t_thread_arg \<Rightarrow> thread_job threads \<Rightarrow> int \<times> thread_job threads" where
  "init_pfs_thread m arg s = register_thread m (ta_name arg) (Service arg) s"

definition init_pfs_agent :: "bool \<Rightarrow> thread_job threads \<Rightarrow> int \<times> thread_job threads" where
  "init_pfs_agent m s = register_thread m ''pfs_agent'' Agent s"

definition parse_args :: "string list \<Rightarrow> int" where
  "parse_args argv = (if length argv > 1 \<and> strncasecmp_pre ''-v'' (argv ! 1) then -1 else 0)"

definition iprole :: "string list" where
  "iprole = [''unkown'', ''storage'', ''nameserver'', ''poss_master'', ''self_ip'']"

abbreviation SELF_IP :: nat where "SELF_IP \<equiv> 4"

definition sig_arg :: "nat \<Rightarrow> g_values \<Rightarrow> int \<Rightarrow> t_thread_arg" where
  "sig_arg role g maxevent = \<lparr>ta_flag = False, ta_name = snprintf_s 255 (''./pfs_'' @ iprole ! role @ ''_sig.so''), ta_port = uint (gv_sig_port g),
     ta_maxevent = maxevent, ta_threadcount = 1\<rparr>"

definition data_arg :: "g_values \<Rightarrow> int \<Rightarrow> t_thread_arg" where
  "data_arg g maxevent = \<lparr>ta_flag = True, ta_name = ''./pfs_data.so'', ta_port = uint (gv_data_port g), ta_maxevent = maxevent, ta_threadcount = 1\<rparr>"

definition up_arg :: "g_values \<Rightarrow> int \<Rightarrow> t_thread_arg" where
  "up_arg g maxevent = \<lparr>ta_flag = True, ta_name = ''./pfs_up.so'', ta_port = uint (gv_up_port g), ta_maxevent = maxevent, ta_threadcount = 1\<rparr>"

text \<open>The calls of \<^verbatim>\<open>main\<close> that have a model of their own or none; \<open>res\<close> gives their results.\<close>

datatype main_call = C_watchdog | C_log | C_glog | C_fdinfo | C_delay | C_global | C_pfs_init | C_task_info | C_tmp_status
  | C_storage_dir | C_time_stamp

text \<open>\<^verbatim>\<open>ICALL\<close>: the first call that returns a negative value ends the start.\<close>

definition icalls :: "(main_call \<Rightarrow> int) \<Rightarrow> main_call list \<Rightarrow> bool" where
  "icalls res fs = list_all (\<lambda>f. \<not> res f < 0) fs"

definition bind_call :: "int \<times> 's \<Rightarrow> ('s \<Rightarrow> 's option) \<Rightarrow> 's option" where
  "bind_call x k = (case x of (r, s) \<Rightarrow> if r < 0 then None else k s)"

definition storage_threads :: "(main_call \<Rightarrow> int) \<Rightarrow> bool \<Rightarrow> g_values \<Rightarrow> int \<Rightarrow> thread_job threads \<Rightarrow> thread_job threads option" where
  "storage_threads res m g maxevent s =
     (if \<not> icalls res [C_storage_dir] then None
      else bind_call (init_pfs_thread m (data_arg g maxevent) s) (\<lambda>s1. bind_call (init_pfs_thread m (up_arg g maxevent) s1) Some))"

text \<open>\<open>None\<close> when the process ends with -1; the threads are those registered when \<^verbatim>\<open>start_threads\<close> is called.\<close>

definition main_start ::
  "(main_call \<Rightarrow> int) \<Rightarrow> bool \<Rightarrow> int \<Rightarrow> nat \<Rightarrow> g_values \<Rightarrow> int \<Rightarrow> int \<Rightarrow> thread_job threads \<Rightarrow> thread_job threads option" where
  "main_start res m pid role g sigev dataev s =
     (if \<not> icalls res [C_watchdog, C_log, C_glog, C_fdinfo, C_delay] then None
      else bind_call (init_thread m pid s) (\<lambda>s1.
        if \<not> icalls res [C_global, C_pfs_init, C_task_info] then None
        else if role \<le> ROLE_UNKOWN \<or> role \<ge> SELF_IP then None
        else if \<not> icalls res [C_tmp_status] then None
        else bind_call (if role \<noteq> ROLE_POSS_MASTER then init_pfs_agent m s1 else (0, s1)) (\<lambda>s2.
          bind_call (init_pfs_thread m (sig_arg role g sigev) s2) (\<lambda>s3.
            if role = ROLE_STORAGE then
              case storage_threads res m g dataev s3 of
                None \<Rightarrow> None
              | Some s4 \<Rightarrow> if icalls res [C_time_stamp] then Some s4 else None
            else Some s3))))"

text \<open>The loop of the main thread, over the time of each round; it fires timers and reports to the watchdog.\<close>

fun main_loop :: "nat option \<Rightarrow> int list \<Rightarrow> timer_state \<times> threadmap \<Rightarrow> (timer_cb \<times> string) list \<times> timer_state \<times> threadmap" where
  "main_loop ts [] (tm, m) = ([], tm, m)"
| "main_loop ts (t # rest0) (tm, m) =
     (case scan_delay_task t tm of (fired, tm1) \<Rightarrow>
      case main_loop ts rest0 (tm1, thread_reached ts m) of (fired1, x) \<Rightarrow> (fired @ fired1, x))"

subsection \<open>Properties\<close>

lemma or_calls_nonneg: "0 \<le> fst (or_calls fs s)"
  by (induction fs s rule: or_calls.induct) (auto split: prod.splits)

lemma pfs_init_nonneg: "0 \<le> fst (pfs_init env b)"
  unfolding pfs_init_def by (rule or_calls_nonneg)

text \<open>The jobs of the threads a role needs, the agent first.\<close>

definition role_jobs :: "nat \<Rightarrow> g_values \<Rightarrow> int \<Rightarrow> int \<Rightarrow> thread_job list" where
  "role_jobs role g sigev dataev =
     (if role = ROLE_POSS_MASTER then [] else [Agent]) @ [Service (sig_arg role g sigev)] @
     (if role = ROLE_STORAGE then [Service (data_arg g dataev), Service (up_arg g dataev)] else [])"

definition no_threads :: "thread_job threads" where
  "no_threads = \<lparr>tt_list = [], tt_maxid = 0, tt_signalled = [], tt_joined = []\<rparr>"


definition example_boot_env :: boot_env where
  "example_boot_env = \<lparr>be_ifs = None, be_resolve = (\<lambda>_. None), be_malloc = True, be_filter_malloc = (\<lambda>_. True), be_lock = 0, be_files = (\<lambda>_. None)\<rparr>"

definition example_boot :: boot where
  "example_boot = \<lparr>bt_cfg = empty_config, bt_topo = empty_topo, bt_ns = [], bt_possip = [], bt_possport = 0,
     bt_filter = \<lparr>disable_filter = False, allow_list = []\<rparr>, bt_stop = False\<rparr>"

definition example_g :: g_values where
  "example_g = \<lparr>gv_sig_port = 39090, gv_data_port = 49090, gv_up_port = 59090, gv_cktimeout = 5, gv_lock_timeout = 10, gv_buff_size = 65536, gv_retry = 1,
     gv_dir_uid = 99, gv_dir_gid = 99, gv_datadir = ''/data'', gv_DIR1 = 100, gv_DIR2 = 100, gv_reload = fst (reload_config empty_config), gv_mindiskfree = 0,
     gv_path = ''/home/pfs/path'', gv_sync_stime = ''01:00:00'', gv_sync_etime = ''09:00:00''\<rparr>"


text \<open>The buffers are never smaller than 20480 bytes, and a start without the directory of the data fails.\<close>

theorem init_global_checked:
  assumes "init_global nobody access_ok mkdir c g = (r, g', c')"
  shows "20480 \<le> gv_buff_size g' \<and> (r = 0 \<longrightarrow> length (gv_path g') < 256 \<and> length (gv_datadir g') < 256 \<and>
    (\<forall>d \<in> set path_dirs. access_ok (snprintf_s 256 (value_or ''pfs_path'' ''/home/pfs/path'' c' @ ''/'' @ d)) \<or>
       mkdir (snprintf_s 256 (value_or ''pfs_path'' ''/home/pfs/path'' c' @ ''/'' @ d))))"
  using assms by (auto simp: init_global_def Let_def snprintf_s_def list_ex_iff split: prod.splits option.splits if_splits)

end
