(* ===== verification/Pfs_Php.thy ===== *)
theory Pfs_Php
  imports Pfs_Client
begin

section \<open>The binding for PHP (php_client/pfs_client.c)\<close>

text \<open>
  Four functions that fill a \<^verbatim>\<open>t_api_info\<close>, call \<^verbatim>\<open>operate_pfs\<close> and return an array.  The arguments are what
  \<^verbatim>\<open>zend_parse_parameters\<close> gives (\<open>None\<close> when it fails).  A result \<open>None\<close> is an access outside of \<^verbatim>\<open>pfserrmsg\<close>, or a list
  of rounds that ends before the client does, as for \<^verbatim>\<open>operate_pfs\<close>.

  Shown: the arrays of the functions that store a file carry the result of \<^verbatim>\<open>operate_pfs\<close>, and the name of the stored file
  when it succeeds; \<^verbatim>\<open>pfs_remove_file\<close> reads outside of the messages when the server does not answer.
\<close>

datatype php_val = Php_long int | Php_string string

type_synonym php_array = "(string \<times> php_val) list"

definition pfserrmsg :: "string list" where
  "pfserrmsg = [''OK'', '''', '''', ''PFS_CON_NAMESERVER'', ''PFS_CON_STORAGE'', ''PFS_LOCAL_FILE'', ''PFS_SERVER_ERR'', ''PFS_ERR_TYPE'',
     ''PFS_ERR_INFO_UNCOM'', ''PFS_REALPATH'', ''PFS_STORAGE_FILE'']"

definition DEFAULT_UP_PORT :: int where
  "DEFAULT_UP_PORT = 49711"

text \<open>The address and the port of the text; the text itself is cut at the colon.\<close>

definition get_ip_port :: "(string \<Rightarrow> string option) \<Rightarrow> string \<Rightarrow> int \<Rightarrow> int \<times> string \<times> int" where
  "get_ip_port resolve s port =
     (let (s1, port1) = (case strchr (CHR '':'') s of None \<Rightarrow> (s, port) | Some (a, b) \<Rightarrow> (a, atoi b)) in
      case get_uint32_ip resolve s1 of (ip, d) \<Rightarrow>
        (if ip = INADDR_NONE then -1 else 0, case d of None \<Rightarrow> [] | Some t \<Rightarrow> t, port1))"

definition zero_api :: t_api_info where
  "zero_api = \<lparr>a_errmsg = [], a_localfile = [], a_remotefile = [], a_group = [], a_type = 0, a_addtype = 0, a_nametype = 0\<rparr>"

definition php_err :: "int \<Rightarrow> string \<Rightarrow> php_array" where
  "php_err code m = [(''retcode'', Php_long code), (''retmsg'', Php_string m)]"

text \<open>What the four functions share: the parameters, the address, and the call.\<close>

definition php_call ::
  "api_env \<Rightarrow> (string \<Rightarrow> string option) \<Rightarrow> api_round list \<Rightarrow> (string \<times> t_api_info) option \<Rightarrow> (int \<Rightarrow> t_api_info \<Rightarrow> php_array option)
     \<Rightarrow> api_state \<Rightarrow> (php_array \<times> api_state) option" where
  "php_call env resolve rs args answer s =
     (case args of
        None \<Rightarrow> Some (php_err 1 ''zend_parse_parameters ERR'', s)
      | Some (server, api) \<Rightarrow>
          case get_ip_port resolve server DEFAULT_UP_PORT of (r, ip, port) \<Rightarrow>
            if r \<noteq> 0 then Some (php_err 2 ''domain err:unknown host'', s)
            else case operate_pfs env ip port rs (s\<lparr>as_api := api\<rparr>) of
              None \<Rightarrow> None
            | Some (ret, s1) \<Rightarrow> map_option (\<lambda>a. (a, s1)) (answer ret (as_api s1)))"

definition remove_answer :: "int \<Rightarrow> t_api_info \<Rightarrow> php_array option" where
  "remove_answer ret api =
     (if 0 \<le> ret \<and> nat ret < length pfserrmsg then Some [(''retcode'', Php_long ret), (''retmsg'', Php_string (pfserrmsg ! nat ret))] else None)"

definition pfs_remove_file ::
  "api_env \<Rightarrow> (string \<Rightarrow> string option) \<Rightarrow> api_round list \<Rightarrow> (string \<times> string \<times> string) option \<Rightarrow> api_state \<Rightarrow> (php_array \<times> api_state) option" where
  "pfs_remove_file env resolve rs args =
     php_call env resolve rs
       (map_option (\<lambda>(server, g, f). (server, zero_api\<lparr>a_type := TASK_DELFILE, a_remotefile := snprintf_s 256 f, a_group := snprintf_s 128 g\<rparr>)) args)
       remove_answer"

definition stored_answer :: "string \<Rightarrow> bool \<Rightarrow> int \<Rightarrow> t_api_info \<Rightarrow> php_array option" where
  "stored_answer key with_msg ret api =
     Some (if ret = PFS_OK
           then [(''retcode'', Php_long ret), (''domain'', Php_string (a_group api)), (key, Php_string (a_remotefile api))]
           else [(''retcode'', Php_long ret), (''errmsg'', Php_string (a_errmsg api))] @
                (if with_msg \<and> 0 \<le> ret \<and> ret \<le> PFS_STORAGE_FILE then [(''retmsg'', Php_string (pfserrmsg ! nat ret))] else []))"

text \<open>The flags \<^verbatim>\<open>ADD_PATH_BY_BNAME\<close>, \<^verbatim>\<open>ADD_SET_DOMAIN\<close> and \<^verbatim>\<open>ADD_DOMAIN_BNAME\<close>.\<close>

definition add_flags :: "int \<Rightarrow> t_api_info \<Rightarrow> t_api_info" where
  "add_flags flag api =
     (if flag = 2 then api\<lparr>a_addtype := 2\<rparr>
      else if flag = 1 then api\<lparr>a_nametype := 1\<rparr>
      else if flag = 3 then api\<lparr>a_addtype := 2, a_nametype := 1\<rparr>
      else api)"

definition pfs_add_file ::
  "api_env \<Rightarrow> (string \<Rightarrow> string option) \<Rightarrow> api_round list \<Rightarrow> (string \<times> string \<times> string \<times> int) option \<Rightarrow> api_state \<Rightarrow> (php_array \<times> api_state) option" where
  "pfs_add_file env resolve rs args =
     php_call env resolve rs
       (map_option (\<lambda>(server, g, f, flag). (server, (add_flags flag (zero_api\<lparr>a_type := TASK_ADDFILE\<rparr>))\<lparr>a_localfile := snprintf_s 256 f, a_group := snprintf_s 128 g\<rparr>)) args)
       (stored_answer ''remotefile'' True)"

text \<open>The flag is examined after the address; the file to delete is called \<^verbatim>\<open>blank\<close>.\<close>

definition pfs_query_other ::
  "api_env \<Rightarrow> (string \<Rightarrow> string option) \<Rightarrow> api_round list \<Rightarrow> (string \<times> string \<times> int) option \<Rightarrow> api_state \<Rightarrow> (php_array \<times> api_state) option" where
  "pfs_query_other env resolve rs args s =
     (case args of
        Some (server, g, flag) \<Rightarrow>
          if fst (get_ip_port resolve server DEFAULT_UP_PORT) = 0 \<and> flag < 5 then Some (php_err 3 ''flag range err'', s)
          else php_call env resolve rs
                 (Some (server, zero_api\<lparr>a_type := TASK_DELFILE, a_addtype := word_of_int flag, a_remotefile := ''blank'', a_group := snprintf_s 128 g\<rparr>))
                 (stored_answer ''remotedir'' False) s
      | None \<Rightarrow> php_call env resolve rs None (stored_answer ''remotedir'' False) s)"

definition pfs_modify_file ::
  "api_env \<Rightarrow> (string \<Rightarrow> string option) \<Rightarrow> api_round list \<Rightarrow> (string \<times> string \<times> string \<times> string) option \<Rightarrow> api_state \<Rightarrow> (php_array \<times> api_state) option" where
  "pfs_modify_file env resolve rs args =
     php_call env resolve rs
       (map_option (\<lambda>(server, g, f, rf). (server, zero_api\<lparr>a_type := TASK_MODYFILE, a_localfile := snprintf_s 256 f, a_remotefile := snprintf_s 256 rf,
          a_group := snprintf_s 128 g\<rparr>)) args)
       (stored_answer ''remotefile'' True)"

subsection \<open>Properties\<close>

text \<open>The array of a stored file: the result of \<^verbatim>\<open>operate_pfs\<close>, and on success the group and the name it returned.\<close>

lemma add_file_reports:
  assumes "get_ip_port resolve server DEFAULT_UP_PORT = (0, ip, port)"
    and "operate_pfs env ip port rs (s\<lparr>as_api := (add_flags flag (zero_api\<lparr>a_type := TASK_ADDFILE\<rparr>))\<lparr>a_localfile := snprintf_s 256 f, a_group := snprintf_s 128 g\<rparr>\<rparr>)
      = Some (ret, s')"
  shows "\<exists>a. pfs_add_file env resolve rs (Some (server, g, f, flag)) s = Some (a, s') \<and> map_of a ''retcode'' = Some (Php_long ret) \<and>
    (map_of a ''remotefile'' = (if ret = PFS_OK then Some (Php_string (a_remotefile (as_api s'))) else None)) \<and>
    (map_of a ''domain'' = (if ret = PFS_OK then Some (Php_string (a_group (as_api s'))) else None))"
  using assms by (auto simp: pfs_add_file_def php_call_def stored_answer_def)

lemma first_request: "as_stat s = GET_STORAGE \<Longrightarrow> fst (create_req_msg env s) = 0"
proof -
  have "as_stat (reinit_buffs s) = as_stat s" by (simp add: reinit_buffs_def split: prod.splits)
  then show "as_stat s = GET_STORAGE \<Longrightarrow> ?thesis" by (simp add: create_req_msg_def Let_def)
qed

lemma first_connect_stat: "\<not> as_cache_flag s \<Longrightarrow> as_stat (first_connect env ip port s) = GET_STORAGE"
  by (simp add: first_connect_def Let_def)

text \<open>
  Removing a file through the binding has no defined result when the server does not answer: \<^verbatim>\<open>operate_pfs\<close>
  returns \<^verbatim>\<open>SOCK_SELECT_TO\<close>, and \<^verbatim>\<open>pfs_remove_file\<close> takes it as an index of the eleven messages.
\<close>

theorem remove_timeout_undefined:
  assumes "get_ip_port resolve server DEFAULT_UP_PORT = (0, ip, port)" and "\<not> as_cache_flag s" and "0 \<le> ae_connect env ip port"
    and "rd_select r = 0" and "f \<noteq> []" and "g \<noteq> []"
  shows "pfs_remove_file env resolve (r # rs) (Some (server, g, f)) s = None"
proof -
  let ?s = "s\<lparr>as_api := zero_api\<lparr>a_type := TASK_DELFILE, a_remotefile := snprintf_s 256 f, a_group := snprintf_s 128 g\<rparr>\<rparr>"
  have fg: "snprintf_s 256 f \<noteq> []" "snprintf_s 128 g \<noteq> []" using assms(5,6) by (simp_all add: snprintf_s_def)
  let ?t = "(first_connect env ip port ?s)\<lparr>as_send := mybuff_init, as_recv := mybuff_init, as_result := replicate 2048 0\<rparr>"
  have "as_stat ?t = GET_STORAGE" using first_connect_stat [of ?s] assms(2) by simp
  from first_request [OF this, of env] obtain s2 where c: "create_req_msg env ?t = (0, s2)" by (cases "create_req_msg env ?t") simp
  have fd: "\<not> as_fd (first_connect env ip port ?s) < 0" using assms(2,3) by (simp add: first_connect_def Let_def)
  define x where "x = set_err (''time out '' @ (if as_stat s2 = GET_STORAGE then ''0'' else ''1'') @ ''!'') s2"
  obtain s3 where u: "up_err SOCK_SELECT_TO x = (SOCK_SELECT_TO, s3)" by (simp add: up_err_def Let_def)
  have "api_loop env (r # rs) True s2 = Some (SOCK_SELECT_TO, x)" using assms(4) by (simp add: api_round_step_def x_def)
  then have "upload_file_inter env ip port (r # rs) ?s = Some (SOCK_SELECT_TO, s3)"
    using fd c u by (simp add: upload_file_inter_def Let_def del: api_loop.simps)
  then have "operate_pfs env ip port (r # rs) ?s = Some (SOCK_SELECT_TO, s3)" using fg by (simp add: operate_pfs_def zero_api_def)
  then show ?thesis using assms(1) by (simp add: pfs_remove_file_def php_call_def remove_answer_def pfserrmsg_def)
qed

theorem remove_timeout_undefined_witness:
  "pfs_remove_file example_ae (\<lambda>_. None) [example_send\<lparr>rd_select := 0\<rparr>] (Some (''10.0.0.255'', ''img'', ''/7/42/c.jpg'')) example_api = None"
proof (rule remove_timeout_undefined)
  have "ip2str 0xFF00000A = ''10.0.0.255''" by code_simp
  with ip_roundtrip [of "0xFF00000A"] have "str2ip ''10.0.0.255'' = 0xFF00000A" by (simp add: ip_octet_nat)
  then show "get_ip_port (\<lambda>_. None) ''10.0.0.255'' DEFAULT_UP_PORT = (0, ''10.0.0.255'', 49711)"
    by (simp add: get_ip_port_def get_uint32_ip_def INADDR_NONE_def DEFAULT_UP_PORT_def snprintf_s_def)
qed (simp_all add: example_api_def example_ae_def)

end
