(* ===== verification/Spec2Isabelle.thy ===== *)
theory Spec2Isabelle
  imports Pfs_Prelude Pfs_Protocol Pfs_Buffer Pfs_Dlist Pfs_Timer Pfs_Task Pfs_Codec Pfs_Md5
    Pfs_Config Pfs_Topology Pfs_Disk Pfs_Event Pfs_Peers Pfs_Nameserver Pfs_Poss Pfs_Filter Pfs_Store
    Pfs_Wire Pfs_Storage Pfs_Transfer Pfs_Data Pfs_Upload Pfs_Client Pfs_Params Pfs_Maintain
    Pfs_Agent Pfs_Acl Pfs_Log Pfs_Process Pfs_Start Pfs_Php
begin

text \<open>
  \<^bold>\<open>56pfs, a distributed file system for small files.\<close>

  One executable (\<^verbatim>\<open>src/network/main.c\<close>) runs, in every role, a number of epoll threads
  (\<^verbatim>\<open>network/pfs_so.c\<close>), each with a shared library, its \<^emph>\<open>plugin\<close>, whose \<^verbatim>\<open>svc_*\<close> functions are called when a
  connection is accepted, has data, has sent everything, is closed, or once per loop.  The
  plugins are the name server \<^verbatim>\<open>N\<close> (tells clients which storage server to use), the
  signalling part \<^verbatim>\<open>S\<close> of a storage server, its data part \<^verbatim>\<open>D\<close>, the upload server \<^verbatim>\<open>U\<close> and the
  operation server \<^verbatim>\<open>POSS\<close>.  They share the files of \<^verbatim>\<open>src/lib\<close> and, through queues of tasks
  (\<^verbatim>\<open>network/pfs_task.c\<close>), work for each other.

  \<^bold>\<open>Theories.\<close>
  \<^item> \<open>Pfs_Prelude\<close>: bytes, C strings with the truncation of \<^verbatim>\<open>snprintf\<close>, decimal numbers, big-endian
    fields, the interface \<open>keyed_store\<close> of tables that are searched by a key.
  \<^item> \<open>Pfs_Protocol\<close> (\<^verbatim>\<open>lib/protocol.c\<close>): the four byte head, \<^verbatim>\<open>parse_sig_msg\<close>, \<^verbatim>\<open>create_sig_msg\<close>, and the
    framing loop shared by the signalling plugins; the locale \<open>framed_service\<close> shows once that a
    plugin sees the same messages however the network cuts the stream.
  \<^item> \<open>Pfs_Buffer\<close> (\<^verbatim>\<open>lib/mybuff.c\<close>): connection buffers refine a queue of bytes.
  \<^item> \<open>Pfs_Dlist\<close> (\<^verbatim>\<open>lib/list.h\<close>): doubly linked lists on a heap of pointers refine lists.
  \<^item> \<open>Pfs_Timer\<close> (\<^verbatim>\<open>pfs_timer.c\<close>), \<open>Pfs_Task\<close> (\<^verbatim>\<open>pfs_task.c\<close>): timers fire when due; queues and
    counters of tasks agree in every reachable state.
  \<^item> \<open>Pfs_Codec\<close> (\<^verbatim>\<open>common.c\<close>, \<^verbatim>\<open>util_hex.c\<close>, \<^verbatim>\<open>util_ip.c\<close>, \<^verbatim>\<open>util_str.c\<close>): round trips and comparison with
    reference definitions.
  \<^item> \<open>Pfs_Md5\<close> (\<^verbatim>\<open>md5.c\<close>, \<^verbatim>\<open>util_misc.c\<close>): the streaming digest is the MD5 of RFC 1321.
  \<^item> \<open>Pfs_Config\<close> (\<^verbatim>\<open>myconfig.c\<close>): the configuration table and its parser.
  \<^item> \<open>Pfs_Topology\<close>, \<open>Pfs_Disk\<close> (\<^verbatim>\<open>pfs_init.c\<close>): the address table, domains and groups; disks and the
    choice of a disk.
  \<^item> \<open>Pfs_Event\<close> (\<^verbatim>\<open>pfs_so.c\<close>): the event loop over the results of its system calls.
  \<^item> \<open>Pfs_Nameserver\<close> (\<^verbatim>\<open>network/N\<close>), \<open>Pfs_Poss\<close> (\<^verbatim>\<open>network/POSS\<close>, \<^verbatim>\<open>pro_poss.c\<close>): two plugins in full.
  \<^item> \<open>Pfs_Peers\<close>: the table of connections searched by address that three plugins have copies of, as a locale.
  \<^item> \<open>Pfs_Filter\<close> (\<^verbatim>\<open>pfs_file_filter.c\<close>), \<open>Pfs_Store\<close> (\<^verbatim>\<open>pfs_localfile.c\<close>, \<^verbatim>\<open>pfs_time_stamp.c\<close>, \<^verbatim>\<open>pfs_del_file.c\<close>):
    names that are accepted, stored files with their temporary names, time stamps and deletions.
  \<^item> \<open>Pfs_Wire\<close>: the structures that are sent as they lie in memory, encoded to bytes and read back.
  \<^item> \<open>Pfs_Storage\<close> (\<^verbatim>\<open>network/S\<close>): the signalling plugin of a storage server and the synchronisation of directories.
  \<^item> \<open>Pfs_Transfer\<close>, \<open>Pfs_Data\<close> (\<^verbatim>\<open>network/D\<close>), \<open>Pfs_Upload\<close> (\<^verbatim>\<open>network/U\<close>): the transfer of a file, which the data and
    the upload plugin share, and these plugins.
  \<^item> \<open>Pfs_Client\<close> (\<^verbatim>\<open>lib/pfs_api.c\<close>): the client library, up to \<^verbatim>\<open>operate_pfs\<close>.
  \<^item> \<open>Pfs_Params\<close> (\<^verbatim>\<open>network/parsepara.c\<close>): lists of named parameters and their text form.
  \<^item> \<open>Pfs_Maintain\<close> (\<^verbatim>\<open>network/pfs_maintain.c\<close>, \<^verbatim>\<open>myconfig_dump_to_file\<close>, \<^verbatim>\<open>reload_config\<close>): the commands an operator can
    send to a server, and what they may change.
  \<^item> \<open>Pfs_Agent\<close> (\<^verbatim>\<open>network/pfs_agent.c\<close>): the thread that reports finished tasks to the operation server, keeps the
    reports in files while there is no connection, and executes commands.
  \<^item> \<open>Pfs_Acl\<close> (\<^verbatim>\<open>lib/acl.c\<close>): checks of referers and paths, patterns and the decoding of URLs.
  \<^item> \<open>Pfs_Log\<close> (\<^verbatim>\<open>lib/log.c\<close>): the log files and their rotation.
  \<^item> \<open>Pfs_Process\<close> (\<^verbatim>\<open>network/thread.c\<close>, \<^verbatim>\<open>watchdog.c\<close>, \<^verbatim>\<open>daemon.c\<close>): the table of threads, the watchdog that kills hanging
    threads, and the restart of the program.
  \<^item> \<open>Pfs_Start\<close> (\<^verbatim>\<open>network/main.c\<close>, \<^verbatim>\<open>fdinfo.c\<close>, \<^verbatim>\<open>init_global\<close> and \<^verbatim>\<open>pfs_init\<close>): the start of a server up to the threads of its role.
  \<^item> \<open>Pfs_Php\<close> (\<^verbatim>\<open>php_client/pfs_client.c\<close>): the binding of the client library for PHP.

  \<^bold>\<open>Compositions.\<close>  This theory joins the components: a client, the name server and an upload server store a
  file (\<open>file_stored_end_to_end\<close>); an operator, the operation server and an agent change a limit
  (\<open>operator_change_takes_effect\<close>); the event loop and the name server handle a heartbeat.  Two more are
  in the theory of the later component: two data plugins copy a file (\<open>Pfs_Data.file_replicated\<close>), and an agent's
  report is stored by the operation server (\<open>Pfs_Agent.report_reaches_operation_server\<close>).

  \<^bold>\<open>Interfaces.\<close>  What one component relies on in another is stated as a locale and interpreted on the model's
  definitions in the theory of the component that provides it: \<open>keyed_store\<close> (tables searched by a key: the configuration,
  the address table), \<open>framed_service\<close> (a handler behind the framing loop: the name server), \<open>byte_fifo\<close> (connection
  buffers), \<open>intrusive_list\<close> (linked lists), \<open>fifo_queue\<close> (the queue of waiting tasks), \<open>peer_registry\<close> (the
  connections of the name server, the storage and the data plugin) and \<open>file_service\<close> (a plugin that receives files: data
  and upload).

  \<^bold>\<open>Conventions.\<close>  The state a file keeps in globals and structures is a record, passed and returned
  by the functions; a table of list heads is a function from the index to a list.  Machine
  integers are words where their width matters.  What the operating system returns (a system
  call's result and \<^verbatim>\<open>errno\<close>, the time, the contents of a file) is an argument.  The log is modelled by itself;
  the calls that write to it have no effect on the other components and are left out of them.  A C string is the list of its characters before the terminator, and a write
  with a bound keeps the characters that fit.

  \<^bold>\<open>Fuel and partiality.\<close>  Loops over lists and strings are recursive functions with a termination
  proof.  The iteration over a linked list takes fuel, and the length of the represented list is
  shown to be enough.  The retry loops around system calls take the list of results the calls
  give, and run out only when the list does.  The receive loop of the operation server, which may
  not end, is a function to \<open>option\<close>, and both its ending on well formed messages and its livelock
  on a message of length zero are shown.

  \<^bold>\<open>Not modelled.\<close>
  \<^item> \<^verbatim>\<open>network/pfs_tmp_status.c\<close>: every function returns before its first statement, so there is no behaviour to
    state.
  \<^item> \<^verbatim>\<open>plugins.c\<close>: it calls a function that is not defined anywhere and is not used.  Loading a plugin with
    \<^verbatim>\<open>dlopen\<close> is taken as given: the event loop is a function of the plugin's operations.
  \<^item> \<^verbatim>\<open>myepoll.c\<close>: the event loop works on an interface of two flags per descriptor instead.
  \<^item> The command line tools, which call the client library once, and \<^verbatim>\<open>3rdlib\<close> (third party).
  \<^item> The interleaving of threads: an operation on a queue of tasks holds its lock from the beginning to the end, so
    operations are single steps; where a lock fails, its result is an argument.
  \<^item> Reads and writes outside arrays: where the source has one, the model stops with \<open>None\<close>, or takes the bytes that lie
    there as an argument, or the theory says which inputs it covers; texts in received structures end inside
    their arrays.
\<close>

section \<open>Properties that span components\<close>

text \<open>
  C37: the name server's answer to a heartbeat is not sent.  The handler queues the answer and
  returns \<^verbatim>\<open>RECV_SEND\<close> without requesting output, \<^verbatim>\<open>svc_recv\<close> combines this with \<^verbatim>\<open>RECV_ADD_EPOLLIN\<close> by
  bitwise or, and the event loop's \<^verbatim>\<open>switch\<close> has no case for the combination: it sends nothing and
  leaves the registered events as they are.
\<close>

theorem heartbeat_answer_not_sent:
  assumes "ns_proxy s = []"
    and "ns_svc_recv now fd s (create_sig_msg HEARTBEAT_REQ st [x] 1) = (ret, s', buf)"
  shows "ns_send s' fd = ns_send s fd @ create_sig_msg HEARTBEAT_RSP st [ns_self_stat s] 1
    \<and> pe_server_stat (ns_peer s' fd) = x \<and> ns_epollout s' = ns_epollout s
    \<and> (recv_ready rs fd l = Some l1 \<and> lib_recv lib fd l1 = (ret, l2) \<longrightarrow>
         do_recv lib rs ds fs fd l = Some (l2, []))"
proof -
  let ?h = "\<lparr>h_bodylen = 1, h_cmdid = HEARTBEAT_REQ, h_status = st\<rparr>"
  have fr: "frames (create_sig_msg HEARTBEAT_REQ st [x] 1) = [(?h, [x])]"
    using frames_create [of 1 "[x]" HEARTBEAT_REQ st "[]"] by (simp add: frames.simps [of "[]"])
  have d: "ns_do_req now fd (touch now fd s) ?h [x] =
     (RECV_SEND, upd_peer fd (\<lambda>p. p\<lparr>pe_server_stat := x\<rparr>)
        (queue_msg fd (create_sig_msg HEARTBEAT_RSP st [ns_self_stat s] 1)
          (upd_peer fd (\<lambda>p. p\<lparr>pe_hbtime := word_of_int now\<rparr>) (touch now fd s))))"
    using assms(1) by (simp add: ns_do_req_def check_proxy_ip_def touch_def upd_peer_def Let_def)
  have "ret = or RECV_ADD_EPOLLIN RECV_SEND"
    "s' = snd (ns_do_req now fd (touch now fd s) ?h [x])"
    using assms(2) fr d by (auto simp: ns_svc_recv_def ns.recv_loop_frames)
  then show ?thesis
    using d do_recv_unknown_result [of rs fd l l1 lib ret l2 ds fs]
    by (auto simp: upd_peer_def queue_msg_def touch_def)
qed

definition example_lib :: "ns_state solib" where
  "example_lib = \<lparr>lib_initconn = (\<lambda>fd l. (0, l)),
     lib_recv = (\<lambda>fd l. case ns_svc_recv 1000 fd (lp_plug l) (mb_bytes (c_recv_buff (lp_acon l fd))) of
        (ret, s, buf) \<Rightarrow> (ret, l\<lparr>lp_plug := s\<rparr>)),
     lib_send = (\<lambda>fd l. (SEND_ADD_EPOLLIN, l)), lib_finiconn = None, lib_send_once = None,
     lib_check_send = None, lib_timeout = None\<rparr>"

definition example_loop :: "ns_state loop" where
  "example_loop = \<lparr>lp_acon = (\<lambda>_. \<lparr>c_peerip = [], c_fd = 5, c_send_buff = mybuff_init,
       c_recv_buff = \<lparr>mb_data = Some (create_sig_msg HEARTBEAT_REQ HB_C_2_C [ON_LINE] 1), mb_size = 20480, mb_len = 5,
         mb_fd = -1, mb_foffset = 0, mb_flen = 0\<rparr>, c_send_len = 0\<rparr>),
     lp_ev = (\<lambda>_. Some (True, False)), lp_maxfds = 100, lp_ibs = 20480, lp_closed = [], lp_plug = example_ns\<rparr>"

theorem heartbeat_answer_not_sent_witness:
  "\<exists>l2. do_recv example_lib [([], -1, EAGAIN)] [] [] 5 example_loop = Some (l2, [])
     \<and> ns_send (lp_plug l2) 5 = create_sig_msg HEARTBEAT_RSP HB_C_2_C [0] 1"
proof -
  obtain ret s' buf where r: "ns_svc_recv 1000 5 example_ns (create_sig_msg HEARTBEAT_REQ HB_C_2_C [ON_LINE] 1) = (ret, s', buf)"
    by (metis prod_cases3)
  obtain l1 where l1: "recv_ready [([], -1, EAGAIN)] 5 example_loop = Some l1" "lp_plug l1 = example_ns"
    "mb_bytes (c_recv_buff (lp_acon l1 5)) = create_sig_msg HEARTBEAT_REQ HB_C_2_C [ON_LINE] 1"
    by (simp add: recv_ready_def example_loop_def modify_fd_event_def upd_conn_def mb_bytes_def
        create_sig_msg_def be16_def)
  have l2: "lib_recv example_lib 5 l1 = (ret, l1\<lparr>lp_plug := s'\<rparr>)"
    using r l1 by (simp add: example_lib_def)
  have "ns_proxy example_ns = []" "ns_send example_ns 5 = []" "ns_self_stat example_ns = 0"
    by (simp_all add: example_ns_def)
  then show ?thesis
    using heartbeat_answer_not_sent [OF _ r, of "[([], -1, EAGAIN)]" example_loop l1 example_lib "l1\<lparr>lp_plug := s'\<rparr>" "[]" "[]"]
      l1(1) l2 by (intro exI [of _ "l1\<lparr>lp_plug := s'\<rparr>"]) simp
qed

subsection \<open>Storing a file\<close>

text \<open>
  An upload server, as the connection of a client finds it, and the pieces in which the client's
  data arrives there; \<open>si_end\<close> is its state after the last piece.
\<close>

record site =
  si_env0 :: dt_env
  si_env :: dt_env
  si_fd :: int
  si_start :: dt_state
  si_conv :: t_task_base
  si_task :: nat
  si_pieces :: "(int \<times> bytes) list"

definition si_end :: "site \<Rightarrow> dt_state" where
  "si_end x = fst (feed up_svc_recv (si_fd x) (at_times (si_env x) (si_pieces x)) (snd (up_svc_initconn (si_env0 x) (si_fd x) (si_start x))) [])"

definition site_ready :: "site \<Rightarrow> t_task_base \<Rightarrow> bytes \<Rightarrow> bool" where
  "site_ready x base c \<longleftrightarrow>
     can_upload (si_env0 x) (si_env x) (si_fd x) (si_start x) base c (si_conv x) (si_task x) \<and> os_rename (dv_os (si_env x)) \<and>
     concat (map snd (si_pieces x)) = upload_stream base c \<and> [] \<notin> snd ` set (si_pieces x) \<and> dt_send (si_start x) (si_fd x) = [] \<and>
     (let name = b_retfile (si_conv x); d = dm_domain (dt_dom (si_start x)) in
      NUL \<notin> set name \<and> take 1 name = ''/'' \<and> take 1 (drop 1 name) \<noteq> ''/'' \<and> CHR ''|'' \<notin> set name \<and> NUL \<notin> set d \<and> length d < 128 \<and>
      length (ok_text name d) < 256)"

lemma site_stores:
  assumes "site_ready x base c" and "b_filemd5 base = rfc_md5 c @ [0]"
  shows "fs_files (dt_store (si_end x)) (b_filename (si_conv x)) = Some c"
    and "dt_send (si_end x) (si_fd x) =
      create_sig_msg CMD_PUT_FILE_RSP 0 (text_field 256 (ok_text (b_retfile (si_conv x)) (dm_domain (dt_dom (si_start x))))) 256"
proof -
  obtain s' buf where f: "feed up_svc_recv (si_fd x) (at_times (si_env x) (si_pieces x)) (snd (up_svc_initconn (si_env0 x) (si_fd x) (si_start x))) [] = (s', buf)"
    by fastforce
  then have e: "si_end x = s'" by (simp add: si_end_def)
  have r: "can_upload (si_env0 x) (si_env x) (si_fd x) (si_start x) base c (si_conv x) (si_task x)" "os_rename (dv_os (si_env x))"
    "concat (map snd (si_pieces x)) = upload_stream base c" "[] \<notin> snd ` set (si_pieces x)" "dt_send (si_start x) (si_fd x) = []"
    "length (ok_text (b_retfile (si_conv x)) (dm_domain (dt_dom (si_start x)))) < 256"
    using assms(1) by (auto simp: site_ready_def Let_def)
  have "tmp_name (dv_os (si_env x)) (si_conv x) (dt_store (si_start x)) \<noteq> b_filename (si_conv x)" by (rule tmp_name_differs)
  then show "fs_files (dt_store (si_end x)) (b_filename (si_conv x)) = Some c"
    "dt_send (si_end x) (si_fd x) =
      create_sig_msg CMD_PUT_FILE_RSP 0 (text_field 256 (ok_text (b_retfile (si_conv x)) (dm_domain (dt_dom (si_start x))))) 256"
    using upload_completes [OF r(1,3,4) f assms(2) r(2)] r(5,6) unfolding e by (simp_all add: push_ok_def ok_text_def snprintf_s_fits)
qed

lemma req_base_digest:
  assumes "req_base env api = Some (base, add)" and "a_type api \<noteq> TASK_DELFILE"
    and "fs_files (ae_store env) (a_localfile api) = Some c" and "length (a_localfile api) < 256"
  shows "b_filemd5 base = rfc_md5 c @ [0]" "b_fsize base = int (length c)"
  using assms by (auto simp: req_base_def api_get_localfile_stat_def file_md5_rfc Let_def snprintf_s_fits zero_base_def put_at_def split: if_splits)

text \<open>
  C1: a client that stores a file succeeds, and the file is stored.  The client asks the name server for a server of
  its group; the answer names an on-line server of the group's best domain, whatever the client sends arrives there in
  pieces, and the server's answer arrives back in pieces.  Then \<^verbatim>\<open>operate_pfs\<close> returns success, the server
  named by the name server has the file with the client's contents, the name returned to the client is the one
  under which it is stored, and what the two servers read is what the client sent.
\<close>

theorem file_stored_end_to_end:
  assumes api: "api = as_api cs" "a_type api = TASK_ADDFILE" "a_nametype api = ADD_SET_GROUP" "a_group api = g" "as_out cs = []"
    and lf: "fs_files (ae_store env) (a_localfile api) = Some c" "length (a_localfile api) < 256" "cont (ae_open env (a_localfile api)) = c"
    and g: "NUL \<notin> set g" "g \<noteq> []" "get_domain_by_group g ns = Some i" "d = ns_bestdomain ns i"
    and d: "j < dm_ipcount d" "on_line ns (dm_ips d j)" "\<forall>k < dm_ipcount d. dm_sips d k \<noteq> [] \<and> length (dm_sips d k) < 16"
    and ns: "fst (check_proxy_ip nfd (pe_ip (ns_peer ns nfd)) UPLOAD_REQ ADD_SET_GROUP ns) = 0" "ns_send ns nfd = []"
      "ns_svc_recv now nfd ns (name_request api) = (ret, ns', buf)"
    and e1: "exchange rs1 (length (name_request api), 0) (ns_send ns' nfd)"
    and put: "\<forall>k < dm_ipcount d. on_line ns (dm_ips d k) \<longrightarrow>
       can_put env nameip nameport (dm_sips d k) (unat (ns_up_port ns)) base ADD_PATH_BY_UPLOAD c cs"
    and site: "\<forall>k < dm_ipcount d. ns_send ns' nfd = text_msg UPLOAD_RSP ADD_SET_GROUP (addr_text (dm_sips d k) (unat (ns_up_port ns))) \<longrightarrow>
       site_ready (x k) base c \<and> exchange rs2 (SIG_HEADSIZE + SIZEOF_BASE, length c) (dt_send (si_end (x k)) (si_fd (x k)))"
  shows "\<exists>k s'. k < dm_ipcount d \<and> on_line ns (dm_ips d k)
    \<and> operate_pfs env nameip nameport (rs1 @ rs2) cs = Some (PFS_OK, s')
    \<and> fs_files (dt_store (si_end (x k))) (b_filename (si_conv (x k))) = Some c
    \<and> a_remotefile (as_api s') = b_retfile (si_conv (x k))
    \<and> wire cont (sent_to (nameip, nameport) s') = name_request api
    \<and> wire cont (sent_to (dm_sips d k, int (unat (ns_up_port ns))) s') = concat (map snd (si_pieces (x k)))"
proof -
  let ?port = "unat (ns_up_port ns)"
  have nr: "name_request api = create_sig_msg UPLOAD_REQ ADD_SET_GROUP (bytes_of g) (of_nat (length g))"
    using api by (simp add: name_request_def)
  have "length g < 128" using put d(1,2) api by (auto simp: can_put_def Let_def)
  then obtain k where k: "k < dm_ipcount d" "on_line ns (dm_ips d k)"
    "ns_send ns' nfd = text_msg UPLOAD_RSP ADD_SET_GROUP (addr_text (dm_sips d k) ?port)"
    using group_request_answered [OF g(1,2) _ g(3,4) d ns(1) ns(3) [unfolded nr]] ns(2) by (auto simp: addr_text_def)
  let ?name = "b_retfile (si_conv (x k))" and ?d = "dm_domain (dt_dom (si_start (x k)))"
  have cp: "can_put env nameip nameport (dm_sips d k) ?port base ADD_PATH_BY_UPLOAD c cs" using put k by blast
  then have "req_base env api = Some (base, ADD_PATH_BY_UPLOAD)" using api(1) by (simp add: can_put_def Let_def)
  from req_base_digest [OF this _ lf(1,2)] have md5: "b_filemd5 base = rfc_md5 c @ [0]" using api(2) by simp
  have x: "site_ready (x k) base c" "exchange rs2 (SIG_HEADSIZE + SIZEOF_BASE, length c) (dt_send (si_end (x k)) (si_fd (x k)))"
    using site k by blast+
  note st = site_stores [OF x(1) md5]
  have n: "take 1 ?name = ''/''" "NUL \<notin> set ?name" "CHR ''|'' \<notin> set ?name" "NUL \<notin> set ?d" "length ?d < 128" "length (ok_text ?name ?d) < 256"
    "take 1 (drop 1 ?name) \<noteq> ''/''" "concat (map snd (si_pieces (x k))) = upload_stream base c"
    using x(1) by (auto simp: site_ready_def Let_def)
  have "''/'' @ dropWhile (\<lambda>x. x = CHR ''/'') ?name = ?name" using n(1,7) by (cases ?name; cases "tl ?name") auto
  moreover obtain s' where "operate_pfs env nameip nameport (rs1 @ rs2 @ []) cs = Some (PFS_OK, s')"
    "wire cont (sent_to (nameip, nameport) s') = name_request api"
    "wire cont (sent_to (dm_sips d k, int ?port) s') = create_sig_msg CMD_PUT_FILE_REQ ADD_PATH_BY_UPLOAD (enc_base base) (of_nat SIZEOF_BASE) @ c"
    "a_remotefile (as_api s') = ''/'' @ dropWhile (\<lambda>x. x = CHR ''/'') ?name"
    using client_puts_file [where cont = cont and qs = "[]", OF cp api(5) e1 [unfolded k(3) text_msg_def api(1)] x(2) [unfolded st(2)] n(1-6) lf(3) [unfolded api(1)]] api(1) by blast
  ultimately show ?thesis using k(1,2) st(1) n(8) by (intro exI [of _ k] exI [of _ s']) (simp add: upload_stream_def)
qed

definition example_site :: site where
  "example_site = (let b = example_upload (rfc_md5 [1, 2, 3]); m = upload_stream b [1, 2, 3] in
     \<lparr>si_env0 = example_dv, si_env = example_dv, si_fd = 5, si_start = example_dt, si_conv = example_conv (rfc_md5 [1, 2, 3]), si_task = 3,
      si_pieces = [(1000, take 500 m), (1001, drop 500 m)]\<rparr>)"

lemma example_site_ready: "site_ready example_site (example_upload (rfc_md5 [1, 2, 3])) [1, 2, 3]"
proof -
  have l: "length (rfc_md5 [1, 2, 3]) = 16" by simp
  have "dm_domain (dt_dom example_dt) = []" "dt_send example_dt 5 = []" by (simp_all add: example_dt_def zero_domain_def)
  then show ?thesis using example_can_upload [OF l] example_pieces [OF l]
    by (simp add: site_ready_def example_site_def Let_def example_dv_def example_os_def example_conv_def NUL_def ok_text_def)
qed

lemma example_can_put:
  "can_put example_ae ''10.0.0.9'' 49212 ''127.0.0.2'' 5211 (example_upload (rfc_md5 [1, 2, 3])) ADD_PATH_BY_UPLOAD [1, 2, 3] example_api"
proof -
  let ?b = "example_upload (rfc_md5 [1, 2, 3])"
  have "req_base example_ae (as_api example_api) = Some (?b, ADD_PATH_BY_UPLOAD)"
    by (simp add: req_base_def api_get_localfile_stat_def file_md5_rfc example_ae_def example_api_def example_upload_def zero_base_def
        example_store_def snprintf_s_def put_at_def)
  moreover have "a_type (as_api example_api) = TASK_ADDFILE" "a_localfile (as_api example_api) \<noteq> []" "length (a_group (as_api example_api)) < 128"
    "\<not> as_cache_flag example_api" "b_fsize ?b = int (length [1, 2, 3 :: byte])" "0 \<le> ae_open example_ae (a_localfile (as_api example_api))"
    "length (b_filemd5 ?b) = 17" "\<And>i p. 0 \<le> ae_connect example_ae i p" "NUL \<notin> set ''127.0.0.2''" "CHR '':'' \<notin> set ''127.0.0.2''"
    "length ''127.0.0.2'' < 16" "(''10.0.0.9'', 49212) \<noteq> (''127.0.0.2'', int 5211)" "(5211 :: nat) < 65536"
    by (simp_all add: example_api_def example_ae_def example_upload_def NUL_def)
  ultimately show ?thesis unfolding can_put_def Let_def by blast
qed

lemma example_exchange:
  assumes "length a < 2048" and "a \<noteq> []" and "left_after sr df = (0, 0)" and "set sr = {example_send}"
  shows "exchange (sr @ [example_recv a]) df a"
  unfolding exchange_def
  by (rule exI [of _ sr], rule exI [of _ "[example_recv a]"], rule exI [of _ "[a]"])
    (use assms in \<open>simp add: send_round_def recv_round_def example_send_def example_recv_def\<close>)

text \<open>A file of three bytes, sent in four rounds, read by the server in two pieces.\<close>

theorem file_stored_end_to_end_witness:
  "\<exists>rs s'. operate_pfs example_ae ''10.0.0.9'' 49212 rs example_api = Some (PFS_OK, s')
     \<and> fs_files (dt_store (si_end example_site)) ''/data/7/42/c.jpg'' = Some [1, 2, 3] \<and> a_remotefile (as_api s') = ''/7/42/c.jpg''"
proof -
  let ?s = example_ns3 and ?b = "example_upload (rfc_md5 [1, 2, 3])"
  let ?d = "ns_bestdomain ?s 0" and ?api = "as_api example_api"
  have d: "dm_ipcount ?d = 1" "dm_sips ?d = (\<lambda>_. ''127.0.0.2'')"
    by (simp_all add: example_ns3_def example_ns2_def ns_svc_initconn_def)
  have g: "get_domain_by_group ''img'' ?s = Some 0"
    by (simp add: get_domain_by_group_def group_slot_def upt_conv_Cons example_ns3_def)
  have o: "on_line ?s (dm_ips ?d 0)" and p: "unat (ns_up_port ?s) = 5211" and q: "ns_send ?s 9 = []" and x: "ns_proxy ?s = []"
    by (simp_all add: on_line_def find_ip_stat_def example_ns3_def example_ns2_def example_ns_def ns_svc_initconn_def hash256_def)
  have px: "fst (check_proxy_ip 9 (pe_ip (ns_peer ?s 9)) UPLOAD_REQ ADD_SET_GROUP ?s) = 0" by (simp add: check_proxy_ip_def x)
  obtain ret ns' buf where r: "ns_svc_recv 2000 9 ?s (name_request ?api) = (ret, ns', buf)" by (metis prod_cases3)
  have api: "a_type ?api = TASK_ADDFILE" "a_nametype ?api = ADD_SET_GROUP" "a_group ?api = ''img''" "as_out example_api = []"
    "length (a_localfile ?api) < 256" "a_localfile ?api = ''/7/42/c.jpg''"
    by (simp_all add: example_api_def)
  have n: "NUL \<notin> set ''img''" "''img'' \<noteq> []" "length ''img'' < MAX_SIG_BODY" "0 < dm_ipcount ?d"
    "\<forall>k < dm_ipcount ?d. dm_sips ?d k \<noteq> [] \<and> length (dm_sips ?d k) < 16"
    by (simp_all add: NUL_def d)
  have nr: "name_request ?api = create_sig_msg UPLOAD_REQ ADD_SET_GROUP (bytes_of ''img'') (of_nat (length ''img''))" "length (name_request ?api) = 7"
    by (simp_all add: name_request_def api create_sig_msg_def be16_def)
  have a: "length (addr_text ''127.0.0.2'' 5211) < 100" by (rule addr_text_facts(2)) (simp_all add: NUL_def)
  have m: "ns_send ns' 9 = text_msg UPLOAD_RSP ADD_SET_GROUP (addr_text ''127.0.0.2'' 5211)"
    using group_request_answered [OF n(1-3) g refl n(4) o n(5) px r [unfolded nr(1)]] q by (auto simp: d p addr_text_def)
  have "length (ns_send ns' 9) = length (addr_text ''127.0.0.2'' 5211) + 4" unfolding m by (rule text_msg_length) (use a in simp)
  then have e1: "exchange ([example_send] @ [example_recv (ns_send ns' 9)]) (length (name_request ?api), 0) (ns_send ns' 9)"
    using a nr(2) by (intro example_exchange) (auto simp: example_send_def)
  have "b_filemd5 ?b = rfc_md5 [1, 2, 3] @ [0]" by (simp add: example_upload_def)
  then have s: "length (dt_send (si_end example_site) (si_fd example_site)) = 260"
    by (simp add: site_stores(2) [OF example_site_ready] length_create_sig_msg)
  then have e2: "exchange (replicate 4 example_send @ [example_recv (dt_send (si_end example_site) (si_fd example_site))])
      (SIG_HEADSIZE + SIZEOF_BASE, length [1, 2, 3 :: byte]) (dt_send (si_end example_site) (si_fd example_site))"
    by (intro example_exchange) (auto simp: example_send_def numeral_eq_Suc)
  have lf: "fs_files (ae_store example_ae) (a_localfile ?api) = Some [1, 2, 3]" by (simp add: example_ae_def api)
  have put: "\<forall>k < dm_ipcount ?d. on_line ?s (dm_ips ?d k) \<longrightarrow>
      can_put example_ae ''10.0.0.9'' 49212 (dm_sips ?d k) (unat (ns_up_port ?s)) ?b ADD_PATH_BY_UPLOAD [1, 2, 3] example_api"
    unfolding d p using example_can_put by blast
  have site: "\<forall>k < dm_ipcount ?d. ns_send ns' 9 = text_msg UPLOAD_RSP ADD_SET_GROUP (addr_text (dm_sips ?d k) (unat (ns_up_port ?s))) \<longrightarrow>
      site_ready example_site ?b [1, 2, 3] \<and>
      exchange (replicate 4 example_send @ [example_recv (dt_send (si_end example_site) (si_fd example_site))])
        (SIG_HEADSIZE + SIZEOF_BASE, length [1, 2, 3 :: byte]) (dt_send (si_end example_site) (si_fd example_site))"
    using example_site_ready e2 by blast
  have "b_filename (si_conv example_site) = ''/data/7/42/c.jpg''" "b_retfile (si_conv example_site) = ''/7/42/c.jpg''"
    by (simp_all add: example_site_def Let_def example_conv_def)
  then show ?thesis
    using file_stored_end_to_end [where cont = "\<lambda>_. [1, 2, 3]" and x = "\<lambda>_. example_site",
        OF refl api(1-4) lf api(5) refl n(1,2) g refl n(4) o n(5) px q r e1 put site] by metis
qed

subsection \<open>A change by an operator\<close>

text \<open>
  C14: an operator's change of a limit reaches the servers.  The operation server reads the line
  \<^verbatim>\<open>iplist=allip&pfs_cmd=M_CONFUPDA&key=value\<close> from a command file; whatever pieces an agent receives its message in, once it
  has them all the key, one of those that may be changed, has the new value in its configuration, its integer is the
  value's, and for \<^verbatim>\<open>task_timeout\<close> the running limit has changed as well; nothing of the message is left to be read.
\<close>

theorem operator_change_takes_effect:
  assumes "distinct (po_activelist p)" and "\<forall>fd\<in>set (po_activelist p). pp_fd (po_peer p fd) = fd"
    and "i < length (po_activelist p)" and "po_send p (po_activelist p ! i) = []"
    and "p' = do_sub_msg resolve (''iplist=allip&'' @ request ''M_CONFUPDA'' (key, v) @ [CHR 0x0A]) p"
    and "concat ds = po_send p' (po_activelist p ! i)" and "list_all2 reads ds es" and "quiet a" and "ag_in a = []"
    and "env = av_m (last es)" and "length (av_stale (last es)) < 1000"
    and "cfg_ok (mn_cfg (ag_m a))" and "me_mem env = Some mem" and "me_cfg_malloc env"
    and "key \<in> set validcmd" and "int_of_val v = Some n" and "v \<noteq> []" and "\<forall>c \<in> set v. c \<notin> {CHR ''='', CHR ''&'', NUL} \<and> \<not> crlf c"
    and "length v < VAL_MAX_LEN"
    and "c1 = snd (myconfig_update_value True key v (snd (myconfig_delete_value [] key (mn_cfg (ag_m a)))))"
    and "myconfig_dump_to_file (me_fopen env) c1 \<noteq> None"
  shows "\<exists>a'. agent_rounds es a = Some (True, a') \<and> ag_in a' = [] \<and>
    myconfig_get_value key (mn_cfg (ag_m a')) = Some v \<and> fst (myconfig_get_intval key d (mn_cfg (ag_m a'))) = n \<and>
    (key = ''task_timeout'' \<longrightarrow> gc_task_timeout (mn_g (ag_m a')) = n)"
proof -
  let ?c = "request ''M_CONFUPDA'' (key, v)"
  have nl: "CHR 0x0A \<notin> set ?c" 
  proof -
    have "\<forall>k \<in> set validcmd. CHR 0x0A \<notin> set k" by code_simp
    then have "CHR 0x0A \<notin> set key" using assms(15) by blast
    moreover have "CHR 0x0A \<notin> set v" using assms(18) by (auto simp: crlf_def)
    ultimately show ?thesis by (simp add: request_def)
  qed
  have ns: "\<not> strncasecmp_pre ''pfs_cmd=stoppfs'' ?c" by (simp add: request_def strncasecmp_pre_def tolower_def)
  have cut: "cut_newline (?c @ [CHR 0x0A]) = ?c" "cut_newline ?c = ?c"
    using nl strrchr_append [of "CHR 0x0A" "[]" ?c] strrchr_None_iff [of "CHR 0x0A" ?c] by (simp_all add: cut_newline_def)
  have "strchr (CHR ''&'') (''iplist=allip&'' @ ?c @ [CHR 0x0A]) = Some (''iplist=allip'', ?c @ [CHR 0x0A])" by simp
  then have "p' = snd (fold (\<lambda>fd (m, st). do_peer_msg m fd st) (po_activelist p) (?c @ [CHR 0x0A], p))"
    using assms(5) by (simp add: do_sub_msg_def strncasecmp_pre_def do_domain_msg_def)
  then have ms: "concat ds = cmd_msg ?c (po_seq p + of_nat i)"
    using peer_msgs_queued [OF ns cut(2) assms(1,2) cut(1)] assms(3,4,6) by simp
  then have "ds \<noteq> []" by (auto simp: cmd_msg_def be32_def)
  then have es: "es \<noteq> []" using assms(7) by auto
  have "\<forall>k \<in> set validcmd. length k < 20" by code_simp
  then have "length key < 20" using assms(15) by blast
  then have len: "length ?c < 2 ^ 31" using assms(19) by (simp add: request_def)
  obtain m where m: "do_request env ?c (av_stale (last es)) (ag_m a) = Some m" "myconfig_get_value key (mn_cfg m) = Some v"
    "fst (myconfig_get_intval key d (mn_cfg m)) = n" "key = ''task_timeout'' \<longrightarrow> gc_task_timeout (mn_g m) = n"
    using confupda_effect [OF assms(12-19) assms(11) assms(20,21)] by blast
  show ?thesis using command_executed [OF assms(7,8) _ es len m(1) [unfolded assms(10)]] ms assms(9) m(2-4) by auto
qed

theorem operator_change_takes_effect_witness:
  "\<exists>es a'. agent_rounds es example_ag = Some (True, a') \<and> gc_task_timeout (mn_g (ag_m a')) = 300"
proof -
  let ?p = "do_sub_msg (\<lambda>_. None) (''iplist=allip&'' @ request ''M_CONFUPDA'' (''task_timeout'', ''300'') @ [CHR 0x0A]) example_poss"
  define b where "b = po_send ?p 6"
  have p: "distinct (po_activelist example_poss)" "\<forall>fd\<in>set (po_activelist example_poss). pp_fd (po_peer example_poss fd) = fd"
    "1 < length (po_activelist example_poss)" "po_send example_poss (po_activelist example_poss ! 1) = []" "po_activelist example_poss ! 1 = 6"
    by (simp_all add: example_poss_def)
  have b: "b = cmd_msg (request ''M_CONFUPDA'' (''task_timeout'', ''300'')) (po_seq example_poss + 1)" unfolding b_def by code_simp
  then have len: "b \<noteq> []" "length b = 47" by (simp_all add: cmd_msg_def be32_def request_def)
  let ?e = "\<lambda>d. example_ag_env\<lparr>av_select := 1, av_rset := True, av_recv := [(d, int (length d), EOTHER)]\<rparr>"
  have r: "list_all2 reads [take 7 b, drop 7 b] [?e (take 7 b), ?e (drop 7 b)]" using len by (simp add: reads_def)
  have q: "quiet example_ag" "ag_in example_ag = []" using example_plain by (simp_all add: quiet_def example_ag_def)
  have c: "concat [take 7 b, drop 7 b] = po_send ?p (po_activelist example_poss ! 1)" by (simp only: p(5) b_def) simp
  have env: "av_m (last [?e (take 7 b), ?e (drop 7 b)]) = example_mnt_env\<lparr>me_now := 4000\<rparr>"
    "length (av_stale (last [?e (take 7 b), ?e (drop 7 b)])) < 1000" by (simp_all add: example_ag_env_def)
  have a: "mn_cfg (ag_m example_ag) = mn_cfg example_mnt" by (simp add: example_ag_def)
  have "\<exists>a'. agent_rounds [?e (take 7 b), ?e (drop 7 b)] example_ag = Some (True, a') \<and> ag_in a' = [] \<and>
    myconfig_get_value ''task_timeout'' (mn_cfg (ag_m a')) = Some ''300'' \<and> fst (myconfig_get_intval ''task_timeout'' 0 (mn_cfg (ag_m a'))) = 300 \<and>
    (''task_timeout'' = ''task_timeout'' \<longrightarrow> gc_task_timeout (mn_g (ag_m a')) = 300)"
    by (rule operator_change_takes_effect [OF p(1-4) refl c r q env(1) [symmetric] env(2) example_confupda(1) [folded a] _ _ example_confupda(4-8) refl])
      (use example_confupda(2,3,10) a in simp_all)
  then show ?thesis by blast
qed

end
